(* ===== verification/Prelude.thy ===== *)
theory Prelude
  imports Main "HOL-Library.Word" "HOL-Library.Monad_Syntax"
begin

text \<open>
  Shared ground of the development: pointers, the \<open>option\<close> monad as the
  outcome of C code (\<open>None\<close> is undefined behaviour: an invalid access, a
  signed overflow, a division by zero), signed 32-bit and 64-bit arithmetic,
  the constants of \<^verbatim>\<open>sim_config.h\<close>, and the generic facts about lists,
  rings and \<open>option\<close> that the component theories use.
\<close>

named_theorems c_arith \<open>evaluation of C integer operations\<close>
named_theorems mem_simps \<open>reading and writing the store\<close>

declare One_nat_def [simp del]

section \<open>Pointers and undefined behaviour\<close>

datatype 'a ptr = NULL | Ptr 'a

text \<open>A C condition that the standard requires; violating it is undefined.\<close>

definition require :: "bool \<Rightarrow> unit option" where
  "require b = (if b then Some () else None)"

lemma require_True [simp]: "require True = Some ()"
  and require_False [simp]: "require False = None"
  by (simp_all add: require_def)

lemma require_eq_Some [simp]: "require b = Some u \<longleftrightarrow> b"
  by (simp add: require_def)

section \<open>Signed machine arithmetic\<close>

definition INT_MIN :: int where "INT_MIN = - (2 ^ 31)"
definition INT_MAX :: int where "INT_MAX = 2 ^ 31 - 1"
definition LONG_MIN :: int where "LONG_MIN = - (2 ^ 63)"
definition LONG_MAX :: int where "LONG_MAX = 2 ^ 63 - 1"

definition is_int :: "int \<Rightarrow> bool" where
  "is_int v \<longleftrightarrow> INT_MIN \<le> v \<and> v \<le> INT_MAX"

definition is_long :: "int \<Rightarrow> bool" where
  "is_long v \<longleftrightarrow> LONG_MIN \<le> v \<and> v \<le> LONG_MAX"

text \<open>The value of a signed operation; a result out of range is undefined.\<close>

definition as_int :: "int \<Rightarrow> int option" where
  "as_int v = (if is_int v then Some v else None)"

definition as_long :: "int \<Rightarrow> int option" where
  "as_long v = (if is_long v then Some v else None)"

text \<open>Division and remainder truncate towards zero, as C's \<^verbatim>\<open>/\<close> and \<^verbatim>\<open>%\<close> do.\<close>

definition tquot :: "int \<Rightarrow> int \<Rightarrow> int" where
  "tquot a b = sgn a * sgn b * (\<bar>a\<bar> div \<bar>b\<bar>)"

definition trem :: "int \<Rightarrow> int \<Rightarrow> int" where
  "trem a b = a - tquot a b * b"

definition int_rem :: "int \<Rightarrow> int \<Rightarrow> int option" where
  "int_rem a b = do { require (b \<noteq> 0); as_int (tquot a b); Some (trem a b) }"

definition long_quot :: "int \<Rightarrow> int \<Rightarrow> int option" where
  "long_quot a b = do { require (b \<noteq> 0); as_long (tquot a b) }"

definition long_rem :: "int \<Rightarrow> int \<Rightarrow> int option" where
  "long_rem a b = do { require (b \<noteq> 0); as_long (tquot a b); Some (trem a b) }"

lemma tquot_nonneg: "0 \<le> a \<Longrightarrow> 0 < b \<Longrightarrow> tquot a b = a div b"
  by (auto simp: tquot_def sgn_if)

lemma trem_nonneg: "0 \<le> a \<Longrightarrow> 0 < b \<Longrightarrow> trem a b = a mod b"
  by (simp add: trem_def tquot_nonneg minus_div_mult_eq_mod)

lemma div_le_self: "0 \<le> a \<Longrightarrow> 0 < b \<Longrightarrow> a div b \<le> (a::int)"
  using zdiv_mono2 [of a 1 b] by simp

lemma as_int_Some [c_arith]: "INT_MIN \<le> v \<Longrightarrow> v \<le> INT_MAX \<Longrightarrow> as_int v = Some v"
  by (simp add: as_int_def is_int_def)

lemma as_long_Some [c_arith]: "LONG_MIN \<le> v \<Longrightarrow> v \<le> LONG_MAX \<Longrightarrow> as_long v = Some v"
  by (simp add: as_long_def is_long_def)

lemma int_rem_Some:
  assumes "0 \<le> a" "a \<le> INT_MAX" "0 < b"
  shows "int_rem a b = Some (a mod b)"
proof -
  have "0 \<le> a div b" "a div b \<le> a"
    using assms by (simp_all add: div_le_self pos_imp_zdiv_nonneg_iff)
  then have "as_int (a div b) = Some (a div b)"
    using assms by (intro as_int_Some) (simp_all add: INT_MIN_def)
  then show ?thesis
    using assms by (simp add: int_rem_def tquot_nonneg trem_nonneg)
qed

lemma long_quot_Some:
  assumes "0 \<le> a" "a \<le> LONG_MAX" "0 < b"
  shows "long_quot a b = Some (a div b)"
proof -
  have "0 \<le> a div b" "a div b \<le> a"
    using assms by (simp_all add: div_le_self pos_imp_zdiv_nonneg_iff)
  then show ?thesis
    using assms by (simp add: long_quot_def tquot_nonneg as_long_Some LONG_MIN_def)
qed

lemma long_rem_Some:
  assumes "0 \<le> a" "a \<le> LONG_MAX" "0 < b"
  shows "long_rem a b = Some (a mod b)"
proof -
  have "0 \<le> a div b" "a div b \<le> a"
    using assms by (simp_all add: div_le_self pos_imp_zdiv_nonneg_iff)
  then show ?thesis
    using assms by (simp add: long_rem_def tquot_nonneg trem_nonneg as_long_Some LONG_MIN_def)
qed

section \<open>Configuration\<close>

text \<open>\<^verbatim>\<open>sim_config.h\<close>.\<close>

definition QUEUE_SIZE :: nat where "QUEUE_SIZE = 128"
definition MAX_NAME_SIZE :: nat where "MAX_NAME_SIZE = 32"
definition PAD_CHAR :: char where "PAD_CHAR = CHR ''*''"
definition JOBLOG_ENTRY_SIZE :: nat where "JOBLOG_ENTRY_SIZE = 59"

text \<open>Values of \<^verbatim>\<open>errno\<close> the program relies on, as Linux numbers them.\<close>

definition EINVAL :: int where "EINVAL = 22"
definition ENOENT :: int where "ENOENT = 2"

definition NUL :: char where "NUL = CHR 0x00"

lemma PAD_not_NUL [simp]: "PAD_CHAR \<noteq> NUL" "NUL \<noteq> PAD_CHAR"
  by (simp_all add: PAD_CHAR_def NUL_def)

section \<open>Lists as rings\<close>

lemma drop_last: "length xs = Suc n \<Longrightarrow> drop n xs = [xs ! n]"
  by (metis Cons_nth_drop_Suc drop_all lessI order_refl)

lemma list_update_take: "k < n \<Longrightarrow> take n (xs[k := v]) = (take n xs)[k := v]"
  by (simp add: take_update_swap)

lemma nat_add_mod:
  "0 \<le> a \<Longrightarrow> 0 \<le> b \<Longrightarrow> nat ((a + b) mod int n) = (nat a + nat b) mod n"
  by (simp add: nat_add_distrib nat_mod_as_int)

lemma add_mod_inject:
  assumes "(h + k) mod n = (h + i) mod n" "k < n" "i < n"
  shows "k = (i::nat)"
proof -
  have "(int h + int k) mod int n = (int h + int i) mod int n"
    using assms(1) by (metis of_nat_add zmod_int)
  then have "(int h + int k - int h) mod int n = (int h + int i - int h) mod int n"
    by (metis mod_diff_left_eq)
  then show ?thesis using assms(2,3) by simp
qed

text \<open>
  Writing the slot \<open>k\<close> positions after the start \<open>h\<close> of a ring is writing
  position \<open>k\<close> of the ring read from \<open>h\<close>.
\<close>

lemma rotate_update:
  assumes "k < length xs"
  shows "rotate h (xs[(h + k) mod length xs := v]) = (rotate h xs)[k := v]"
proof (rule nth_equalityI)
  fix i assume "i < length (rotate h (xs[(h + k) mod length xs := v]))"
  then have i: "i < length xs" by simp
  then have pos: "0 < length xs" by linarith
  have "(h + k) mod length xs = (h + i) mod length xs \<longleftrightarrow> k = i"
    using add_mod_inject [of h k "length xs" i] assms i by auto
  then show "rotate h (xs[(h + k) mod length xs := v]) ! i = (rotate h xs)[k := v] ! i"
    using i assms pos by (auto simp: nth_rotate nth_list_update)
qed simp

lemma rotate_Suc_update:
  assumes "h < length xs"
  shows "rotate (Suc h mod length xs) (xs[h := v]) = tl (rotate h xs) @ [v]"
proof -
  let ?r = "rotate h xs"
  have ne: "xs \<noteq> []" "0 < length xs" using assms by auto
  have "rotate h (xs[h := v]) = ?r[0 := v]"
    using rotate_update [of 0 xs h v] assms ne by simp
  moreover have "rotate (Suc h mod length xs) (xs[h := v]) = rotate1 (rotate h (xs[h := v]))"
    by (metis length_list_update rotate_Suc rotate_conv_mod)
  moreover have "?r \<noteq> []" using ne by simp
  then have "rotate1 (?r[0 := v]) = tl ?r @ [v]"
    by (cases ?r) auto
  ultimately show ?thesis by simp
qed

section \<open>Counting in lists\<close>

definition cnt :: "('a \<Rightarrow> bool) \<Rightarrow> 'a list \<Rightarrow> nat" where
  "cnt P xs = length (filter P xs)"

lemma cnt_update:
  assumes "p < length xs"
  shows "cnt P (xs[p := v]) + of_bool (P (xs ! p)) = cnt P xs + of_bool (P v)"
proof -
  have "cnt P xs = cnt P (take p xs) + of_bool (P (xs ! p)) + cnt P (drop (Suc p) xs)"
    by (subst id_take_nth_drop [OF assms]) (simp add: cnt_def)
  moreover have "cnt P (xs[p := v]) = cnt P (take p xs) + of_bool (P v) + cnt P (drop (Suc p) xs)"
    by (simp add: cnt_def upd_conv_take_nth_drop [OF assms])
  ultimately show ?thesis by simp
qed

lemma cnt_pos: "p < length xs \<Longrightarrow> P (xs ! p) \<Longrightarrow> 0 < cnt P xs"
  unfolding cnt_def by (metis filter_empty_conv length_greater_0_conv nth_mem)

lemma cnt_zero_iff: "cnt P xs = 0 \<longleftrightarrow> (\<forall>x \<in> set xs. \<not> P x)"
  by (simp add: cnt_def filter_empty_conv)

lemma cnt_unique:
  assumes "cnt P xs \<le> 1" "p < length xs" "P (xs ! p)" "q < length xs" "P (xs ! q)"
  shows "p = q"
proof -
  have "finite {i. i < length xs \<and> P (xs ! i)}" by simp
  then show ?thesis
    using assms card_le_Suc0_iff_eq [of "{i. i < length xs \<and> P (xs ! i)}"]
    by (auto simp: cnt_def length_filter_conv_card One_nat_def)
qed

lemma cnt_replicate [simp]: "\<not> P x \<Longrightarrow> cnt P (replicate n x) = 0"
  by (simp add: cnt_def)

end
