(* ===== verification/CLib.thy ===== *)
theory CLib
  imports Prelude
begin

text \<open>
  The functions of the C string and formatting library that the program calls,
  on character buffers. A buffer is the list of bytes from a pointer to the end
  of the object it points into; reading or writing past it is undefined
  (\<open>None\<close>). The last section has what the conversions \<^verbatim>\<open>%s\<close>,
  \<^verbatim>\<open>%.ns\<close> and \<^verbatim>\<open>%0wd\<close> print.
\<close>

section \<open>Strings in buffers\<close>

text \<open>The string a buffer holds: the bytes before the first NUL.\<close>

fun c_str :: "char list \<Rightarrow> string option" where
  "c_str [] = None"
| "c_str (c # cs) = (if c = NUL then Some [] else map_option ((#) c) (c_str cs))"

definition byte_at :: "char list \<Rightarrow> nat \<Rightarrow> char option" where
  "byte_at buf i = (if i < length buf then Some (buf ! i) else None)"

text \<open>At most \<open>n\<close> bytes of the string, as \<^verbatim>\<open>strncpy\<close> and \<^verbatim>\<open>strnlen\<close> read it.\<close>

fun c_strn :: "char list \<Rightarrow> nat \<Rightarrow> string option" where
  "c_strn cs 0 = Some []"
| "c_strn [] (Suc n) = None"
| "c_strn (c # cs) (Suc n) = (if c = NUL then Some [] else map_option ((#) c) (c_strn cs n))"

definition memset :: "char list \<Rightarrow> char \<Rightarrow> nat \<Rightarrow> char list option" where
  "memset dst c n = do { require (n \<le> length dst); Some (replicate n c @ drop n dst) }"

definition memcpy :: "char list \<Rightarrow> char list \<Rightarrow> nat \<Rightarrow> char list option" where
  "memcpy dst src n =
     do { require (n \<le> length dst \<and> n \<le> length src); Some (take n src @ drop n dst) }"

definition strncpy :: "char list \<Rightarrow> char list \<Rightarrow> nat \<Rightarrow> char list option" where
  "strncpy dst src n = do {
     require (n \<le> length dst);
     s \<leftarrow> c_strn src n;
     Some (s @ replicate (n - length s) NUL @ drop n dst) }"

definition poke :: "char list \<Rightarrow> nat \<Rightarrow> char \<Rightarrow> char list option" where
  "poke dst i c = do { require (i < length dst); Some (dst[i := c]) }"

text \<open>
  \<^verbatim>\<open>snprintf (dst, n, \<dots>)\<close> whose conversions print \<open>s\<close>: at most \<open>n - 1\<close>
  bytes of \<open>s\<close> and a NUL; the rest of the buffer is not written.
\<close>

definition snprintf :: "char list \<Rightarrow> nat \<Rightarrow> string \<Rightarrow> char list option" where
  "snprintf dst n s =
     (if n = 0 then Some dst
      else let t = take (n - 1) s @ [NUL]
           in do { require (length t \<le> length dst); Some (t @ drop (length t) dst) })"

text \<open>
  \<^verbatim>\<open>asprintf\<close> of a formatted string: a fresh buffer, or an indeterminate pointer
  (undefined when it is then used) when the allocation fails.
\<close>

definition asprintf_buf :: "bool \<Rightarrow> string \<Rightarrow> char list option" where
  "asprintf_buf ok s = do { require ok; Some (s @ [NUL]) }"

text \<open>\<^verbatim>\<open>strncmp\<close>: the difference of the first bytes that differ, as unsigned chars.\<close>

fun strncmp :: "char list \<Rightarrow> char list \<Rightarrow> nat \<Rightarrow> int option" where
  "strncmp xs ys 0 = Some 0"
| "strncmp (x # xs) (y # ys) (Suc n) =
     (if x \<noteq> y then Some (of_char x - of_char y)
      else if x = NUL then Some 0
      else strncmp xs ys n)"
| "strncmp [] ys (Suc n) = None"
| "strncmp xs [] (Suc n) = None"

section \<open>Facts about buffers\<close>

lemma c_str_NUL: "NUL \<notin> set s \<Longrightarrow> c_str (s @ NUL # r) = Some s"
  by (induction s) auto

lemma c_str_Some_iff: "c_str b = Some s \<longleftrightarrow> NUL \<notin> set s \<and> (\<exists>r. b = s @ NUL # r)"
proof (induction b arbitrary: s)
  case Nil
  then show ?case by simp
next
  case (Cons c cs)
  then show ?case by (cases s) auto
qed

lemma c_str_first:
  assumes "c_str b = Some s"
  shows "byte_at b 0 = Some (if s = [] then NUL else hd s)"
  using assms by (cases b; cases s) (auto simp: byte_at_def split: if_splits)

lemma c_str_first_NUL:
  assumes "c_str b = Some s"
  shows "\<exists>c. byte_at b 0 = Some c \<and> (c = NUL \<longleftrightarrow> s = [])"
proof -
  have "NUL \<notin> set s" using assms by (simp add: c_str_Some_iff)
  then show ?thesis using c_str_first [OF assms] by (cases s) auto
qed

lemma c_strn_full: "NUL \<notin> set s \<Longrightarrow> n \<le> length s \<Longrightarrow> c_strn (s @ r) n = Some (take n s)"
  by (induction s n rule: c_strn.induct) auto

lemma c_strn_NUL:
  "NUL \<notin> set s \<Longrightarrow> length s < n \<Longrightarrow> c_strn (s @ NUL # r) n = Some s"
proof (induction s arbitrary: n)
  case Nil
  then show ?case by (cases n) auto
next
  case (Cons c cs)
  then show ?case by (cases n) auto
qed

lemma c_strn_of_c_str: "c_str b = Some s \<Longrightarrow> c_strn b n = Some (take n s)"
  by (cases "n \<le> length s") (auto simp: c_str_Some_iff c_strn_full c_strn_NUL)

lemma length_memset: "memset d c n = Some d' \<Longrightarrow> length d' = length d"
  by (auto simp: memset_def bind_eq_Some_conv)

lemma length_snprintf: "snprintf d n s = Some d' \<Longrightarrow> length d' = length d"
  by (auto simp: snprintf_def Let_def bind_eq_Some_conv split: if_splits)

text \<open>A formatted string longer than the buffer fills it; a shorter one is kept whole.\<close>

lemma snprintf_fills:
  "length d = Suc n \<Longrightarrow> n \<le> length s \<Longrightarrow> snprintf d (Suc n) s = Some (take n s @ [NUL])"
  by (simp add: snprintf_def)

lemma snprintf_c_str:
  assumes "0 < n" "n \<le> length d" "NUL \<notin> set s"
  shows "\<exists>d'. snprintf d n s = Some d' \<and> length d' = length d \<and> c_str d' = Some (take (n - 1) s)"
proof -
  have "NUL \<notin> set (take (n - 1) s)" using assms(3) by (meson in_set_takeD)
  moreover have "length (take (n - 1) s @ [NUL]) \<le> length d" using assms(1,2) by simp
  ultimately show ?thesis
    using assms(1) by (simp add: snprintf_def Let_def c_str_NUL)
qed

text \<open>Comparing two terminated strings decides their equality.\<close>

lemma strncmp_zero:
  assumes "NUL \<notin> set s" "NUL \<notin> set t" "length s < n"
  shows "\<exists>d. strncmp (s @ NUL # r) (t @ NUL # r') n = Some d \<and> (d = 0 \<longleftrightarrow> s = t)"
  using assms
proof (induction s arbitrary: t n)
  case Nil
  then obtain m where "n = Suc m" by (cases n) auto
  with Nil show ?case by (cases t) auto
next
  case (Cons c cs)
  have "\<exists>m. n = Suc m \<and> length cs < m"
    using Cons.prems(3) by (cases n) simp_all
  then obtain m where n: "n = Suc m" "length cs < m" by blast
  show ?case
  proof (cases t)
    case Nil
    then show ?thesis using Cons.prems n by auto
  next
    case t: (Cons d ds)
    then have "\<exists>e. strncmp (cs @ NUL # r) (ds @ NUL # r') m = Some e \<and> (e = 0 \<longleftrightarrow> cs = ds)"
      using Cons.IH [of ds m] Cons.prems(1,2) n(2) by simp
    then show ?thesis using t n(1) Cons.prems(1) by auto
  qed
qed

section \<open>Formatted output\<close>

definition digit :: "nat \<Rightarrow> char" where
  "digit d = char_of (48 + d)"

fun dec_nat :: "nat \<Rightarrow> string" where
  "dec_nat n = (if n < 10 then [digit n] else dec_nat (n div 10) @ [digit (n mod 10)])"

declare dec_nat.simps [simp del]

definition zero_pad :: "nat \<Rightarrow> string \<Rightarrow> string" where
  "zero_pad w s = replicate (w - length s) (CHR ''0'') @ s"

text \<open>\<^verbatim>\<open>%0wd\<close>: a minus sign counts towards the width and precedes the padding.\<close>

definition fmt_d :: "nat \<Rightarrow> int \<Rightarrow> string" where
  "fmt_d w v =
     (if v < 0 then CHR ''-'' # zero_pad (w - 1) (dec_nat (nat (- v)))
      else zero_pad w (dec_nat (nat v)))"

text \<open>\<^verbatim>\<open>%.ns\<close>.\<close>

definition fmt_s_prec :: "nat \<Rightarrow> string \<Rightarrow> string" where
  "fmt_s_prec n s = take n s"

lemma digit_value: "d < 10 \<Longrightarrow> of_char (digit d) = 48 + d"
  by (simp add: digit_def)

lemma digit_not_NUL: "d < 10 \<Longrightarrow> digit d \<noteq> NUL"
proof -
  assume "d < 10"
  then have "of_char (digit d) = 48 + d" by (rule digit_value)
  then show ?thesis by (auto simp: NUL_def)
qed

lemma dec_nat_NUL: "NUL \<notin> set (dec_nat n)"
proof (induction n rule: dec_nat.induct)
  case (1 n)
  then show ?case
    using digit_not_NUL by (subst dec_nat.simps) (auto dest: sym)
qed

lemma dec_nat_length: "0 < w \<Longrightarrow> n < 10 ^ w \<Longrightarrow> length (dec_nat n) \<le> w"
proof (induction n arbitrary: w rule: dec_nat.induct)
  case (1 n)
  show ?case
  proof (cases "n < 10")
    case True
    then show ?thesis using "1.prems" by (subst dec_nat.simps) simp
  next
    case False
    then obtain w' where w: "w = Suc w'" and w': "0 < w'"
      using "1.prems" by (metis One_nat_def Suc_lessI gr0_implies_Suc less_one neq0_conv power_one_right)
    have "n div 10 < 10 ^ w'"
      using "1.prems" w by (simp add: less_mult_imp_div_less mult.commute)
    then have "length (dec_nat (n div 10)) \<le> w'" using "1.IH" False w' by blast
    then show ?thesis using False w by (subst dec_nat.simps) simp
  qed
qed

lemma zero_pad_length: "length s \<le> w \<Longrightarrow> length (zero_pad w s) = w"
  by (simp add: zero_pad_def)

lemma zero_pad_NUL: "NUL \<notin> set s \<Longrightarrow> NUL \<notin> set (zero_pad w s)"
  by (auto simp: zero_pad_def NUL_def)

lemma fmt_d_NUL: "NUL \<notin> set (fmt_d w v)"
  by (auto simp: fmt_d_def zero_pad_NUL dec_nat_NUL NUL_def dest: zero_pad_NUL [OF dec_nat_NUL, unfolded NUL_def, THEN notE])

lemma fmt_d_length: "0 < w \<Longrightarrow> 0 \<le> v \<Longrightarrow> v < 10 ^ w \<Longrightarrow> length (fmt_d w v) = w"
proof -
  assume a: "0 < w" "0 \<le> v" "v < 10 ^ w"
  then have "nat v < 10 ^ w" by (metis nat_less_iff of_nat_numeral of_nat_power)
  then show ?thesis
    using a dec_nat_length [of w "nat v"] by (simp add: fmt_d_def zero_pad_length)
qed

text \<open>Reading a decimal back: the printer is injective, also under zero padding.\<close>

definition digit_val :: "char \<Rightarrow> nat" where
  "digit_val c = of_char c - 48"

fun dec_val :: "nat \<Rightarrow> string \<Rightarrow> nat" where
  "dec_val acc [] = acc"
| "dec_val acc (c # cs) = dec_val (10 * acc + digit_val c) cs"

lemma digit_val_digit [simp]: "d < 10 \<Longrightarrow> digit_val (digit d) = d"
  by (simp add: digit_val_def digit_value)

lemma dec_val_append: "dec_val acc (s @ t) = dec_val (dec_val acc s) t"
  by (induction acc s rule: dec_val.induct) auto

lemma dec_val_dec_nat: "dec_val 0 (dec_nat n) = n"
proof (induction n rule: dec_nat.induct)
  case (1 n)
  then show ?case
    by (subst dec_nat.simps) (simp add: dec_val_append)
qed

lemma dec_val_zero_pad: "dec_val 0 (zero_pad w s) = dec_val 0 s"
proof -
  have "dec_val 0 (replicate k (CHR ''0'')) = 0" for k
    by (induction k) (simp_all add: digit_val_def)
  then show ?thesis by (simp add: zero_pad_def dec_val_append)
qed

lemma fmt_d_inject: "0 \<le> u \<Longrightarrow> 0 \<le> v \<Longrightarrow> fmt_d w u = fmt_d w v \<Longrightarrow> u = v"
  by (metis dec_val_dec_nat dec_val_zero_pad fmt_d_def linorder_not_less nat_eq_iff2 eq_nat_nat_iff)

end
