(* ===== verification/Shobject_Name.thy ===== *)
theory Shobject_Name
  imports CLib
begin

text \<open>
  \<^verbatim>\<open>shobject_name.c\<close> and the tool \<^verbatim>\<open>rmsho.c\<close> that removes the objects it names.
  The environment variable \<^verbatim>\<open>USER\<close> is an argument (\<open>None\<close> when it is not set),
  as is whether the allocation inside \<^verbatim>\<open>asprintf\<close> succeeds. A name is returned as
  the buffer the resulting pointer designates.
\<close>

unbundle bit_operations_syntax

section \<open>Names\<close>

text \<open>\<^verbatim>\<open>SHOBJ_NAME_FORMAT\<close>, \<^verbatim>\<open>"/csc2035.%.9s.%.12s"\<close>, applied to a user and a label.\<close>

definition shobj_format :: "string \<Rightarrow> string \<Rightarrow> string" where
  "shobj_format user label =
     ''/csc2035.'' @ fmt_s_prec 9 user @ ''.'' @ fmt_s_prec 12 label"

text \<open>\<^verbatim>\<open>%.ns\<close> reads at most \<open>n\<close> bytes of its argument.\<close>

definition read_prec :: "nat \<Rightarrow> char list \<Rightarrow> string option" where
  "read_prec n buf = c_strn buf n"

text \<open>The tests \<^verbatim>\<open>!label || !label[0]\<close>; the result is the buffer to print.\<close>

definition label_or_none :: "char list ptr \<Rightarrow> char list option" where
  "label_or_none label = (case label of
     NULL \<Rightarrow> Some (''none'' @ [NUL])
   | Ptr buf \<Rightarrow> do {
       c \<leftarrow> byte_at buf 0;
       Some (if c = NUL then ''none'' @ [NUL] else buf) })"

definition user_or_anon :: "string option \<Rightarrow> string" where
  "user_or_anon user = (case user of None \<Rightarrow> ''anon'' | Some u \<Rightarrow> u)"

definition shobject_name ::
  "bool \<Rightarrow> string option \<Rightarrow> char list ptr \<Rightarrow> char list ptr \<Rightarrow> char list option" where
  "shobject_name ok user name_buf label = do {
     buf \<leftarrow> label_or_none label;
     lab \<leftarrow> read_prec 12 buf;
     let s = shobj_format (user_or_anon user) lab;
     (case name_buf of
        Ptr b \<Rightarrow> snprintf b MAX_NAME_SIZE s
      | NULL \<Rightarrow> asprintf_buf ok s) }"

section \<open>Removing named objects\<close>

definition SEM :: int where "SEM = 4"
definition NAME_MASK :: int where "NAME_MASK = 3"

definition get_selector :: "char list list \<Rightarrow> int option" where
  "get_selector argv = do {
     let r = int (length argv) - 1;
     if length argv = 3 then do {
       n \<leftarrow> c_strn (argv ! 1) 3;
       if n \<noteq> [] then do {
         d \<leftarrow> strncmp (argv ! 1) (''-s'' @ [NUL]) 3;
         Some (if d = 0 then r OR SEM else r) }
       else Some r }
     else Some r }"

definition get_name :: "bool \<Rightarrow> string option \<Rightarrow> char list ptr \<Rightarrow> char list option" where
  "get_name ok user label = do {
     buf \<leftarrow> label_or_none label;
     lab \<leftarrow> read_prec 12 buf;
     asprintf_buf ok (shobj_format (user_or_anon user) lab) }"

datatype unlink_call = Sem_unlink string | Shm_unlink string

text \<open>
  \<^verbatim>\<open>main\<close>: the exit status, the text printed and the system calls made;
  \<^verbatim>\<open>argv\<close> has the buffers of the arguments, \<^verbatim>\<open>argc\<close> is their number.
\<close>

definition rmsho_main ::
  "bool \<Rightarrow> string option \<Rightarrow> char list list \<Rightarrow> (int \<times> string \<times> unlink_call list) option" where
  "rmsho_main ok user argv =
     (if length argv < 2 \<or> length argv > 3 then do {
        require (argv \<noteq> []);
        prog \<leftarrow> c_str (argv ! 0);
        Some (1, ''usage: '' @ prog @ '' [-s] label'' @ [CHR 0x0A], []) }
      else do {
        selector \<leftarrow> get_selector argv;
        let i = nat (selector AND NAME_MASK);
        require (i < length argv);
        name \<leftarrow> get_name ok user (Ptr (argv ! i));
        s \<leftarrow> c_str name;
        if selector AND SEM \<noteq> 0
        then Some (0, ''unlinking sem: '' @ s @ [CHR 0x0A], [Sem_unlink s])
        else Some (0, ''unlinking shm: '' @ s @ [CHR 0x0A], [Shm_unlink s]) })"

section \<open>Facts\<close>

text \<open>The label a name is made of: the default for a missing or empty one.\<close>

definition label_text :: "char list ptr \<Rightarrow> string option" where
  "label_text label = (case label of
     NULL \<Rightarrow> Some ''none''
   | Ptr buf \<Rightarrow> map_option (\<lambda>s. if s = [] then ''none'' else s) (c_str buf))"

definition user_ok :: "string option \<Rightarrow> bool" where
  "user_ok user \<longleftrightarrow> (case user of None \<Rightarrow> True | Some u \<Rightarrow> NUL \<notin> set u)"

lemma label_or_none_text:
  assumes "label_text label = Some s"
  shows "\<exists>buf. label_or_none label = Some buf \<and> c_str buf = Some s"
proof (cases label)
  case NULL
  then have "s = ''none''" using assms by (simp add: label_text_def)
  moreover have "c_str (''none'' @ [NUL]) = Some ''none''" by (rule c_str_NUL) (simp add: NUL_def)
  ultimately show ?thesis using NULL by (simp add: label_or_none_def)
next
  case (Ptr buf)
  then obtain t where t: "c_str buf = Some t" "s = (if t = [] then ''none'' else t)"
    using assms by (auto simp: label_text_def)
  moreover have "c_str (''none'' @ [NUL]) = Some ''none''" by (rule c_str_NUL) (simp add: NUL_def)
  ultimately show ?thesis using c_str_first_NUL [OF t(1)] Ptr by (auto simp: label_or_none_def)
qed

lemma read_prec_text:
  assumes "label_text label = Some s"
  shows "\<exists>buf. label_or_none label = Some buf \<and> read_prec 12 buf = Some (take 12 s)"
  using label_or_none_text [OF assms] c_strn_of_c_str by (auto simp: read_prec_def)

lemma shobj_format_take: "shobj_format user (take 12 s) = shobj_format user s"
  by (simp add: shobj_format_def fmt_s_prec_def)

lemma shobj_format_length: "length (shobj_format user s) \<le> MAX_NAME_SIZE - 1"
  by (simp add: shobj_format_def fmt_s_prec_def MAX_NAME_SIZE_def)

lemma label_text_NUL: "label_text label = Some s \<Longrightarrow> NUL \<notin> set s"
proof (cases label)
  case NULL
  assume "label_text label = Some s"
  with NULL have "s = ''none''" by (simp add: label_text_def)
  then show ?thesis by (simp add: NUL_def)
next
  case (Ptr buf)
  assume "label_text label = Some s"
  with Ptr obtain t where "c_str buf = Some t" "s = t \<or> s = ''none''"
    by (auto simp: label_text_def split: if_splits)
  then show ?thesis by (auto simp: c_str_Some_iff NUL_def)
qed

lemma shobj_format_NUL:
  assumes "NUL \<notin> set user" "NUL \<notin> set s"
  shows "NUL \<notin> set (shobj_format user s)"
proof -
  have "NUL \<notin> set (take 9 user)" "NUL \<notin> set (take 12 s)"
    using assms by (auto dest: in_set_takeD)
  then show ?thesis by (simp add: shobj_format_def fmt_s_prec_def) (simp add: NUL_def)
qed

lemma user_or_anon_NUL: "user_ok user \<Longrightarrow> NUL \<notin> set (user_or_anon user)"
  by (auto simp: user_ok_def user_or_anon_def NUL_def split: option.splits)

text \<open>Both ways of asking for a name give the same string.\<close>

lemma shobject_name_heap:
  assumes "label_text label = Some s"
  shows "shobject_name True user NULL label = Some (shobj_format (user_or_anon user) s @ [NUL])"
  using read_prec_text [OF assms]
  by (auto simp: shobject_name_def asprintf_buf_def shobj_format_take)

lemma shobject_name_buf:
  assumes lab: "label_text label = Some s" and usr: "user_ok user" and b: "length b = MAX_NAME_SIZE"
  shows "\<exists>b'. shobject_name ok user (Ptr b) label = Some b' \<and> length b' = MAX_NAME_SIZE \<and>
    c_str b' = Some (shobj_format (user_or_anon user) s)"
proof -
  let ?s = "shobj_format (user_or_anon user) s"
  have "NUL \<notin> set ?s"
    by (rule shobj_format_NUL [OF user_or_anon_NUL [OF usr] label_text_NUL [OF lab]])
  moreover have "take (MAX_NAME_SIZE - 1) ?s = ?s" using shobj_format_length by simp
  ultimately have "\<exists>b'. snprintf b MAX_NAME_SIZE ?s = Some b' \<and> length b' = MAX_NAME_SIZE \<and> c_str b' = Some ?s"
    using snprintf_c_str [of MAX_NAME_SIZE b ?s] b by (simp add: MAX_NAME_SIZE_def)
  then show ?thesis
    using read_prec_text [OF lab] by (auto simp: shobject_name_def shobj_format_take)
qed

lemma get_name_eq: "get_name ok user label = shobject_name ok user NULL label"
  by (simp add: get_name_def shobject_name_def)

lemma shobj_format_inject:
  "shobj_format user s = shobj_format user t \<longleftrightarrow> take 12 s = take 12 t"
  by (simp add: shobj_format_def fmt_s_prec_def)

section \<open>Properties\<close>

text \<open>
  C36: with a buffer or without, the function gives the same terminated string: the
  prefix, at most 9 characters of the user (\<^verbatim>\<open>anon\<close> when not set) and at most 12 of
  the label (\<^verbatim>\<open>none\<close> when missing or empty); it always fits the buffer of 32 bytes
  whole.
\<close>

theorem shobject_name_spec:
  assumes "label_text label = Some s" "user_ok user" "length b = MAX_NAME_SIZE"
  shows "\<exists>n b'. n = ''/csc2035.'' @ take 9 (user_or_anon user) @ ''.'' @ take 12 s \<and>
    shobject_name ok user (Ptr b) label = Some b' \<and> length b' = MAX_NAME_SIZE \<and> c_str b' = Some n \<and>
    shobject_name True user NULL label = Some (n @ [NUL]) \<and> length n < MAX_NAME_SIZE"
  using shobject_name_buf [OF assms, of ok] shobject_name_heap [OF assms(1), of user]
    shobj_format_length [of "user_or_anon user" s]
  by (auto simp: shobj_format_def fmt_s_prec_def MAX_NAME_SIZE_def)

lemma shobject_name_spec_witness:
  "\<exists>b'. shobject_name True None (Ptr (replicate MAX_NAME_SIZE PAD_CHAR)) NULL = Some b' \<and>
    c_str b' = Some ''/csc2035.anon.none''"
  using shobject_name_spec [of NULL "''none''" None "replicate MAX_NAME_SIZE PAD_CHAR" True]
  by (auto simp: label_text_def user_ok_def user_or_anon_def)

text \<open>The labels the program uses.\<close>

definition program_labels :: "string list" where
  "program_labels = [''ipc_jobq'', ''mux_lockvar'', ''mux_peters'', ''sjq.mutex'', ''sjq.full'', ''sjq.empty'']"

text \<open>
  Two labels get the same name exactly when their first 12 characters agree;
  in particular the six labels the program uses get six different names, for
  every user.
\<close>

theorem shobject_names_distinct:
  "(shobj_format user s = shobj_format user t \<longleftrightarrow> take 12 s = take 12 t) \<and>
   distinct (map (shobj_format user) program_labels)"
  by (simp add: shobj_format_inject program_labels_def)

lemma c_str_text: "label_text (Ptr buf) = Some s \<Longrightarrow> c_str buf = Some [] \<or> c_str buf = Some s"
  by (auto simp: label_text_def split: if_splits)

lemma get_name_text:
  assumes "label_text label = Some s" "user_ok user"
  shows "\<exists>b. get_name True user label = Some b \<and> c_str b = Some (shobj_format (user_or_anon user) s)"
  using shobject_name_heap [OF assms(1), of user]
    shobj_format_NUL [OF user_or_anon_NUL [OF assms(2)] label_text_NUL [OF assms(1)]]
  by (simp add: get_name_eq c_str_NUL)

text \<open>The two ways to call the tool.\<close>

lemma rmsho_unlinks:
  assumes "label_text (Ptr lab) = Some s" "user_ok user" "c_str prog = Some p"
  shows "\<exists>out. rmsho_main True user [prog, lab] = Some (0, out, [Shm_unlink (shobj_format (user_or_anon user) s)])"
    and "\<exists>out. rmsho_main True user [prog, ''-s'' @ [NUL], lab] =
      Some (0, out, [Sem_unlink (shobj_format (user_or_anon user) s)])"
proof -
  obtain n where n: "get_name True user (Ptr lab) = Some n" "c_str n = Some (shobj_format (user_or_anon user) s)"
    using get_name_text [OF assms(1,2)] by blast
  have one: "get_selector [prog, lab] = Some 1" by (simp add: get_selector_def)
  have "c_strn (''-s'' @ [NUL]) 3 = Some ''-s''"
    using c_strn_NUL [of "''-s''" 3 "[]"] by (simp add: NUL_def)
  moreover have "strncmp (''-s'' @ [NUL]) (''-s'' @ [NUL]) 3 = Some 0" by (simp add: numeral_eq_Suc NUL_def)
  ultimately have two: "get_selector [prog, ''-s'' @ [NUL], lab] = Some 6"
    by (simp add: get_selector_def SEM_def)
  show "\<exists>out. rmsho_main True user [prog, lab] = Some (0, out, [Shm_unlink (shobj_format (user_or_anon user) s)])"
    "\<exists>out. rmsho_main True user [prog, ''-s'' @ [NUL], lab] =
      Some (0, out, [Sem_unlink (shobj_format (user_or_anon user) s)])"
    using n by (simp_all add: rmsho_main_def one two [simplified] NAME_MASK_def SEM_def)
qed

text \<open>
  \<^verbatim>\<open>rmsho label\<close> unlinks exactly the shared memory object, and
  \<^verbatim>\<open>rmsho -s label\<close> exactly the semaphore, that \<^verbatim>\<open>shobject_name\<close> names for that
  label and user; it unlinks nothing when called with no argument.
\<close>

theorem rmsho_removes:
  assumes "label_text (Ptr lab) = Some s" "user_ok user" "c_str prog = Some p"
    and "shobject_name True user NULL (Ptr lab) = Some n" "c_str n = Some name"
  shows "(\<exists>out. rmsho_main True user [prog, lab] = Some (0, out, [Shm_unlink name])) \<and>
    (\<exists>out. rmsho_main True user [prog, ''-s'' @ [NUL], lab] = Some (0, out, [Sem_unlink name])) \<and>
    (\<exists>out. rmsho_main True user [prog] = Some (1, out, []))"
proof -
  have "name = shobj_format (user_or_anon user) s"
    using get_name_text [OF assms(1,2)] assms(4,5) by (simp add: get_name_eq)
  then show ?thesis using rmsho_unlinks [OF assms(1,2,3)] assms(3) by (simp add: rmsho_main_def)
qed

lemma rmsho_removes_witness:
  "\<exists>out. rmsho_main True (Some ''me'') [''rmsho'' @ [NUL], ''-s'' @ [NUL], ''sjq.full'' @ [NUL]]
     = Some (0, out, [Sem_unlink ''/csc2035.me.sjq.full''])"
proof -
  have lab: "label_text (Ptr (''sjq.full'' @ [NUL])) = Some ''sjq.full''"
    by (simp add: label_text_def NUL_def)
  have name: "shobj_format ''me'' ''sjq.full'' = ''/csc2035.me.sjq.full''"
    by (simp add: shobj_format_def fmt_s_prec_def)
  have "shobject_name True (Some ''me'') NULL (Ptr (''sjq.full'' @ [NUL])) = Some (''/csc2035.me.sjq.full'' @ [NUL])"
    using shobject_name_heap [OF lab, of "Some ''me''"] name by (simp add: user_or_anon_def)
  moreover have "c_str (''/csc2035.me.sjq.full'' @ [NUL]) = Some ''/csc2035.me.sjq.full''"
    by (rule c_str_NUL) (simp add: NUL_def)
  moreover have "c_str (''rmsho'' @ [NUL]) = Some ''rmsho''" by (rule c_str_NUL) (simp add: NUL_def)
  ultimately show ?thesis
    using rmsho_removes [OF lab, of "Some ''me''" "''rmsho'' @ [NUL]" "''rmsho''"] by (simp add: user_ok_def NUL_def)
qed

end
