(* ===== verification/Proc.thy ===== *)
theory Proc
  imports CLib
begin

text \<open>
  \<^verbatim>\<open>proc.c\<close>: process descriptors and the simulated work. A delay is the request
  handed to \<^verbatim>\<open>nanosleep\<close> (\<open>None\<close> inside the result when the function returns
  without sleeping); the number \<^verbatim>\<open>random()\<close> returns is an argument, for which the
  C library promises a value between \<open>0\<close> and \<open>RANDOM_MAX\<close>.
\<close>

section \<open>Types\<close>

record work_ms_t =
  w_min :: int
  w_max :: int

datatype proctype = BWAIT_CONS_PROC | BWAIT_PROD_PROC | SEM_CONS_PROC | SEM_PROD_PROC

record proc_t =
  pr_type :: proctype
  pr_type_label :: "char list"
  pr_name :: "char list"
  pr_id :: "32 word"
  pr_jobs :: int
  pr_is_init :: bool
  pr_delay_start :: int
  pr_delay_exit :: int
  pr_crit_work :: work_ms_t
  pr_noncrit_work :: work_ms_t

record timespec =
  tv_sec :: int
  tv_nsec :: int

definition RANDOM_MAX :: int where "RANDOM_MAX = 2 ^ 31 - 1"

text \<open>The enumerators in the order of their values, as C numbers them.\<close>

instantiation proctype :: linorder
begin

definition proctype_val :: "proctype \<Rightarrow> int" where
  "proctype_val t = (case t of BWAIT_CONS_PROC \<Rightarrow> 0 | BWAIT_PROD_PROC \<Rightarrow> 1
     | SEM_CONS_PROC \<Rightarrow> 2 | SEM_PROD_PROC \<Rightarrow> 3)"

definition less_eq_proctype :: "proctype \<Rightarrow> proctype \<Rightarrow> bool" where
  "less_eq_proctype s t \<longleftrightarrow> proctype_val s \<le> proctype_val t"

definition less_proctype :: "proctype \<Rightarrow> proctype \<Rightarrow> bool" where
  "less_proctype s t \<longleftrightarrow> proctype_val s < proctype_val t"

instance
proof (intro_classes, goal_cases)
  case (4 x y)
  then show ?case
    by (cases x; cases y) (simp_all add: less_eq_proctype_def proctype_val_def)
qed (auto simp: less_eq_proctype_def less_proctype_def)

end

section \<open>Operations\<close>

text \<open>The element of the enumeration with a given value, and its entry in \<^verbatim>\<open>proctype_label\<close>.\<close>

definition proctype_of :: "int \<Rightarrow> proctype option" where
  "proctype_of v = (if v = 0 then Some BWAIT_CONS_PROC else if v = 1 then Some BWAIT_PROD_PROC
     else if v = 2 then Some SEM_CONS_PROC else if v = 3 then Some SEM_PROD_PROC else None)"

definition proctype_label :: "proctype \<Rightarrow> string" where
  "proctype_label t = (case t of BWAIT_CONS_PROC \<Rightarrow> ''bwait_cons'' | BWAIT_PROD_PROC \<Rightarrow> ''bwait_prod''
     | SEM_CONS_PROC \<Rightarrow> ''sem_cons'' | SEM_PROD_PROC \<Rightarrow> ''sem_prod'')"

text \<open>The argument \<^verbatim>\<open>name && name[0] ? name : "none"\<close>.\<close>

definition name_or_none :: "char list ptr \<Rightarrow> char list option" where
  "name_or_none name = (case name of
     NULL \<Rightarrow> Some (''none'' @ [NUL])
   | Ptr buf \<Rightarrow> do { c \<leftarrow> byte_at buf 0; Some (if c \<noteq> NUL then buf else ''none'' @ [NUL]) })"

text \<open>\<^verbatim>\<open>strncpy\<close> into a field of \<open>MAX_NAME_SIZE\<close> bytes, and its last byte set to NUL.\<close>

definition set_name :: "char list \<Rightarrow> char list \<Rightarrow> char list option" where
  "set_name dst src = do {
     d \<leftarrow> strncpy dst src (MAX_NAME_SIZE - 1);
     poke d (MAX_NAME_SIZE - 1) NUL }"

text \<open>The descriptors a process has allocated; \<open>ph_junk\<close> is what fresh memory holds.\<close>

record proc_heap =
  ph_procs :: "nat \<Rightarrow> proc_t option"
  ph_next :: nat
  ph_avail :: "nat \<Rightarrow> bool"
  ph_junk :: "nat \<Rightarrow> proc_t"

definition malloc_proc :: "proc_heap \<Rightarrow> nat ptr \<times> proc_heap" where
  "malloc_proc h =
     (let a = ph_next h; h1 = h\<lparr>ph_next := Suc a\<rparr>
      in if ph_avail h a then (Ptr a, h1\<lparr>ph_procs := (ph_procs h)(a \<mapsto> ph_junk h a)\<rparr>) else (NULL, h1))"

text \<open>The type argument is the integer passed for the enumeration.\<close>

definition proc_new ::
  "proc_heap \<Rightarrow> int \<Rightarrow> char list ptr \<Rightarrow> 32 word \<Rightarrow> int \<Rightarrow> bool \<Rightarrow> int \<Rightarrow> int \<Rightarrow>
   work_ms_t \<Rightarrow> work_ms_t \<Rightarrow> (nat ptr \<times> proc_heap) option" where
  "proc_new h type_val name pid jobs is_init delay_start delay_exit crit_work noncrit_work =
     (if type_val < proctype_val BWAIT_CONS_PROC \<or> type_val > proctype_val SEM_PROD_PROC then Some (NULL, h)
      else if jobs < 1 then Some (NULL, h)
      else do {
        nm \<leftarrow> name_or_none name;
        (case malloc_proc h of
           (NULL, h1) \<Rightarrow> Some (NULL, h1)
         | (Ptr a, h1) \<Rightarrow> do {
             p \<leftarrow> ph_procs h1 a;
             t \<leftarrow> proctype_of type_val;
             tl \<leftarrow> set_name (pr_type_label p) (proctype_label t @ [NUL]);
             n \<leftarrow> set_name (pr_name p) nm;
             Some (Ptr a, h1\<lparr>ph_procs := (ph_procs h1)(a \<mapsto> p\<lparr>pr_type := t, pr_type_label := tl, pr_name := n,
               pr_id := pid, pr_jobs := jobs, pr_is_init := is_init, pr_delay_start := delay_start,
               pr_delay_exit := delay_exit, pr_crit_work := crit_work,
               pr_noncrit_work := noncrit_work\<rparr>)\<rparr>) }) })"

definition proc_delete :: "proc_heap \<Rightarrow> nat ptr \<Rightarrow> proc_heap option" where
  "proc_delete h proc = (case proc of
     NULL \<Rightarrow> Some h
   | Ptr a \<Rightarrow> do { _ \<leftarrow> ph_procs h a; Some (h\<lparr>ph_procs := (ph_procs h)(a := None)\<rparr>) })"

definition delay_ms :: "int \<Rightarrow> timespec option option" where
  "delay_ms ms =
     (if ms < 1 then Some None
      else do {
        sec \<leftarrow> long_quot ms 1000;
        back \<leftarrow> as_long (sec * 1000);
        rest \<leftarrow> as_long (ms - back);
        nsec \<leftarrow> as_long (rest * 1000000);
        Some (Some \<lparr>tv_sec = sec, tv_nsec = nsec\<rparr>) })"

definition delay_randms :: "int \<Rightarrow> int \<Rightarrow> int \<Rightarrow> timespec option option" where
  "delay_randms rnd min_ms max_ms =
     (if min_ms < 1 \<or> max_ms \<le> min_ms then Some None
      else do {
        width \<leftarrow> as_long (max_ms - min_ms);
        width1 \<leftarrow> as_long (width + 1);
        r \<leftarrow> long_rem rnd width1;
        ms \<leftarrow> as_long (r + min_ms);
        delay_ms ms })"

definition do_noncritical_work :: "int \<Rightarrow> proc_t option \<Rightarrow> timespec option option" where
  "do_noncritical_work rnd proc = (case proc of
     None \<Rightarrow> Some None
   | Some p \<Rightarrow> delay_randms rnd (w_min (pr_noncrit_work p)) (w_max (pr_noncrit_work p)))"

definition do_critical_work :: "int \<Rightarrow> proc_t option \<Rightarrow> timespec option option" where
  "do_critical_work rnd proc = (case proc of
     None \<Rightarrow> Some None
   | Some p \<Rightarrow> delay_randms rnd (w_min (pr_crit_work p)) (w_max (pr_crit_work p)))"

section \<open>Facts\<close>

definition proc_typ :: "proc_t \<Rightarrow> bool" where
  "proc_typ p \<longleftrightarrow> length (pr_type_label p) = MAX_NAME_SIZE \<and> length (pr_name p) = MAX_NAME_SIZE"

definition name_text :: "char list ptr \<Rightarrow> string option" where
  "name_text name = (case name of
     NULL \<Rightarrow> Some ''none''
   | Ptr buf \<Rightarrow> map_option (\<lambda>s. if s = [] then ''none'' else s) (c_str buf))"

text \<open>The milliseconds a request stands for.\<close>

definition req_ns :: "timespec \<Rightarrow> int" where
  "req_ns t = tv_sec t * 1000000000 + tv_nsec t"

lemma name_or_none_text:
  assumes "name_text name = Some s"
  shows "\<exists>buf. name_or_none name = Some buf \<and> c_str buf = Some s"
proof -
  have none: "c_str (''none'' @ [NUL]) = Some ''none''" by (rule c_str_NUL) (simp add: NUL_def)
  show ?thesis
  proof (cases name)
    case NULL
    then show ?thesis using assms none by (simp add: name_text_def name_or_none_def)
  next
    case (Ptr buf)
    then obtain t where t: "c_str buf = Some t" "s = (if t = [] then ''none'' else t)"
      using assms by (auto simp: name_text_def)
    then show ?thesis using c_str_first_NUL [OF t(1)] Ptr none by (auto simp: name_or_none_def)
  qed
qed

lemma set_name_ok:
  assumes d: "length dst = MAX_NAME_SIZE" and s: "c_str src = Some s"
  shows "\<exists>d'. set_name dst src = Some d' \<and> length d' = MAX_NAME_SIZE \<and>
    c_str d' = Some (take (MAX_NAME_SIZE - 1) s)"
proof -
  let ?t = "take (MAX_NAME_SIZE - 1) s"
  have t: "NUL \<notin> set ?t" using s by (auto simp: c_str_Some_iff dest: in_set_takeD)
  let ?pad = "replicate (MAX_NAME_SIZE - 1 - length ?t) NUL"
  have "drop (MAX_NAME_SIZE - 1) dst = [dst ! (MAX_NAME_SIZE - 1)]"
    using d by (intro drop_last) (simp add: MAX_NAME_SIZE_def)
  then have "strncpy dst src (MAX_NAME_SIZE - 1) = Some ((?t @ ?pad) @ [dst ! (MAX_NAME_SIZE - 1)])"
    using d c_strn_of_c_str [OF s, of "MAX_NAME_SIZE - 1"] by (simp add: strncpy_def)
  moreover have len: "length (?t @ ?pad) = MAX_NAME_SIZE - 1" by simp
  ultimately have "set_name dst src = Some ((?t @ ?pad) @ [NUL])"
    by (simp only: set_name_def Option.bind.simps poke_def)
      (simp add: list_update_append MAX_NAME_SIZE_def)
  moreover have "(?t @ ?pad) @ [NUL] = ?t @ NUL # ?pad"
    by (simp add: replicate_append_same)
  then have "c_str ((?t @ ?pad) @ [NUL]) = Some ?t"
    using c_str_NUL [OF t, of ?pad] by simp
  ultimately show ?thesis using len by (intro exI [of _ "(?t @ ?pad) @ [NUL]"]) (simp add: MAX_NAME_SIZE_def)
qed

lemma delay_ms_ok:
  assumes "1 \<le> ms" "ms \<le> LONG_MAX"
  shows "\<exists>t. delay_ms ms = Some (Some t) \<and> 0 \<le> tv_sec t \<and> 0 \<le> tv_nsec t \<and>
    tv_nsec t < 1000000000 \<and> req_ns t = ms * 1000000"
proof -
  let ?s = "ms div 1000"
  have s: "0 \<le> ?s" "ms - ?s * 1000 = ms mod 1000" "?s * 1000 \<le> ms"
    using assms by (simp_all add: minus_div_mult_eq_mod)
  have r: "0 \<le> ms mod 1000" "ms mod 1000 < 1000" by simp_all
  have "as_long (?s * 1000) = Some (?s * 1000)" "as_long (ms mod 1000) = Some (ms mod 1000)"
    "as_long (ms mod 1000 * 1000000) = Some (ms mod 1000 * 1000000)"
    using s r assms by (simp_all add: as_long_Some LONG_MIN_def LONG_MAX_def)
  then have "delay_ms ms = Some (Some \<lparr>tv_sec = ?s, tv_nsec = ms mod 1000 * 1000000\<rparr>)"
    using assms s by (simp add: delay_ms_def long_quot_Some)
  moreover have "ms = ?s * 1000 + ms mod 1000" by simp
  then have "?s * 1000000000 + ms mod 1000 * 1000000 = ms * 1000000" by linarith
  ultimately show ?thesis using s r by (simp add: req_ns_def)
qed

lemma delay_randms_ok:
  assumes "1 \<le> lo" "lo < hi" "hi \<le> LONG_MAX" "0 \<le> rnd" "rnd \<le> RANDOM_MAX"
  shows "\<exists>ms. delay_randms rnd lo hi = delay_ms ms \<and> lo \<le> ms \<and> ms \<le> hi"
proof -
  let ?w = "hi - lo + 1"
  have w: "0 < ?w" "?w \<le> LONG_MAX" "as_long (hi - lo) = Some (hi - lo)" "as_long ?w = Some ?w"
    using assms by (simp_all add: as_long_Some LONG_MIN_def LONG_MAX_def)
  have r: "0 \<le> rnd mod ?w" "rnd mod ?w < ?w"
    using w(1) pos_mod_sign pos_mod_bound by blast+
  have "rnd \<le> LONG_MAX" using assms by (simp add: RANDOM_MAX_def LONG_MAX_def)
  then have "long_rem rnd ?w = Some (rnd mod ?w)" using assms w by (simp add: long_rem_Some)
  moreover have bd: "lo \<le> rnd mod ?w + lo" "rnd mod ?w + lo \<le> hi" using r by linarith+
  moreover have "LONG_MIN \<le> rnd mod ?w + lo" "rnd mod ?w + lo \<le> LONG_MAX"
    using bd assms(1,3) by (simp_all add: LONG_MIN_def)
  then have "as_long (rnd mod ?w + lo) = Some (rnd mod ?w + lo)" by (rule as_long_Some)
  ultimately have "delay_randms rnd lo hi = delay_ms (rnd mod ?w + lo)"
    using assms w by (simp add: delay_randms_def)
  then show ?thesis using bd by blast
qed

section \<open>Properties\<close>

text \<open>Numbers not handed out are free, and fresh memory has the layout of the struct.\<close>

definition wf_heap :: "proc_heap \<Rightarrow> bool" where
  "wf_heap h \<longleftrightarrow> (\<forall>n. proc_typ (ph_junk h n)) \<and> (\<forall>a \<ge> ph_next h. ph_procs h a = None)"

text \<open>
  \<^verbatim>\<open>proc_new\<close> returns NULL, leaving every descriptor alone, for a type outside the
  enumeration, a job count below 1 or a failed allocation; otherwise the new
  descriptor has the arguments as its fields, the label of its type, and the name
  (\<^verbatim>\<open>none\<close> when missing or empty) cut at 31 characters and terminated, and
  \<^verbatim>\<open>proc_delete\<close> takes exactly it away again.
\<close>

theorem proc_new_spec:
  assumes "name_text name = Some s" "wf_heap h"
  shows "\<exists>r h'. proc_new h v name pid jobs init ds de cw nw = Some (r, h') \<and>
    (r = NULL \<longleftrightarrow> proctype_of v = None \<or> jobs < 1 \<or> \<not> ph_avail h (ph_next h)) \<and>
    (r = NULL \<longrightarrow> ph_procs h' = ph_procs h) \<and>
    (\<forall>a. r = Ptr a \<longrightarrow> (\<exists>p h''. ph_procs h' = (ph_procs h)(a \<mapsto> p) \<and> ph_procs h a = None \<and>
      proc_typ p \<and> proctype_of v = Some (pr_type p) \<and>
      c_str (pr_type_label p) = Some (proctype_label (pr_type p)) \<and>
      c_str (pr_name p) = Some (take 31 s) \<and> pr_id p = pid \<and> pr_jobs p = jobs \<and>
      pr_is_init p = init \<and> pr_delay_start p = ds \<and> pr_delay_exit p = de \<and>
      pr_crit_work p = cw \<and> pr_noncrit_work p = nw \<and>
      proc_delete h' r = Some h'' \<and> ph_procs h'' = ph_procs h))"
proof -
  have range: "v < proctype_val BWAIT_CONS_PROC \<or> v > proctype_val SEM_PROD_PROC \<longleftrightarrow> proctype_of v = None"
    by (auto simp: proctype_val_def proctype_of_def)
  obtain nm where nm: "name_or_none name = Some nm" "c_str nm = Some s"
    using name_or_none_text [OF assms(1)] by blast
  show ?thesis
  proof (cases "proctype_of v = None \<or> jobs < 1 \<or> \<not> ph_avail h (ph_next h)")
    case True
    then show ?thesis using nm range by (auto simp: proc_new_def malloc_proc_def)
  next
    case False
    then obtain t where t: "proctype_of v = Some t" and avail: "ph_avail h (ph_next h)" and jobs: "\<not> jobs < 1" by auto
    let ?p = "ph_junk h (ph_next h)"
    have types: "length (pr_type_label ?p) = MAX_NAME_SIZE" "length (pr_name ?p) = MAX_NAME_SIZE"
      using assms(2) by (simp_all add: wf_heap_def proc_typ_def)
    have free: "ph_procs h (ph_next h) = None" using assms(2) by (simp add: wf_heap_def)
    have lab: "c_str (proctype_label t @ [NUL]) = Some (proctype_label t)"
      by (rule c_str_NUL) (cases t; simp add: proctype_label_def NUL_def)
    have "take (MAX_NAME_SIZE - 1) (proctype_label t) = proctype_label t"
      by (cases t) (simp_all add: proctype_label_def MAX_NAME_SIZE_def)
    then obtain tl where tl: "set_name (pr_type_label ?p) (proctype_label t @ [NUL]) = Some tl"
      "length tl = MAX_NAME_SIZE" "c_str tl = Some (proctype_label t)"
      using set_name_ok [OF types(1) lab] by auto
    obtain n where n: "set_name (pr_name ?p) nm = Some n" "length n = MAX_NAME_SIZE"
      "c_str n = Some (take 31 s)"
      using set_name_ok [OF types(2) nm(2)] by (auto simp: MAX_NAME_SIZE_def)
    let ?q = "?p\<lparr>pr_type := t, pr_type_label := tl, pr_name := n, pr_id := pid, pr_jobs := jobs,
      pr_is_init := init, pr_delay_start := ds, pr_delay_exit := de, pr_crit_work := cw, pr_noncrit_work := nw\<rparr>"
    let ?h = "h\<lparr>ph_next := Suc (ph_next h), ph_procs := (ph_procs h)(ph_next h \<mapsto> ?q)\<rparr>"
    have "proc_new h v name pid jobs init ds de cw nw = Some (Ptr (ph_next h), ?h)"
      using range t avail jobs nm(1) tl n by (simp add: proc_new_def malloc_proc_def Let_def)
    moreover have "proc_delete ?h (Ptr (ph_next h)) = Some (?h\<lparr>ph_procs := ph_procs h\<rparr>)"
      using free by (simp add: proc_delete_def fun_upd_idem)
    moreover have "proc_typ ?q" using tl n by (simp add: proc_typ_def)
    ultimately show ?thesis
      using t tl n free False
      by (intro exI [of _ "Ptr (ph_next h)"] exI [of _ ?h]) (auto intro!: exI [of _ ?q])
  qed
qed

text \<open>A descriptor with the given type and delays.\<close>

definition proc_of :: "proctype \<Rightarrow> 32 word \<Rightarrow> bool \<Rightarrow> work_ms_t \<Rightarrow> work_ms_t \<Rightarrow> proc_t" where
  "proc_of t i init cw nw = \<lparr>pr_type = t,
     pr_type_label = proctype_label t @ replicate (MAX_NAME_SIZE - length (proctype_label t)) NUL,
     pr_name = ''none'' @ replicate (MAX_NAME_SIZE - 4) NUL, pr_id = i, pr_jobs = 1, pr_is_init = init,
     pr_delay_start = 0, pr_delay_exit = 0, pr_crit_work = cw, pr_noncrit_work = nw\<rparr>"

lemma proc_of_typ: "proc_typ (proc_of t i init cw nw)"
  by (cases t) (simp_all add: proc_typ_def proc_of_def proctype_label_def MAX_NAME_SIZE_def)

definition proc_start :: proc_heap where
  "proc_start = \<lparr>ph_procs = (\<lambda>_. None), ph_next = 0, ph_avail = (\<lambda>_. True),
     ph_junk = (\<lambda>_. proc_of BWAIT_CONS_PROC 0 False \<lparr>w_min = 0, w_max = 0\<rparr> \<lparr>w_min = 0, w_max = 0\<rparr>)\<rparr>"

lemma proc_new_spec_witness:
  "\<exists>a h' p. proc_new proc_start 3 NULL 42 5 True 0 0 \<lparr>w_min = 20, w_max = 40\<rparr> \<lparr>w_min = 20, w_max = 40\<rparr> = Some (Ptr a, h') \<and>
    ph_procs h' a = Some p \<and> c_str (pr_type_label p) = Some ''sem_prod''"
proof -
  have "wf_heap proc_start" by (simp add: wf_heap_def proc_start_def proc_of_typ)
  from proc_new_spec [OF _ this, of NULL "''none''" 3 42 5 True 0 0 "\<lparr>w_min = 20, w_max = 40\<rparr>" "\<lparr>w_min = 20, w_max = 40\<rparr>"]
  obtain r h' where r: "proc_new proc_start 3 NULL 42 5 True 0 0 \<lparr>w_min = 20, w_max = 40\<rparr> \<lparr>w_min = 20, w_max = 40\<rparr> = Some (r, h')"
    "r \<noteq> NULL" "\<And>a. r = Ptr a \<Longrightarrow> \<exists>p. ph_procs h' a = Some p \<and> Some SEM_PROD_PROC = Some (pr_type p) \<and>
       c_str (pr_type_label p) = Some (proctype_label (pr_type p))"
    by (force simp: name_text_def proctype_of_def proc_start_def)
  from r(2) obtain a where a: "r = Ptr a" by (cases r) simp_all
  from r(3) [OF a] obtain p where "ph_procs h' a = Some p" "SEM_PROD_PROC = pr_type p"
    "c_str (pr_type_label p) = Some (proctype_label (pr_type p))" by blast
  then have "ph_procs h' a = Some p \<and> c_str (pr_type_label p) = Some ''sem_prod''"
    by (simp add: proctype_label_def split: proctype.split_asm)
  then show ?thesis using r(1) a by blast
qed

text \<open>
  C37: simulated work never overflows and asks \<^verbatim>\<open>nanosleep\<close> for a valid time between
  the minimum and the maximum, both included, in milliseconds; with a minimum
  below 1 or not below the maximum there is no delay, and a NULL process does none.
\<close>

theorem critical_work_delay:
  assumes "0 \<le> rnd" "rnd \<le> RANDOM_MAX" "w_max (pr_crit_work p) \<le> LONG_MAX"
  defines "lo \<equiv> w_min (pr_crit_work p)" and "hi \<equiv> w_max (pr_crit_work p)"
  shows "do_critical_work rnd None = Some None \<and>
    (lo < 1 \<or> hi \<le> lo \<longrightarrow> do_critical_work rnd (Some p) = Some None) \<and>
    (1 \<le> lo \<and> lo < hi \<longrightarrow> (\<exists>t. do_critical_work rnd (Some p) = Some (Some t) \<and>
      0 \<le> tv_sec t \<and> 0 \<le> tv_nsec t \<and> tv_nsec t < 1000000000 \<and>
      lo * 1000000 \<le> req_ns t \<and> req_ns t \<le> hi * 1000000))"
proof (intro conjI impI)
  show "do_critical_work rnd None = Some None" by (simp add: do_critical_work_def)
  show "do_critical_work rnd (Some p) = Some None" if "lo < 1 \<or> hi \<le> lo"
    using that by (auto simp: do_critical_work_def delay_randms_def lo_def hi_def)
  assume a: "1 \<le> lo \<and> lo < hi"
  then obtain ms where ms: "delay_randms rnd lo hi = delay_ms ms" "lo \<le> ms" "ms \<le> hi"
    using delay_randms_ok [of lo hi rnd] assms(1,2,3) hi_def by blast
  obtain t where "delay_ms ms = Some (Some t)" "0 \<le> tv_sec t" "0 \<le> tv_nsec t" "tv_nsec t < 1000000000"
    "req_ns t = ms * 1000000"
    using delay_ms_ok [of ms] ms a assms(3) hi_def by force
  then show "\<exists>t. do_critical_work rnd (Some p) = Some (Some t) \<and> 0 \<le> tv_sec t \<and> 0 \<le> tv_nsec t \<and>
      tv_nsec t < 1000000000 \<and> lo * 1000000 \<le> req_ns t \<and> req_ns t \<le> hi * 1000000"
    using ms by (simp add: do_critical_work_def lo_def hi_def)
qed

lemma critical_work_delay_witness:
  "\<exists>t. do_critical_work 123456789 (Some (proc_of SEM_CONS_PROC 7 False \<lparr>w_min = 20, w_max = 40\<rparr> \<lparr>w_min = 20, w_max = 40\<rparr>)) = Some (Some t) \<and>
    20000000 \<le> req_ns t \<and> req_ns t \<le> 40000000"
  using critical_work_delay [of 123456789 "proc_of SEM_CONS_PROC 7 False \<lparr>w_min = 20, w_max = 40\<rparr> \<lparr>w_min = 20, w_max = 40\<rparr>"]
  by (auto simp: proc_of_def RANDOM_MAX_def LONG_MAX_def)

end
