(* ===== verification/Ipc.thy ===== *)
theory Ipc
  imports Shobject_Name Proc
begin

text \<open>
  \<^verbatim>\<open>ipc.c\<close>: named shared memory. The state is what the processes share (the names
  of the objects, their sizes and contents) together with what the calling
  process holds (descriptors, mappings, blocks from \<^verbatim>\<open>malloc\<close>, \<^verbatim>\<open>errno\<close>). The
  contents are of any type \<open>'s\<close>; \<open>shm_ops\<close> says how an object of the type at
  hand is made and zeroed. The POSIX calls follow their documented behaviour,
  and an \<open>ipc_faults\<close> says which of them fail.
\<close>

section \<open>State\<close>

record 's os =
  os_user :: "string option"
  os_errno :: int
  os_shm :: "string \<Rightarrow> nat option"
  os_size :: "nat \<Rightarrow> nat"
  os_mem :: 's
  os_fds :: nat
  os_maps :: "nat list"
  os_blocks :: nat
  os_sleeps :: "timespec list"

record 's shm_ops =
  ob_new :: "'s \<Rightarrow> nat \<times> 's"
  ob_zero :: "nat \<Rightarrow> 's \<Rightarrow> 's"

text \<open>
  Which calls succeed, the error number a failing one sets, and the
  indeterminate bytes of the name field in a fresh block.
\<close>

record ipc_faults =
  f_malloc :: bool
  f_open :: bool
  f_trunc :: bool
  f_map :: bool
  f_err :: int
  f_buf :: "char list"

record ipc_t =
  ip_proc :: proc_t
  ip_name :: "char list"
  ip_addr :: "nat ptr"

definition NON_INIT_DELAY :: int where "NON_INIT_DELAY = 1000"

section \<open>System calls\<close>

definition shm_unlink :: "string \<Rightarrow> 's os \<Rightarrow> 's os" where
  "shm_unlink nm os = (case os_shm os nm of
     None \<Rightarrow> os\<lparr>os_errno := ENOENT\<rparr>
   | Some _ \<Rightarrow> os\<lparr>os_shm := (os_shm os)(nm := None)\<rparr>)"

text \<open>A new object has size 0.\<close>

definition shm_open :: "'s shm_ops \<Rightarrow> ipc_faults \<Rightarrow> bool \<Rightarrow> string \<Rightarrow> 's os \<Rightarrow> nat option \<times> 's os" where
  "shm_open ops fz create nm os =
     (if \<not> f_open fz then (None, os\<lparr>os_errno := f_err fz\<rparr>)
      else case os_shm os nm of
        Some n \<Rightarrow> (Some n, os\<lparr>os_fds := Suc (os_fds os)\<rparr>)
      | None \<Rightarrow>
          if create
          then let (n, s) = ob_new ops (os_mem os) in
            (Some n, os\<lparr>os_shm := (os_shm os)(nm \<mapsto> n), os_size := (os_size os)(n := 0),
               os_mem := s, os_fds := Suc (os_fds os)\<rparr>)
          else (None, os\<lparr>os_errno := ENOENT\<rparr>))"

definition ftruncate :: "ipc_faults \<Rightarrow> nat \<Rightarrow> nat \<Rightarrow> 's os \<Rightarrow> 's os" where
  "ftruncate fz n sz os =
     (if f_trunc fz then os\<lparr>os_size := (os_size os)(n := sz)\<rparr> else os\<lparr>os_errno := f_err fz\<rparr>)"

definition mmap :: "ipc_faults \<Rightarrow> nat \<Rightarrow> 's os \<Rightarrow> bool \<times> 's os" where
  "mmap fz n os =
     (if f_map fz then (True, os\<lparr>os_maps := os_maps os @ [n]\<rparr>) else (False, os\<lparr>os_errno := f_err fz\<rparr>))"

definition close_fd :: "'s os \<Rightarrow> 's os" where
  "close_fd os = os\<lparr>os_fds := os_fds os - 1\<rparr>"

definition free_block :: "'s os \<Rightarrow> 's os option" where
  "free_block os = do { require (0 < os_blocks os); Some (os\<lparr>os_blocks := os_blocks os - 1\<rparr>) }"

section \<open>Operations\<close>

text \<open>
  The block \<^verbatim>\<open>if (fd != -1)\<close> with what follows it. The writes of \<^verbatim>\<open>memset\<close> past the
  end of the object are undefined.
\<close>

definition ipc_map ::
  "'s shm_ops \<Rightarrow> ipc_faults \<Rightarrow> proc_t \<Rightarrow> char list \<Rightarrow> nat \<Rightarrow> nat \<Rightarrow> 's os \<Rightarrow> (ipc_t ptr \<times> 's os) option" where
  "ipc_map ops fz p name sz n os =
     (let os1 = (if pr_is_init p then ftruncate fz n sz os else os);
          (mapped, os2) = mmap fz n os1;
          os3 = close_fd os2
      in if \<not> mapped then do { os4 \<leftarrow> free_block os3; Some (NULL, os4) }
         else do {
           os4 \<leftarrow> (if pr_is_init p then do {
                    require (sz \<le> os_size os3 n);
                    Some (os3\<lparr>os_mem := ob_zero ops n (os_mem os3)\<rparr>) }
                  else Some os3);
           Some (Ptr \<lparr>ip_proc = p, ip_name = name, ip_addr = Ptr n\<rparr>, os4) })"

text \<open>The two branches of \<^verbatim>\<open>if (proc->is_init)\<close> before \<^verbatim>\<open>shm_open\<close>.\<close>

definition ipc_prepare :: "proc_t \<Rightarrow> string \<Rightarrow> 's os \<Rightarrow> 's os option" where
  "ipc_prepare p nm os =
     (if pr_is_init p then Some (shm_unlink nm os)
      else do {
        req \<leftarrow> delay_ms NON_INIT_DELAY;
        Some (case req of None \<Rightarrow> os | Some t \<Rightarrow> os\<lparr>os_sleeps := os_sleeps os @ [t]\<rparr>) })"

definition ipc_new ::
  "'s shm_ops \<Rightarrow> ipc_faults \<Rightarrow> proc_t ptr \<Rightarrow> char list ptr \<Rightarrow> nat \<Rightarrow> 's os \<Rightarrow> (ipc_t ptr \<times> 's os) option" where
  "ipc_new ops fz proc label sz os = (case proc of
     NULL \<Rightarrow> Some (NULL, os\<lparr>os_errno := EINVAL\<rparr>)
   | Ptr p \<Rightarrow>
       if sz = 0 then Some (NULL, os\<lparr>os_errno := EINVAL\<rparr>)
       else if \<not> f_malloc fz then Some (NULL, os\<lparr>os_errno := f_err fz\<rparr>)
       else do {
         let os1 = os\<lparr>os_blocks := Suc (os_blocks os)\<rparr>;
         name \<leftarrow> shobject_name True (os_user os1) (Ptr (f_buf fz)) label;
         nm \<leftarrow> c_str name;
         os2 \<leftarrow> ipc_prepare p nm os1;
         (case shm_open ops fz (pr_is_init p) nm os2 of
            (None, os3) \<Rightarrow> do { os4 \<leftarrow> free_block os3; Some (NULL, os4) }
          | (Some n, os3) \<Rightarrow> ipc_map ops fz p name sz n os3) })"

definition ipc_delete :: "ipc_t ptr \<Rightarrow> 's os \<Rightarrow> 's os option" where
  "ipc_delete ipc os = (case ipc of
     NULL \<Rightarrow> Some os
   | Ptr i \<Rightarrow> do {
       nm \<leftarrow> c_str (ip_name i);
       free_block (shm_unlink nm os) })"

section \<open>Facts\<close>

text \<open>The name a label has for the current user, and the faults that do not happen.\<close>

definition shm_name :: "'s os \<Rightarrow> char list ptr \<Rightarrow> string" where
  "shm_name os label = (case label_text label of None \<Rightarrow> [] | Some s \<Rightarrow> shobj_format (user_or_anon (os_user os)) s)"

definition faults_ok :: "ipc_faults \<Rightarrow> bool" where
  "faults_ok fz \<longleftrightarrow> length (f_buf fz) = MAX_NAME_SIZE"

definition no_fault :: "ipc_faults \<Rightarrow> bool" where
  "no_fault fz \<longleftrightarrow> faults_ok fz \<and> f_malloc fz \<and> f_open fz \<and> f_trunc fz \<and> f_map fz"

lemma shm_name_buf:
  assumes "label_text label \<noteq> None" "user_ok (os_user os)" "faults_ok fz"
  shows "\<exists>name. shobject_name True (os_user os) (Ptr (f_buf fz)) label = Some name \<and>
    length name = MAX_NAME_SIZE \<and> c_str name = Some (shm_name os label)"
proof -
  obtain s where s: "label_text label = Some s" using assms(1) by blast
  show ?thesis
    using shobject_name_buf [OF s assms(2), of "f_buf fz" True] assms(3) s
    by (simp add: faults_ok_def shm_name_def)
qed

lemma shm_unlink_sel [simp]:
  "os_shm (shm_unlink nm os) = (os_shm os)(nm := None)" "os_size (shm_unlink nm os) = os_size os"
  "os_mem (shm_unlink nm os) = os_mem os" "os_fds (shm_unlink nm os) = os_fds os"
  "os_maps (shm_unlink nm os) = os_maps os" "os_blocks (shm_unlink nm os) = os_blocks os"
  "os_user (shm_unlink nm os) = os_user os" "os_sleeps (shm_unlink nm os) = os_sleeps os"
  by (simp_all add: shm_unlink_def fun_upd_idem split: option.splits)

lemma non_init_delay [simp]: "delay_ms NON_INIT_DELAY = Some (Some \<lparr>tv_sec = 1, tv_nsec = 0\<rparr>)"
  by (simp add: delay_ms_def NON_INIT_DELAY_def long_quot_def tquot_def as_long_def is_long_def
      LONG_MIN_def LONG_MAX_def)

lemma free_block_Suc [simp]:
  "os_blocks os = Suc n \<Longrightarrow> free_block os = Some (os\<lparr>os_blocks := n\<rparr>)"
  by (simp add: free_block_def)

text \<open>The init process makes a new zeroed object, replacing the name's old one.\<close>

lemma ipc_new_init:
  assumes lab: "label_text label \<noteq> None" and usr: "user_ok (os_user os)" and fz: "no_fault fz"
    and p: "pr_is_init p" and sz: "sz \<noteq> 0" and new: "ob_new ops (os_mem os) = (n, s)"
  shows "\<exists>name os'. ipc_new ops fz (Ptr p) label sz os
      = Some (Ptr \<lparr>ip_proc = p, ip_name = name, ip_addr = Ptr n\<rparr>, os') \<and>
    c_str name = Some (shm_name os label) \<and> os_shm os' = (os_shm os)(shm_name os label \<mapsto> n) \<and>
    os_size os' = (os_size os)(n := sz) \<and> os_mem os' = ob_zero ops n s \<and> os_fds os' = os_fds os \<and>
    os_maps os' = os_maps os @ [n] \<and> os_blocks os' = Suc (os_blocks os) \<and> os_user os' = os_user os"
proof -
  obtain name where name: "shobject_name True (os_user os) (Ptr (f_buf fz)) label = Some name"
    "c_str name = Some (shm_name os label)"
    using shm_name_buf [OF lab usr] fz by (auto simp: no_fault_def)
  show ?thesis
    using fz p sz new name
    by (simp add: ipc_new_def ipc_prepare_def ipc_map_def no_fault_def shm_open_def ftruncate_def mmap_def close_fd_def)
qed

text \<open>Another process attaches to the object that has the name, after its delay.\<close>

lemma ipc_new_attach:
  assumes lab: "label_text label \<noteq> None" and usr: "user_ok (os_user os)" and fz: "no_fault fz"
    and p: "\<not> pr_is_init p" and sz: "sz \<noteq> 0" and at: "os_shm os (shm_name os label) = Some n"
  shows "\<exists>name os'. ipc_new ops fz (Ptr p) label sz os
      = Some (Ptr \<lparr>ip_proc = p, ip_name = name, ip_addr = Ptr n\<rparr>, os') \<and>
    c_str name = Some (shm_name os label) \<and> os_shm os' = os_shm os \<and>
    os_size os' = os_size os \<and> os_mem os' = os_mem os \<and> os_fds os' = os_fds os \<and>
    os_maps os' = os_maps os @ [n] \<and> os_blocks os' = Suc (os_blocks os) \<and> os_user os' = os_user os \<and>
    os_sleeps os' = os_sleeps os @ [\<lparr>tv_sec = 1, tv_nsec = 0\<rparr>]"
proof -
  obtain name where name: "shobject_name True (os_user os) (Ptr (f_buf fz)) label = Some name"
    "c_str name = Some (shm_name os label)"
    using shm_name_buf [OF lab usr] fz by (auto simp: no_fault_def)
  show ?thesis
    using fz p sz at name
    by (simp add: ipc_new_def ipc_prepare_def ipc_map_def no_fault_def shm_open_def mmap_def close_fd_def)
qed

lemma ipc_new_absent:
  assumes lab: "label_text label \<noteq> None" and usr: "user_ok (os_user os)" and fz: "no_fault fz"
    and p: "\<not> pr_is_init p" and sz: "sz \<noteq> 0" and at: "os_shm os (shm_name os label) = None"
  shows "\<exists>os'. ipc_new ops fz (Ptr p) label sz os = Some (NULL, os') \<and> os_errno os' = ENOENT \<and>
    os_blocks os' = os_blocks os"
proof -
  obtain name where name: "shobject_name True (os_user os) (Ptr (f_buf fz)) label = Some name"
    "c_str name = Some (shm_name os label)"
    using shm_name_buf [OF lab usr] fz by (auto simp: no_fault_def)
  show ?thesis
    using fz p sz at name
    by (simp add: ipc_new_def ipc_prepare_def no_fault_def shm_open_def)
qed

text \<open>Whatever fails, descriptors are closed and a block is kept only by a success.\<close>

lemma shm_open_count:
  assumes "shm_open ops fz c nm os = (r, os')"
  shows "os_fds os' = os_fds os + of_bool (r \<noteq> None)" "os_blocks os' = os_blocks os" "os_maps os' = os_maps os"
  using assms by (auto simp: shm_open_def split: if_splits option.splits prod.splits)

lemma ftruncate_count [simp]:
  "os_fds (ftruncate fz n z os) = os_fds os" "os_blocks (ftruncate fz n z os) = os_blocks os"
  "os_maps (ftruncate fz n z os) = os_maps os" "os_size (ftruncate fz n z os) n = (if f_trunc fz then z else os_size os n)"
  by (simp_all add: ftruncate_def)

lemma mmap_count:
  assumes "mmap fz n os = (b, os')"
  shows "os_fds os' = os_fds os" "os_blocks os' = os_blocks os" "os_size os' = os_size os"
    "os_maps os' = os_maps os @ (if b then [n] else [])" "b \<longleftrightarrow> f_map fz"
  using assms by (auto simp: mmap_def split: if_splits)

lemma ipc_prepare_count:
  "\<exists>os'. ipc_prepare p nm os = Some os' \<and> os_fds os' = os_fds os \<and> os_blocks os' = os_blocks os \<and> os_maps os' = os_maps os"
  by (simp add: ipc_prepare_def)

lemma free_block_count:
  "free_block os = Some os' \<Longrightarrow> os_fds os' = os_fds os \<and> Suc (os_blocks os') = os_blocks os \<and> os_maps os' = os_maps os"
  by (auto simp: free_block_def bind_eq_Some_conv)

lemma ipc_map_count:
  assumes "ipc_map ops fz p name sz n os = Some (r, os')" "0 < os_fds os"
  shows "os_fds os' = os_fds os - 1 \<and> os_blocks os' + of_bool (r = NULL) = os_blocks os \<and>
    os_maps os' = os_maps os @ (if r = NULL then [] else [n]) \<and>
    (r = NULL \<longleftrightarrow> \<not> f_map fz)"
proof -
  let ?os1 = "if pr_is_init p then ftruncate fz n sz os else os"
  obtain b os2 where m: "mmap fz n ?os1 = (b, os2)" by (cases "mmap fz n ?os1")
  have os2: "os_fds os2 = os_fds os" "os_blocks os2 = os_blocks os" "os_maps os2 = os_maps os @ (if b then [n] else [])"
    "b \<longleftrightarrow> f_map fz"
    using mmap_count [OF m] by (auto split: if_splits)
  show ?thesis
  proof (cases b)
    case True
    then show ?thesis using assms(1) m os2
      by (auto simp: ipc_map_def Let_def close_fd_def bind_eq_Some_conv split: if_splits)
  next
    case False
    then obtain os4 where "free_block (close_fd os2) = Some os4" "r = NULL" "os' = os4"
      using assms(1) m by (auto simp: ipc_map_def Let_def bind_eq_Some_conv)
    then show ?thesis using False os2 free_block_count [of "close_fd os2" os4] by (simp add: close_fd_def)
  qed
qed

lemma ipc_new_resources:
  assumes "ipc_new ops fz proc label sz os = Some (r, os')"
  shows "os_fds os' = os_fds os \<and> os_blocks os' = os_blocks os + of_bool (r \<noteq> NULL) \<and>
    length (os_maps os') = length (os_maps os) + of_bool (r \<noteq> NULL)"
proof (cases "proc = NULL \<or> sz = 0 \<or> \<not> f_malloc fz")
  case True
  then show ?thesis using assms by (auto simp: ipc_new_def split: ptr.splits if_splits)
next
  case False
  then obtain p where p: "proc = Ptr p" by (cases proc) simp_all
  let ?os1 = "os\<lparr>os_blocks := Suc (os_blocks os)\<rparr>"
  obtain name nm where nm: "shobject_name True (os_user os) (Ptr (f_buf fz)) label = Some name" "c_str name = Some nm"
    using assms False p by (auto simp: ipc_new_def bind_eq_Some_conv)
  obtain os2 where os2: "ipc_prepare p nm ?os1 = Some os2" "os_fds os2 = os_fds os"
    "os_blocks os2 = Suc (os_blocks os)" "os_maps os2 = os_maps os"
    using ipc_prepare_count [of p nm ?os1] by auto
  obtain fd os3 where o: "shm_open ops fz (pr_is_init p) nm os2 = (fd, os3)"
    by (cases "shm_open ops fz (pr_is_init p) nm os2")
  note os3 = shm_open_count [OF o]
  show ?thesis
  proof (cases fd)
    case None
    then have "free_block os3 = Some os' \<and> r = NULL"
      using assms False p nm os2(1) o by (auto simp: ipc_new_def bind_eq_Some_conv)
    then show ?thesis using free_block_count [of os3 os'] os2 os3 None by simp
  next
    case (Some n)
    then have "ipc_map ops fz p name sz n os3 = Some (r, os')"
      using assms False p nm os2(1) o by (simp add: ipc_new_def)
    moreover have "0 < os_fds os3" using os3(1) Some by simp
    ultimately show ?thesis
      using ipc_map_count [of ops fz p name sz n os3 r os'] os2 os3 Some by (cases "r = NULL") auto
  qed
qed

lemma ipc_delete_ok:
  assumes "c_str (ip_name i) = Some nm" "0 < os_blocks os"
  shows "\<exists>os'. ipc_delete (Ptr i) os = Some os' \<and> os_shm os' = (os_shm os)(nm := None) \<and>
    os_maps os' = os_maps os \<and> os_mem os' = os_mem os \<and> Suc (os_blocks os') = os_blocks os \<and> os_user os' = os_user os"
  using assms by (simp add: ipc_delete_def free_block_def)

section \<open>Properties\<close>

text \<open>A state with nothing allocated and no names, and calls that do not fail.\<close>

definition os_start :: "'s \<Rightarrow> 's os" where
  "os_start s = \<lparr>os_user = None, os_errno = 0, os_shm = (\<lambda>_. None), os_size = (\<lambda>_. 0), os_mem = s,
     os_fds = 3, os_maps = [], os_blocks = 0, os_sleeps = []\<rparr>"

definition all_ok :: ipc_faults where
  "all_ok = \<lparr>f_malloc = True, f_open = True, f_trunc = True, f_map = True, f_err = 12,
     f_buf = replicate MAX_NAME_SIZE PAD_CHAR\<rparr>"

lemma no_fault_all_ok [simp]: "no_fault all_ok"
  by (simp add: no_fault_def faults_ok_def all_ok_def)

text \<open>Objects of one type with a given value of all zero bytes, numbered in order.\<close>

definition cell_ops :: "'v \<Rightarrow> (nat \<times> (nat \<Rightarrow> 'v)) shm_ops" where
  "cell_ops z = \<lparr>ob_new = (\<lambda>(k, c). (k, (Suc k, c(k := z)))), ob_zero = (\<lambda>n (k, c). (k, c(n := z)))\<rparr>"

text \<open>
  Shared memory is shared: the init process makes a new zeroed object under the
  name of the label, and another process that asks for the same label gets the
  same object with its contents as they are. Deleting unlinks the name, so that a
  later process finds nothing (ENOENT), but leaves the deleting process mapped to
  the object: nothing unmaps it.
\<close>

theorem ipc_share:
  assumes "label_text label \<noteq> None" "user_ok (os_user os)" "no_fault fz" "no_fault fz'"
    and "pr_is_init p" "\<not> pr_is_init q" "0 < sz" "ob_new ops (os_mem os) = (n, s)"
  shows "\<exists>i os1 j os2 os3 os4.
    ipc_new ops fz (Ptr p) label sz os = Some (Ptr i, os1) \<and> os_mem os1 = ob_zero ops n s \<and> os_size os1 n = sz \<and>
    ipc_new ops fz' (Ptr q) label sz os1 = Some (Ptr j, os2) \<and> os_mem os2 = os_mem os1 \<and>
    ip_addr i = Ptr n \<and> ip_addr j = ip_addr i \<and>
    ipc_delete (Ptr j) os2 = Some os3 \<and> os_maps os3 = os_maps os2 \<and>
    ipc_new ops fz' (Ptr q) label sz os3 = Some (NULL, os4) \<and> os_errno os4 = ENOENT"
proof -
  have sz: "sz \<noteq> 0" using assms(7) by simp
  obtain name os1 where 1: "ipc_new ops fz (Ptr p) label sz os
      = Some (Ptr \<lparr>ip_proc = p, ip_name = name, ip_addr = Ptr n\<rparr>, os1)"
    "os_shm os1 = (os_shm os)(shm_name os label \<mapsto> n)" "os_size os1 = (os_size os)(n := sz)"
    "os_mem os1 = ob_zero ops n s" "os_user os1 = os_user os"
    using ipc_new_init [OF assms(1,2,3,5) sz assms(8)] by blast
  have usr: "user_ok (os_user os1)" using assms(2) 1(5) by simp
  have "shm_name os1 label = shm_name os label" by (simp only: shm_name_def 1(5))
  then have "os_shm os1 (shm_name os1 label) = Some n" using 1(2) by simp
  from ipc_new_attach [OF assms(1) usr assms(4,6) sz this]
  obtain name2 os2 where 2: "ipc_new ops fz' (Ptr q) label sz os1
      = Some (Ptr \<lparr>ip_proc = q, ip_name = name2, ip_addr = Ptr n\<rparr>, os2)"
    "c_str name2 = Some (shm_name os1 label)" "os_mem os2 = os_mem os1"
    "os_user os2 = os_user os1" "os_blocks os2 = Suc (os_blocks os1)"
    by blast
  obtain os3 where 3: "ipc_delete (Ptr \<lparr>ip_proc = q, ip_name = name2, ip_addr = Ptr n\<rparr>) os2 = Some os3"
    "os_shm os3 = (os_shm os2)(shm_name os1 label := None)" "os_maps os3 = os_maps os2" "os_user os3 = os_user os2"
    using ipc_delete_ok [of "\<lparr>ip_proc = q, ip_name = name2, ip_addr = Ptr n\<rparr>" "shm_name os1 label" os2] 2(2,5) by auto
  have "shm_name os3 label = shm_name os1 label" by (simp only: shm_name_def 3(4) 2(4))
  then have "user_ok (os_user os3)" "os_shm os3 (shm_name os3 label) = None"
    using usr 3(2,4) 2(4) by simp_all
  from ipc_new_absent [OF assms(1) this(1) assms(4,6) sz this(2)]
  obtain os4 where "ipc_new ops fz' (Ptr q) label sz os3 = Some (NULL, os4)" "os_errno os4 = ENOENT" by blast
  with 1 2 3 show ?thesis
    by (intro exI [of _ "\<lparr>ip_proc = p, ip_name = name, ip_addr = Ptr n\<rparr>"] exI [of _ os1]
        exI [of _ "\<lparr>ip_proc = q, ip_name = name2, ip_addr = Ptr n\<rparr>"] exI [of _ os2] exI [of _ os3] exI [of _ os4]) simp
qed

lemma ipc_share_witness:
  "\<exists>i os1 j os2. ipc_new (cell_ops (0::nat)) all_ok
      (Ptr (proc_of SEM_PROD_PROC 1 True \<lparr>w_min = 0, w_max = 0\<rparr> \<lparr>w_min = 0, w_max = 0\<rparr>)) NULL 4 (os_start (0, \<lambda>_. 0)) = Some (Ptr i, os1) \<and>
    ipc_new (cell_ops 0) all_ok
      (Ptr (proc_of SEM_CONS_PROC 2 False \<lparr>w_min = 0, w_max = 0\<rparr> \<lparr>w_min = 0, w_max = 0\<rparr>)) NULL 4 os1 = Some (Ptr j, os2) \<and>
    ip_addr j = ip_addr i"
  using ipc_share [of NULL "os_start (0, \<lambda>_. 0)" all_ok all_ok
      "proc_of SEM_PROD_PROC 1 True \<lparr>w_min = 0, w_max = 0\<rparr> \<lparr>w_min = 0, w_max = 0\<rparr>"
      "proc_of SEM_CONS_PROC 2 False \<lparr>w_min = 0, w_max = 0\<rparr> \<lparr>w_min = 0, w_max = 0\<rparr>"
      4 "cell_ops (0::nat)" 0 "(1, (\<lambda>_. 0)(0 := 0))"]
  by (fastforce simp: label_text_def os_start_def user_ok_def proc_of_def cell_ops_def One_nat_def)

text \<open>
  C38: whichever system call fails, \<^verbatim>\<open>ipc_new\<close> closes the descriptor it opened, keeps a
  block exactly when it returns one and a mapping exactly when it succeeds; with
  a NULL process or size 0 it only sets \<^verbatim>\<open>errno\<close> to EINVAL; and the one way it
  goes wrong is an init process whose unchecked \<^verbatim>\<open>ftruncate\<close> fails, which then
  writes past the end of the empty object.
\<close>

theorem ipc_new_outcomes:
  assumes "label_text label \<noteq> None" "user_ok (os_user os)" "faults_ok fz"
  shows "(ipc_new ops fz proc label sz os = None \<longleftrightarrow>
      (\<exists>p. proc = Ptr p \<and> pr_is_init p \<and> 0 < sz \<and> f_malloc fz \<and> f_open fz \<and> f_map fz \<and> \<not> f_trunc fz)) \<and>
    (\<forall>r os'. ipc_new ops fz proc label sz os = Some (r, os') \<longrightarrow>
      os_fds os' = os_fds os \<and> os_blocks os' = os_blocks os + of_bool (r \<noteq> NULL) \<and>
      length (os_maps os') = length (os_maps os) + of_bool (r \<noteq> NULL) \<and>
      (proc = NULL \<or> sz = 0 \<longrightarrow> r = NULL \<and> os' = os\<lparr>os_errno := EINVAL\<rparr>))"
proof (intro conjI allI impI)
  show "ipc_new ops fz proc label sz os = None \<longleftrightarrow>
      (\<exists>p. proc = Ptr p \<and> pr_is_init p \<and> 0 < sz \<and> f_malloc fz \<and> f_open fz \<and> f_map fz \<and> \<not> f_trunc fz)"
  proof (cases "proc = NULL \<or> sz = 0 \<or> \<not> f_malloc fz")
    case True
    then show ?thesis by (auto simp: ipc_new_def split: ptr.splits)
  next
    case False
    then obtain p where p: "proc = Ptr p" by (cases proc) simp_all
    obtain name where name: "shobject_name True (os_user os) (Ptr (f_buf fz)) label = Some name"
      "c_str name = Some (shm_name os label)"
      using shm_name_buf [OF assms] by blast
    obtain n s where "ob_new ops (os_mem os) = (n, s)" by (cases "ob_new ops (os_mem os)")
    then show ?thesis
      using False p name
      by (cases "pr_is_init p"; cases "f_open fz"; cases "f_map fz"; cases "f_trunc fz";
          cases "os_shm os (shm_name os label)")
        (simp_all add: ipc_new_def ipc_prepare_def ipc_map_def shm_open_def ftruncate_def mmap_def close_fd_def)
  qed
next
  fix r os' assume r: "ipc_new ops fz proc label sz os = Some (r, os')"
  show "os_fds os' = os_fds os" "os_blocks os' = os_blocks os + of_bool (r \<noteq> NULL)"
    "length (os_maps os') = length (os_maps os) + of_bool (r \<noteq> NULL)"
    using ipc_new_resources [OF r] by simp_all
  assume "proc = NULL \<or> sz = 0"
  then show "r = NULL" "os' = os\<lparr>os_errno := EINVAL\<rparr>"
    using r by (auto simp: ipc_new_def split: ptr.splits)
qed

lemma ipc_new_outcomes_witness:
  "ipc_new (cell_ops (0::nat)) (all_ok\<lparr>f_trunc := False\<rparr>)
    (Ptr (proc_of SEM_PROD_PROC 1 True \<lparr>w_min = 0, w_max = 0\<rparr> \<lparr>w_min = 0, w_max = 0\<rparr>)) NULL 4 (os_start (0, \<lambda>_. 0)) = None"
  using ipc_new_outcomes [of NULL "os_start (0, \<lambda>_. 0)" "all_ok\<lparr>f_trunc := False\<rparr>" "cell_ops (0::nat)"
      "Ptr (proc_of SEM_PROD_PROC 1 True \<lparr>w_min = 0, w_max = 0\<rparr> \<lparr>w_min = 0, w_max = 0\<rparr>)" 4]
  by (simp add: label_text_def os_start_def user_ok_def proc_of_def faults_ok_def all_ok_def)

end
