(* ===== verification/Sched.thy ===== *)
theory Sched
  imports Prelude
begin

text \<open>
  Interleavings of processes that share memory. A process takes one step at a
  time, one access to shared memory each; a schedule is the list of processes
  the system picks. \<open>may s p\<close> says whether process \<open>p\<close> can be picked in state
  \<open>s\<close> (it cannot while it is blocked in a system call, or while a run under
  study forbids it); a pick that is not possible leaves the state alone.
  \<open>None\<close> is undefined behaviour.
\<close>

fun sched_run :: "('p \<Rightarrow> 's \<Rightarrow> 's option) \<Rightarrow> ('s \<Rightarrow> 'p \<Rightarrow> bool) \<Rightarrow> 's \<Rightarrow> 'p list \<Rightarrow> 's option" where
  "sched_run step may s [] = Some s"
| "sched_run step may s (p # ps) =
     (if may s p then do { t \<leftarrow> step p s; sched_run step may t ps }
      else sched_run step may s ps)"

text \<open>Every state a schedule passes through, the first included.\<close>

fun sched_trace :: "('p \<Rightarrow> 's \<Rightarrow> 's option) \<Rightarrow> ('s \<Rightarrow> 'p \<Rightarrow> bool) \<Rightarrow> 's \<Rightarrow> 'p list \<Rightarrow> 's list" where
  "sched_trace step may s [] = [s]"
| "sched_trace step may s (p # ps) =
     s # (if may s p then (case step p s of None \<Rightarrow> [] | Some t \<Rightarrow> sched_trace step may t ps)
          else sched_trace step may s ps)"

lemma sched_run_append:
  "sched_run step may s (ps @ qs) = do { t \<leftarrow> sched_run step may s ps; sched_run step may t qs }"
  by (induction ps arbitrary: s) (auto split: bind_splits)

lemma sched_trace_last:
  "sched_run step may s ps = Some t \<Longrightarrow> t \<in> set (sched_trace step may s ps)"
  by (induction ps arbitrary: s) (auto simp: bind_eq_Some_conv split: if_splits)

text \<open>A system whose steps keep an invariant and are defined under it.\<close>

locale invariant_system =
  fixes step :: "'p \<Rightarrow> 's \<Rightarrow> 's option" and may :: "'s \<Rightarrow> 'p \<Rightarrow> bool" and inv :: "'s \<Rightarrow> bool"
  assumes step_inv: "inv s \<Longrightarrow> may s p \<Longrightarrow> \<exists>t. step p s = Some t \<and> inv t"
begin

lemma run_inv: "inv s \<Longrightarrow> \<exists>t. sched_run step may s ps = Some t \<and> inv t"
proof (induction ps arbitrary: s)
  case Nil
  then show ?case by simp
next
  case (Cons p ps)
  show ?case
  proof (cases "may s p")
    case True
    then obtain t where "step p s = Some t" "inv t" using step_inv Cons.prems by blast
    then show ?thesis using Cons.IH [of t] True by simp
  next
    case False
    then show ?thesis using Cons by simp
  qed
qed

lemma trace_inv: "inv s \<Longrightarrow> u \<in> set (sched_trace step may s ps) \<Longrightarrow> inv u"
proof (induction ps arbitrary: s)
  case Nil
  then show ?case by simp
next
  case (Cons p ps)
  show ?case
  proof (cases "may s p")
    case True
    then obtain t where "step p s = Some t" "inv t" using step_inv Cons.prems(1) by blast
    then show ?thesis using Cons True by auto
  next
    case False
    then show ?thesis using Cons by auto
  qed
qed

end

text \<open>A protocol for critical regions whose invariant excludes two holders.\<close>

locale exclusion = invariant_system +
  fixes crit :: "'s \<Rightarrow> 'q \<Rightarrow> bool"
  assumes inv_excl: "inv s \<Longrightarrow> crit s p \<Longrightarrow> crit s q \<Longrightarrow> p = q"
begin

lemma run_excl:
  assumes "inv s" "u \<in> set (sched_trace step may s ps)" "crit u p" "crit u q"
  shows "p = q"
  using inv_excl [OF trace_inv [OF assms(1,2)] assms(3,4)] .

end

text \<open>
  The contract of \<^verbatim>\<open>mutex.h\<close>: besides, a process stays in its critical region until
  it moves itself.
\<close>

locale mutex_system = exclusion step may inv crit
  for step :: "'p \<Rightarrow> 's \<Rightarrow> 's option" and may :: "'s \<Rightarrow> 'p \<Rightarrow> bool" and inv :: "'s \<Rightarrow> bool"
    and crit :: "'s \<Rightarrow> 'p \<Rightarrow> bool" +
  assumes crit_kept: "inv s \<Longrightarrow> may s q \<Longrightarrow> step q s = Some t \<Longrightarrow> p \<noteq> q \<Longrightarrow> crit s p \<Longrightarrow> crit t p"

end
