(* ===== verification/Mutex_Peterson.thy ===== *)
theory Mutex_Peterson
  imports Sched
begin

text \<open>
  \<^verbatim>\<open>mutex_peterson.c\<close>: entering and leaving a critical region with the
  \<^verbatim>\<open>turn\<close> and \<^verbatim>\<open>interested\<close> variables, one shared access per step, for any
  interleaving of the processes on sequentially consistent memory. The order of
  the two stores of \<^verbatim>\<open>mutex_enter\<close> is the code's: \<^verbatim>\<open>turn\<close> first.
\<close>

section \<open>State\<close>

record mutex_peterson_t =
  pm_turn :: "32 word"
  pm_interested :: "int list"

text \<open>A \<^verbatim>\<open>mutex_t\<close>: the process it belongs to and the address it maps.\<close>

record mutex_h =
  mx_id :: "32 word"
  mx_addr :: "unit ptr"

text \<open>
  Where a process is: about to call \<^verbatim>\<open>mutex_enter\<close> (or, past the NULL tests, to
  store \<^verbatim>\<open>turn\<close>), about to store \<^verbatim>\<open>interested\<close>, about to read \<^verbatim>\<open>turn\<close> or
  \<^verbatim>\<open>interested\<close> in the loop condition, or returned from \<^verbatim>\<open>mutex_enter\<close>.
\<close>

datatype pet_pc = Noncrit | Set_interested | Test_turn | Test_other | Crit

record pet_sys =
  ps_mux :: mutex_peterson_t
  ps_pc :: "32 word \<Rightarrow> pet_pc"

section \<open>Operations\<close>

definition int_at :: "int list \<Rightarrow> int \<Rightarrow> int option" where
  "int_at xs i = do { require (0 \<le> i \<and> i < int (length xs)); Some (xs ! nat i) }"

definition int_set :: "int list \<Rightarrow> int \<Rightarrow> int \<Rightarrow> int list option" where
  "int_set xs i v = do { require (0 \<le> i \<and> i < int (length xs)); Some (xs[nat i := v]) }"

text \<open>\<^verbatim>\<open>mux->proc->id % 2\<close> and \<^verbatim>\<open>otherID\<close>.\<close>

definition own_index :: "32 word \<Rightarrow> int" where
  "own_index i = trem (sint i) 2"

definition other_index :: "32 word \<Rightarrow> int" where
  "other_index i = 1 - own_index i"

text \<open>One step of \<^verbatim>\<open>mutex_enter\<close>, with the location reached.\<close>

definition mutex_enter_step ::
  "mutex_h ptr \<Rightarrow> pet_pc \<Rightarrow> mutex_peterson_t \<Rightarrow> (pet_pc \<times> mutex_peterson_t) option" where
  "mutex_enter_step mux pc mp = (case mux of
     NULL \<Rightarrow> Some (Crit, mp)
   | Ptr h \<Rightarrow>
       if mx_addr h = NULL then Some (Crit, mp)
       else (case pc of
         Noncrit \<Rightarrow> Some (Set_interested, mp\<lparr>pm_turn := mx_id h\<rparr>)
       | Set_interested \<Rightarrow> do {
           xs \<leftarrow> int_set (pm_interested mp) (own_index (mx_id h)) 1;
           Some (Test_turn, mp\<lparr>pm_interested := xs\<rparr>) }
       | Test_turn \<Rightarrow> Some (if pm_turn mp = mx_id h then Test_other else Crit, mp)
       | Test_other \<Rightarrow> do {
           v \<leftarrow> int_at (pm_interested mp) (other_index (mx_id h));
           Some (if v = 1 then Test_turn else Crit, mp) }
       | Crit \<Rightarrow> Some (Crit, mp)))"

definition mutex_leave :: "mutex_h ptr \<Rightarrow> mutex_peterson_t \<Rightarrow> mutex_peterson_t option" where
  "mutex_leave mux mp = (case mux of
     NULL \<Rightarrow> Some mp
   | Ptr h \<Rightarrow>
       if mx_addr h = NULL then Some mp
       else do {
         xs \<leftarrow> int_set (pm_interested mp) (own_index (mx_id h)) 0;
         Some (mp\<lparr>pm_interested := xs\<rparr>) })"

text \<open>A process that repeats \<^verbatim>\<open>mutex_enter\<close>, critical work, \<^verbatim>\<open>mutex_leave\<close>.\<close>

definition pet_step :: "(32 word \<Rightarrow> mutex_h ptr) \<Rightarrow> 32 word \<Rightarrow> pet_sys \<Rightarrow> pet_sys option" where
  "pet_step h p s =
     (if ps_pc s p = Crit
      then do { mp \<leftarrow> mutex_leave (h p) (ps_mux s);
                Some (s\<lparr>ps_mux := mp, ps_pc := (ps_pc s)(p := Noncrit)\<rparr>) }
      else do { (pc, mp) \<leftarrow> mutex_enter_step (h p) (ps_pc s p) (ps_mux s);
                Some (s\<lparr>ps_mux := mp, ps_pc := (ps_pc s)(p := pc)\<rparr>) })"

text \<open>
  Shared memory is zeroed when the mutex is created. \<open>own_mutex\<close> is the object
  that \<^verbatim>\<open>mutex_new\<close> gives each process, mapped to the shared memory.
\<close>

definition pet_init :: pet_sys where
  "pet_init = \<lparr>ps_mux = \<lparr>pm_turn = 0, pm_interested = [0, 0]\<rparr>, ps_pc = (\<lambda>_. Noncrit)\<rparr>"

definition own_mutex :: "32 word \<Rightarrow> mutex_h ptr" where
  "own_mutex p = Ptr \<lparr>mx_id = p, mx_addr = Ptr ()\<rparr>"

text \<open>The process ids \<^verbatim>\<open>mutex_peterson.h\<close> assumes: not negative, one even, one odd.\<close>

definition pet_pids :: "32 word \<Rightarrow> 32 word \<Rightarrow> bool" where
  "pet_pids e d \<longleftrightarrow> 0 \<le> sint e \<and> 0 \<le> sint d \<and> even (sint e) \<and> odd (sint d)"

section \<open>Facts about one step\<close>

lemma own_index_even: "0 \<le> sint e \<Longrightarrow> even (sint e) \<Longrightarrow> own_index e = 0 \<and> other_index e = 1"
  by (simp add: own_index_def other_index_def trem_nonneg even_iff_mod_2_eq_zero)

lemma own_index_odd: "0 \<le> sint d \<Longrightarrow> odd (sint d) \<Longrightarrow> own_index d = 1 \<and> other_index d = 0"
  by (simp add: own_index_def other_index_def trem_nonneg odd_iff_mod_2_eq_one)

lemma pet_pids_index:
  assumes "pet_pids e d"
  shows "own_index e = 0" "other_index e = 1" "own_index d = 1" "other_index d = 0" "e \<noteq> d"
  using assms own_index_even [of e] own_index_odd [of d] by (auto simp: pet_pids_def)

lemma int_at_2 [simp]: "int_at [x, y] 0 = Some x" "int_at [x, y] 1 = Some y"
  by (simp_all add: int_at_def)

lemma int_set_2 [simp]: "int_set [x, y] 0 v = Some [v, y]" "int_set [x, y] 1 v = Some [x, v]"
  by (simp_all add: int_set_def)

lemma mutex_enter_own [simp]:
  "mutex_enter_step (own_mutex p) Noncrit mp = Some (Set_interested, mp\<lparr>pm_turn := p\<rparr>)"
  "mutex_enter_step (own_mutex p) Set_interested mp = do {
     xs \<leftarrow> int_set (pm_interested mp) (own_index p) 1; Some (Test_turn, mp\<lparr>pm_interested := xs\<rparr>) }"
  "mutex_enter_step (own_mutex p) Test_turn mp = Some (if pm_turn mp = p then Test_other else Crit, mp)"
  "mutex_enter_step (own_mutex p) Test_other mp = do {
     v \<leftarrow> int_at (pm_interested mp) (other_index p); Some (if v = 1 then Test_turn else Crit, mp) }"
  by (simp_all add: mutex_enter_step_def own_mutex_def)

lemma mutex_leave_own [simp]:
  "mutex_leave (own_mutex p) mp = do {
     xs \<leftarrow> int_set (pm_interested mp) (own_index p) 0; Some (mp\<lparr>pm_interested := xs\<rparr>) }"
  by (simp add: mutex_leave_def own_mutex_def)

section \<open>Mutual exclusion when the two stores are not interrupted\<close>

text \<open>
  The runs in which the other process never moves between the two stores of
  \<^verbatim>\<open>mutex_enter\<close>: of the processes \<open>e\<close> and \<open>d\<close>, one may be picked only if
  the other is not at the second store.
\<close>

definition unbroken :: "32 word \<Rightarrow> 32 word \<Rightarrow> pet_sys \<Rightarrow> 32 word \<Rightarrow> bool" where
  "unbroken e d s p \<longleftrightarrow>
     p = e \<and> ps_pc s d \<noteq> Set_interested \<or> p = d \<and> ps_pc s e \<noteq> Set_interested"

definition in_protocol :: "pet_pc \<Rightarrow> bool" where
  "in_protocol c \<longleftrightarrow> c = Test_turn \<or> c = Test_other \<or> c = Crit"

definition pet_flag :: "pet_pc \<Rightarrow> int" where
  "pet_flag c = (if in_protocol c then 1 else 0)"

text \<open>
  The interest flags say who is past the stores; a process at the loop beside
  one in its region has the turn, and so cannot leave the loop.
\<close>

definition pet_inv :: "32 word \<Rightarrow> 32 word \<Rightarrow> pet_sys \<Rightarrow> bool" where
  "pet_inv e d s \<longleftrightarrow>
     pm_interested (ps_mux s) = [pet_flag (ps_pc s e), pet_flag (ps_pc s d)] \<and>
     (\<forall>p. p \<noteq> e \<and> p \<noteq> d \<longrightarrow> ps_pc s p = Noncrit) \<and>
     (ps_pc s e = Set_interested \<longrightarrow> pm_turn (ps_mux s) = e \<and> ps_pc s d \<noteq> Set_interested) \<and>
     (ps_pc s d = Set_interested \<longrightarrow> pm_turn (ps_mux s) = d \<and> ps_pc s e \<noteq> Set_interested) \<and>
     (in_protocol (ps_pc s e) \<or> in_protocol (ps_pc s d) \<longrightarrow> pm_turn (ps_mux s) = e \<or> pm_turn (ps_mux s) = d) \<and>
     (ps_pc s e = Crit \<and> in_protocol (ps_pc s d) \<longrightarrow> pm_turn (ps_mux s) = d \<and> ps_pc s d \<noteq> Crit) \<and>
     (ps_pc s d = Crit \<and> in_protocol (ps_pc s e) \<longrightarrow> pm_turn (ps_mux s) = e \<and> ps_pc s e \<noteq> Crit)"

lemma pet_inv_init: "pet_inv e d pet_init"
  by (simp add: pet_inv_def pet_init_def pet_flag_def in_protocol_def)

lemmas pet_inv_simps = pet_inv_def pet_flag_def in_protocol_def

text \<open>A step of the even process; the odd one is the mirror image.\<close>

lemma pet_step_even:
  assumes pids: "pet_pids e d" and inv: "pet_inv e d s" and may: "ps_pc s d \<noteq> Set_interested"
  shows "\<exists>t. pet_step own_mutex e s = Some t \<and> pet_inv e d t"
  using inv may pet_pids_index [OF pids]
  by (cases "ps_pc s e"; cases "ps_pc s d") (auto simp: pet_step_def pet_inv_simps)

lemma pet_step_odd:
  assumes pids: "pet_pids e d" and inv: "pet_inv e d s" and may: "ps_pc s e \<noteq> Set_interested"
  shows "\<exists>t. pet_step own_mutex d s = Some t \<and> pet_inv e d t"
  using inv may pet_pids_index [OF pids]
  by (cases "ps_pc s e"; cases "ps_pc s d") (auto simp: pet_step_def pet_inv_simps)

lemma pet_inv_excl:
  assumes inv: "pet_inv e d s" and crit: "ps_pc s p = Crit" "ps_pc s q = Crit"
  shows "p = q"
proof -
  have "ps_pc s r = Crit \<Longrightarrow> r = e \<or> r = d" for r
    using inv unfolding pet_inv_def by (metis pet_pc.distinct(7))
  then have "p = e \<or> p = d" "q = e \<or> q = d" using crit by blast+
  moreover have "\<not> (ps_pc s e = Crit \<and> ps_pc s d = Crit)"
    using inv by (auto simp: pet_inv_def in_protocol_def)
  ultimately show ?thesis using crit by blast
qed

definition pet_ok :: "32 word \<Rightarrow> 32 word \<Rightarrow> pet_sys \<Rightarrow> bool" where
  "pet_ok e d s \<longleftrightarrow> pet_pids e d \<and> pet_inv e d s"

interpretation pet: exclusion "pet_step own_mutex" "unbroken e d" "pet_ok e d" "\<lambda>s p. ps_pc s p = Crit"
  for e d
proof (unfold_locales, goal_cases)
  case (1 s p)
  then show ?case
    using pet_step_even [of e d s] pet_step_odd [of e d s] by (auto simp: pet_ok_def unbroken_def)
next
  case (2 s p q)
  then show ?case using pet_inv_excl by (auto simp: pet_ok_def)
qed

section \<open>Any interleaving\<close>

text \<open>
  Without that restriction the order of the stores admits both processes: one
  claims the turn, the other passes the whole entry while the first is not yet
  interested, and the first, no longer at its turn, passes as well.
\<close>

definition any_pid :: "32 word \<Rightarrow> 32 word \<Rightarrow> pet_sys \<Rightarrow> 32 word \<Rightarrow> bool" where
  "any_pid e d s p \<longleftrightarrow> p = e \<or> p = d"

definition broken_schedule :: "32 word \<Rightarrow> 32 word \<Rightarrow> 32 word list" where
  "broken_schedule e d = [e, d, d, d, d, e, e]"

text \<open>What every interleaving keeps: the flags follow the locations.\<close>

definition pet_flags :: "32 word \<Rightarrow> 32 word \<Rightarrow> pet_sys \<Rightarrow> bool" where
  "pet_flags e d s \<longleftrightarrow> pet_pids e d \<and>
     pm_interested (ps_mux s) = [pet_flag (ps_pc s e), pet_flag (ps_pc s d)]"

lemma pet_flags_step:
  assumes fl: "pet_flags e d s" and p: "p = e \<or> p = d"
  shows "\<exists>t. pet_step own_mutex p s = Some t \<and> pet_flags e d t"
proof -
  have "pet_pids e d" using fl by (simp add: pet_flags_def)
  note i = pet_pids_index [OF this]
  from p show ?thesis
  proof
    assume "p = e"
    with fl i show ?thesis
      by (cases "ps_pc s e") (auto simp: pet_step_def pet_flags_def pet_flag_def in_protocol_def)
  next
    assume "p = d"
    with fl i show ?thesis
      by (cases "ps_pc s d") (auto simp: pet_step_def pet_flags_def pet_flag_def in_protocol_def)
  qed
qed

interpretation pet_any: invariant_system "pet_step own_mutex" "any_pid e d" "pet_flags e d" for e d
  by unfold_locales (simp add: any_pid_def pet_flags_step)

lemma pet_flags_init: "pet_pids e d \<Longrightarrow> pet_flags e d pet_init"
  by (simp add: pet_flags_def pet_init_def pet_flag_def in_protocol_def)

text \<open>Process \<open>p\<close>, alone from state \<open>s\<close>, is in its region after at most two steps.\<close>

definition enters_soon :: "32 word \<Rightarrow> 32 word \<Rightarrow> pet_sys \<Rightarrow> 32 word \<Rightarrow> bool" where
  "enters_soon e d s p \<longleftrightarrow> (\<exists>ps \<in> {[p], [p, p]}.
     \<exists>t. sched_run (pet_step own_mutex) (any_pid e d) s ps = Some t \<and> ps_pc t p = Crit)"

lemma enters_one:
  "p = e \<or> p = d \<Longrightarrow> pet_step own_mutex p s = Some t \<Longrightarrow> ps_pc t p = Crit \<Longrightarrow> enters_soon e d s p"
  by (auto simp: enters_soon_def any_pid_def)

lemma enters_two:
  "p = e \<or> p = d \<Longrightarrow> pet_step own_mutex p s = Some t \<Longrightarrow> pet_step own_mutex p t = Some u \<Longrightarrow>
   ps_pc u p = Crit \<Longrightarrow> enters_soon e d s p"
  by (auto simp: enters_soon_def any_pid_def)

text \<open>What a process in the loop does in one step.\<close>

lemma pet_step_turn:
  assumes "ps_pc s p = Test_turn"
  shows "pet_step own_mutex p s = Some (s\<lparr>ps_pc := (ps_pc s)
    (p := if pm_turn (ps_mux s) = p then Test_other else Crit)\<rparr>)"
  using assms by (simp add: pet_step_def)

lemma pet_step_other:
  assumes "ps_pc s p = Test_other" "int_at (pm_interested (ps_mux s)) (other_index p) = Some v"
  shows "pet_step own_mutex p s = Some (s\<lparr>ps_pc := (ps_pc s)(p := if v = 1 then Test_turn else Crit)\<rparr>)"
  using assms by (simp add: pet_step_def)

lemma pet_other_flag:
  assumes "pet_flags e d s" "p = e \<and> q = d \<or> p = d \<and> q = e"
  shows "int_at (pm_interested (ps_mux s)) (other_index p) = Some (pet_flag (ps_pc s q))"
proof -
  have "pet_pids e d" using assms(1) by (simp add: pet_flags_def)
  from pet_pids_index [OF this] assms show ?thesis by (auto simp: pet_flags_def)
qed

text \<open>A process in the loop that does not have the turn leaves it by at most two own steps.\<close>

lemma pet_solo_turn:
  assumes fl: "pet_flags e d s" and pq: "p = e \<and> q = d \<or> p = d \<and> q = e"
    and turn: "pm_turn (ps_mux s) \<noteq> p"
    and loop: "ps_pc s p = Test_turn \<or> ps_pc s p = Test_other"
  shows "enters_soon e d s p"
proof -
  have p: "p = e \<or> p = d" using pq by blast
  from loop show ?thesis
  proof
    assume "ps_pc s p = Test_turn"
    with turn show ?thesis by (intro enters_one [OF p pet_step_turn]) simp_all
  next
    assume other: "ps_pc s p = Test_other"
    note step = pet_step_other [OF other pet_other_flag [OF fl pq]]
    show ?thesis
    proof (cases "pet_flag (ps_pc s q) = 1")
      case True
      with turn show ?thesis by (intro enters_two [OF p step pet_step_turn]) simp_all
    next
      case False
      then show ?thesis by (intro enters_one [OF p step]) simp
    qed
  qed
qed

text \<open>A process in the loop whose rival is not interested leaves it as well.\<close>

lemma pet_solo_free:
  assumes fl: "pet_flags e d s" and pq: "p = e \<and> q = d \<or> p = d \<and> q = e"
    and free: "\<not> in_protocol (ps_pc s q)"
    and loop: "ps_pc s p = Test_turn \<or> ps_pc s p = Test_other"
  shows "enters_soon e d s p"
proof (cases "pm_turn (ps_mux s) = p")
  case False
  then show ?thesis by (rule pet_solo_turn [OF fl pq _ loop])
next
  case True
  have p: "p = e \<or> p = d" using pq by blast
  have v: "int_at (pm_interested (ps_mux s)) (other_index p) = Some 0"
    using pet_other_flag [OF fl pq] free by (simp add: pet_flag_def)
  from loop show ?thesis
  proof
    assume "ps_pc s p = Test_turn"
    with True v show ?thesis
      by (intro enters_two [OF p pet_step_turn pet_step_other [where v = 0]]) simp_all
  next
    assume "ps_pc s p = Test_other"
    with v show ?thesis by (intro enters_one [OF p pet_step_other [where v = 0]]) simp_all
  qed
qed

section \<open>Properties\<close>

text \<open>
  C6: mutual exclusion fails. For every even and odd process id the interleaving
  in which the first process is stopped between its two stores, while the other
  enters, ends with both processes in the critical region: \<^verbatim>\<open>mutex_enter\<close>
  stores \<^verbatim>\<open>turn\<close> before \<^verbatim>\<open>interested\<close>, where Peterson's algorithm needs the
  opposite order.
\<close>

theorem peterson_not_exclusive:
  assumes "pet_pids e d"
  shows "\<exists>s. sched_run (pet_step own_mutex) (any_pid e d) pet_init (broken_schedule e d) = Some s \<and>
    ps_pc s e = Crit \<and> ps_pc s d = Crit"
  using pet_pids_index [OF assms]
  by (simp add: broken_schedule_def any_pid_def pet_step_def pet_init_def)

lemma peterson_not_exclusive_witness:
  "\<exists>s. sched_run (pet_step own_mutex) (any_pid 100 101) pet_init (broken_schedule 100 101) = Some s \<and>
    ps_pc s 100 = Crit \<and> ps_pc s 101 = Crit"
  by (rule peterson_not_exclusive) (simp add: pet_pids_def)

text \<open>
  The protocol is otherwise sound: in every interleaving of an even and an odd
  process in which neither is interrupted by a move of the other between its two
  stores, no state on the way has both in the critical region.
\<close>

theorem peterson_exclusive_unbroken:
  assumes "pet_pids e d"
    and "u \<in> set (sched_trace (pet_step own_mutex) (unbroken e d) pet_init ps)"
    and "ps_pc u p = Crit" "ps_pc u q = Crit"
  shows "p = q"
  using pet.run_excl [OF _ assms(2,3,4)] assms(1) pet_inv_init by (simp add: pet_ok_def)

lemma peterson_exclusive_unbroken_witness:
  "\<exists>u. u \<in> set (sched_trace (pet_step own_mutex) (unbroken 100 101) pet_init [100, 100, 100, 100, 101]) \<and>
    ps_pc u 100 = Crit \<and> (\<forall>q. ps_pc u q = Crit \<longrightarrow> 100 = q)"
proof -
  have pids: "pet_pids 100 101" by (simp add: pet_pids_def)
  note i = pet_pids_index [OF pids]
  have "\<exists>u. sched_run (pet_step own_mutex) (unbroken 100 101) pet_init [100, 100, 100, 100, 101] = Some u \<and>
    ps_pc u 100 = Crit"
    using i by (simp add: unbroken_def pet_step_def pet_init_def)
  then obtain u where u: "sched_run (pet_step own_mutex) (unbroken 100 101) pet_init [100, 100, 100, 100, 101] = Some u"
    and c: "ps_pc u 100 = Crit" by (elim exE conjE)
  show ?thesis
    by (intro exI [of _ u] conjI allI impI sched_trace_last [OF u] c
        peterson_exclusive_unbroken [OF pids sched_trace_last [OF u] c])
qed

text \<open>
  C33: no deadlock under any interleaving: when both processes are in the waiting
  loop, one of them, run on its own, is in its critical region after at most two
  of its steps.
\<close>

theorem peterson_no_deadlock:
  assumes "pet_pids e d"
    and "u \<in> set (sched_trace (pet_step own_mutex) (any_pid e d) pet_init ps)"
    and "ps_pc u e = Test_turn \<or> ps_pc u e = Test_other"
    and "ps_pc u d = Test_turn \<or> ps_pc u d = Test_other"
  shows "enters_soon e d u e \<or> enters_soon e d u d"
proof -
  have fl: "pet_flags e d u" by (rule pet_any.trace_inv [OF pet_flags_init [OF assms(1)] assms(2)])
  have "e \<noteq> d" by (rule pet_pids_index(5) [OF assms(1)])
  then have "pm_turn (ps_mux u) \<noteq> e \<or> pm_turn (ps_mux u) \<noteq> d" by auto
  then show ?thesis
    using pet_solo_turn [OF fl, of e d] pet_solo_turn [OF fl, of d e] assms(3,4) by blast
qed

lemma peterson_no_deadlock_witness:
  "\<exists>u. u \<in> set (sched_trace (pet_step own_mutex) (any_pid 100 101) pet_init [100, 101, 100, 101]) \<and>
    (enters_soon 100 101 u 100 \<or> enters_soon 100 101 u 101)"
proof -
  have pids: "pet_pids 100 101" by (simp add: pet_pids_def)
  have "\<exists>u. sched_run (pet_step own_mutex) (any_pid 100 101) pet_init [100, 101, 100, 101] = Some u \<and>
    ps_pc u 100 = Test_turn \<and> ps_pc u 101 = Test_turn"
    using pet_pids_index [OF pids] by (simp add: any_pid_def pet_step_def pet_init_def)
  then obtain u where u: "sched_run (pet_step own_mutex) (any_pid 100 101) pet_init [100, 101, 100, 101] = Some u"
    and c: "ps_pc u 100 = Test_turn" "ps_pc u 101 = Test_turn" by (elim exE conjE)
  show ?thesis
    by (intro exI [of _ u] conjI sched_trace_last [OF u]
        peterson_no_deadlock [OF pids sched_trace_last [OF u]] disjI1 c)
qed

text \<open>
  A process in the waiting loop is let in, whatever happened before, when the
  other one is not interested: after \<^verbatim>\<open>mutex_leave\<close> the region is available, with
  no need to alternate.
\<close>

theorem peterson_free_entry:
  assumes "pet_pids e d" "p = e \<and> q = d \<or> p = d \<and> q = e"
    and "u \<in> set (sched_trace (pet_step own_mutex) (any_pid e d) pet_init ps)"
    and "ps_pc u p = Test_turn \<or> ps_pc u p = Test_other"
    and "ps_pc u q = Noncrit \<or> ps_pc u q = Set_interested"
  shows "enters_soon e d u p"
proof -
  have fl: "pet_flags e d u" by (rule pet_any.trace_inv [OF pet_flags_init [OF assms(1)] assms(3)])
  show ?thesis by (rule pet_solo_free [OF fl assms(2) _ assms(4)]) (use assms(5) in \<open>auto simp: in_protocol_def\<close>)
qed

lemma peterson_free_entry_witness:
  "\<exists>u. u \<in> set (sched_trace (pet_step own_mutex) (any_pid 100 101) pet_init [101, 101]) \<and>
    enters_soon 100 101 u 101"
proof -
  have pids: "pet_pids 100 101" by (simp add: pet_pids_def)
  have "\<exists>u. sched_run (pet_step own_mutex) (any_pid 100 101) pet_init [101, 101] = Some u \<and>
    ps_pc u 101 = Test_turn \<and> ps_pc u 100 = Noncrit"
    using pet_pids_index [OF pids] by (simp add: any_pid_def pet_step_def pet_init_def)
  then obtain u where u: "sched_run (pet_step own_mutex) (any_pid 100 101) pet_init [101, 101] = Some u"
    and c: "ps_pc u 101 = Test_turn" "ps_pc u 100 = Noncrit" by (elim exE conjE)
  show ?thesis
    using peterson_free_entry [OF pids, where p = 101 and q = 100, OF _ sched_trace_last [OF u]]
      sched_trace_last [OF u] c by (intro exI [of _ u]) simp
qed

text \<open>
  The assumption on process ids is needed: with a negative odd id the store to
  \<^verbatim>\<open>interested\<close> is outside the array (the remainder is -1), and two processes
  whose ids have the same parity share one element, so that either's leaving
  withdraws the other's interest.
\<close>

theorem peterson_needs_pids:
  assumes "length (pm_interested mp) = 2"
  shows "(sint p < 0 \<and> odd (sint p) \<longrightarrow> mutex_enter_step (own_mutex p) Set_interested mp = None) \<and>
    (0 \<le> sint p \<and> 0 \<le> sint q \<and> even (sint p) = even (sint q) \<longrightarrow>
      (\<exists>mp'. mutex_leave (own_mutex p) mp = Some mp' \<and> int_at (pm_interested mp') (own_index q) = Some 0))"
proof (intro conjI impI)
  assume p: "sint p < 0 \<and> odd (sint p)"
  then have "\<bar>sint p\<bar> mod 2 = 1" by presburger
  then have "own_index p = -1"
    using p minus_mult_div_eq_mod [of "\<bar>sint p\<bar>" 2]
    by (simp add: own_index_def trem_def tquot_def sgn_if)
  then show "mutex_enter_step (own_mutex p) Set_interested mp = None"
    by (simp add: int_set_def)
next
  obtain x y where xs: "pm_interested mp = [x, y]"
    using assms by (metis (no_types, opaque_lifting) One_nat_def Suc_1 length_0_conv length_Suc_conv)
  assume a: "0 \<le> sint p \<and> 0 \<le> sint q \<and> even (sint p) = even (sint q)"
  then show "\<exists>mp'. mutex_leave (own_mutex p) mp = Some mp' \<and> int_at (pm_interested mp') (own_index q) = Some 0"
    using own_index_even [of p] own_index_even [of q] own_index_odd [of p] own_index_odd [of q] xs
    by (cases "even (sint p)") auto
qed

lemma peterson_needs_pids_witness:
  "mutex_enter_step (own_mutex (-1)) Set_interested \<lparr>pm_turn = 0, pm_interested = [0, 0]\<rparr> = None"
  using peterson_needs_pids [of "\<lparr>pm_turn = 0, pm_interested = [0, 0]\<rparr>" "-1" 0] by simp

end
