(* ===== verification/Mutex_Lockvar.thy ===== *)
theory Mutex_Lockvar
  imports Sched
begin

text \<open>
  \<^verbatim>\<open>mutex_lockvar.c\<close> and \<^verbatim>\<open>mutex_noop.c\<close>: the lock variable, tested and set by
  two separate accesses, and the mutex that does nothing, for any number of
  processes and any interleaving on sequentially consistent memory.
\<close>

section \<open>The lock variable\<close>

text \<open>
  Where a process is: about to read \<^verbatim>\<open>*lock\<close> in the loop condition (which is also
  where it is before it calls \<^verbatim>\<open>mutex_enter\<close>), past the loop and about to store
  1, or returned from \<^verbatim>\<open>mutex_enter\<close>.
\<close>

datatype lock_pc = Spinning | Passed | Holding

record lock_sys =
  ls_lock :: "16 word"
  ls_pc :: "nat \<Rightarrow> lock_pc"

text \<open>A \<^verbatim>\<open>mutex_t*\<close> is the address it maps; using a NULL address is undefined.\<close>

definition lock_enter_step ::
  "unit ptr ptr \<Rightarrow> lock_pc \<Rightarrow> 16 word \<Rightarrow> (lock_pc \<times> 16 word) option" where
  "lock_enter_step mux pc lock = (case mux of
     NULL \<Rightarrow> Some (Holding, lock)
   | Ptr addr \<Rightarrow> do {
       require (addr \<noteq> NULL);
       (case pc of
          Spinning \<Rightarrow> Some (if lock \<noteq> 0 then Spinning else Passed, lock)
        | Passed \<Rightarrow> Some (Holding, 1)
        | Holding \<Rightarrow> Some (Holding, lock)) })"

definition lock_leave :: "unit ptr ptr \<Rightarrow> 16 word \<Rightarrow> 16 word option" where
  "lock_leave mux lock = (case mux of
     NULL \<Rightarrow> Some lock
   | Ptr addr \<Rightarrow> do { require (addr \<noteq> NULL); Some 0 })"

definition lock_step :: "unit ptr ptr \<Rightarrow> nat \<Rightarrow> lock_sys \<Rightarrow> lock_sys option" where
  "lock_step mux p s =
     (if ls_pc s p = Holding
      then do { lk \<leftarrow> lock_leave mux (ls_lock s);
                Some (s\<lparr>ls_lock := lk, ls_pc := (ls_pc s)(p := Spinning)\<rparr>) }
      else do { (pc, lk) \<leftarrow> lock_enter_step mux (ls_pc s p) (ls_lock s);
                Some (s\<lparr>ls_lock := lk, ls_pc := (ls_pc s)(p := pc)\<rparr>) })"

definition lock_init :: lock_sys where
  "lock_init = \<lparr>ls_lock = 0, ls_pc = (\<lambda>_. Spinning)\<rparr>"

abbreviation shared_lock :: "unit ptr ptr" where
  "shared_lock \<equiv> Ptr (Ptr ())"

lemma lock_step_cases:
  "lock_step shared_lock p s = Some (case ls_pc s p of
     Spinning \<Rightarrow> s\<lparr>ls_pc := (ls_pc s)(p := if ls_lock s \<noteq> 0 then Spinning else Passed)\<rparr>
   | Passed \<Rightarrow> s\<lparr>ls_lock := 1, ls_pc := (ls_pc s)(p := Holding)\<rparr>
   | Holding \<Rightarrow> s\<lparr>ls_lock := 0, ls_pc := (ls_pc s)(p := Spinning)\<rparr>)"
  by (cases "ls_pc s p") (simp_all add: lock_step_def lock_enter_step_def lock_leave_def)

text \<open>A lock that is taken has a holder, in every interleaving.\<close>

definition lock_held :: "lock_sys \<Rightarrow> bool" where
  "lock_held s \<longleftrightarrow> (ls_lock s \<noteq> 0 \<longrightarrow> (\<exists>p. ls_pc s p = Holding))"

interpretation lock_any: invariant_system "lock_step shared_lock" "\<lambda>_ _. True" lock_held
proof (unfold_locales, goal_cases)
  case (1 s p)
  then show ?case
    by (cases "ls_pc s p"; cases "ls_lock s = 0")
      (auto simp: lock_step_cases lock_held_def fun_upd_idem)
qed

text \<open>
  The runs in which no process moves between another's test and its store:
  those, and only those, treat test and store as one action.
\<close>

definition test_and_set :: "lock_sys \<Rightarrow> nat \<Rightarrow> bool" where
  "test_and_set s p \<longleftrightarrow> (\<forall>q. q \<noteq> p \<longrightarrow> ls_pc s q \<noteq> Passed)"

definition lock_inv :: "lock_sys \<Rightarrow> bool" where
  "lock_inv s \<longleftrightarrow> (\<forall>p q. ls_pc s p \<noteq> Spinning \<longrightarrow> ls_pc s q \<noteq> Spinning \<longrightarrow> p = q) \<and>
     (\<forall>p. ls_pc s p = Holding \<longrightarrow> ls_lock s \<noteq> 0)"

text \<open>One process beside spinning ones: the shape of every state of these runs.\<close>

lemma lock_inv_single:
  "\<forall>q. q \<noteq> p \<longrightarrow> ls_pc t q = Spinning \<Longrightarrow> ls_pc t p = Holding \<longrightarrow> ls_lock t \<noteq> 0 \<Longrightarrow> lock_inv t"
  unfolding lock_inv_def by (metis lock_pc.distinct(3))

lemma lock_others:
  assumes inv: "lock_inv s" and may: "test_and_set s p"
    and move: "ls_pc s p = Spinning \<longrightarrow> ls_lock s = 0"
  shows "\<forall>q. q \<noteq> p \<longrightarrow> ls_pc s q = Spinning"
proof (intro allI impI)
  fix q assume "q \<noteq> p"
  show "ls_pc s q = Spinning"
  proof (cases "ls_pc s p")
    case Spinning
    then have "ls_pc s q \<noteq> Holding" using inv move unfolding lock_inv_def by blast
    moreover have "ls_pc s q \<noteq> Passed" using may \<open>q \<noteq> p\<close> by (simp add: test_and_set_def)
    ultimately show ?thesis by (cases "ls_pc s q") simp_all
  next
    case Passed
    then show ?thesis using inv \<open>q \<noteq> p\<close> unfolding lock_inv_def by (metis lock_pc.distinct(1))
  next
    case Holding
    then show ?thesis using inv \<open>q \<noteq> p\<close> unfolding lock_inv_def by (metis lock_pc.distinct(3))
  qed
qed

interpretation lock_tas: exclusion "lock_step shared_lock" test_and_set lock_inv
  "\<lambda>s p. ls_pc s p = Holding"
proof (unfold_locales, goal_cases)
  case (1 s p)
  show ?case
  proof (cases "ls_pc s p = Spinning \<and> ls_lock s \<noteq> 0")
    case True
    then show ?thesis using 1(1) by (simp add: lock_step_cases fun_upd_idem)
  next
    case False
    then have "\<forall>q. q \<noteq> p \<longrightarrow> ls_pc s q = Spinning" using lock_others [OF 1] by blast
    then show ?thesis using False
      by (cases "ls_pc s p") (auto simp: lock_step_cases intro!: lock_inv_single [of p])
  qed
next
  case (2 s p q)
  then show ?case unfolding lock_inv_def by (metis lock_pc.distinct(3))
qed

section \<open>The mutex that does nothing\<close>

text \<open>Both functions return at once and leave whatever memory \<open>m\<close> there is alone.\<close>

definition noop_enter :: "unit ptr \<Rightarrow> 'm \<Rightarrow> 'm" where
  "noop_enter mux m = m"

definition noop_leave :: "unit ptr \<Rightarrow> 'm \<Rightarrow> 'm" where
  "noop_leave mux m = m"

text \<open>Processes that enter and leave in turn; \<open>inside p\<close> between the two calls.\<close>

definition noop_step :: "unit ptr \<Rightarrow> nat \<Rightarrow> 'm \<times> (nat \<Rightarrow> bool) \<Rightarrow> ('m \<times> (nat \<Rightarrow> bool)) option" where
  "noop_step mux p s = (case s of (m, inside) \<Rightarrow>
     Some (if inside p then noop_leave mux m else noop_enter mux m, inside(p := \<not> inside p)))"

section \<open>Properties\<close>

text \<open>
  The lock variable does not exclude: any two processes that both read 0
  before either stores 1 are both inside.
\<close>

theorem lockvar_not_exclusive:
  assumes "p \<noteq> q"
  shows "\<exists>s. sched_run (lock_step shared_lock) (\<lambda>_ _. True) lock_init [p, q, p, q] = Some s \<and>
    ls_pc s p = Holding \<and> ls_pc s q = Holding"
  using assms by (simp add: lock_step_cases lock_init_def)

lemma lockvar_not_exclusive_witness:
  "\<exists>s. sched_run (lock_step shared_lock) (\<lambda>_ _. True) lock_init [0, 1, 0, 1] = Some s \<and>
    ls_pc s 0 = Holding \<and> ls_pc s 1 = Holding"
  by (rule lockvar_not_exclusive) simp

text \<open>
  In every interleaving of any number of processes in which nobody moves
  between another's last test of the lock and its store, at most one process is
  inside in every state on the way.
\<close>

theorem lockvar_exclusive_atomic:
  assumes "u \<in> set (sched_trace (lock_step shared_lock) test_and_set lock_init ps)"
    and "ls_pc u p = Holding" "ls_pc u q = Holding"
  shows "p = q"
  using lock_tas.run_excl [OF _ assms] by (simp add: lock_inv_def lock_init_def)

lemma lockvar_exclusive_atomic_witness:
  "\<exists>u \<in> set (sched_trace (lock_step shared_lock) test_and_set lock_init [3, 3, 4]).
    ls_pc u 3 = Holding \<and> (\<forall>q. ls_pc u q = Holding \<longrightarrow> 3 = q)"
proof -
  have "\<exists>u \<in> set (sched_trace (lock_step shared_lock) test_and_set lock_init [3, 3, 4]). ls_pc u 3 = Holding"
    by (simp add: lock_step_cases lock_init_def test_and_set_def)
  then show ?thesis using lockvar_exclusive_atomic by blast
qed

text \<open>
  In every interleaving a lock found taken has a holder, and when there is none
  a waiting process, run on its own, is inside after two steps; a holder's
  \<^verbatim>\<open>mutex_leave\<close> frees the lock even if another process is inside as well.
\<close>

theorem lockvar_available:
  assumes "u \<in> set (sched_trace (lock_step shared_lock) (\<lambda>_ _. True) lock_init ps)"
  shows "((\<forall>q. ls_pc u q \<noteq> Holding) \<longrightarrow> ls_pc u p = Spinning \<longrightarrow>
      (\<exists>t. sched_run (lock_step shared_lock) (\<lambda>_ _. True) u [p, p] = Some t \<and> ls_pc t p = Holding)) \<and>
    (ls_pc u p = Holding \<longrightarrow> (\<exists>t. lock_step shared_lock p u = Some t \<and> ls_lock t = 0 \<and>
      (\<forall>q. q \<noteq> p \<longrightarrow> ls_pc t q = ls_pc u q)))"
proof -
  have "lock_held u" by (rule lock_any.trace_inv [OF _ assms]) (simp add: lock_held_def lock_init_def)
  then show ?thesis by (auto simp: lock_held_def lock_step_cases)
qed

lemma lockvar_available_witness:
  "\<exists>t. sched_run (lock_step shared_lock) (\<lambda>_ _. True) lock_init [5, 5] = Some t \<and> ls_pc t 5 = Holding"
  using lockvar_available [of lock_init "[]" 5] by (simp add: lock_init_def)

end
