(* ===== verification/Mutex_Shm.thy ===== *)
theory Mutex_Shm
  imports Ipc Mutex_Peterson Mutex_Lockvar
begin

text \<open>
  Creating and deleting the three mutexes of \<^verbatim>\<open>mutex.h\<close>: the shared memory of
  \<^verbatim>\<open>mutex_peterson.c\<close> and \<^verbatim>\<open>mutex_lockvar.c\<close> comes from \<^verbatim>\<open>ipc.c\<close> (theory \<open>Ipc\<close>),
  that of \<^verbatim>\<open>mutex_noop.c\<close> is a block of the process's own. The contents of the
  shared objects are the values that the entry protocols work on.
\<close>

section \<open>Operations\<close>

definition SIZEOF_PETERSON :: nat where "SIZEOF_PETERSON = 12"
definition SIZEOF_LOCKVAR :: nat where "SIZEOF_LOCKVAR = 2"
definition SIZEOF_NOOP :: nat where "SIZEOF_NOOP = 4"

definition peterson_zero :: mutex_peterson_t where
  "peterson_zero = \<lparr>pm_turn = 0, pm_interested = [0, 0]\<rparr>"

type_synonym 'v cells = "nat \<times> (nat \<Rightarrow> 'v)"

definition peterson_new ::
  "ipc_faults \<Rightarrow> proc_t ptr \<Rightarrow> mutex_peterson_t cells os \<Rightarrow> (ipc_t ptr \<times> mutex_peterson_t cells os) option" where
  "peterson_new fz proc os = (case proc of
     NULL \<Rightarrow> Some (NULL, os\<lparr>os_errno := EINVAL\<rparr>)
   | Ptr _ \<Rightarrow> ipc_new (cell_ops peterson_zero) fz proc (Ptr (''mux_peters'' @ [NUL])) SIZEOF_PETERSON os)"

definition peterson_delete :: "ipc_t ptr \<Rightarrow> mutex_peterson_t cells os \<Rightarrow> mutex_peterson_t cells os option" where
  "peterson_delete mux os = ipc_delete mux os"

definition lockvar_new ::
  "ipc_faults \<Rightarrow> proc_t ptr \<Rightarrow> 16 word cells os \<Rightarrow> (ipc_t ptr \<times> 16 word cells os) option" where
  "lockvar_new fz proc os =
     ipc_new (cell_ops 0) fz proc (Ptr (''mux_lockvar'' @ [NUL])) SIZEOF_LOCKVAR os"

definition lockvar_delete :: "ipc_t ptr \<Rightarrow> 16 word cells os \<Rightarrow> 16 word cells os option" where
  "lockvar_delete mux os = ipc_delete mux os"

text \<open>The handle is the block of \<^verbatim>\<open>malloc\<close>; its contents are never read.\<close>

definition noop_new :: "ipc_faults \<Rightarrow> proc_t ptr \<Rightarrow> 's os \<Rightarrow> unit ptr \<times> 's os" where
  "noop_new fz proc os = (case proc of
     NULL \<Rightarrow> (NULL, os\<lparr>os_errno := EINVAL\<rparr>)
   | Ptr _ \<Rightarrow>
       if f_malloc fz then (Ptr (), os\<lparr>os_blocks := Suc (os_blocks os)\<rparr>)
       else (NULL, os\<lparr>os_errno := f_err fz\<rparr>))"

definition noop_delete :: "unit ptr \<Rightarrow> 's os \<Rightarrow> 's os option" where
  "noop_delete mux os = (case mux of NULL \<Rightarrow> Some os | Ptr _ \<Rightarrow> free_block os)"

section \<open>Facts\<close>

lemma mux_labels:
  "label_text (Ptr (''mux_peters'' @ [NUL])) = Some ''mux_peters''"
  "label_text (Ptr (''mux_lockvar'' @ [NUL])) = Some ''mux_lockvar''"
  by (simp_all add: label_text_def NUL_def)

lemma cell_ops_new: "ob_new (cell_ops z) (k, c) = (k, (Suc k, c(k := z)))"
  by (simp add: cell_ops_def)

lemma cell_ops_zero: "ob_zero (cell_ops z) n (k, c) = (k, c(n := z))"
  by (simp add: cell_ops_def)

text \<open>Two processes that make a mutex of one label share an object with the zero value.\<close>

lemma mutex_pair:
  assumes lab: "label_text label \<noteq> None" and usr: "user_ok (os_user os)" and fz: "no_fault fz" "no_fault fz'"
    and pq: "pr_is_init p" "\<not> pr_is_init q" and sz: "0 < sz" and mem: "os_mem os = (k, c)"
  shows "\<exists>i os1 j os2. ipc_new (cell_ops z) fz (Ptr p) label sz os = Some (Ptr i, os1) \<and>
    ipc_new (cell_ops z) fz' (Ptr q) label sz os1 = Some (Ptr j, os2) \<and>
    ip_addr i = Ptr k \<and> ip_addr j = Ptr k \<and> ip_proc i = p \<and> ip_proc j = q \<and> snd (os_mem os2) k = z"
proof -
  have sz: "sz \<noteq> 0" using sz by simp
  obtain name os1 where 1: "ipc_new (cell_ops z) fz (Ptr p) label sz os
      = Some (Ptr \<lparr>ip_proc = p, ip_name = name, ip_addr = Ptr k\<rparr>, os1)"
    "os_shm os1 = (os_shm os)(shm_name os label \<mapsto> k)" "os_mem os1 = ob_zero (cell_ops z) k (Suc k, c(k := z))"
    "os_user os1 = os_user os"
    using ipc_new_init [OF lab usr fz(1) pq(1) sz, of "cell_ops z" k "(Suc k, c(k := z))"]
    by (auto simp: mem cell_ops_new)
  have "shm_name os1 label = shm_name os label" by (simp only: shm_name_def 1(4))
  then have at: "os_shm os1 (shm_name os1 label) = Some k" and "user_ok (os_user os1)"
    using 1(2,4) usr by simp_all
  from ipc_new_attach [OF lab this(2) fz(2) pq(2) sz at]
  obtain name2 os2 where "ipc_new (cell_ops z) fz' (Ptr q) label sz os1
      = Some (Ptr \<lparr>ip_proc = q, ip_name = name2, ip_addr = Ptr k\<rparr>, os2)" "os_mem os2 = os_mem os1"
    by blast
  with 1 show ?thesis
    by (intro exI [of _ "\<lparr>ip_proc = p, ip_name = name, ip_addr = Ptr k\<rparr>"] exI [of _ os1]
        exI [of _ "\<lparr>ip_proc = q, ip_name = name2, ip_addr = Ptr k\<rparr>"] exI [of _ os2]) (simp add: cell_ops_zero)
qed

section \<open>Properties\<close>

text \<open>The handle \<^verbatim>\<open>mutex_enter\<close> sees: the process id and whether memory is mapped.\<close>

definition handle_of :: "ipc_t \<Rightarrow> mutex_h ptr" where
  "handle_of i = Ptr \<lparr>mx_id = pr_id (ip_proc i), mx_addr = (case ip_addr i of NULL \<Rightarrow> NULL | Ptr _ \<Rightarrow> Ptr ())\<rparr>"

text \<open>
  An init process and another one that create the Peterson mutex, or the lock
  variable, get handles on one shared object, in the state from which the entry
  protocols start; each Peterson handle carries the id of its own process.
\<close>

theorem mutex_setup:
  assumes "user_ok (os_user os)" "user_ok (os_user os')" "no_fault fz" "no_fault fz'"
    and "pr_is_init p" "\<not> pr_is_init q"
  shows "(\<exists>i os1 j os2. peterson_new fz (Ptr p) os = Some (Ptr i, os1) \<and> peterson_new fz' (Ptr q) os1 = Some (Ptr j, os2) \<and>
      (\<exists>a. ip_addr i = Ptr a \<and> ip_addr j = Ptr a \<and> snd (os_mem os2) a = ps_mux pet_init) \<and>
      handle_of i = own_mutex (pr_id p) \<and> handle_of j = own_mutex (pr_id q)) \<and>
    (\<exists>i os1 j os2. lockvar_new fz (Ptr p) os' = Some (Ptr i, os1) \<and> lockvar_new fz' (Ptr q) os1 = Some (Ptr j, os2) \<and>
      (\<exists>a. ip_addr i = Ptr a \<and> ip_addr j = Ptr a \<and> snd (os_mem os2) a = ls_lock lock_init))"
proof
  obtain k c where m: "os_mem os = (k, c)" by (cases "os_mem os")
  have lab: "label_text (Ptr (''mux_peters'' @ [NUL])) \<noteq> None" "0 < SIZEOF_PETERSON"
    unfolding mux_labels by (simp_all add: SIZEOF_PETERSON_def)
  from mutex_pair [OF lab(1) assms(1,3,4,5,6) lab(2) m, of peterson_zero]
  show "\<exists>i os1 j os2. peterson_new fz (Ptr p) os = Some (Ptr i, os1) \<and> peterson_new fz' (Ptr q) os1 = Some (Ptr j, os2) \<and>
      (\<exists>a. ip_addr i = Ptr a \<and> ip_addr j = Ptr a \<and> snd (os_mem os2) a = ps_mux pet_init) \<and>
      handle_of i = own_mutex (pr_id p) \<and> handle_of j = own_mutex (pr_id q)"
    by (fastforce simp: peterson_new_def handle_of_def own_mutex_def pet_init_def peterson_zero_def)
next
  obtain k c where m: "os_mem os' = (k, c)" by (cases "os_mem os'")
  have lab: "label_text (Ptr (''mux_lockvar'' @ [NUL])) \<noteq> None" "0 < SIZEOF_LOCKVAR"
    unfolding mux_labels by (simp_all add: SIZEOF_LOCKVAR_def)
  from mutex_pair [OF lab(1) assms(2,3,4,5,6) lab(2) m, of 0]
  show "\<exists>i os1 j os2. lockvar_new fz (Ptr p) os' = Some (Ptr i, os1) \<and> lockvar_new fz' (Ptr q) os1 = Some (Ptr j, os2) \<and>
      (\<exists>a. ip_addr i = Ptr a \<and> ip_addr j = Ptr a \<and> snd (os_mem os2) a = ls_lock lock_init)"
    by (fastforce simp: lockvar_new_def lock_init_def)
qed

lemma mutex_setup_witness:
  "\<exists>i os1. peterson_new all_ok (Ptr (proc_of BWAIT_PROD_PROC 100 True \<lparr>w_min = 0, w_max = 0\<rparr> \<lparr>w_min = 0, w_max = 0\<rparr>))
      (os_start (0, \<lambda>_. peterson_zero)) = Some (Ptr i, os1) \<and> handle_of i = own_mutex 100"
proof -
  have "user_ok (os_user (os_start (0, \<lambda>_. peterson_zero)))" "user_ok (os_user (os_start (0, \<lambda>_. 0)))"
    by (simp_all add: os_start_def user_ok_def)
  from mutex_setup [OF this no_fault_all_ok no_fault_all_ok,
      of "proc_of BWAIT_PROD_PROC 100 True \<lparr>w_min = 0, w_max = 0\<rparr> \<lparr>w_min = 0, w_max = 0\<rparr>"
        "proc_of BWAIT_CONS_PROC 101 False \<lparr>w_min = 0, w_max = 0\<rparr> \<lparr>w_min = 0, w_max = 0\<rparr>"]
  show ?thesis by (auto simp: proc_of_def)
qed

text \<open>
  The mutex that does nothing admits any two processes, and what
  \<^verbatim>\<open>mutex_new\<close> allocates for it \<^verbatim>\<open>mutex_delete\<close> gives back.
\<close>

theorem noop_not_exclusive:
  assumes "p \<noteq> q"
  shows "(\<exists>inside. sched_run (noop_step mux) (\<lambda>_ _. True) (m, \<lambda>_. False) [p, q] = Some (m, inside) \<and>
      inside p \<and> inside q) \<and>
    (noop_new fz r os = (h, os') \<longrightarrow> (\<exists>os''. noop_delete h os' = Some os'' \<and> os_blocks os'' = os_blocks os))"
  using assms
  by (auto simp: noop_step_def noop_enter_def noop_leave_def noop_new_def noop_delete_def split: ptr.splits if_splits)

lemma noop_not_exclusive_witness:
  "\<exists>inside. sched_run (noop_step (Ptr ())) (\<lambda>_ _. True) (0::nat, \<lambda>_. False) [0, 1] = Some (0, inside) \<and>
     inside 0 \<and> inside 1"
  by (rule conjunct1 [OF noop_not_exclusive [where fz = all_ok and r = NULL and os = "os_start ()"]]) simp

end
