(* ===== verification/Store.thy ===== *)
theory Store
  imports CLib
begin

text \<open>
  The data of \<^verbatim>\<open>job.h\<close> and \<^verbatim>\<open>jobqueue.h\<close> and the memory of one process that
  holds them. A job lives either in an object of its own (\<open>Obj a\<close>: a local
  variable of a caller or a block from \<open>malloc\<close>) or in an element of the
  array inside a queue (\<open>Slot q i\<close>), so a pointer into a queue and a pointer
  to the queue alias as they do in C. Queues live at numbers of their own.
\<close>

section \<open>Structs\<close>

type_synonym pid_t = "32 word"
type_synonym uint = "32 word"

record job_t =
  j_pid :: pid_t
  j_id :: uint
  j_label :: "char list"

record jobqueue_t =
  q_head :: int
  q_tail :: int
  q_buf_size :: int
  q_jobs :: "job_t list"

text \<open>What the declared array bounds say of every object of these types.\<close>

definition job_typ :: "job_t \<Rightarrow> bool" where
  "job_typ j \<longleftrightarrow> length (j_label j) = MAX_NAME_SIZE"

definition jq_typ :: "jobqueue_t \<Rightarrow> bool" where
  "jq_typ jq \<longleftrightarrow> length (q_jobs jq) = QUEUE_SIZE \<and> list_all job_typ (q_jobs jq)"

section \<open>Memory\<close>

datatype job_loc = Obj nat | Slot nat int

text \<open>
  \<open>m_next\<close> is the number of the next block \<open>malloc\<close> hands out,
  \<open>m_avail n\<close> whether that allocation succeeds, \<open>m_junk\<close> and
  \<open>m_junkq\<close> the indeterminate contents of a fresh block, \<open>m_stack\<close> those of an
  uninitialised local array of \<open>MAX_NAME_SIZE\<close> bytes, \<open>m_dyn\<close> the blocks that
  may be passed to \<open>free\<close>.
\<close>

record mem =
  m_jobs :: "nat \<Rightarrow> job_t option"
  m_queues :: "nat \<Rightarrow> jobqueue_t option"
  m_next :: nat
  m_avail :: "nat \<Rightarrow> bool"
  m_dyn :: "nat \<Rightarrow> bool"
  m_junk :: "nat \<Rightarrow> job_t"
  m_junkq :: "nat \<Rightarrow> jobqueue_t"
  m_stack :: "char list"

definition wf_mem :: "mem \<Rightarrow> bool" where
  "wf_mem m \<longleftrightarrow>
     (\<forall>a j. m_jobs m a = Some j \<longrightarrow> job_typ j) \<and>
     (\<forall>q jq. m_queues m q = Some jq \<longrightarrow> jq_typ jq) \<and>
     (\<forall>n. job_typ (m_junk m n) \<and> jq_typ (m_junkq m n)) \<and>
     length (m_stack m) = MAX_NAME_SIZE \<and>
     (\<forall>n \<ge> m_next m. m_jobs m n = None \<and> m_queues m n = None)"

definition in_array :: "jobqueue_t \<Rightarrow> int \<Rightarrow> bool" where
  "in_array jq i \<longleftrightarrow> 0 \<le> i \<and> i < int (length (q_jobs jq))"

fun load_job :: "mem \<Rightarrow> job_loc \<Rightarrow> job_t option" where
  "load_job m (Obj a) = m_jobs m a"
| "load_job m (Slot q i) = do {
     jq \<leftarrow> m_queues m q;
     require (in_array jq i);
     Some (q_jobs jq ! nat i) }"

text \<open>Writing a job where one is: the total update, and the checked store.\<close>

fun put_job :: "mem \<Rightarrow> job_loc \<Rightarrow> job_t \<Rightarrow> mem" where
  "put_job m (Obj a) j = m\<lparr>m_jobs := (m_jobs m)(a \<mapsto> j)\<rparr>"
| "put_job m (Slot q i) j =
     (case m_queues m q of
        None \<Rightarrow> m
      | Some jq \<Rightarrow> m\<lparr>m_queues := (m_queues m)(q \<mapsto> jq\<lparr>q_jobs := (q_jobs jq)[nat i := j]\<rparr>)\<rparr>)"

definition store_job :: "mem \<Rightarrow> job_loc \<Rightarrow> job_t \<Rightarrow> mem option" where
  "store_job m l j = do { _ \<leftarrow> load_job m l; Some (put_job m l j) }"

definition put_jq :: "mem \<Rightarrow> nat \<Rightarrow> jobqueue_t \<Rightarrow> mem" where
  "put_jq m q jq = m\<lparr>m_queues := (m_queues m)(q \<mapsto> jq)\<rparr>"

section \<open>Allocation\<close>

definition malloc_job :: "mem \<Rightarrow> job_loc ptr \<times> mem" where
  "malloc_job m = (let n = m_next m; m' = m\<lparr>m_next := Suc n\<rparr> in
     if m_avail m n
     then (Ptr (Obj n), m'\<lparr>m_jobs := (m_jobs m)(n \<mapsto> m_junk m n), m_dyn := (m_dyn m)(n := True)\<rparr>)
     else (NULL, m'))"

definition malloc_jq :: "mem \<Rightarrow> nat ptr \<times> mem" where
  "malloc_jq m = (let n = m_next m; m' = m\<lparr>m_next := Suc n\<rparr> in
     if m_avail m n
     then (Ptr n, m'\<lparr>m_queues := (m_queues m)(n \<mapsto> m_junkq m n), m_dyn := (m_dyn m)(n := True)\<rparr>)
     else (NULL, m'))"

text \<open>\<open>free\<close> of anything but a live block of \<open>malloc\<close> is undefined.\<close>

fun free_job :: "mem \<Rightarrow> job_loc \<Rightarrow> mem option" where
  "free_job m (Obj a) = do {
     require (m_dyn m a \<and> m_jobs m a \<noteq> None);
     Some (m\<lparr>m_jobs := (m_jobs m)(a := None), m_dyn := (m_dyn m)(a := False)\<rparr>) }"
| "free_job m (Slot q i) = None"

definition free_jq :: "mem \<Rightarrow> nat \<Rightarrow> mem option" where
  "free_jq m q = do {
     require (m_dyn m q \<and> m_queues m q \<noteq> None);
     Some (m\<lparr>m_queues := (m_queues m)(q := None), m_dyn := (m_dyn m)(q := False)\<rparr>) }"

section \<open>Facts about the store\<close>

lemma wf_load: "wf_mem m \<Longrightarrow> load_job m l = Some j \<Longrightarrow> job_typ j"
  by (cases l) (auto simp: wf_mem_def bind_eq_Some_conv jq_typ_def in_array_def list_all_length)

lemma wf_queue: "wf_mem m \<Longrightarrow> m_queues m q = Some jq \<Longrightarrow> jq_typ jq"
  by (simp add: wf_mem_def)

lemma wf_stack: "wf_mem m \<Longrightarrow> length (m_stack m) = MAX_NAME_SIZE"
  by (simp add: wf_mem_def)

lemma wf_junk: "wf_mem m \<Longrightarrow> job_typ (m_junk m n)" "wf_mem m \<Longrightarrow> jq_typ (m_junkq m n)"
  by (simp_all add: wf_mem_def)

lemma load_put_same [mem_simps]: "load_job m l = Some j0 \<Longrightarrow> load_job (put_job m l j) l = Some j"
  by (cases l) (auto simp: bind_eq_Some_conv in_array_def)

lemma store_job_Some [mem_simps]: "load_job m l = Some j0 \<Longrightarrow> store_job m l j = Some (put_job m l j)"
  by (simp add: store_job_def)

lemma put_put_same [mem_simps]: "put_job (put_job m l j) l j' = put_job m l j'"
  by (cases l) (auto split: option.splits)

lemma put_job_same [mem_simps]: "load_job m l = Some j \<Longrightarrow> put_job m l j = m"
proof (cases l)
  case (Obj a)
  assume "load_job m l = Some j"
  with Obj have "(m_jobs m)(a \<mapsto> j) = m_jobs m" by (auto simp: fun_upd_idem)
  with Obj show ?thesis by simp
next
  case (Slot q i)
  assume "load_job m l = Some j"
  with Slot obtain jq where jq: "m_queues m q = Some jq" "j = q_jobs jq ! nat i"
    by (auto simp: bind_eq_Some_conv)
  then have "(m_queues m)(q \<mapsto> jq\<lparr>q_jobs := (q_jobs jq)[nat i := j]\<rparr>) = m_queues m"
    by (auto simp: fun_eq_iff)
  with Slot jq show ?thesis by simp
qed

lemma put_job_Obj_queues [mem_simps]: "m_queues (put_job m (Obj a) j) = m_queues m"
  by simp

lemma put_job_frame [mem_simps]:
  "m_next (put_job m l j) = m_next m" "m_avail (put_job m l j) = m_avail m"
  "m_dyn (put_job m l j) = m_dyn m" "m_junk (put_job m l j) = m_junk m"
  "m_junkq (put_job m l j) = m_junkq m" "m_stack (put_job m l j) = m_stack m"
  by (cases l; auto split: option.splits)+

lemma put_jq_sel [mem_simps]:
  "m_queues (put_jq m q jq) = (m_queues m)(q \<mapsto> jq)"
  "m_jobs (put_jq m q jq) = m_jobs m" "m_next (put_jq m q jq) = m_next m"
  "m_avail (put_jq m q jq) = m_avail m" "m_dyn (put_jq m q jq) = m_dyn m"
  "m_junk (put_jq m q jq) = m_junk m" "m_junkq (put_jq m q jq) = m_junkq m"
  "m_stack (put_jq m q jq) = m_stack m"
  by (simp_all add: put_jq_def)

lemma put_jq_put_jq [mem_simps]: "put_jq (put_jq m q jq) q jq' = put_jq m q jq'"
  by (simp add: put_jq_def)

lemma put_jq_put_Obj [mem_simps]:
  "put_job (put_jq m q jq) (Obj a) j = put_jq (put_job m (Obj a) j) q jq"
  by (simp add: put_jq_def)

lemma put_job_Slot [mem_simps]:
  "m_queues m q = Some jq \<Longrightarrow>
   put_job m (Slot q i) j = put_jq m q (jq\<lparr>q_jobs := (q_jobs jq)[nat i := j]\<rparr>)"
  by (simp add: put_jq_def)

lemma wf_put_job:
  assumes "wf_mem m" "load_job m l = Some j0" "job_typ j"
  shows "wf_mem (put_job m l j)"
proof (cases l)
  case (Obj a)
  with assms show ?thesis by (auto simp: wf_mem_def)
next
  case (Slot q i)
  with assms obtain jq where jq: "m_queues m q = Some jq" by (auto simp: bind_eq_Some_conv)
  then have "jq_typ jq" using assms(1) by (rule wf_queue [rotated])
  then have "jq_typ (jq\<lparr>q_jobs := (q_jobs jq)[nat i := j]\<rparr>)"
    using assms(3) set_update_subset_insert [of "q_jobs jq" "nat i" j]
    by (auto simp: jq_typ_def list_all_iff)
  with Slot assms(1) jq show ?thesis by (auto simp: wf_mem_def)
qed

lemma wf_put_jq:
  assumes "wf_mem m" "m_queues m q = Some jq0" "jq_typ jq"
  shows "wf_mem (put_jq m q jq)"
  using assms by (auto simp: wf_mem_def put_jq_def)

text \<open>What a successful or failed allocation of a job leaves.\<close>

lemma malloc_job_ok:
  assumes "m_avail m (m_next m)"
  shows "malloc_job m = (Ptr (Obj (m_next m)),
    put_job (m\<lparr>m_next := Suc (m_next m), m_dyn := (m_dyn m)(m_next m := True)\<rparr>)
      (Obj (m_next m)) (m_junk m (m_next m)))"
  using assms by (simp add: malloc_job_def Let_def)

lemma malloc_job_fail:
  "\<not> m_avail m (m_next m) \<Longrightarrow> malloc_job m = (NULL, m\<lparr>m_next := Suc (m_next m)\<rparr>)"
  by (simp add: malloc_job_def Let_def)

lemma wf_malloc_job: "wf_mem m \<Longrightarrow> malloc_job m = (p, m') \<Longrightarrow> wf_mem m'"
  by (auto simp: malloc_job_def Let_def wf_mem_def split: if_splits)

lemma load_fresh: "wf_mem m \<Longrightarrow> load_job m l = Some j \<Longrightarrow> l \<noteq> Obj (m_next m)"
  by (auto simp: wf_mem_def)

lemma load_frame: "m_jobs m' = m_jobs m \<Longrightarrow> m_queues m' = m_queues m \<Longrightarrow> load_job m' l = load_job m l"
  by (cases l) auto

lemma load_put_Obj: "l \<noteq> Obj a \<Longrightarrow> load_job (put_job m (Obj a) j) l = load_job m l"
  by (cases l) auto

lemma load_put_other:
  assumes "load_job m d = Some j0" "l \<noteq> d"
  shows "load_job (put_job m d j) l = load_job m l"
proof (cases d)
  case (Obj a)
  then show ?thesis using assms(2) load_put_Obj by simp
next
  case (Slot q i)
  then obtain jq where jq: "m_queues m q = Some jq" and i: "0 \<le> i"
    using assms(1) by (auto simp: bind_eq_Some_conv in_array_def)
  show ?thesis
  proof (cases l)
    case (Obj a)
    then show ?thesis using Slot jq by simp
  next
    case l: (Slot q' i')
    then have "q' = q \<Longrightarrow> 0 \<le> i' \<Longrightarrow> nat i \<noteq> nat i'" using assms(2) Slot i by auto
    then show ?thesis using Slot l jq by (cases "q' = q"; cases "0 \<le> i'") (simp_all add: in_array_def)
  qed
qed

text \<open>
  A memory with the given job variables and queues, numbered from 0, whose
  further allocations all succeed or all fail.
\<close>

definition mem_of :: "job_t list \<Rightarrow> jobqueue_t list \<Rightarrow> bool \<Rightarrow> mem" where
  "mem_of js qs ok = \<lparr>
     m_jobs = (\<lambda>n. if n < length js then Some (js ! n) else None),
     m_queues = (\<lambda>n. if n < length qs then Some (qs ! n) else None),
     m_next = length js + length qs, m_avail = (\<lambda>_. ok), m_dyn = (\<lambda>_. False),
     m_junk = (\<lambda>_. \<lparr>j_pid = 0, j_id = 0, j_label = replicate MAX_NAME_SIZE PAD_CHAR\<rparr>),
     m_junkq = (\<lambda>_. \<lparr>q_head = 7, q_tail = 9, q_buf_size = 0,
       q_jobs = replicate QUEUE_SIZE \<lparr>j_pid = 0, j_id = 0, j_label = replicate MAX_NAME_SIZE PAD_CHAR\<rparr>\<rparr>),
     m_stack = replicate MAX_NAME_SIZE PAD_CHAR\<rparr>"

lemma wf_mem_of: "list_all job_typ js \<Longrightarrow> list_all jq_typ qs \<Longrightarrow> wf_mem (mem_of js qs ok)"
  by (auto simp: wf_mem_def mem_of_def job_typ_def jq_typ_def list_all_length list_all_iff split: if_splits)

lemma mem_of_sel [mem_simps]:
  "m_jobs (mem_of js qs ok) n = (if n < length js then Some (js ! n) else None)"
  "m_queues (mem_of js qs ok) n = (if n < length qs then Some (qs ! n) else None)"
  "m_avail (mem_of js qs ok) n = ok" "m_next (mem_of js qs ok) = length js + length qs"
  by (simp_all add: mem_of_def)

end
