(* ===== verification/Job.thy ===== *)
theory Job
  imports Store
begin

text \<open>
  \<^verbatim>\<open>job.c\<close>: setting, creating, copying, comparing, initialising and deleting
  jobs. Every function takes the memory and returns its result with the memory
  it leaves, or \<open>None\<close> where the C is undefined. A \<^verbatim>\<open>const char*\<close> argument is
  the buffer it points to. \<open>pad_label\<close> and \<open>job_ok\<close> are the specification the
  functions are measured against: the label that \<^verbatim>\<open>job.h\<close> promises for a given
  string, and the jobs whose label has exactly \<open>MAX_NAME_SIZE - 1\<close> characters.
\<close>

section \<open>Operations\<close>

text \<open>The condition \<^verbatim>\<open>!label || label[0]=='\0'\<close>.\<close>

definition no_label :: "char list ptr \<Rightarrow> bool option" where
  "no_label label = (case label of
     NULL \<Rightarrow> Some True
   | Ptr buf \<Rightarrow> do { c \<leftarrow> byte_at buf 0; Some (c = NUL) })"

text \<open>What \<^verbatim>\<open>%s\<close> prints for a pointer; printing NULL is undefined.\<close>

definition fmt_s :: "char list ptr \<Rightarrow> string option" where
  "fmt_s label = (case label of NULL \<Rightarrow> None | Ptr buf \<Rightarrow> c_str buf)"

definition job_set ::
  "mem \<Rightarrow> job_loc ptr \<Rightarrow> pid_t \<Rightarrow> uint \<Rightarrow> char list ptr \<Rightarrow> (job_loc ptr \<times> mem) option" where
  "job_set m job p i label = (case job of
     NULL \<Rightarrow> Some (NULL, m)
   | Ptr l \<Rightarrow> do {
       j0 \<leftarrow> load_job m l;
       m1 \<leftarrow> store_job m l (j0\<lparr>j_pid := p, j_id := i\<rparr>);
       pad0 \<leftarrow> memset (m_stack m) PAD_CHAR (MAX_NAME_SIZE - 1);
       padding \<leftarrow> poke pad0 (MAX_NAME_SIZE - 1) NUL;
       empty \<leftarrow> no_label label;
       j1 \<leftarrow> load_job m1 l;
       if empty then do {
         lab \<leftarrow> strncpy (j_label j1) padding MAX_NAME_SIZE;
         m2 \<leftarrow> store_job m1 l (j1\<lparr>j_label := lab\<rparr>);
         Some (job, m2) }
       else do {
         s \<leftarrow> fmt_s label;
         t \<leftarrow> fmt_s (Ptr padding);
         final_label \<leftarrow> snprintf (m_stack m) MAX_NAME_SIZE (s @ t);
         lab \<leftarrow> memcpy (j_label j1) final_label MAX_NAME_SIZE;
         m2 \<leftarrow> store_job m1 l (j1\<lparr>j_label := lab\<rparr>);
         Some (job, m2) } })"

definition job_new ::
  "mem \<Rightarrow> pid_t \<Rightarrow> uint \<Rightarrow> char list ptr \<Rightarrow> (job_loc ptr \<times> mem) option" where
  "job_new m p i label = (let (job, m1) = malloc_job m in job_set m1 job p i label)"

definition job_copy ::
  "mem \<Rightarrow> job_loc ptr \<Rightarrow> job_loc ptr \<Rightarrow> (job_loc ptr \<times> mem) option" where
  "job_copy m dst src = (case src of
     NULL \<Rightarrow> Some (NULL, m)
   | Ptr s \<Rightarrow>
       if src = dst \<and> dst \<noteq> NULL then Some (src, m)
       else if dst = NULL then do {
         j \<leftarrow> load_job m s;
         job_new m (j_pid j) (j_id j) (Ptr (j_label j)) }
       else do {
         j \<leftarrow> load_job m s;
         job_set m dst (j_pid j) (j_id j) (Ptr (j_label j)) })"

definition job_init :: "mem \<Rightarrow> job_loc ptr \<Rightarrow> mem option" where
  "job_init m job = (case job of
     NULL \<Rightarrow> Some m
   | Ptr l \<Rightarrow> do {
       j \<leftarrow> load_job m l;
       lab \<leftarrow> memset (j_label j) NUL MAX_NAME_SIZE;
       store_job m l (j\<lparr>j_pid := 0, j_id := 0, j_label := lab\<rparr>) })"

definition job_is_equal :: "mem \<Rightarrow> job_loc ptr \<Rightarrow> job_loc ptr \<Rightarrow> bool option" where
  "job_is_equal m j1 j2 = (case (j1, j2) of
     (NULL, NULL) \<Rightarrow> Some True
   | (NULL, Ptr _) \<Rightarrow> Some False
   | (Ptr _, NULL) \<Rightarrow> Some False
   | (Ptr l1, Ptr l2) \<Rightarrow> do {
       a \<leftarrow> load_job m l1;
       b \<leftarrow> load_job m l2;
       if j_pid a = j_pid b \<and> j_id a = j_id b then do {
         d \<leftarrow> strncmp (j_label a) (j_label b) MAX_NAME_SIZE;
         Some (d = 0) }
       else Some False })"

definition job_delete :: "mem \<Rightarrow> job_loc ptr \<Rightarrow> mem option" where
  "job_delete m job = (case job of NULL \<Rightarrow> Some m | Ptr l \<Rightarrow> free_job m l)"

section \<open>Specification\<close>

definition pad_label :: "string \<Rightarrow> char list" where
  "pad_label s = take (MAX_NAME_SIZE - 1) (s @ replicate (MAX_NAME_SIZE - 1) PAD_CHAR) @ [NUL]"

text \<open>The string an argument stands for: NULL counts as the empty string.\<close>

definition label_arg :: "char list ptr \<Rightarrow> string option" where
  "label_arg label = (case label of NULL \<Rightarrow> Some [] | Ptr buf \<Rightarrow> c_str buf)"

definition mk_job :: "pid_t \<Rightarrow> uint \<Rightarrow> string \<Rightarrow> job_t" where
  "mk_job p i s = \<lparr>j_pid = p, j_id = i, j_label = pad_label s\<rparr>"

definition job_ok :: "job_t \<Rightarrow> bool" where
  "job_ok j \<longleftrightarrow> length (j_label j) = MAX_NAME_SIZE \<and>
     map_option length (c_str (j_label j)) = Some (MAX_NAME_SIZE - 1)"

definition job_zero :: job_t where
  "job_zero = \<lparr>j_pid = 0, j_id = 0, j_label = replicate MAX_NAME_SIZE NUL\<rparr>"

text \<open>The string in a label array, and the job a copy makes of one.\<close>

definition job_str :: "job_t \<Rightarrow> string" where
  "job_str j = takeWhile (\<lambda>c. c \<noteq> NUL) (j_label j)"

definition copied :: "job_t \<Rightarrow> job_t" where
  "copied j = mk_job (j_pid j) (j_id j) (job_str j)"

section \<open>Labels\<close>

lemma length_pad_label [simp]: "length (pad_label s) = MAX_NAME_SIZE"
  by (simp add: pad_label_def MAX_NAME_SIZE_def)

lemma pad_label_str: "NUL \<notin> set s \<Longrightarrow>
   c_str (pad_label s) = Some (take (MAX_NAME_SIZE - 1) (s @ replicate (MAX_NAME_SIZE - 1) PAD_CHAR))"
  unfolding pad_label_def
  by (rule c_str_NUL) (auto dest!: in_set_takeD split: if_splits)

lemma job_ok_mk_job: "NUL \<notin> set s \<Longrightarrow> job_ok (mk_job p i s)"
  by (simp add: job_ok_def mk_job_def pad_label_str MAX_NAME_SIZE_def)

lemma job_typ_mk_job [simp]: "job_typ (mk_job p i s)"
  by (simp add: job_typ_def mk_job_def)

lemma job_typ_zero [simp]: "job_typ job_zero"
  by (simp add: job_typ_def job_zero_def)

lemma job_str_c_str: "c_str (j_label j) = Some s \<Longrightarrow> job_str j = s"
  by (auto simp: job_str_def c_str_Some_iff takeWhile_tail)

lemma job_str_NUL: "NUL \<notin> set (job_str j)"
  by (auto simp: job_str_def dest: set_takeWhileD)

lemma job_str_zero [simp]: "job_str job_zero = []"
  by (simp add: job_str_def job_zero_def MAX_NAME_SIZE_def)

lemma job_ok_label:
  assumes "job_ok j"
  shows "c_str (j_label j) = Some (job_str j)" "length (job_str j) = MAX_NAME_SIZE - 1"
    "j_label j = job_str j @ [NUL]"
proof -
  obtain s where s: "c_str (j_label j) = Some s" "length s = MAX_NAME_SIZE - 1"
    using assms by (auto simp: job_ok_def)
  then show c: "c_str (j_label j) = Some (job_str j)" "length (job_str j) = MAX_NAME_SIZE - 1"
    by (simp_all add: job_str_c_str)
  obtain r where "j_label j = job_str j @ NUL # r" using c(1) by (auto simp: c_str_Some_iff)
  then show "j_label j = job_str j @ [NUL]"
    using assms c(2) by (auto simp: job_ok_def MAX_NAME_SIZE_def)
qed

lemma job_ok_typ: "job_ok j \<Longrightarrow> job_typ j"
  by (simp add: job_ok_def job_typ_def)

lemma copied_ok: "job_ok j \<Longrightarrow> copied j = j"
proof -
  assume ok: "job_ok j"
  then have "pad_label (job_str j) = j_label j"
    using job_ok_label [OF ok] by (simp add: pad_label_def)
  then show ?thesis by (simp add: copied_def mk_job_def)
qed

lemma job_ok_copied: "job_ok (copied j)"
  by (simp add: copied_def job_ok_mk_job job_str_NUL)

lemma job_typ_copied [simp]: "job_typ (copied j)"
  by (simp add: copied_def)

lemma job_zero_not_ok: "\<not> job_ok job_zero"
  by (simp add: job_ok_def job_zero_def MAX_NAME_SIZE_def numeral_eq_Suc)

section \<open>What the operations do\<close>

lemma padding_buffer:
  assumes "length b = MAX_NAME_SIZE"
  shows "memset b PAD_CHAR (MAX_NAME_SIZE - 1) = Some (replicate (MAX_NAME_SIZE - 1) PAD_CHAR @ [b ! (MAX_NAME_SIZE - 1)])"
    and "poke (replicate (MAX_NAME_SIZE - 1) PAD_CHAR @ [c]) (MAX_NAME_SIZE - 1) NUL
      = Some (replicate (MAX_NAME_SIZE - 1) PAD_CHAR @ [NUL])"
  using assms drop_last [of b "MAX_NAME_SIZE - 1"]
  by (simp_all add: memset_def poke_def list_update_append MAX_NAME_SIZE_def)

lemma pad_label_short: "pad_label [] = replicate (MAX_NAME_SIZE - 1) PAD_CHAR @ [NUL]"
  by (simp add: pad_label_def)

lemma no_label_arg: "label_arg label = Some s \<Longrightarrow> no_label label = Some (s = [])"
  by (cases label) (auto simp: label_arg_def no_label_def dest!: c_str_first_NUL)

lemma label_arg_fmt: "label_arg label = Some s \<Longrightarrow> s \<noteq> [] \<Longrightarrow> fmt_s label = Some s"
  by (cases label) (auto simp: label_arg_def fmt_s_def)

lemma label_arg_NUL: "label_arg label = Some s \<Longrightarrow> NUL \<notin> set s"
  by (cases label) (auto simp: label_arg_def c_str_Some_iff)

text \<open>
  Setting a job whose label argument is a terminated string (or NULL) is
  defined and stores the job with the padded or truncated label; nothing of the
  indeterminate local arrays reaches it.
\<close>

lemma strncpy_padding:
  assumes "length d = MAX_NAME_SIZE"
  shows "strncpy d (replicate (MAX_NAME_SIZE - 1) PAD_CHAR @ [NUL]) MAX_NAME_SIZE = Some (pad_label [])"
proof -
  have "c_strn (replicate (MAX_NAME_SIZE - 1) PAD_CHAR @ NUL # []) MAX_NAME_SIZE
    = Some (replicate (MAX_NAME_SIZE - 1) PAD_CHAR)"
    by (rule c_strn_NUL) (simp_all add: MAX_NAME_SIZE_def)
  then show ?thesis
    using assms by (simp add: strncpy_def pad_label_short) (simp add: MAX_NAME_SIZE_def)
qed

lemma fmt_padding: "fmt_s (Ptr (replicate n PAD_CHAR @ [NUL])) = Some (replicate n PAD_CHAR)"
  by (simp add: fmt_s_def c_str_NUL)

lemma snprintf_label:
  assumes "length d = MAX_NAME_SIZE"
  shows "snprintf d MAX_NAME_SIZE (s @ replicate (MAX_NAME_SIZE - 1) PAD_CHAR) = Some (pad_label s)"
  using snprintf_fills [of d "MAX_NAME_SIZE - 1" "s @ replicate (MAX_NAME_SIZE - 1) PAD_CHAR"] assms
  by (simp add: pad_label_def) (simp add: MAX_NAME_SIZE_def)

lemma memcpy_all: "length d = n \<Longrightarrow> length b = n \<Longrightarrow> memcpy d b n = Some b"
  by (simp add: memcpy_def)

lemma job_set_ok:
  assumes wf: "wf_mem m" and at: "load_job m l = Some j" and lab: "label_arg label = Some s"
  shows "job_set m (Ptr l) p i label = Some (Ptr l, put_job m l (mk_job p i s))"
proof -
  note stack = wf_stack [OF wf]
  have len: "length (j_label j) = MAX_NAME_SIZE" using wf_load [OF wf at] by (simp add: job_typ_def)
  let ?j = "j\<lparr>j_pid := p, j_id := i\<rparr>"
  have eq: "?j\<lparr>j_label := pad_label s\<rparr> = mk_job p i s" by (simp add: mk_job_def)
  note simps = job_set_def at mem_simps padding_buffer [OF stack] no_label_arg [OF lab]
  show ?thesis
  proof (cases "s = []")
    case True
    then show ?thesis using len eq by (simp add: simps strncpy_padding)
  next
    case False
    then show ?thesis
      using len eq stack
      by (simp add: simps label_arg_fmt [OF lab] fmt_padding snprintf_label memcpy_all)
  qed
qed

lemma job_set_NULL: "job_set m NULL p i label = Some (NULL, m)"
  by (simp add: job_set_def)

text \<open>The memory after an allocation that succeeds, with the new job in it.\<close>

definition alloc_job :: "mem \<Rightarrow> job_t \<Rightarrow> mem" where
  "alloc_job m j = put_job (m\<lparr>m_next := Suc (m_next m), m_dyn := (m_dyn m)(m_next m := True)\<rparr>)
     (Obj (m_next m)) j"

lemma alloc_job_sel [mem_simps]:
  "m_jobs (alloc_job m j) = (m_jobs m)(m_next m \<mapsto> j)" "m_queues (alloc_job m j) = m_queues m"
  "m_avail (alloc_job m j) = m_avail m" "m_next (alloc_job m j) = Suc (m_next m)"
  by (simp_all add: alloc_job_def)

lemma load_alloc_new [mem_simps]: "load_job (alloc_job m j) (Obj (m_next m)) = Some j"
  by (simp add: mem_simps)

lemma load_alloc_old: "wf_mem m \<Longrightarrow> load_job m l = Some j0 \<Longrightarrow> load_job (alloc_job m j) l = Some j0"
  by (cases l) (auto simp: mem_simps wf_mem_def)

lemma wf_alloc_job: "wf_mem m \<Longrightarrow> job_typ j \<Longrightarrow> wf_mem (alloc_job m j)"
  by (auto simp: alloc_job_def wf_mem_def)

lemma job_new_ok:
  assumes wf: "wf_mem m" and av: "m_avail m (m_next m)" and lab: "label_arg label = Some s"
  shows "job_new m p i label = Some (Ptr (Obj (m_next m)), alloc_job m (mk_job p i s))"
proof -
  let ?m = "alloc_job m (m_junk m (m_next m))"
  have m: "malloc_job m = (Ptr (Obj (m_next m)), ?m)"
    using malloc_job_ok [OF av] by (simp add: alloc_job_def)
  have "wf_mem ?m" using wf wf_junk(1) [OF wf] by (simp add: wf_alloc_job)
  from job_set_ok [OF this load_alloc_new lab] have
    "job_set ?m (Ptr (Obj (m_next m))) p i label
      = Some (Ptr (Obj (m_next m)), put_job ?m (Obj (m_next m)) (mk_job p i s))" .
  then show ?thesis by (simp add: job_new_def m) (simp add: alloc_job_def)
qed

lemma job_new_fail:
  "\<not> m_avail m (m_next m) \<Longrightarrow>
   job_new m p i label = Some (NULL, m\<lparr>m_next := Suc (m_next m)\<rparr>)"
  by (simp add: job_new_def malloc_job_fail job_set_NULL)

text \<open>Copying: the four cases of the code.\<close>

lemma job_copy_NULL [simp]: "job_copy m dst NULL = Some (NULL, m)"
  by (simp add: job_copy_def)

lemma job_copy_self: "job_copy m (Ptr l) (Ptr l) = Some (Ptr l, m)"
  by (simp add: job_copy_def)

lemma label_arg_job: "NUL \<in> set (j_label j) \<Longrightarrow> label_arg (Ptr (j_label j)) = Some (job_str j)"
proof -
  assume "NUL \<in> set (j_label j)"
  then obtain ys zs where "j_label j = ys @ NUL # zs" "NUL \<notin> set ys"
    by (meson split_list_first)
  then have "c_str (j_label j) = Some ys" by (simp add: c_str_NUL)
  then show ?thesis by (simp add: label_arg_def job_str_c_str)
qed

lemma job_copy_to:
  assumes wf: "wf_mem m" and src: "load_job m s = Some j" and dst: "load_job m d = Some j0"
    and ne: "d \<noteq> s" and nul: "NUL \<in> set (j_label j)"
  shows "job_copy m (Ptr d) (Ptr s) = Some (Ptr d, put_job m d (copied j))"
  using ne job_set_ok [OF wf dst label_arg_job [OF nul]] src
  by (simp add: job_copy_def copied_def)

lemma job_copy_new:
  assumes wf: "wf_mem m" and src: "load_job m s = Some j" and nul: "NUL \<in> set (j_label j)"
    and av: "m_avail m (m_next m)"
  shows "job_copy m NULL (Ptr s) = Some (Ptr (Obj (m_next m)), alloc_job m (copied j))"
  using job_new_ok [OF wf av label_arg_job [OF nul]] src
  by (simp add: job_copy_def copied_def)

lemma job_copy_new_fail:
  assumes src: "load_job m s = Some j" and av: "\<not> m_avail m (m_next m)"
  shows "job_copy m NULL (Ptr s) = Some (NULL, m\<lparr>m_next := Suc (m_next m)\<rparr>)"
  using job_new_fail [OF av] src by (simp add: job_copy_def)

lemma job_init_ok:
  assumes wf: "wf_mem m" and at: "load_job m l = Some j"
  shows "job_init m (Ptr l) = Some (put_job m l job_zero)"
proof -
  have "length (j_label j) = MAX_NAME_SIZE" using wf_load [OF wf at] by (simp add: job_typ_def)
  then show ?thesis using at by (cases j) (simp add: job_init_def memset_def mem_simps job_zero_def)
qed

text \<open>Comparison reads both arrays up to the first NUL and never past them.\<close>

lemma strncmp_takeWhile:
  assumes "length xs = n" "length ys = n"
  shows "\<exists>d. strncmp xs ys n = Some d \<and>
    (d = 0 \<longleftrightarrow> takeWhile (\<lambda>c. c \<noteq> NUL) xs = takeWhile (\<lambda>c. c \<noteq> NUL) ys)"
  using assms
proof (induction n arbitrary: xs ys)
  case 0
  then show ?case by simp
next
  case (Suc n)
  then obtain x xs' y ys' where eq: "xs = x # xs'" "ys = y # ys'"
    by (metis length_Suc_conv)
  have "\<exists>d. strncmp xs' ys' n = Some d \<and>
    (d = 0 \<longleftrightarrow> takeWhile (\<lambda>c. c \<noteq> NUL) xs' = takeWhile (\<lambda>c. c \<noteq> NUL) ys')"
    using Suc.IH [of xs' ys'] Suc.prems eq by simp
  then show ?case using eq by auto
qed

lemma job_is_equal_ok:
  assumes "wf_mem m" "load_job m l1 = Some a" "load_job m l2 = Some b"
  shows "job_is_equal m (Ptr l1) (Ptr l2) =
    Some (j_pid a = j_pid b \<and> j_id a = j_id b \<and> job_str a = job_str b)"
proof -
  have "length (j_label a) = MAX_NAME_SIZE" "length (j_label b) = MAX_NAME_SIZE"
    using wf_load assms by (auto simp: job_typ_def)
  from strncmp_takeWhile [OF this] show ?thesis
    using assms(2,3) by (auto simp: job_is_equal_def job_str_def)
qed

section \<open>Properties\<close>

text \<open>
  C25: setting a job with any string (or NULL, or an empty one) as its label leaves
  a label of exactly 31 characters, the string cut at 31 or padded with
  \<^verbatim>\<open>'*'\<close>; pid and id are the arguments, and no other object changes.
\<close>

theorem job_set_label:
  assumes "wf_mem m" "load_job m l = Some j" "label_arg label = Some s"
  shows "\<exists>m'. job_set m (Ptr l) p i label = Some (Ptr l, m') \<and> wf_mem m' \<and>
    (\<exists>j'. load_job m' l = Some j' \<and> job_ok j' \<and> j_pid j' = p \<and> j_id j' = i \<and>
      c_str (j_label j') = Some (take 31 (s @ replicate 31 PAD_CHAR))) \<and>
    (\<forall>k. k \<noteq> l \<longrightarrow> load_job m' k = load_job m k)"
  using job_set_ok [OF assms, of p i] wf_put_job [OF assms(1,2) job_typ_mk_job, of p i s]
    load_put_same [OF assms(2)] load_put_other [OF assms(2)] job_ok_mk_job label_arg_NUL [OF assms(3)]
    pad_label_str [of s]
  by (intro exI [of _ "put_job m l (mk_job p i s)"]) (auto simp: mk_job_def MAX_NAME_SIZE_def)

lemma wf_mem_jobs: "list_all job_typ js \<Longrightarrow> wf_mem (mem_of js [] ok)"
  by (rule wf_mem_of) simp_all

lemma job_set_label_witness:
  "\<exists>m' j'. job_set (mem_of [job_zero] [] True) (Ptr (Obj 0)) 7 1 (Ptr (''job'' @ [NUL])) = Some (Ptr (Obj 0), m') \<and>
    load_job m' (Obj 0) = Some j' \<and> j_pid j' = 7 \<and>
    c_str (j_label j') = Some (''job'' @ replicate 28 PAD_CHAR)"
proof -
  have "load_job (mem_of [job_zero] [] True) (Obj 0) = Some job_zero" by (simp add: mem_simps)
  moreover have "label_arg (Ptr (''job'' @ [NUL])) = Some ''job''" by (simp add: label_arg_def NUL_def)
  moreover have "take 31 (''job'' @ replicate 31 PAD_CHAR) = ''job'' @ replicate 28 PAD_CHAR" by simp
  ultimately show ?thesis
    using job_set_label [OF wf_mem_jobs [of "[job_zero]" True], of "Obj 0" job_zero _ "''job''" 7 1] by fastforce
qed

text \<open>
  Copying a job with a full label to another place makes it semantically
  equal, by \<^verbatim>\<open>job_is_equal\<close>, field by field, and changes nothing else, be the two
  places variables or elements of the same queue.
\<close>

theorem job_copy_equal:
  assumes "wf_mem m" "load_job m s = Some j" "load_job m d = Some j0" "d \<noteq> s" "job_ok j"
  shows "\<exists>m'. job_copy m (Ptr d) (Ptr s) = Some (Ptr d, m') \<and> load_job m' d = Some j \<and>
    job_is_equal m' (Ptr d) (Ptr s) = Some True \<and>
    (\<forall>l. l \<noteq> d \<longrightarrow> load_job m' l = load_job m l)"
proof -
  have nul: "NUL \<in> set (j_label j)" using job_ok_label(3) [OF assms(5)] by simp
  let ?m = "put_job m d j"
  have d: "load_job ?m d = Some j" by (rule load_put_same [OF assms(3)])
  have s: "load_job ?m s = Some j" using load_put_other [OF assms(3)] assms(2,4) by simp
  have "wf_mem ?m" by (rule wf_put_job [OF assms(1,3) job_ok_typ [OF assms(5)]])
  from job_is_equal_ok [OF this d s] show ?thesis
    using job_copy_to [OF assms(1,2,3,4) nul] copied_ok [OF assms(5)] d load_put_other [OF assms(3)]
    by (intro exI [of _ ?m]) simp
qed

lemma job_copy_equal_witness:
  "\<exists>m'. job_copy (mem_of [job_zero, mk_job 7 1 ''a''] [] True) (Ptr (Obj 0)) (Ptr (Obj 1)) = Some (Ptr (Obj 0), m') \<and>
    load_job m' (Obj 0) = Some (mk_job 7 1 ''a'')"
  using job_copy_equal [OF wf_mem_jobs [of "[job_zero, mk_job 7 1 ''a'']" True], of "Obj 1" "mk_job 7 1 ''a''" "Obj 0" job_zero]
  by (auto simp: mem_simps job_ok_mk_job NUL_def nth_Cons')

text \<open>
  A copy of an initialised job (one whose label \<^verbatim>\<open>job_init\<close> cleared) is not
  equal to it: the copy's label is 31 padding characters, so the documented
  equality of copy and source fails for these jobs.
\<close>

theorem job_copy_init_differs:
  assumes "wf_mem m" "load_job m s = Some job_zero" "load_job m d = Some j0" "d \<noteq> s"
  shows "\<exists>m'. job_copy m (Ptr d) (Ptr s) = Some (Ptr d, m') \<and>
    job_is_equal m' (Ptr d) (Ptr s) = Some False"
proof -
  have nul: "NUL \<in> set (j_label job_zero)" by (simp add: job_zero_def MAX_NAME_SIZE_def)
  let ?m = "put_job m d (copied job_zero)"
  have s: "load_job ?m s = Some job_zero" using load_put_other [OF assms(3)] assms(2,4) by simp
  have "wf_mem ?m" by (rule wf_put_job [OF assms(1,3) job_typ_copied])
  moreover have "length (job_str (copied job_zero)) = MAX_NAME_SIZE - 1"
    using job_ok_label(2) job_ok_copied by blast
  then have "job_str (copied job_zero) \<noteq> []" by (auto simp: MAX_NAME_SIZE_def)
  ultimately show ?thesis
    using job_copy_to [OF assms nul] job_is_equal_ok [OF _ load_put_same [OF assms(3)] s]
    by (intro exI [of _ ?m]) simp
qed

lemma job_copy_init_differs_witness:
  "\<exists>m'. job_copy (mem_of [job_zero, job_zero] [] True) (Ptr (Obj 0)) (Ptr (Obj 1)) = Some (Ptr (Obj 0), m') \<and>
    job_is_equal m' (Ptr (Obj 0)) (Ptr (Obj 1)) = Some False"
  using job_copy_init_differs [OF wf_mem_jobs [of "[job_zero, job_zero]" True], of "Obj 1" "Obj 0" job_zero]
  by (simp add: mem_simps)

text \<open>
  Comparison never reads past either label and decides equality: jobs with
  full labels compare equal exactly when all their fields are; two NULL pointers
  are equal, and NULL equals no job.
\<close>

theorem job_is_equal_decides:
  assumes "wf_mem m" "load_job m l1 = Some a" "load_job m l2 = Some b" "job_ok a" "job_ok b"
  shows "job_is_equal m (Ptr l1) (Ptr l2) = Some (a = b) \<and> job_is_equal m (Ptr l1) NULL = Some False \<and>
    job_is_equal m NULL (Ptr l2) = Some False \<and> job_is_equal m NULL NULL = Some True"
proof -
  have "job_str a = job_str b \<longleftrightarrow> j_label a = j_label b"
    using job_ok_label(3) [OF assms(4)] job_ok_label(3) [OF assms(5)] by auto
  then show ?thesis
    using job_is_equal_ok [OF assms(1,2,3)] by (cases a; cases b) (auto simp: job_is_equal_def)
qed

lemma job_is_equal_decides_witness:
  "job_is_equal (mem_of [mk_job 7 1 ''a'', mk_job 7 1 ''b''] [] True) (Ptr (Obj 0)) (Ptr (Obj 1)) = Some False"
proof -
  have "mk_job 7 1 ''a'' \<noteq> mk_job 7 1 ''b''" by (simp add: mk_job_def pad_label_def MAX_NAME_SIZE_def)
  then show ?thesis
    using job_is_equal_decides [OF wf_mem_jobs [of "[mk_job 7 1 ''a'', mk_job 7 1 ''b'']" True],
        of "Obj 0" "mk_job 7 1 ''a''" "Obj 1" "mk_job 7 1 ''b''"]
    by (simp add: mem_simps job_ok_mk_job NUL_def)
qed

text \<open>
  \<^verbatim>\<open>job_new\<close> returns NULL and changes no job when the allocation fails; else
  it returns a new job with a full label, and deleting that job gives back
  the jobs there were.
\<close>

theorem job_new_delete:
  assumes "wf_mem m" "label_arg label = Some s"
  shows "\<exists>p m1. job_new m pid i label = Some (p, m1) \<and> (p = NULL \<longleftrightarrow> \<not> m_avail m (m_next m)) \<and>
    (p = NULL \<longrightarrow> m_jobs m1 = m_jobs m) \<and>
    (\<forall>l. p = Ptr l \<longrightarrow> load_job m l = None \<and> load_job m1 l = Some (mk_job pid i s) \<and>
      (\<exists>m2. job_delete m1 p = Some m2 \<and> m_jobs m2 = m_jobs m))"
proof (cases "m_avail m (m_next m)")
  case True
  have "m_jobs m (m_next m) = None" using assms(1) by (simp add: wf_mem_def)
  then show ?thesis
    using True job_new_ok [OF assms(1) True assms(2)]
    by (auto simp: job_delete_def alloc_job_def fun_upd_idem)
next
  case False
  then show ?thesis using job_new_fail [OF False] by simp
qed

lemma job_new_delete_witness:
  "\<exists>m1. job_new (mem_of [] [] False) 7 1 NULL = Some (NULL, m1)"
  using job_new_delete [OF wf_mem_jobs [of "[]" False], of NULL "[]" 7 1]
  by (auto simp: mem_simps label_arg_def)

end
