(* ===== verification/Fifo.thy ===== *)
theory Fifo
  imports Prelude
begin

text \<open>
  The contract of a bounded first-in first-out queue of jobs, as a locale: the
  operations that the users of \<^verbatim>\<open>jobqueue.h\<close> and \<^verbatim>\<open>ipc_jobqueue.h\<close> call and
  the laws their documentation promises, over any state that holds a queue and
  the jobs that the caller's pointers designate. An operation may change the
  state beside the queue (the shared queue simulates work), which the laws
  allow for. What a caller may conclude for whole sequences of calls is proved
  once, from the laws.
\<close>

section \<open>A caller\<close>

text \<open>
  The loops of the usage sections of \<^verbatim>\<open>jobqueue.h\<close>: a producer enqueues after
  testing that the queue is not full, a consumer dequeues into its own variable
  and sees an empty queue as a NULL result.
\<close>

datatype 'p fifo_op = Put 'p | Take 'p

text \<open>The run of a list of calls, with the items accepted and the items handed out.\<close>

fun fifo_run ::
  "'p \<Rightarrow> ('s \<Rightarrow> 'p \<Rightarrow> 'a option) \<Rightarrow> ('s \<Rightarrow> (bool \<times> 's) option) \<Rightarrow> ('s \<Rightarrow> 'p \<Rightarrow> 's option) \<Rightarrow>
   ('s \<Rightarrow> 'p \<Rightarrow> ('p \<times> 's) option) \<Rightarrow> 's \<Rightarrow> 'p fifo_op list \<Rightarrow> ('a list \<times> 'a list \<times> 's) option" where
  "fifo_run nil item full enq deq s [] = Some ([], [], s)"
| "fifo_run nil item full enq deq s (Put p # ops) = do {
     (f, s0) \<leftarrow> full s;
     if f then fifo_run nil item full enq deq s0 ops
     else do {
       a \<leftarrow> item s0 p;
       s1 \<leftarrow> enq s0 p;
       (ins, outs, t) \<leftarrow> fifo_run nil item full enq deq s1 ops;
       Some (a # ins, outs, t) } }"
| "fifo_run nil item full enq deq s (Take d # ops) = do {
     (r, s1) \<leftarrow> deq s d;
     if r = nil then fifo_run nil item full enq deq s1 ops
     else do {
       a \<leftarrow> item s1 r;
       (ins, outs, t) \<leftarrow> fifo_run nil item full enq deq s1 ops;
       Some (ins, a # outs, t) } }"

fun fifo_op_ok :: "('s \<Rightarrow> 'p \<Rightarrow> bool) \<Rightarrow> ('s \<Rightarrow> 'p \<Rightarrow> 'a option) \<Rightarrow> 's \<Rightarrow> 'p fifo_op \<Rightarrow> bool" where
  "fifo_op_ok valid item s (Put p) = (item s p \<noteq> None)"
| "fifo_op_ok valid item s (Take d) = valid s d"

section \<open>What the functions promise\<close>

text \<open>The documented effect of each function, on the list of queued jobs.\<close>

definition is_empty_spec :: "'a list \<Rightarrow> bool" where
  "is_empty_spec xs \<longleftrightarrow> xs = []"

definition is_full_spec :: "nat \<Rightarrow> 'a list \<Rightarrow> bool" where
  "is_full_spec cap xs \<longleftrightarrow> length xs = cap"

definition enqueue_spec :: "nat \<Rightarrow> 'a option \<Rightarrow> 'a list \<Rightarrow> 'a list" where
  "enqueue_spec cap j xs = (case j of
     None \<Rightarrow> xs
   | Some a \<Rightarrow> if is_full_spec cap xs then xs else xs @ [a])"

definition dequeue_spec :: "'a list \<Rightarrow> 'a option \<times> 'a list" where
  "dequeue_spec xs = (if is_empty_spec xs then (None, xs) else (Some (hd xs), tl xs))"

definition peekhead_spec :: "'a list \<Rightarrow> 'a option" where
  "peekhead_spec xs = (if is_empty_spec xs then None else Some (hd xs))"

definition peektail_spec :: "'a list \<Rightarrow> 'a option" where
  "peektail_spec xs = (if is_empty_spec xs then None else Some (last xs))"

section \<open>The contract\<close>

text \<open>
  What an operation leaves: a queue with the given contents, the caller's
  variables as the function \<open>f\<close> says, and the same variables valid.
\<close>

definition fifo_step ::
  "('s \<Rightarrow> bool) \<Rightarrow> ('s \<Rightarrow> 'a list) \<Rightarrow> ('s \<Rightarrow> 'p \<Rightarrow> bool) \<Rightarrow> ('s \<Rightarrow> 'p \<Rightarrow> 'a option) \<Rightarrow>
   's \<Rightarrow> 'a list \<Rightarrow> (('p \<Rightarrow> 'a option) \<Rightarrow> 'p \<Rightarrow> 'a option) \<Rightarrow> 's \<Rightarrow> bool" where
  "fifo_step qinv contents valid item s xs f t \<longleftrightarrow>
     qinv t \<and> contents t = xs \<and> item t = f (item s) \<and> valid t = valid s"

lemma fifo_stepD:
  assumes "fifo_step qinv contents valid item s xs f t"
  shows "qinv t" "contents t = xs" "item t = f (item s)" "valid t = valid s"
  using assms by (simp_all add: fifo_step_def)

lemma fifo_op_ok_step:
  assumes "fifo_step qinv contents valid item s xs f t" "\<And>g p. g p \<noteq> None \<Longrightarrow> f g p \<noteq> None"
    "fifo_op_ok valid item s op"
  shows "fifo_op_ok valid item t op"
  using assms by (cases op) (simp_all add: fifo_step_def)

locale bounded_fifo =
  fixes inv :: "'s \<Rightarrow> bool" and contents :: "'s \<Rightarrow> 'a list" and cap :: nat
    and nil :: 'p and valid :: "'s \<Rightarrow> 'p \<Rightarrow> bool" and item :: "'s \<Rightarrow> 'p \<Rightarrow> 'a option"
    and empty :: "'s \<Rightarrow> (bool \<times> 's) option" and full :: "'s \<Rightarrow> (bool \<times> 's) option"
    and enq :: "'s \<Rightarrow> 'p \<Rightarrow> 's option" and deq :: "'s \<Rightarrow> 'p \<Rightarrow> ('p \<times> 's) option"
  assumes nil_invalid: "\<not> valid s nil"
    and bounded: "inv s \<Longrightarrow> length (contents s) \<le> cap"
    and empty_ok: "inv s \<Longrightarrow>
      \<exists>t. empty s = Some (contents s = [], t) \<and> fifo_step inv contents valid item s (contents s) id t"
    and full_ok: "inv s \<Longrightarrow>
      \<exists>t. full s = Some (length (contents s) = cap, t) \<and> fifo_step inv contents valid item s (contents s) id t"
    and enq_nil: "inv s \<Longrightarrow> \<exists>t. enq s nil = Some t \<and> fifo_step inv contents valid item s (contents s) id t"
    and enq_full: "inv s \<Longrightarrow> length (contents s) = cap \<Longrightarrow>
      \<exists>t. enq s p = Some t \<and> fifo_step inv contents valid item s (contents s) id t"
    and enq_room: "inv s \<Longrightarrow> length (contents s) < cap \<Longrightarrow> item s p = Some a \<Longrightarrow>
      \<exists>t. enq s p = Some t \<and> fifo_step inv contents valid item s (contents s @ [a]) id t"
    and deq_empty: "inv s \<Longrightarrow> contents s = [] \<Longrightarrow>
      \<exists>t. deq s d = Some (nil, t) \<and> fifo_step inv contents valid item s [] id t"
    and deq_item: "inv s \<Longrightarrow> contents s = a # as \<Longrightarrow> valid s d \<Longrightarrow>
      \<exists>t. deq s d = Some (d, t) \<and> fifo_step inv contents valid item s as (\<lambda>g. g(d := Some a)) t"
begin

text \<open>A guarded enqueue and a dequeue, whichever way they go.\<close>

lemma put_total:
  assumes "inv s" "item s p = Some a"
  shows "\<exists>f s0. full s = Some (f, s0) \<and> fifo_step inv contents valid item s (contents s) id s0 \<and>
    (\<not> f \<longrightarrow> (\<exists>t. enq s0 p = Some t \<and> item s0 p = Some a \<and>
      fifo_step inv contents valid item s (contents s @ [a]) id t))"
proof -
  obtain s0 where s0: "full s = Some (length (contents s) = cap, s0)"
    "fifo_step inv contents valid item s (contents s) id s0" using full_ok [OF assms(1)] by blast
  note d = fifo_stepD [OF s0(2)]
  have "\<exists>t. enq s0 p = Some t \<and> item s0 p = Some a \<and> fifo_step inv contents valid item s (contents s @ [a]) id t"
    if "length (contents s) \<noteq> cap"
  proof -
    have "length (contents s0) < cap" using that bounded [OF assms(1)] d(2) by simp
    moreover have "item s0 p = Some a" using d(3) assms(2) by simp
    ultimately show ?thesis using enq_room [OF d(1)] d by (fastforce simp: fifo_step_def)
  qed
  then show ?thesis using s0 by auto
qed

lemma take_total:
  assumes "inv s" "valid s d"
  shows "\<exists>r t. deq s d = Some (r, t) \<and>
    (if contents s = [] then r = nil \<and> fifo_step inv contents valid item s [] id t
     else r = d \<and> r \<noteq> nil \<and> item t r = Some (hd (contents s)) \<and>
       fifo_step inv contents valid item s (tl (contents s)) (\<lambda>g. g(d := Some (hd (contents s)))) t)"
proof (cases "contents s")
  case Nil
  then show ?thesis using deq_empty [OF assms(1)] by auto
next
  case (Cons a as)
  have "d \<noteq> nil" using assms(2) nil_invalid by blast
  with deq_item [OF assms(1) Cons assms(2)] Cons show ?thesis by (auto simp: fifo_step_def)
qed

text \<open>
  A full queue never loses what the caller tested for, and whatever the calls,
  what went in and the initial contents come out in order: nothing is lost,
  duplicated or reordered, and no call is undefined.
\<close>

lemma run_fifo:
  assumes "inv s" "\<forall>op \<in> set ops. fifo_op_ok valid item s op"
  shows "\<exists>ins outs t. fifo_run nil item full enq deq s ops = Some (ins, outs, t) \<and> inv t \<and>
    contents s @ ins = outs @ contents t \<and>
    (\<forall>op. fifo_op_ok valid item s op \<longrightarrow> fifo_op_ok valid item t op)"
  using assms
proof (induction ops arbitrary: s)
  case Nil
  then show ?case by simp
next
  case (Cons op ops)
  note pre = Cons.prems
  have keep: "fifo_op_ok valid item s o' \<Longrightarrow> fifo_op_ok valid item t o'"
    if "fifo_step inv contents valid item s xs f t" "\<And>g p. g p \<noteq> None \<Longrightarrow> f g p \<noteq> None" for xs f t o'
    using fifo_op_ok_step [OF that] .
  have rest: "\<exists>ins outs u. fifo_run nil item full enq deq t ops = Some (ins, outs, u) \<and> inv u \<and>
      xs @ ins = outs @ contents u \<and> (\<forall>op. fifo_op_ok valid item s op \<longrightarrow> fifo_op_ok valid item u op)"
    if "fifo_step inv contents valid item s xs f t" "\<And>g p. g p \<noteq> None \<Longrightarrow> f g p \<noteq> None" for xs f t
    using Cons.IH [OF fifo_stepD(1) [OF that(1)]] keep [OF that] pre(2) fifo_stepD(2) [OF that(1)] by fastforce
  show ?case
  proof (cases op)
    case (Put p)
    then obtain a where a: "item s p = Some a" using pre(2) by auto
    obtain f s0 where s0: "full s = Some (f, s0)" "fifo_step inv contents valid item s (contents s) id s0"
      "\<not> f \<longrightarrow> (\<exists>t. enq s0 p = Some t \<and> item s0 p = Some a \<and>
        fifo_step inv contents valid item s (contents s @ [a]) id t)"
      using put_total [OF pre(1) a] by blast
    show ?thesis
    proof (cases f)
      case True
      then show ?thesis using rest [OF s0(2)] Put s0(1) by simp
    next
      case False
      then obtain s1 where s1: "enq s0 p = Some s1" "item s0 p = Some a"
        "fifo_step inv contents valid item s (contents s @ [a]) id s1" using s0(3) by blast
      then show ?thesis using rest [OF s1(3)] False Put s0(1) by auto
    qed
  next
    case (Take v)
    then have "valid s v" using pre(2) by simp
    from take_total [OF pre(1) this] obtain r s1 where r: "deq s v = Some (r, s1)"
      "if contents s = [] then r = nil \<and> fifo_step inv contents valid item s [] id s1
       else r = v \<and> r \<noteq> nil \<and> item s1 r = Some (hd (contents s)) \<and>
         fifo_step inv contents valid item s (tl (contents s)) (\<lambda>g. g(v := Some (hd (contents s)))) s1"
      by blast
    show ?thesis
    proof (cases "contents s = []")
      case True
      then have st: "fifo_step inv contents valid item s [] id s1" "r = nil" using r(2) by simp_all
      then show ?thesis using rest [OF st(1)] True Take r(1) by simp
    next
      case False
      then have st: "fifo_step inv contents valid item s (tl (contents s)) (\<lambda>g. g(v := Some (hd (contents s)))) s1"
        "r \<noteq> nil" "item s1 r = Some (hd (contents s))" using r(2) by auto
      have "\<exists>ins outs u. fifo_run nil item full enq deq s1 ops = Some (ins, outs, u) \<and> inv u \<and>
        tl (contents s) @ ins = outs @ contents u \<and>
        (\<forall>op. fifo_op_ok valid item s op \<longrightarrow> fifo_op_ok valid item u op)"
        by (rule rest [OF st(1)]) simp
      then show ?thesis using False Take r(1) st(2,3) by (cases "contents s") auto
    qed
  qed
qed

end

text \<open>The two observers that copy a job out without changing the queue.\<close>

locale peekable_fifo = bounded_fifo +
  fixes peekhead :: "'s \<Rightarrow> 'p \<Rightarrow> ('p \<times> 's) option" and peektail :: "'s \<Rightarrow> 'p \<Rightarrow> ('p \<times> 's) option"
  assumes peekhead_empty: "inv s \<Longrightarrow> contents s = [] \<Longrightarrow>
      \<exists>t. peekhead s d = Some (nil, t) \<and> fifo_step inv contents valid item s [] id t"
    and peektail_empty: "inv s \<Longrightarrow> contents s = [] \<Longrightarrow>
      \<exists>t. peektail s d = Some (nil, t) \<and> fifo_step inv contents valid item s [] id t"
    and peekhead_item: "inv s \<Longrightarrow> contents s \<noteq> [] \<Longrightarrow> valid s d \<Longrightarrow>
      \<exists>t. peekhead s d = Some (d, t) \<and>
        fifo_step inv contents valid item s (contents s) (\<lambda>g. g(d := Some (hd (contents s)))) t"
    and peektail_item: "inv s \<Longrightarrow> contents s \<noteq> [] \<Longrightarrow> valid s d \<Longrightarrow>
      \<exists>t. peektail s d = Some (d, t) \<and>
        fifo_step inv contents valid item s (contents s) (\<lambda>g. g(d := Some (last (contents s)))) t"
begin

text \<open>Peeking at the head tells what the next dequeue hands out.\<close>

lemma peek_then_deq:
  assumes "inv s" "contents s \<noteq> []" "valid s d" "valid s e"
  shows "\<exists>t u. peekhead s d = Some (d, t) \<and> contents t = contents s \<and> deq t e = Some (e, u) \<and>
    item u e = item t d \<and> item t d = Some (hd (contents s)) \<and> contents u = tl (contents s)"
proof -
  obtain t where t: "peekhead s d = Some (d, t)"
    "fifo_step inv contents valid item s (contents s) (\<lambda>g. g(d := Some (hd (contents s)))) t"
    using peekhead_item [OF assms(1,2,3)] by blast
  note td = fifo_stepD [OF t(2)]
  have "valid t e" using td(4) assms(4) by simp
  from take_total [OF td(1) this] td(2) assms(2) obtain u where u: "deq t e = Some (e, u)"
    "item u e = Some (hd (contents s))" "contents u = tl (contents s)"
    by (auto simp: fifo_step_def)
  with t(1) td(2,3) show ?thesis by auto
qed

text \<open>Peeking at the tail after an accepted enqueue shows the job just enqueued.\<close>

lemma enq_then_peektail:
  assumes "inv s" "length (contents s) < cap" "item s p = Some a" "valid s d"
  shows "\<exists>t u. enq s p = Some t \<and> peektail t d = Some (d, u) \<and> item u d = Some a \<and>
    contents u = contents s @ [a]"
proof -
  obtain t where t: "enq s p = Some t" "fifo_step inv contents valid item s (contents s @ [a]) id t"
    using enq_room [OF assms(1,2,3)] by blast
  note td = fifo_stepD [OF t(2)]
  have ne: "contents t \<noteq> []" "valid t d" using td(2,4) assms(4) by simp_all
  obtain u where "peektail t d = Some (d, u)"
    "fifo_step inv contents valid item t (contents t) (\<lambda>g. g(d := Some (last (contents t)))) u"
    using peektail_item [OF td(1) ne] by blast
  then show ?thesis using t(1) td(2) by (auto simp: fifo_step_def)
qed

end

section \<open>The whole interface\<close>

text \<open>
  A call, and its result: nothing, a truth value, or a pointer with the job it points to
  when the call returns.
\<close>

datatype 'p queue_call =
  Q_is_empty | Q_is_full | Q_enqueue 'p | Q_dequeue 'p | Q_peekhead 'p | Q_peektail 'p

datatype ('p, 'a) queue_result = QR_void | QR_bool bool | QR_job 'p "'a option"

text \<open>
  What a caller can see: the jobs in its variables, the pointers that the next
  allocations will give (\<open>nil\<close> for one that fails), and the list of queued jobs.
\<close>

type_synonym ('p, 'a) queue_view = "('p \<Rightarrow> 'a option) \<times> (nat \<Rightarrow> 'p) \<times> 'a list"

text \<open>
  Handing out a job, or none: into the variable \<open>d\<close>, or for \<open>nil\<close> into a new object,
  and if there is no memory for one the result is \<open>nil\<close> too.
\<close>

definition hand_out ::
  "'p \<Rightarrow> 'p \<Rightarrow> 'a option \<Rightarrow> ('p \<Rightarrow> 'a option) \<Rightarrow> (nat \<Rightarrow> 'p) \<Rightarrow> 'p \<times> ('p \<Rightarrow> 'a option) \<times> (nat \<Rightarrow> 'p)" where
  "hand_out nil d x g new = (case x of
     None \<Rightarrow> (nil, g, new)
   | Some a \<Rightarrow>
       if d \<noteq> nil then (d, g(d \<mapsto> a), new)
       else if new 0 = nil then (nil, g, \<lambda>k. new (Suc k))
       else (new 0, g(new 0 \<mapsto> a), \<lambda>k. new (Suc k)))"

definition job_call ::
  "'p \<Rightarrow> 'p \<Rightarrow> 'a option \<Rightarrow> 'a list \<Rightarrow> ('p, 'a) queue_view \<Rightarrow> ('p, 'a) queue_result \<times> ('p, 'a) queue_view" where
  "job_call nil d x ys u =
     (let (r, g, new) = hand_out nil d x (fst u) (fst (snd u))
      in (QR_job r (if r = nil then None else g r), (g, new, ys)))"

text \<open>
  The documented effect of a call, where \<open>stored a\<close> is the copy that the queue
  makes of the job \<open>a\<close>.
\<close>

fun queue_spec ::
  "nat \<Rightarrow> ('a \<Rightarrow> 'a) \<Rightarrow> 'p \<Rightarrow> 'p queue_call \<Rightarrow> ('p, 'a) queue_view \<Rightarrow>
   ('p, 'a) queue_result \<times> ('p, 'a) queue_view" where
  "queue_spec cap stored nil Q_is_empty (g, new, xs) = (QR_bool (is_empty_spec xs), (g, new, xs))"
| "queue_spec cap stored nil Q_is_full (g, new, xs) = (QR_bool (is_full_spec cap xs), (g, new, xs))"
| "queue_spec cap stored nil (Q_enqueue p) (g, new, xs) =
     (QR_void, (g, new, enqueue_spec cap (if p = nil then None else map_option stored (g p)) xs))"
| "queue_spec cap stored nil (Q_dequeue d) (g, new, xs) =
     job_call nil d (fst (dequeue_spec xs)) (snd (dequeue_spec xs)) (g, new, xs)"
| "queue_spec cap stored nil (Q_peekhead d) (g, new, xs) = job_call nil d (peekhead_spec xs) xs (g, new, xs)"
| "queue_spec cap stored nil (Q_peektail d) (g, new, xs) = job_call nil d (peektail_spec xs) xs (g, new, xs)"

text \<open>
  What the caller has to see to: a job that will be queued has a label that the queue
  can copy, and a job is copied out to \<open>nil\<close> or to a variable of the caller. New objects are
  such variables from the call on that made them.
\<close>

fun call_ok :: "nat \<Rightarrow> ('a \<Rightarrow> bool) \<Rightarrow> 'p \<Rightarrow> 'p queue_call \<Rightarrow> ('p, 'a) queue_view \<Rightarrow> bool" where
  "call_ok cap storable nil (Q_enqueue p) (g, new, xs) \<longleftrightarrow>
     p = nil \<or> is_full_spec cap xs \<or> (case g p of None \<Rightarrow> False | Some a \<Rightarrow> storable a)"
| "call_ok cap storable nil (Q_dequeue d) (g, new, xs) \<longleftrightarrow> is_empty_spec xs \<or> d = nil \<or> g d \<noteq> None"
| "call_ok cap storable nil (Q_peekhead d) (g, new, xs) \<longleftrightarrow> is_empty_spec xs \<or> d = nil \<or> g d \<noteq> None"
| "call_ok cap storable nil (Q_peektail d) (g, new, xs) \<longleftrightarrow> is_empty_spec xs \<or> d = nil \<or> g d \<noteq> None"
| "call_ok cap storable nil _ u \<longleftrightarrow> True"

text \<open>A sequence of calls, with their results, and what each asks of the caller.\<close>

fun spec_run ::
  "nat \<Rightarrow> ('a \<Rightarrow> 'a) \<Rightarrow> 'p \<Rightarrow> 'p queue_call list \<Rightarrow> ('p, 'a) queue_view \<Rightarrow>
   ('p, 'a) queue_result list \<times> ('p, 'a) queue_view" where
  "spec_run cap stored nil [] u = ([], u)"
| "spec_run cap stored nil (c # cs) u =
     (let (r, v) = queue_spec cap stored nil c u;
          (rs, w) = spec_run cap stored nil cs v
      in (r # rs, w))"

fun calls_ok ::
  "nat \<Rightarrow> ('a \<Rightarrow> bool) \<Rightarrow> ('a \<Rightarrow> 'a) \<Rightarrow> 'p \<Rightarrow> 'p queue_call list \<Rightarrow> ('p, 'a) queue_view \<Rightarrow> bool" where
  "calls_ok cap storable stored nil [] u \<longleftrightarrow> True"
| "calls_ok cap storable stored nil (c # cs) u \<longleftrightarrow>
     call_ok cap storable nil c u \<and> calls_ok cap storable stored nil cs (snd (queue_spec cap stored nil c u))"

text \<open>The operations of a queue, and the same sequence on them.\<close>

record ('s, 'p) queue_if =
  qi_empty :: "'s \<Rightarrow> (bool \<times> 's) option"
  qi_full :: "'s \<Rightarrow> (bool \<times> 's) option"
  qi_enq :: "'s \<Rightarrow> 'p \<Rightarrow> 's option"
  qi_deq :: "'s \<Rightarrow> 'p \<Rightarrow> ('p \<times> 's) option"
  qi_peekhead :: "'s \<Rightarrow> 'p \<Rightarrow> ('p \<times> 's) option"
  qi_peektail :: "'s \<Rightarrow> 'p \<Rightarrow> ('p \<times> 's) option"

definition job_result ::
  "'p \<Rightarrow> ('s \<Rightarrow> 'p \<Rightarrow> 'a option) \<Rightarrow> ('p \<times> 's) option \<Rightarrow> (('p, 'a) queue_result \<times> 's) option" where
  "job_result nil vars res = do {
     (r, t) \<leftarrow> res;
     Some (QR_job r (if r = nil then None else vars t r), t) }"

fun do_call ::
  "('s, 'p) queue_if \<Rightarrow> 'p \<Rightarrow> ('s \<Rightarrow> 'p \<Rightarrow> 'a option) \<Rightarrow> 'p queue_call \<Rightarrow> 's \<Rightarrow>
   (('p, 'a) queue_result \<times> 's) option" where
  "do_call qi nil vars Q_is_empty s = do { (b, t) \<leftarrow> qi_empty qi s; Some (QR_bool b, t) }"
| "do_call qi nil vars Q_is_full s = do { (b, t) \<leftarrow> qi_full qi s; Some (QR_bool b, t) }"
| "do_call qi nil vars (Q_enqueue p) s = do { t \<leftarrow> qi_enq qi s p; Some (QR_void, t) }"
| "do_call qi nil vars (Q_dequeue d) s = job_result nil vars (qi_deq qi s d)"
| "do_call qi nil vars (Q_peekhead d) s = job_result nil vars (qi_peekhead qi s d)"
| "do_call qi nil vars (Q_peektail d) s = job_result nil vars (qi_peektail qi s d)"

fun queue_run ::
  "('s, 'p) queue_if \<Rightarrow> 'p \<Rightarrow> ('s \<Rightarrow> 'p \<Rightarrow> 'a option) \<Rightarrow> 'p queue_call list \<Rightarrow> 's \<Rightarrow>
   (('p, 'a) queue_result list \<times> 's) option" where
  "queue_run qi nil vars [] s = Some ([], s)"
| "queue_run qi nil vars (c # cs) s = do {
     (r, s1) \<leftarrow> do_call qi nil vars c s;
     (rs, t) \<leftarrow> queue_run qi nil vars cs s1;
     Some (r # rs, t) }"

text \<open>A state that shows the caller the view \<open>u\<close>.\<close>

definition shows_view ::
  "('s \<Rightarrow> bool) \<Rightarrow> ('s \<Rightarrow> ('p, 'a) queue_view) \<Rightarrow> ('p, 'a) queue_view \<Rightarrow> 's \<Rightarrow> bool" where
  "shows_view ok view u t \<longleftrightarrow> ok t \<and> view t = u"

text \<open>
  The contract, with NULL jobs, NULL destinations and failing allocations: each law is
  about one function in one situation.
\<close>

locale queue_interface =
  fixes inv :: "'s \<Rightarrow> bool" and view :: "'s \<Rightarrow> ('p, 'a) queue_view" and cap :: nat and nil :: 'p
    and storable :: "'a \<Rightarrow> bool" and stored :: "'a \<Rightarrow> 'a" and qi :: "('s, 'p) queue_if"
  assumes within: "inv s \<Longrightarrow> view s = (g, new, xs) \<Longrightarrow> length xs \<le> cap"
    and tests_empty: "inv s \<Longrightarrow> view s = (g, new, xs) \<Longrightarrow>
      \<exists>t. qi_empty qi s = Some (xs = [], t) \<and> shows_view inv view (g, new, xs) t"
    and tests_full: "inv s \<Longrightarrow> view s = (g, new, xs) \<Longrightarrow>
      \<exists>t. qi_full qi s = Some (length xs = cap, t) \<and> shows_view inv view (g, new, xs) t"
    and ignores: "inv s \<Longrightarrow> view s = (g, new, xs) \<Longrightarrow> p = nil \<or> length xs = cap \<Longrightarrow>
      \<exists>t. qi_enq qi s p = Some t \<and> shows_view inv view (g, new, xs) t"
    and accepts: "inv s \<Longrightarrow> view s = (g, new, xs) \<Longrightarrow> length xs < cap \<Longrightarrow> p \<noteq> nil \<Longrightarrow> g p = Some a \<Longrightarrow> storable a \<Longrightarrow>
      \<exists>t. qi_enq qi s p = Some t \<and> shows_view inv view (g, new, xs @ [stored a]) t"
    and hands_none: "inv s \<Longrightarrow> view s = (g, new, []) \<Longrightarrow>
      \<exists>t. qi_deq qi s d = Some (nil, t) \<and> shows_view inv view (g, new, []) t"
      "inv s \<Longrightarrow> view s = (g, new, []) \<Longrightarrow>
      \<exists>t. qi_peekhead qi s d = Some (nil, t) \<and> shows_view inv view (g, new, []) t"
      "inv s \<Longrightarrow> view s = (g, new, []) \<Longrightarrow>
      \<exists>t. qi_peektail qi s d = Some (nil, t) \<and> shows_view inv view (g, new, []) t"
    and takes: "inv s \<Longrightarrow> view s = (g, new, a # as) \<Longrightarrow> d = nil \<or> g d \<noteq> None \<Longrightarrow>
      hand_out nil d (Some a) g new = (r, g', new') \<Longrightarrow>
      \<exists>t. qi_deq qi s d = Some (r, t) \<and> shows_view inv view (g', new', as) t"
    and peeks: "inv s \<Longrightarrow> view s = (g, new, xs) \<Longrightarrow> xs \<noteq> [] \<Longrightarrow> d = nil \<or> g d \<noteq> None \<Longrightarrow>
      hand_out nil d (Some (hd xs)) g new = (r, g', new') \<Longrightarrow>
      \<exists>t. qi_peekhead qi s d = Some (r, t) \<and> shows_view inv view (g', new', xs) t"
      "inv s \<Longrightarrow> view s = (g, new, xs) \<Longrightarrow> xs \<noteq> [] \<Longrightarrow> d = nil \<or> g d \<noteq> None \<Longrightarrow>
      hand_out nil d (Some (last xs)) g new = (r, g', new') \<Longrightarrow>
      \<exists>t. qi_peektail qi s d = Some (r, t) \<and> shows_view inv view (g', new', xs) t"
begin

abbreviation vars :: "'s \<Rightarrow> 'p \<Rightarrow> 'a option" where
  "vars s \<equiv> fst (view s)"

lemma job_result_ok:
  assumes "\<exists>t. res = Some (r, t) \<and> shows_view inv view (g, new, ys) t"
  shows "\<exists>t. job_result nil vars res = Some (QR_job r (if r = nil then None else g r), t) \<and>
    inv t \<and> view t = (g, new, ys)"
  using assms by (auto simp: job_result_def shows_view_def)

text \<open>Every call does what its documentation says; hence so does every sequence of calls.\<close>

lemma call_refines:
  assumes inv: "inv s" and v: "view s = (g, new, xs)" and ok: "call_ok cap storable nil c (view s)"
  shows "\<exists>r t. do_call qi nil vars c s = Some (r, t) \<and> inv t \<and> queue_spec cap stored nil c (view s) = (r, view t)"
proof -
  note specs = is_empty_spec_def is_full_spec_def enqueue_spec_def dequeue_spec_def peekhead_spec_def peektail_spec_def
  have none: "job_call nil d None xs (g, new, xs) = (QR_job nil None, (g, new, xs))" for d
    by (simp add: job_call_def hand_out_def)
  show ?thesis
  proof (cases c)
    case Q_is_empty
    then show ?thesis using tests_empty [OF inv v] v by (auto simp: specs shows_view_def)
  next
    case Q_is_full
    then show ?thesis using tests_full [OF inv v] v by (auto simp: specs shows_view_def)
  next
    case (Q_enqueue p)
    show ?thesis
    proof (cases "p = nil \<or> length xs = cap")
      case True
      from ignores [OF inv v this] True show ?thesis
        using Q_enqueue v by (auto simp: specs shows_view_def split: option.split)
    next
      case False
      then obtain a where a: "g p = Some a" "storable a"
        using Q_enqueue ok v by (auto simp: specs split: option.splits)
      moreover have "length xs < cap" using within [OF inv v] False by simp
      ultimately show ?thesis using accepts [OF inv v _ _ a] False Q_enqueue v by (auto simp: specs shows_view_def)
    qed
  next
    case (Q_dequeue d)
    show ?thesis
    proof (cases xs)
      case Nil
      then show ?thesis
        using Q_dequeue v job_result_ok [OF hands_none(1) [OF inv, of g new d]] none [of d] by (auto simp: specs)
    next
      case (Cons a as)
      obtain r g' new' where h: "hand_out nil d (Some a) g new = (r, g', new')" by (metis surj_pair)
      from job_result_ok [OF takes [OF inv v [unfolded Cons] _ h]] h show ?thesis
        using Q_dequeue Cons v ok by (auto simp: specs job_call_def)
    qed
  next
    case (Q_peekhead d)
    show ?thesis
    proof (cases "xs = []")
      case True
      then show ?thesis
        using Q_peekhead v job_result_ok [OF hands_none(2) [OF inv, of g new d]] none [of d] by (auto simp: specs)
    next
      case False
      obtain r g' new' where h: "hand_out nil d (Some (hd xs)) g new = (r, g', new')" by (metis surj_pair)
      from job_result_ok [OF peeks(1) [OF inv v False _ h]] h show ?thesis
        using Q_peekhead False v ok by (auto simp: specs job_call_def)
    qed
  next
    case (Q_peektail d)
    show ?thesis
    proof (cases "xs = []")
      case True
      then show ?thesis
        using Q_peektail v job_result_ok [OF hands_none(3) [OF inv, of g new d]] none [of d] by (auto simp: specs)
    next
      case False
      obtain r g' new' where h: "hand_out nil d (Some (last xs)) g new = (r, g', new')" by (metis surj_pair)
      from job_result_ok [OF peeks(2) [OF inv v False _ h]] h show ?thesis
        using Q_peektail False v ok by (auto simp: specs job_call_def)
    qed
  qed
qed

theorem run_refines:
  assumes "inv s" "calls_ok cap storable stored nil cs (view s)"
  shows "\<exists>rs t. queue_run qi nil vars cs s = Some (rs, t) \<and> inv t \<and>
    spec_run cap stored nil cs (view s) = (rs, view t)"
  using assms
proof (induction cs arbitrary: s)
  case Nil
  then show ?case by simp
next
  case (Cons c cs)
  obtain g new xs where v: "view s = (g, new, xs)" by (metis surj_pair)
  from call_refines [OF Cons.prems(1) v, of c] Cons.prems(2) obtain r s1 where
    r: "do_call qi nil vars c s = Some (r, s1)" "inv s1" "queue_spec cap stored nil c (view s) = (r, view s1)" by auto
  with Cons.prems(2) have "calls_ok cap storable stored nil cs (view s1)" by simp
  from Cons.IH [OF r(2) this] obtain rs t where "queue_run qi nil vars cs s1 = Some (rs, t)" "inv t"
    "spec_run cap stored nil cs (view s1) = (rs, view t)" by blast
  then show ?case using r by (auto simp: Let_def)
qed

end

end
