(* ===== verification/Jobqueue.thy ===== *)
theory Jobqueue
  imports Job Fifo
begin

text \<open>
  \<^verbatim>\<open>jobqueue.c\<close>: the circular buffer of jobs. The operations act on the store;
  the array is read and written through \<open>Slot\<close> pointers, so that
  \<^verbatim>\<open>job_copy\<close> and \<^verbatim>\<open>job_init\<close> act on it as they do in C. The invariant
  \<open>jq_inv\<close> and the abstraction \<open>jq_contents\<close> to a list (the ring read from the
  head index) give each operation its specification as a bounded FIFO queue.
\<close>

section \<open>Operations\<close>

text \<open>The loop \<^verbatim>\<open>for (int i = 0; i < jq->buf_size; i++) job_init(&jq->jobs[i])\<close>.\<close>

partial_function (option) jobqueue_init_loop :: "mem \<Rightarrow> nat \<Rightarrow> int \<Rightarrow> mem option" where
  "jobqueue_init_loop m q i = do {
     jq \<leftarrow> m_queues m q;
     if i < q_buf_size jq then do {
       m1 \<leftarrow> job_init m (Ptr (Slot q i));
       i' \<leftarrow> as_int (i + 1);
       jobqueue_init_loop m1 q i' }
     else Some m }"

definition jobqueue_init :: "mem \<Rightarrow> nat ptr \<Rightarrow> mem option" where
  "jobqueue_init m q = (case q of
     NULL \<Rightarrow> None
   | Ptr a \<Rightarrow> do {
       jq \<leftarrow> m_queues m a;
       jobqueue_init_loop
         (put_jq m a (jq\<lparr>q_head := 0, q_tail := 0, q_buf_size := int QUEUE_SIZE\<rparr>)) a 0 })"

definition jobqueue_new :: "mem \<Rightarrow> (nat ptr \<times> mem) option" where
  "jobqueue_new m = (case malloc_jq m of
     (NULL, m1) \<Rightarrow> Some (NULL, m1)
   | (Ptr a, m1) \<Rightarrow> do { m2 \<leftarrow> jobqueue_init m1 (Ptr a); Some (Ptr a, m2) })"

text \<open>The result is a \<^verbatim>\<open>size_t\<close>.\<close>

definition jobqueue_capacity :: "mem \<Rightarrow> nat ptr \<Rightarrow> 64 word option" where
  "jobqueue_capacity m q = (case q of
     NULL \<Rightarrow> Some 0
   | Ptr a \<Rightarrow> do {
       jq \<leftarrow> m_queues m a;
       c \<leftarrow> as_int (q_buf_size jq - 1);
       Some (word_of_int c) })"

definition jobqueue_is_empty :: "mem \<Rightarrow> nat ptr \<Rightarrow> bool option" where
  "jobqueue_is_empty m q = (case q of
     NULL \<Rightarrow> Some True
   | Ptr a \<Rightarrow> do { jq \<leftarrow> m_queues m a; Some (q_head jq = q_tail jq) })"

text \<open>\<^verbatim>\<open>(i + 1) % jq->buf_size\<close>.\<close>

definition next_index :: "jobqueue_t \<Rightarrow> int \<Rightarrow> int option" where
  "next_index jq i = do { i1 \<leftarrow> as_int (i + 1); int_rem i1 (q_buf_size jq) }"

definition jobqueue_is_full :: "mem \<Rightarrow> nat ptr \<Rightarrow> bool option" where
  "jobqueue_is_full m q = (case q of
     NULL \<Rightarrow> Some True
   | Ptr a \<Rightarrow> do {
       jq \<leftarrow> m_queues m a;
       n \<leftarrow> next_index jq (q_tail jq);
       Some (q_head jq = n) })"

definition jobqueue_peekhead ::
  "mem \<Rightarrow> nat ptr \<Rightarrow> job_loc ptr \<Rightarrow> (job_loc ptr \<times> mem) option" where
  "jobqueue_peekhead m q dst = do {
     e \<leftarrow> jobqueue_is_empty m q;
     if e then Some (NULL, m)
     else (case q of
       NULL \<Rightarrow> None
     | Ptr a \<Rightarrow> do {
         jq \<leftarrow> m_queues m a;
         job_copy m dst (Ptr (Slot a (q_head jq))) }) }"

definition jobqueue_peektail ::
  "mem \<Rightarrow> nat ptr \<Rightarrow> job_loc ptr \<Rightarrow> (job_loc ptr \<times> mem) option" where
  "jobqueue_peektail m q dst = do {
     e \<leftarrow> jobqueue_is_empty m q;
     if e \<or> q = NULL then Some (NULL, m)
     else (case q of
       NULL \<Rightarrow> None
     | Ptr a \<Rightarrow> do {
         jq \<leftarrow> m_queues m a;
         new_index \<leftarrow> (if q_tail jq < 1 then as_int (q_buf_size jq - 1) else as_int (q_tail jq - 1));
         job_copy m dst (Ptr (Slot a new_index)) }) }"

text \<open>The last two statements of both branches of \<^verbatim>\<open>jobqueue_dequeue\<close>.\<close>

definition advance_head :: "mem \<Rightarrow> nat \<Rightarrow> mem option" where
  "advance_head m a = do {
     jq \<leftarrow> m_queues m a;
     m1 \<leftarrow> job_init m (Ptr (Slot a (q_head jq)));
     jq1 \<leftarrow> m_queues m1 a;
     h \<leftarrow> next_index jq1 (q_head jq1);
     Some (put_jq m1 a (jq1\<lparr>q_head := h\<rparr>)) }"

definition jobqueue_dequeue ::
  "mem \<Rightarrow> nat ptr \<Rightarrow> job_loc ptr \<Rightarrow> (job_loc ptr \<times> mem) option" where
  "jobqueue_dequeue m q dst = (case q of
     NULL \<Rightarrow> Some (NULL, m)
   | Ptr a \<Rightarrow> do {
       e \<leftarrow> jobqueue_is_empty m q;
       if e then Some (NULL, m)
       else if dst = NULL then do {
         (new_dst, m1) \<leftarrow> jobqueue_peekhead m q NULL;
         m2 \<leftarrow> advance_head m1 a;
         Some (new_dst, m2) }
       else do {
         (_, m1) \<leftarrow> jobqueue_peekhead m q dst;
         m2 \<leftarrow> advance_head m1 a;
         Some (dst, m2) } })"

definition jobqueue_enqueue :: "mem \<Rightarrow> nat ptr \<Rightarrow> job_loc ptr \<Rightarrow> mem option" where
  "jobqueue_enqueue m q job =
     (if job = NULL then Some m
      else do {
        f \<leftarrow> jobqueue_is_full m q;
        if f then Some m
        else (case q of
          NULL \<Rightarrow> None
        | Ptr a \<Rightarrow> do {
            jq \<leftarrow> m_queues m a;
            (_, m1) \<leftarrow> job_copy m (Ptr (Slot a (q_tail jq))) job;
            jq1 \<leftarrow> m_queues m1 a;
            t \<leftarrow> next_index jq1 (q_tail jq1);
            Some (put_jq m1 a (jq1\<lparr>q_tail := t\<rparr>)) }) })"

definition jobqueue_delete :: "mem \<Rightarrow> nat ptr \<Rightarrow> mem option" where
  "jobqueue_delete m q = (case q of NULL \<Rightarrow> Some m | Ptr a \<Rightarrow> free_jq m a)"

section \<open>Specification\<close>

definition jq_ring :: "jobqueue_t \<Rightarrow> job_t list" where
  "jq_ring jq = rotate (nat (q_head jq)) (q_jobs jq)"

definition jq_count :: "jobqueue_t \<Rightarrow> nat" where
  "jq_count jq = nat ((q_tail jq - q_head jq) mod int QUEUE_SIZE)"

definition jq_contents :: "jobqueue_t \<Rightarrow> job_t list" where
  "jq_contents jq = take (jq_count jq) (jq_ring jq)"

text \<open>
  The invariant: the indices are in the buffer, every queued job has a full
  label, and every slot that holds no queued job is initialised.
\<close>

definition jq_inv :: "jobqueue_t \<Rightarrow> bool" where
  "jq_inv jq \<longleftrightarrow> jq_typ jq \<and> q_buf_size jq = int QUEUE_SIZE \<and>
     0 \<le> q_head jq \<and> q_head jq < int QUEUE_SIZE \<and>
     0 \<le> q_tail jq \<and> q_tail jq < int QUEUE_SIZE \<and>
     list_all job_ok (jq_contents jq) \<and>
     drop (jq_count jq) (jq_ring jq) = replicate (QUEUE_SIZE - jq_count jq) job_zero"

definition jq_empty :: jobqueue_t where
  "jq_empty = \<lparr>q_head = 0, q_tail = 0, q_buf_size = int QUEUE_SIZE,
     q_jobs = replicate QUEUE_SIZE job_zero\<rparr>"

text \<open>The queue values that a successful enqueue and dequeue leave.\<close>

definition enq_val :: "jobqueue_t \<Rightarrow> job_t \<Rightarrow> jobqueue_t" where
  "enq_val jq j = jq\<lparr>q_jobs := (q_jobs jq)[nat (q_tail jq) := copied j],
     q_tail := (q_tail jq + 1) mod int QUEUE_SIZE\<rparr>"

definition deq_val :: "jobqueue_t \<Rightarrow> jobqueue_t" where
  "deq_val jq = jq\<lparr>q_jobs := (q_jobs jq)[nat (q_head jq) := job_zero],
     q_head := (q_head jq + 1) mod int QUEUE_SIZE\<rparr>"

text \<open>A queue value in the store of a well-formed memory.\<close>

definition jq_at :: "mem \<Rightarrow> nat \<Rightarrow> jobqueue_t \<Rightarrow> bool" where
  "jq_at m q jq \<longleftrightarrow> wf_mem m \<and> m_queues m q = Some jq \<and> jq_inv jq"

section \<open>The ring\<close>

lemma jq_inv_ranges:
  assumes "jq_inv jq"
  shows "0 \<le> q_head jq" "q_head jq < int QUEUE_SIZE" "0 \<le> q_tail jq" "q_tail jq < int QUEUE_SIZE"
    "q_buf_size jq = int QUEUE_SIZE" "length (q_jobs jq) = QUEUE_SIZE" "list_all job_typ (q_jobs jq)"
  using assms by (simp_all add: jq_inv_def jq_typ_def)

lemma jq_count_less: "jq_count jq < QUEUE_SIZE"
  by (simp add: jq_count_def nat_less_iff QUEUE_SIZE_def)

lemma jq_count_eq:
  assumes "0 \<le> q_head jq" "q_head jq < int QUEUE_SIZE" "0 \<le> q_tail jq" "q_tail jq < int QUEUE_SIZE"
  shows "int (jq_count jq) =
    (if q_head jq \<le> q_tail jq then q_tail jq - q_head jq else q_tail jq - q_head jq + int QUEUE_SIZE)"
proof (cases "q_head jq \<le> q_tail jq")
  case True
  then show ?thesis using assms by (simp add: jq_count_def)
next
  case False
  have "(q_tail jq - q_head jq) mod int QUEUE_SIZE
    = (q_tail jq - q_head jq + int QUEUE_SIZE) mod int QUEUE_SIZE" by simp
  also have "\<dots> = q_tail jq - q_head jq + int QUEUE_SIZE"
    using False assms by (intro mod_pos_pos_trivial) simp_all
  finally show ?thesis using False assms by (simp add: jq_count_def)
qed

lemma length_jq_contents: "jq_inv jq \<Longrightarrow> length (jq_contents jq) = jq_count jq"
  using jq_count_less [of jq] by (simp add: jq_contents_def jq_ring_def jq_inv_ranges)

lemma jq_ring_split:
  "jq_inv jq \<Longrightarrow> jq_ring jq = jq_contents jq @ replicate (QUEUE_SIZE - jq_count jq) job_zero"
  by (metis append_take_drop_id jq_contents_def jq_inv_def)

lemma jq_inv_I:
  assumes "q_buf_size jq = int QUEUE_SIZE" "length (q_jobs jq) = QUEUE_SIZE"
    and "0 \<le> q_head jq" "q_head jq < int QUEUE_SIZE" "0 \<le> q_tail jq" "q_tail jq < int QUEUE_SIZE"
    and ring: "jq_ring jq = xs @ replicate (QUEUE_SIZE - length xs) job_zero"
    and cnt: "jq_count jq = length xs" and ok: "list_all job_ok xs"
  shows "jq_inv jq \<and> jq_contents jq = xs"
proof -
  have "set (q_jobs jq) = set (jq_ring jq)" by (simp add: jq_ring_def)
  also have "\<dots> \<subseteq> insert job_zero (set xs)" using ring by auto
  finally have "list_all job_typ (q_jobs jq)"
    using ok by (auto simp: list_all_iff job_ok_typ)
  moreover have "jq_contents jq = xs" by (simp add: jq_contents_def cnt ring)
  ultimately show ?thesis using assms by (simp add: jq_inv_def jq_typ_def)
qed

lemma jq_count_zero_iff: "jq_inv jq \<Longrightarrow> jq_count jq = 0 \<longleftrightarrow> q_head jq = q_tail jq"
  using jq_count_eq [of jq] jq_inv_ranges [of jq] by (auto split: if_splits)

lemma jq_empty_iff: "jq_inv jq \<Longrightarrow> q_head jq = q_tail jq \<longleftrightarrow> jq_contents jq = []"
  using jq_count_zero_iff length_jq_contents by fastforce

lemma succ_mod: "0 \<le> t \<Longrightarrow> t < int QUEUE_SIZE \<Longrightarrow>
   (t + 1) mod int QUEUE_SIZE = (if t = int QUEUE_SIZE - 1 then 0 else t + 1)"
  by simp

lemma jq_full_iff:
  assumes "jq_inv jq"
  shows "q_head jq = (q_tail jq + 1) mod int QUEUE_SIZE \<longleftrightarrow>
    length (jq_contents jq) = QUEUE_SIZE - 1"
proof -
  note r = jq_inv_ranges [OF assms]
  have "int (jq_count jq) = int QUEUE_SIZE - 1 \<longleftrightarrow> q_head jq = (q_tail jq + 1) mod int QUEUE_SIZE"
    using jq_count_eq [OF r(1-4)] succ_mod [OF r(3,4)] r(1-4) by (auto simp: QUEUE_SIZE_def)
  then show ?thesis by (auto simp: length_jq_contents [OF assms] QUEUE_SIZE_def)
qed

lemma jq_tail_eq:
  assumes "jq_inv jq"
  shows "(q_head jq + int (jq_count jq)) mod int QUEUE_SIZE = q_tail jq"
  using jq_inv_ranges [OF assms] by (simp add: jq_count_def mod_add_right_eq QUEUE_SIZE_def)

lemma jq_tail_index:
  assumes "jq_inv jq"
  shows "nat (q_tail jq) = (nat (q_head jq) + jq_count jq) mod QUEUE_SIZE"
proof -
  note r = jq_inv_ranges [OF assms]
  show ?thesis
    using jq_tail_eq [OF assms] nat_add_mod [of "q_head jq" "int (jq_count jq)" QUEUE_SIZE] r(1) by simp
qed

lemma jq_count_enq:
  assumes "jq_inv jq" "length (jq_contents jq) < QUEUE_SIZE - 1"
  shows "jq_count (enq_val jq j) = Suc (jq_count jq)"
proof -
  note r = jq_inv_ranges [OF assms(1)]
  have lt: "int (jq_count jq) < int QUEUE_SIZE - 1"
    using assms(2) by (simp add: length_jq_contents [OF assms(1)] QUEUE_SIZE_def)
  have "int (jq_count (enq_val jq j)) = int (jq_count jq) + 1"
    using lt jq_count_eq [OF r(1-4)] jq_count_eq [of "enq_val jq j"] succ_mod [OF r(3,4)] r(1-4)
    by (auto simp: enq_val_def split: if_splits)
  then show ?thesis by simp
qed

lemma jq_ring_enq:
  assumes "jq_inv jq"
  shows "jq_ring (enq_val jq j) = (jq_ring jq)[jq_count jq := copied j]"
  using rotate_update [of "jq_count jq" "q_jobs jq" "nat (q_head jq)" "copied j"]
    jq_count_less [of jq] jq_inv_ranges(6) [OF assms] jq_tail_index [OF assms]
  by (simp add: jq_ring_def enq_val_def)

theorem jq_enq_val:
  assumes inv: "jq_inv jq" and room: "length (jq_contents jq) < QUEUE_SIZE - 1"
  shows "jq_inv (enq_val jq j) \<and> jq_contents (enq_val jq j) = jq_contents jq @ [copied j]"
proof (rule jq_inv_I)
  note r = jq_inv_ranges [OF inv]
  let ?xs = "jq_contents jq"
  have len: "length ?xs = jq_count jq" by (rule length_jq_contents [OF inv])
  obtain k where k: "QUEUE_SIZE - jq_count jq = Suc k" using jq_count_less [of jq] less_imp_Suc_add
    by (metis Suc_diff_Suc)
  have "(jq_ring jq)[jq_count jq := copied j] = ?xs @ (replicate (Suc k) job_zero)[0 := copied j]"
    using jq_ring_split [OF inv] len k by (simp add: list_update_append)
  then show "jq_ring (enq_val jq j) = (?xs @ [copied j]) @
      replicate (QUEUE_SIZE - length (?xs @ [copied j])) job_zero"
    using k len by (simp add: jq_ring_enq [OF inv])
  show "jq_count (enq_val jq j) = length (?xs @ [copied j])"
    using jq_count_enq [OF inv room] len by simp
  show "list_all job_ok (?xs @ [copied j])"
    using inv by (simp add: jq_inv_def job_ok_copied)
qed (use jq_inv_ranges [OF inv] in \<open>simp_all add: enq_val_def\<close>)

lemma jq_count_deq:
  assumes "jq_inv jq" "jq_contents jq \<noteq> []"
  shows "Suc (jq_count (deq_val jq)) = jq_count jq"
proof -
  note r = jq_inv_ranges [OF assms(1)]
  have "q_head jq \<noteq> q_tail jq" using assms jq_empty_iff by blast
  then have "int (jq_count (deq_val jq)) + 1 = int (jq_count jq)"
    using jq_count_eq [OF r(1-4)] jq_count_eq [of "deq_val jq"] succ_mod [OF r(1,2)] r(1-4)
    by (auto simp: deq_val_def split: if_splits)
  then show ?thesis by simp
qed

lemma jq_ring_deq:
  assumes "jq_inv jq"
  shows "jq_ring (deq_val jq) = tl (jq_ring jq) @ [job_zero]"
proof -
  note r = jq_inv_ranges [OF assms]
  have "nat (q_head (deq_val jq)) = Suc (nat (q_head jq)) mod QUEUE_SIZE"
    using nat_add_mod [of "q_head jq" 1 QUEUE_SIZE] r(1) by (simp add: deq_val_def)
  then show ?thesis
    using rotate_Suc_update [of "nat (q_head jq)" "q_jobs jq" job_zero] r
    by (simp add: jq_ring_def deq_val_def nat_less_iff)
qed

theorem jq_deq_val:
  assumes inv: "jq_inv jq" and ne: "jq_contents jq \<noteq> []"
  shows "jq_inv (deq_val jq) \<and> jq_contents (deq_val jq) = tl (jq_contents jq)"
proof (rule jq_inv_I)
  note r = jq_inv_ranges [OF inv]
  let ?xs = "jq_contents jq"
  have len: "length ?xs = jq_count jq" by (rule length_jq_contents [OF inv])
  let ?n = "QUEUE_SIZE - jq_count jq"
  have "0 < length ?xs" using ne by simp
  then have n: "QUEUE_SIZE - length (tl ?xs) = Suc ?n"
    using jq_count_less [of jq] len by simp
  have "tl (jq_ring jq) @ [job_zero] = tl ?xs @ (replicate ?n job_zero @ [job_zero])"
    using ne by (simp add: jq_ring_split [OF inv])
  then show "jq_ring (deq_val jq) = tl ?xs @ replicate (QUEUE_SIZE - length (tl ?xs)) job_zero"
    unfolding jq_ring_deq [OF inv] n replicate_append_same by simp
  show "jq_count (deq_val jq) = length (tl ?xs)"
    using jq_count_deq [OF inv ne] len by simp
  show "list_all job_ok (tl ?xs)"
    using inv ne by (cases ?xs) (simp_all add: jq_inv_def)
qed (use jq_inv_ranges [OF inv] in \<open>simp_all add: deq_val_def\<close>)

lemma jq_head_job:
  assumes inv: "jq_inv jq" and ne: "jq_contents jq \<noteq> []"
  shows "q_jobs jq ! nat (q_head jq) = hd (jq_contents jq)"
proof -
  note r = jq_inv_ranges [OF inv]
  have "jq_ring jq \<noteq> []" using jq_ring_split [OF inv] ne by auto
  then have "hd (jq_ring jq) = q_jobs jq ! nat (q_head jq)"
    using r by (simp add: jq_ring_def hd_rotate_conv_nth nat_less_iff)
  then show ?thesis using jq_ring_split [OF inv] ne by simp
qed

lemma jq_tail_job:
  assumes inv: "jq_inv jq" and ne: "jq_contents jq \<noteq> []"
  shows "q_jobs jq ! nat ((q_tail jq - 1) mod int QUEUE_SIZE) = last (jq_contents jq)"
proof -
  note r = jq_inv_ranges [OF inv]
  obtain c where c: "jq_count jq = Suc c"
    using ne length_jq_contents [OF inv] by (cases "jq_count jq") auto
  have "(q_head jq + int c) mod int QUEUE_SIZE = (q_head jq + int (jq_count jq) - 1) mod int QUEUE_SIZE"
    by (simp add: c)
  also have "\<dots> = ((q_head jq + int (jq_count jq)) mod int QUEUE_SIZE - 1) mod int QUEUE_SIZE"
    by (rule mod_diff_left_eq [symmetric])
  also have "\<dots> = (q_tail jq - 1) mod int QUEUE_SIZE"
    by (simp only: jq_tail_eq [OF inv])
  finally have "nat ((q_tail jq - 1) mod int QUEUE_SIZE) = (nat (q_head jq) + c) mod QUEUE_SIZE"
    using nat_add_mod [of "q_head jq" "int c" QUEUE_SIZE] r(1) by simp
  moreover have "jq_ring jq ! c = q_jobs jq ! ((nat (q_head jq) + c) mod QUEUE_SIZE)"
    using r c jq_count_less [of jq] by (simp add: jq_ring_def nth_rotate)
  moreover have "last (jq_contents jq) = jq_contents jq ! c"
    using ne c length_jq_contents [OF inv] by (simp add: last_conv_nth)
  then have "last (jq_contents jq) = jq_ring jq ! c"
    using c by (simp add: jq_contents_def)
  ultimately show ?thesis by simp
qed

section \<open>What the operations do on the store\<close>

lemma jq_atD:
  assumes "jq_at m q jq"
  shows "wf_mem m" "m_queues m q = Some jq" "jq_inv jq"
  using assms by (simp_all add: jq_at_def)

lemma jq_at_put_Obj:
  assumes "jq_at m q jq" "m_jobs m a = Some j0" "job_typ j"
  shows "jq_at (put_job m (Obj a) j) q jq"
proof -
  have "wf_mem (put_job m (Obj a) j)"
    by (rule wf_put_job [OF jq_atD(1) [OF assms(1)] _ assms(3)]) (simp add: assms(2))
  then show ?thesis using jq_atD [OF assms(1)] by (simp add: jq_at_def)
qed

lemma jq_at_alloc: "jq_at m q jq \<Longrightarrow> job_typ j \<Longrightarrow> jq_at (alloc_job m j) q jq"
  by (simp add: jq_at_def wf_alloc_job mem_simps)

lemma jq_at_next: "jq_at m q jq \<Longrightarrow> jq_at (m\<lparr>m_next := Suc (m_next m)\<rparr>) q jq"
  by (auto simp: jq_at_def wf_mem_def)

lemma jq_at_put_jq: "jq_at m q jq \<Longrightarrow> jq_inv jq' \<Longrightarrow> jq_at (put_jq m q jq') q jq'"
  using wf_put_jq [of m q jq jq'] by (simp add: jq_at_def jq_inv_def mem_simps)

lemma load_Slot:
  assumes "jq_at m q jq" "0 \<le> i" "i < int QUEUE_SIZE"
  shows "load_job m (Slot q i) = Some (q_jobs jq ! nat i)"
  using jq_atD [OF assms(1)] jq_inv_ranges(6) [OF jq_atD(3) [OF assms(1)]] assms(2,3)
  by (simp add: in_array_def)

lemma next_index_ok:
  assumes "q_buf_size jq = int QUEUE_SIZE" "0 \<le> i" "i < int QUEUE_SIZE"
  shows "next_index jq i = Some ((i + 1) mod int QUEUE_SIZE)"
proof -
  have "as_int (i + 1) = Some (i + 1)" "i + 1 \<le> INT_MAX"
    using assms by (simp_all add: as_int_Some INT_MIN_def INT_MAX_def QUEUE_SIZE_def)
  then show ?thesis
    using assms by (simp add: next_index_def int_rem_Some QUEUE_SIZE_def)
qed

lemma jobqueue_is_empty_ok:
  "jq_at m q jq \<Longrightarrow> jobqueue_is_empty m (Ptr q) = Some (jq_contents jq = [])"
  by (simp add: jobqueue_is_empty_def jq_atD jq_empty_iff)

lemma jobqueue_is_full_ok:
  assumes "jq_at m q jq"
  shows "jobqueue_is_full m (Ptr q) = Some (length (jq_contents jq) = QUEUE_SIZE - 1)"
proof -
  note r = jq_inv_ranges [OF jq_atD(3) [OF assms]]
  show ?thesis
    using jq_full_iff [OF jq_atD(3) [OF assms]]
    by (simp add: jobqueue_is_full_def jq_atD [OF assms] next_index_ok [OF r(5,3,4)])
qed

lemma jobqueue_capacity_ok:
  "jq_at m q jq \<Longrightarrow> jobqueue_capacity m (Ptr q) = Some (word_of_nat (QUEUE_SIZE - 1))"
  by (simp add: jobqueue_capacity_def jq_atD jq_inv_ranges(5) as_int_Some QUEUE_SIZE_def
      INT_MIN_def INT_MAX_def)

text \<open>The job at the head and at the tail, with their full labels.\<close>

lemma jq_contents_ok: "jq_inv jq \<Longrightarrow> j \<in> set (jq_contents jq) \<Longrightarrow> job_ok j"
  by (simp add: jq_inv_def list_all_iff)

lemma job_ok_has_NUL: "job_ok j \<Longrightarrow> NUL \<in> set (j_label j)"
  by (simp add: job_ok_label(3))

lemma load_head:
  assumes "jq_at m q jq" "jq_contents jq \<noteq> []"
  shows "load_job m (Slot q (q_head jq)) = Some (hd (jq_contents jq))"
    and "job_ok (hd (jq_contents jq))"
  using assms load_Slot [OF assms(1)] jq_atD(3) [OF assms(1)]
  by (simp_all add: jq_inv_ranges jq_head_job jq_contents_ok)

lemma jobqueue_peekhead_empty:
  "jq_at m q jq \<Longrightarrow> jq_contents jq = [] \<Longrightarrow> jobqueue_peekhead m (Ptr q) dst = Some (NULL, m)"
  by (simp add: jobqueue_peekhead_def jobqueue_is_empty_ok)

lemma jobqueue_peekhead_copy:
  assumes "jq_at m q jq" "jq_contents jq \<noteq> []"
  shows "jobqueue_peekhead m (Ptr q) dst = job_copy m dst (Ptr (Slot q (q_head jq)))"
  using assms by (simp add: jobqueue_peekhead_def jobqueue_is_empty_ok jq_atD)

lemma jobqueue_peekhead_to:
  assumes at: "jq_at m q jq" and ne: "jq_contents jq \<noteq> []" and dst: "m_jobs m a = Some j0"
  shows "jobqueue_peekhead m (Ptr q) (Ptr (Obj a))
    = Some (Ptr (Obj a), put_job m (Obj a) (hd (jq_contents jq)))"
proof -
  note h = load_head [OF at ne]
  have "load_job m (Obj a) = Some j0" using dst by simp
  from job_copy_to [OF jq_atD(1) [OF at] h(1) this _ job_ok_has_NUL [OF h(2)]]
  show ?thesis by (simp add: jobqueue_peekhead_copy [OF at ne] copied_ok [OF h(2)])
qed

lemma jobqueue_peekhead_new:
  assumes at: "jq_at m q jq" and ne: "jq_contents jq \<noteq> []" and av: "m_avail m (m_next m)"
  shows "jobqueue_peekhead m (Ptr q) NULL
    = Some (Ptr (Obj (m_next m)), alloc_job m (hd (jq_contents jq)))"
proof -
  note h = load_head [OF at ne]
  from job_copy_new [OF jq_atD(1) [OF at] h(1) job_ok_has_NUL [OF h(2)] av]
  show ?thesis by (simp add: jobqueue_peekhead_copy [OF at ne] copied_ok [OF h(2)])
qed

lemma jobqueue_peekhead_new_fail:
  assumes at: "jq_at m q jq" and ne: "jq_contents jq \<noteq> []" and av: "\<not> m_avail m (m_next m)"
  shows "jobqueue_peekhead m (Ptr q) NULL = Some (NULL, m\<lparr>m_next := Suc (m_next m)\<rparr>)"
  using job_copy_new_fail [OF load_head(1) [OF at ne] av]
  by (simp add: jobqueue_peekhead_copy [OF at ne])

lemma jobqueue_peektail_empty:
  "jq_at m q jq \<Longrightarrow> jq_contents jq = [] \<Longrightarrow> jobqueue_peektail m (Ptr q) dst = Some (NULL, m)"
  by (simp add: jobqueue_peektail_def jobqueue_is_empty_ok)

lemma peektail_index:
  assumes "jq_inv jq"
  shows "(if q_tail jq < 1 then as_int (q_buf_size jq - 1) else as_int (q_tail jq - 1))
    = Some ((q_tail jq - 1) mod int QUEUE_SIZE)"
proof -
  note r = jq_inv_ranges [OF assms]
  show ?thesis
  proof (cases "q_tail jq < 1")
    case True
    then have "q_tail jq = 0" using r(3) by simp
    then show ?thesis using r by (simp add: as_int_Some INT_MIN_def INT_MAX_def QUEUE_SIZE_def)
  next
    case False
    then show ?thesis using r by (simp add: as_int_Some INT_MIN_def INT_MAX_def QUEUE_SIZE_def)
  qed
qed

lemma jobqueue_peektail_copy:
  assumes at: "jq_at m q jq" and ne: "jq_contents jq \<noteq> []"
  shows "jobqueue_peektail m (Ptr q) dst =
    job_copy m dst (Ptr (Slot q ((q_tail jq - 1) mod int QUEUE_SIZE)))"
  using at ne peektail_index [OF jq_atD(3) [OF at]]
  by (simp add: jobqueue_peektail_def jobqueue_is_empty_ok jq_atD)

lemma load_tail:
  assumes "jq_at m q jq" "jq_contents jq \<noteq> []"
  shows "load_job m (Slot q ((q_tail jq - 1) mod int QUEUE_SIZE)) = Some (last (jq_contents jq))"
    and "job_ok (last (jq_contents jq))"
proof -
  have "0 \<le> (q_tail jq - 1) mod int QUEUE_SIZE" "(q_tail jq - 1) mod int QUEUE_SIZE < int QUEUE_SIZE"
    by (simp_all add: QUEUE_SIZE_def)
  from load_Slot [OF assms(1) this] show
    "load_job m (Slot q ((q_tail jq - 1) mod int QUEUE_SIZE)) = Some (last (jq_contents jq))"
    by (simp only: jq_tail_job [OF jq_atD(3) [OF assms(1)] assms(2)])
  show "job_ok (last (jq_contents jq))"
    using jq_contents_ok [OF jq_atD(3) [OF assms(1)]] assms(2) by simp
qed

lemma jobqueue_peektail_to:
  assumes at: "jq_at m q jq" and ne: "jq_contents jq \<noteq> []" and dst: "m_jobs m a = Some j0"
  shows "jobqueue_peektail m (Ptr q) (Ptr (Obj a))
    = Some (Ptr (Obj a), put_job m (Obj a) (last (jq_contents jq)))"
proof -
  note t = load_tail [OF at ne]
  have "load_job m (Obj a) = Some j0" using dst by simp
  from job_copy_to [OF jq_atD(1) [OF at] t(1) this _ job_ok_has_NUL [OF t(2)]]
  show ?thesis by (simp add: jobqueue_peektail_copy [OF at ne] copied_ok [OF t(2)])
qed

lemma advance_head_ok:
  assumes at: "jq_at m q jq"
  shows "advance_head m q = Some (put_jq m q (deq_val jq))"
proof -
  note r = jq_inv_ranges [OF jq_atD(3) [OF at]]
  note m = jq_atD [OF at]
  let ?jq = "jq\<lparr>q_jobs := (q_jobs jq)[nat (q_head jq) := job_zero]\<rparr>"
  have "job_init m (Ptr (Slot q (q_head jq))) = Some (put_jq m q ?jq)"
    using job_init_ok [OF m(1) load_Slot [OF at r(1,2)]] put_job_Slot [OF m(2)] by simp
  moreover have "next_index ?jq (q_head ?jq) = Some ((q_head jq + 1) mod int QUEUE_SIZE)"
    using next_index_ok [of ?jq "q_head jq"] r by simp
  ultimately show ?thesis by (simp add: advance_head_def m mem_simps deq_val_def)
qed

lemma jobqueue_dequeue_empty:
  "jq_at m q jq \<Longrightarrow> jq_contents jq = [] \<Longrightarrow> jobqueue_dequeue m (Ptr q) dst = Some (NULL, m)"
  by (simp add: jobqueue_dequeue_def jobqueue_is_empty_ok)

lemma jobqueue_dequeue_to:
  assumes at: "jq_at m q jq" and ne: "jq_contents jq \<noteq> []" and dst: "m_jobs m a = Some j0"
  shows "jobqueue_dequeue m (Ptr q) (Ptr (Obj a)) =
    Some (Ptr (Obj a), put_jq (put_job m (Obj a) (hd (jq_contents jq))) q (deq_val jq))"
proof -
  have "jq_at (put_job m (Obj a) (hd (jq_contents jq))) q jq"
    using jq_at_put_Obj [OF at dst job_ok_typ] load_head(2) [OF at ne] by blast
  from advance_head_ok [OF this] show ?thesis
    using ne by (simp add: jobqueue_dequeue_def jobqueue_is_empty_ok [OF at]
        jobqueue_peekhead_to [OF at ne dst])
qed

lemma jobqueue_dequeue_new:
  assumes at: "jq_at m q jq" and ne: "jq_contents jq \<noteq> []" and av: "m_avail m (m_next m)"
  shows "jobqueue_dequeue m (Ptr q) NULL =
    Some (Ptr (Obj (m_next m)), put_jq (alloc_job m (hd (jq_contents jq))) q (deq_val jq))"
proof -
  have "jq_at (alloc_job m (hd (jq_contents jq))) q jq"
    using jq_at_alloc [OF at job_ok_typ] load_head(2) [OF at ne] by blast
  from advance_head_ok [OF this] show ?thesis
    using ne by (simp add: jobqueue_dequeue_def jobqueue_is_empty_ok [OF at]
        jobqueue_peekhead_new [OF at ne av])
qed

lemma jobqueue_dequeue_new_fail:
  assumes at: "jq_at m q jq" and ne: "jq_contents jq \<noteq> []" and av: "\<not> m_avail m (m_next m)"
  shows "jobqueue_dequeue m (Ptr q) NULL =
    Some (NULL, put_jq (m\<lparr>m_next := Suc (m_next m)\<rparr>) q (deq_val jq))"
  using ne advance_head_ok [OF jq_at_next [OF at]]
  by (simp add: jobqueue_dequeue_def jobqueue_is_empty_ok [OF at]
      jobqueue_peekhead_new_fail [OF at ne av])

lemma jobqueue_enqueue_full:
  "jq_at m q jq \<Longrightarrow> length (jq_contents jq) = QUEUE_SIZE - 1 \<Longrightarrow> jobqueue_enqueue m (Ptr q) job = Some m"
  by (simp add: jobqueue_enqueue_def jobqueue_is_full_ok)

lemma jobqueue_enqueue_room:
  assumes at: "jq_at m q jq" and room: "length (jq_contents jq) \<noteq> QUEUE_SIZE - 1"
    and src: "m_jobs m a = Some j" and nul: "NUL \<in> set (j_label j)"
  shows "jobqueue_enqueue m (Ptr q) (Ptr (Obj a)) = Some (put_jq m q (enq_val jq j))"
proof -
  note r = jq_inv_ranges [OF jq_atD(3) [OF at]]
  note m = jq_atD [OF at]
  let ?jq = "jq\<lparr>q_jobs := (q_jobs jq)[nat (q_tail jq) := copied j]\<rparr>"
  have src': "load_job m (Obj a) = Some j" using src by simp
  have "job_copy m (Ptr (Slot q (q_tail jq))) (Ptr (Obj a))
      = Some (Ptr (Slot q (q_tail jq)), put_jq m q ?jq)"
    using job_copy_to [OF m(1) src' load_Slot [OF at r(3,4)] _ nul] put_job_Slot [OF m(2)] by simp
  moreover have "next_index ?jq (q_tail ?jq) = Some ((q_tail jq + 1) mod int QUEUE_SIZE)"
    using next_index_ok [of ?jq "q_tail jq"] r by simp
  ultimately show ?thesis
    using room by (simp add: jobqueue_enqueue_def jobqueue_is_full_ok [OF at] m mem_simps enq_val_def)
qed

section \<open>Initialisation\<close>

lemma put_jq_same: "m_queues m q = Some jq \<Longrightarrow> put_jq m q jq = m"
  by (simp add: put_jq_def fun_upd_idem)

lemma jobqueue_init_loop_ok:
  assumes "wf_mem m" "m_queues m q = Some jq" "q_buf_size jq = int QUEUE_SIZE" "i \<le> QUEUE_SIZE"
  shows "jobqueue_init_loop m q (int i) =
    Some (put_jq m q (jq\<lparr>q_jobs := take i (q_jobs jq) @ replicate (QUEUE_SIZE - i) job_zero\<rparr>))"
  using assms
proof (induction "QUEUE_SIZE - i" arbitrary: i m jq)
  case 0
  have "length (q_jobs jq) = QUEUE_SIZE" using wf_queue [OF 0(2,3)] by (simp add: jq_typ_def)
  then show ?case
    using 0 by (subst jobqueue_init_loop.simps) (simp add: put_jq_same)
next
  case (Suc k)
  note pre = Suc.prems
  have "jq_typ jq" by (rule wf_queue [OF pre(1,2)])
  then have len: "length (q_jobs jq) = QUEUE_SIZE" by (simp add: jq_typ_def)
  have i: "i < QUEUE_SIZE" using Suc.hyps(2) by simp
  let ?jq = "jq\<lparr>q_jobs := (q_jobs jq)[i := job_zero]\<rparr>"
  have "load_job m (Slot q (int i)) = Some (q_jobs jq ! i)"
    using pre(2) len i by (simp add: in_array_def)
  from job_init_ok [OF pre(1) this] wf_put_job [OF pre(1) this job_typ_zero]
  have init: "job_init m (Ptr (Slot q (int i))) = Some (put_jq m q ?jq)"
    and wf: "wf_mem (put_jq m q ?jq)"
    using put_job_Slot [OF pre(2), of "int i" job_zero] by simp_all
  have loop: "jobqueue_init_loop (put_jq m q ?jq) q (int (Suc i)) = Some (put_jq (put_jq m q ?jq) q
      (?jq\<lparr>q_jobs := take (Suc i) (q_jobs ?jq) @ replicate (QUEUE_SIZE - Suc i) job_zero\<rparr>))"
    using Suc.hyps pre i by (intro Suc.hyps(1) wf) (simp_all add: mem_simps)
  have "as_int (int i + 1) = Some (int (Suc i))"
    using i by (simp add: as_int_Some INT_MIN_def INT_MAX_def QUEUE_SIZE_def)
  moreover have "take (Suc i) ((q_jobs jq)[i := job_zero]) @ replicate (QUEUE_SIZE - Suc i) job_zero
      = take i (q_jobs jq) @ replicate (QUEUE_SIZE - i) job_zero"
    using len i by (simp add: take_Suc_conv_app_nth Suc_diff_Suc [OF i, symmetric])
  ultimately show ?case
    using pre i init loop by (subst jobqueue_init_loop.simps) (simp add: mem_simps)
qed

lemma jobqueue_init_ok:
  assumes "wf_mem m" "m_queues m q = Some jq"
  shows "jobqueue_init m (Ptr q) = Some (put_jq m q jq_empty)"
proof -
  let ?jq = "jq\<lparr>q_head := 0, q_tail := 0, q_buf_size := int QUEUE_SIZE\<rparr>"
  have "jq_typ ?jq" using wf_queue [OF assms] by (simp add: jq_typ_def)
  then have wf: "wf_mem (put_jq m q ?jq)" by (rule wf_put_jq [OF assms])
  from jobqueue_init_loop_ok [OF this, of q ?jq 0] show ?thesis
    using assms(2) by (cases jq) (simp add: jobqueue_init_def mem_simps jq_empty_def)
qed

lemma jq_inv_empty: "jq_inv jq_empty \<and> jq_contents jq_empty = []"
  by (rule jq_inv_I) (simp_all add: jq_empty_def jq_ring_def jq_count_def QUEUE_SIZE_def)

text \<open>The memory after an allocation of a queue that succeeds, with the queue in it.\<close>

definition alloc_jq :: "mem \<Rightarrow> jobqueue_t \<Rightarrow> mem" where
  "alloc_jq m jq = put_jq (m\<lparr>m_next := Suc (m_next m), m_dyn := (m_dyn m)(m_next m := True)\<rparr>)
     (m_next m) jq"

lemma wf_alloc_jq: "wf_mem m \<Longrightarrow> jq_typ jq \<Longrightarrow> wf_mem (alloc_jq m jq)"
  by (auto simp: alloc_jq_def put_jq_def wf_mem_def)

lemma jobqueue_new_ok:
  assumes wf: "wf_mem m" and av: "m_avail m (m_next m)"
  shows "jobqueue_new m = Some (Ptr (m_next m), alloc_jq m jq_empty)"
proof -
  let ?n = "m_next m"
  let ?m = "alloc_jq m (m_junkq m ?n)"
  have "malloc_jq m = (Ptr ?n, ?m)"
    using av by (simp add: malloc_jq_def Let_def alloc_jq_def put_jq_def)
  moreover have "wf_mem ?m" by (rule wf_alloc_jq [OF wf wf_junk(2) [OF wf]])
  then have "jobqueue_init ?m (Ptr ?n) = Some (put_jq ?m ?n jq_empty)"
    by (rule jobqueue_init_ok) (simp add: alloc_jq_def mem_simps)
  ultimately show ?thesis by (simp add: jobqueue_new_def alloc_jq_def mem_simps)
qed

lemma jobqueue_new_fail:
  "\<not> m_avail m (m_next m) \<Longrightarrow> jobqueue_new m = Some (NULL, m\<lparr>m_next := Suc (m_next m)\<rparr>)"
  by (simp add: jobqueue_new_def malloc_jq_def Let_def)

section \<open>The queue contract holds\<close>

text \<open>
  The caller's pointers are to job objects of its own. What a pointer designates
  as an item is the copy the queue makes of the job there.
\<close>

definition jq_ok :: "nat \<Rightarrow> mem \<Rightarrow> bool" where
  "jq_ok q m \<longleftrightarrow> (case m_queues m q of None \<Rightarrow> False | Some jq \<Rightarrow> jq_at m q jq)"

definition jq_list :: "nat \<Rightarrow> mem \<Rightarrow> job_t list" where
  "jq_list q m = (case m_queues m q of None \<Rightarrow> [] | Some jq \<Rightarrow> jq_contents jq)"

definition own_var :: "mem \<Rightarrow> job_loc ptr \<Rightarrow> bool" where
  "own_var m p = (case p of Ptr (Obj a) \<Rightarrow> m_jobs m a \<noteq> None | _ \<Rightarrow> False)"

definition job_item :: "mem \<Rightarrow> job_loc ptr \<Rightarrow> job_t option" where
  "job_item m p = (case p of
     Ptr (Obj a) \<Rightarrow> do {
       j \<leftarrow> m_jobs m a;
       require (NUL \<in> set (j_label j));
       Some (copied j) }
   | _ \<Rightarrow> None)"

lemma jq_okD:
  assumes "jq_ok q m"
  obtains jq where "jq_at m q jq" "jq_list q m = jq_contents jq"
  using assms by (auto simp: jq_ok_def jq_list_def jq_atD split: option.splits)

lemma jq_okI: "jq_at m q jq \<Longrightarrow> jq_ok q m \<and> jq_list q m = jq_contents jq"
  by (simp add: jq_ok_def jq_list_def jq_atD)

lemma own_varE:
  assumes "own_var m p"
  obtains a j where "p = Ptr (Obj a)" "m_jobs m a = Some j"
  using assms by (auto simp: own_var_def split: ptr.splits job_loc.splits)

lemma job_itemE:
  assumes "job_item m p = Some x"
  obtains a j where "p = Ptr (Obj a)" "m_jobs m a = Some j" "NUL \<in> set (j_label j)" "x = copied j"
  using assms by (auto simp: job_item_def bind_eq_Some_conv split: ptr.splits job_loc.splits)

lemma own_var_put_jq [mem_simps]: "own_var (put_jq m q jq) = own_var m"
  by (simp add: own_var_def mem_simps fun_eq_iff cong: ptr.case_cong job_loc.case_cong)

lemma job_item_put_jq [mem_simps]: "job_item (put_jq m q jq) = job_item m"
  by (simp add: job_item_def mem_simps fun_eq_iff cong: ptr.case_cong job_loc.case_cong)

lemma own_var_put_Obj: "m_jobs m a = Some j0 \<Longrightarrow> own_var (put_job m (Obj a) j) = own_var m"
  by (auto simp: own_var_def fun_eq_iff split: ptr.splits job_loc.splits)

lemma job_item_put_Obj:
  assumes "job_ok j"
  shows "job_item (put_job m (Obj a) j) = (job_item m)(Ptr (Obj a) := Some j)"
  using job_ok_has_NUL [OF assms] copied_ok [OF assms]
  by (auto simp: job_item_def fun_eq_iff split: ptr.splits job_loc.splits)

text \<open>A copy of a queued job \<open>x\<close> into a variable, the queue becoming \<open>jq'\<close>.\<close>

lemma copy_out_ok:
  assumes at: "jq_at m q jq" and dst: "m_jobs m a = Some j0" and ok: "job_ok x" and inv: "jq_inv jq'"
  defines "t \<equiv> put_jq (put_job m (Obj a) x) q jq'"
  shows "jq_ok q t" "jq_list q t = jq_contents jq'" "own_var t = own_var m"
    "job_item t = (job_item m)(Ptr (Obj a) := Some x)"
proof -
  have "jq_at t q jq'"
    unfolding t_def by (rule jq_at_put_jq [OF jq_at_put_Obj [OF at dst job_ok_typ [OF ok]] inv])
  then show "jq_ok q t" "jq_list q t = jq_contents jq'" using jq_okI by blast+
  show "own_var t = own_var m" unfolding t_def own_var_put_jq by (rule own_var_put_Obj [OF dst])
  show "job_item t = (job_item m)(Ptr (Obj a) := Some x)"
    unfolding t_def job_item_put_jq by (rule job_item_put_Obj [OF ok])
qed

text \<open>What the operations do to a queue in the memory, as the contract has it.\<close>

abbreviation jq_step ::
  "nat \<Rightarrow> mem \<Rightarrow> job_t list \<Rightarrow> ((job_loc ptr \<Rightarrow> job_t option) \<Rightarrow> job_loc ptr \<Rightarrow> job_t option) \<Rightarrow> mem \<Rightarrow> bool" where
  "jq_step q \<equiv> fifo_step (jq_ok q) (jq_list q) own_var job_item"

lemma jq_step_same: "jq_ok q m \<Longrightarrow> jq_step q m (jq_list q m) id m"
  by (simp add: fifo_step_def)

lemma jq_bounded:
  assumes "jq_ok q m"
  shows "length (jq_list q m) \<le> QUEUE_SIZE - 1"
proof -
  obtain jq where "jq_at m q jq" "jq_list q m = jq_contents jq" using assms by (rule jq_okD)
  then show ?thesis using jq_count_less [of jq] length_jq_contents [OF jq_atD(3)]
    by (simp add: QUEUE_SIZE_def)
qed

lemma jq_observe:
  assumes "jq_ok q m"
  shows "jobqueue_is_empty m (Ptr q) = Some (jq_list q m = [])"
    "jobqueue_is_full m (Ptr q) = Some (length (jq_list q m) = QUEUE_SIZE - 1)"
  using assms by (auto elim!: jq_okD simp: jobqueue_is_empty_ok jobqueue_is_full_ok)

lemma jq_noop:
  assumes "jq_ok q m"
  shows "jobqueue_enqueue m (Ptr q) NULL = Some m"
    "length (jq_list q m) = QUEUE_SIZE - 1 \<Longrightarrow> jobqueue_enqueue m (Ptr q) p = Some m"
    "jq_list q m = [] \<Longrightarrow> jobqueue_dequeue m (Ptr q) d = Some (NULL, m)"
    "jq_list q m = [] \<Longrightarrow> jobqueue_peekhead m (Ptr q) d = Some (NULL, m)"
    "jq_list q m = [] \<Longrightarrow> jobqueue_peektail m (Ptr q) d = Some (NULL, m)"
  using assms
  by (auto elim!: jq_okD simp: jobqueue_enqueue_full jobqueue_dequeue_empty jobqueue_peekhead_empty
      jobqueue_peektail_empty) (simp add: jobqueue_enqueue_def)

lemma jq_enqueue_step:
  assumes "jq_ok q m" "length (jq_list q m) < QUEUE_SIZE - 1" "job_item m p = Some a"
  shows "\<exists>t. jobqueue_enqueue m (Ptr q) p = Some t \<and> jq_step q m (jq_list q m @ [a]) id t"
proof -
  obtain jq where jq: "jq_at m q jq" "jq_list q m = jq_contents jq" using assms(1) by (rule jq_okD)
  obtain b j where p: "p = Ptr (Obj b)" "m_jobs m b = Some j" "NUL \<in> set (j_label j)" "a = copied j"
    using assms(3) by (rule job_itemE)
  have "length (jq_contents jq) \<noteq> QUEUE_SIZE - 1" using assms(2) jq(2) by simp
  from jobqueue_enqueue_room [OF jq(1) this p(2,3)] jq_enq_val [OF jq_atD(3) [OF jq(1)], of j]
    jq_okI [OF jq_at_put_jq [OF jq(1)]] assms(2) jq(2) p
  show ?thesis by (auto simp: fifo_step_def mem_simps)
qed

lemma jq_dequeue_step:
  assumes "jq_ok q m" "jq_list q m = a # as" "own_var m d"
  shows "\<exists>t. jobqueue_dequeue m (Ptr q) d = Some (d, t) \<and> jq_step q m as (\<lambda>g. g(d := Some a)) t"
proof -
  obtain jq where jq: "jq_at m q jq" "jq_list q m = jq_contents jq" using assms(1) by (rule jq_okD)
  obtain b j where d: "d = Ptr (Obj b)" "m_jobs m b = Some j" using assms(3) by (rule own_varE)
  have ne: "jq_contents jq \<noteq> []" and hd: "hd (jq_contents jq) = a" "tl (jq_contents jq) = as"
    using assms(2) jq(2) by auto
  have "jq_inv (deq_val jq)" "jq_contents (deq_val jq) = as"
    using jq_deq_val [OF jq_atD(3) [OF jq(1)] ne] hd by auto
  with copy_out_ok [OF jq(1) d(2) load_head(2) [OF jq(1) ne], of "deq_val jq"]
    jobqueue_dequeue_to [OF jq(1) ne d(2)] hd d
  show ?thesis by (simp add: fifo_step_def)
qed

lemma jq_peek_step:
  assumes "jq_ok q m" "jq_list q m \<noteq> []" "own_var m d"
  shows "\<exists>t. jobqueue_peekhead m (Ptr q) d = Some (d, t) \<and>
      jq_step q m (jq_list q m) (\<lambda>g. g(d := Some (hd (jq_list q m)))) t"
    and "\<exists>t. jobqueue_peektail m (Ptr q) d = Some (d, t) \<and>
      jq_step q m (jq_list q m) (\<lambda>g. g(d := Some (last (jq_list q m)))) t"
proof -
  obtain jq where jq: "jq_at m q jq" "jq_list q m = jq_contents jq" using assms(1) by (rule jq_okD)
  obtain b j where d: "d = Ptr (Obj b)" "m_jobs m b = Some j" using assms(3) by (rule own_varE)
  have ne: "jq_contents jq \<noteq> []" using assms(2) jq(2) by simp
  have same: "put_jq (put_job m (Obj b) x) q jq = put_job m (Obj b) x" for x
    using jq_atD(2) [OF jq(1)] by (intro put_jq_same) simp
  note out = copy_out_ok [OF jq(1) d(2) _ jq_atD(3) [OF jq(1)], unfolded same]
  show "\<exists>t. jobqueue_peekhead m (Ptr q) d = Some (d, t) \<and>
      jq_step q m (jq_list q m) (\<lambda>g. g(d := Some (hd (jq_list q m)))) t"
    using out [OF load_head(2) [OF jq(1) ne]] jobqueue_peekhead_to [OF jq(1) ne d(2)] jq d
    by (simp add: fifo_step_def)
  show "\<exists>t. jobqueue_peektail m (Ptr q) d = Some (d, t) \<and>
      jq_step q m (jq_list q m) (\<lambda>g. g(d := Some (last (jq_list q m)))) t"
    using out [OF load_tail(2) [OF jq(1) ne]] jobqueue_peektail_to [OF jq(1) ne d(2)] jq d
    by (simp add: fifo_step_def)
qed

text \<open>The tests change no memory.\<close>

definition pure_obs :: "('s \<Rightarrow> 'b option) \<Rightarrow> 's \<Rightarrow> ('b \<times> 's) option" where
  "pure_obs f s = map_option (\<lambda>b. (b, s)) (f s)"

interpretation jq: peekable_fifo "jq_ok q" "jq_list q" "QUEUE_SIZE - 1" NULL own_var job_item
  "pure_obs (\<lambda>m. jobqueue_is_empty m (Ptr q))" "pure_obs (\<lambda>m. jobqueue_is_full m (Ptr q))"
  "\<lambda>m. jobqueue_enqueue m (Ptr q)" "\<lambda>m. jobqueue_dequeue m (Ptr q)"
  "\<lambda>m. jobqueue_peekhead m (Ptr q)" "\<lambda>m. jobqueue_peektail m (Ptr q)" for q
  by unfold_locales
    (use jq_bounded jq_observe jq_noop jq_enqueue_step jq_dequeue_step jq_peek_step jq_step_same in
      \<open>fastforce simp: pure_obs_def own_var_def\<close>)+

text \<open>The operations on the queue at \<open>q\<close>, as the interface \<open>Fifo\<close> describes.\<close>

definition jobqueue_if :: "nat \<Rightarrow> (mem, job_loc ptr) queue_if" where
  "jobqueue_if q = \<lparr>
     qi_empty = pure_obs (\<lambda>m. jobqueue_is_empty m (Ptr q)), qi_full = pure_obs (\<lambda>m. jobqueue_is_full m (Ptr q)),
     qi_enq = (\<lambda>m. jobqueue_enqueue m (Ptr q)), qi_deq = (\<lambda>m. jobqueue_dequeue m (Ptr q)),
     qi_peekhead = (\<lambda>m. jobqueue_peekhead m (Ptr q)), qi_peektail = (\<lambda>m. jobqueue_peektail m (Ptr q))\<rparr>"

text \<open>
  What the caller sees: the jobs in its own variables and blocks, as they are, the
  pointers that the next allocations will give, and the queue.
\<close>

definition jq_vars :: "mem \<Rightarrow> job_loc ptr \<Rightarrow> job_t option" where
  "jq_vars m p = (case p of Ptr (Obj a) \<Rightarrow> m_jobs m a | _ \<Rightarrow> None)"

definition jq_new :: "mem \<Rightarrow> nat \<Rightarrow> job_loc ptr" where
  "jq_new m k = (if m_avail m (m_next m + k) then Ptr (Obj (m_next m + k)) else NULL)"

definition jq_view :: "nat \<Rightarrow> mem \<Rightarrow> (job_loc ptr, job_t) queue_view" where
  "jq_view q m = (jq_vars m, jq_new m, jq_list q m)"

definition terminated :: "job_t \<Rightarrow> bool" where
  "terminated j \<longleftrightarrow> NUL \<in> set (j_label j)"

lemma jq_vars_simps [simp]: "jq_vars m NULL = None" "jq_vars m (Ptr (Obj a)) = m_jobs m a"
  by (simp_all add: jq_vars_def)

lemma jq_varsE:
  assumes "jq_vars m p = Some j"
  obtains a where "p = Ptr (Obj a)" "m_jobs m a = Some j"
  using assms by (auto simp: jq_vars_def split: ptr.splits job_loc.splits)

lemma jq_vars_cong: "m_jobs m' = m_jobs m \<Longrightarrow> jq_vars m' = jq_vars m"
  by (simp add: jq_vars_def fun_eq_iff cong: ptr.case_cong job_loc.case_cong)

lemma jq_vars_upd: "m_jobs m' = (m_jobs m)(a \<mapsto> x) \<Longrightarrow> jq_vars m' = (jq_vars m)(Ptr (Obj a) \<mapsto> x)"
  by (auto simp: jq_vars_def fun_eq_iff split: ptr.splits job_loc.splits)

lemma jq_view_put_jq: "jq_view q (put_jq m q jq) = (jq_vars m, jq_new m, jq_contents jq)"
  using jq_vars_cong [of "put_jq m q jq" m]
  by (simp add: jq_view_def jq_list_def jq_new_def fun_eq_iff mem_simps)

lemma jq_new_first: "jq_new m 0 = (if m_avail m (m_next m) then Ptr (Obj (m_next m)) else NULL)"
  by (simp add: jq_new_def)

lemma jq_new_rest:
  "m_avail m' = m_avail m \<Longrightarrow> m_next m' = Suc (m_next m) \<Longrightarrow> jq_new m' = (\<lambda>k. jq_new m (Suc k))"
  by (simp add: jq_new_def fun_eq_iff)

text \<open>Copying a job \<open>x\<close> out of the queue, on every branch of \<^verbatim>\<open>job_copy\<close>.\<close>

lemma job_copy_out:
  assumes at: "jq_at m q jq" and src: "load_job m (Slot q i) = Some x" and ok: "job_ok x"
    and d: "d = NULL \<or> jq_vars m d \<noteq> None" and h: "hand_out NULL d (Some x) (jq_vars m) (jq_new m) = (r, g, new)"
  shows "\<exists>m1. job_copy m d (Ptr (Slot q i)) = Some (r, m1) \<and> jq_at m1 q jq \<and> jq_vars m1 = g \<and> jq_new m1 = new \<and>
    (d \<noteq> NULL \<longrightarrow> r = d)"
proof (cases d)
  case (Ptr l)
  then obtain a j0 where a: "d = Ptr (Obj a)" "m_jobs m a = Some j0" using d by (auto elim: jq_varsE)
  have "load_job m (Obj a) = Some j0" using a(2) by simp
  from job_copy_to [OF jq_atD(1) [OF at] src this _ job_ok_has_NUL [OF ok]]
  have c: "job_copy m d (Ptr (Slot q i)) = Some (d, put_job m (Obj a) x)" by (simp add: a(1) copied_ok [OF ok])
  have "jq_new (put_job m (Obj a) x) = jq_new m" by (simp add: jq_new_def fun_eq_iff)
  moreover have "jq_vars (put_job m (Obj a) x) = (jq_vars m)(d \<mapsto> x)"
    unfolding a(1) by (rule jq_vars_upd) simp
  ultimately show ?thesis
    using c h a(1) jq_at_put_Obj [OF at a(2) job_ok_typ [OF ok]]
    by (intro exI [of _ "put_job m (Obj a) x"]) (auto simp: hand_out_def)
next
  case NULL
  note cp = copied_ok [OF ok] job_ok_has_NUL [OF ok]
  show ?thesis
  proof (cases "m_avail m (m_next m)")
    case True
    have v: "jq_vars (alloc_job m x) = (jq_vars m)(Ptr (Obj (m_next m)) \<mapsto> x)"
      by (rule jq_vars_upd) (simp add: mem_simps)
    have "job_copy m d (Ptr (Slot q i)) = Some (Ptr (Obj (m_next m)), alloc_job m x)"
      using job_copy_new [OF jq_atD(1) [OF at] src cp(2) True] NULL cp(1) by simp
    moreover have "jq_new (alloc_job m x) = (\<lambda>k. jq_new m (Suc k))" by (rule jq_new_rest) (simp_all add: mem_simps)
    ultimately show ?thesis
      using h NULL True v jq_at_alloc [OF at job_ok_typ [OF ok]]
      by (intro exI [of _ "alloc_job m x"]) (auto simp: hand_out_def jq_new_first)
  next
    case False
    have v: "jq_vars (m\<lparr>m_next := Suc (m_next m)\<rparr>) = jq_vars m" by (rule jq_vars_cong) simp
    show ?thesis
      using job_copy_new_fail [OF src False] NULL False h v jq_at_next [OF at]
        jq_new_rest [of "m\<lparr>m_next := Suc (m_next m)\<rparr>" m]
      by (intro exI [of _ "m\<lparr>m_next := Suc (m_next m)\<rparr>"]) (auto simp: hand_out_def jq_new_first)
  qed
qed

lemma jobqueue_dequeue_copy:
  assumes at: "jq_at m q jq" and ne: "jq_contents jq \<noteq> []"
    and c: "job_copy m d (Ptr (Slot q (q_head jq))) = Some (r, m1)" "jq_at m1 q jq" "d \<noteq> NULL \<longrightarrow> r = d"
  shows "jobqueue_dequeue m (Ptr q) d = Some (r, put_jq m1 q (deq_val jq))"
  using ne c jobqueue_peekhead_copy [OF at ne] advance_head_ok [OF c(2)]
  by (auto simp: jobqueue_dequeue_def jobqueue_is_empty_ok [OF at])

interpretation jqi: queue_interface "jq_ok q" "jq_view q" "QUEUE_SIZE - 1" NULL terminated copied "jobqueue_if q" for q
proof (unfold_locales, goal_cases)
  case (1 m g new xs)
  then show ?case using jq_bounded [OF 1(1)] by (simp add: jq_view_def)
next
  case (2 m g new xs)
  then show ?case using jq_observe(1) [OF 2(1)] by (simp add: jobqueue_if_def pure_obs_def shows_view_def jq_view_def)
next
  case (3 m g new xs)
  then show ?case using jq_observe(2) [OF 3(1)] by (simp add: jobqueue_if_def pure_obs_def shows_view_def jq_view_def)
next
  case (4 m g new xs p)
  then show ?case using jq_noop(1,2) [OF 4(1)] by (auto simp: jobqueue_if_def shows_view_def jq_view_def)
next
  case (5 m g new xs p j)
  obtain jq where jq: "jq_at m q jq" "jq_list q m = jq_contents jq" using 5(1) by (rule jq_okD)
  have v: "g = jq_vars m" "new = jq_new m" "xs = jq_contents jq" using 5(2) jq(2) by (simp_all add: jq_view_def)
  obtain a where a: "p = Ptr (Obj a)" "m_jobs m a = Some j" using 5(5) v(1) by (auto elim: jq_varsE)
  have room: "length (jq_contents jq) < QUEUE_SIZE - 1" using 5(3) v(3) by simp
  then have "jobqueue_enqueue m (Ptr q) p = Some (put_jq m q (enq_val jq j))"
    using jobqueue_enqueue_room [OF jq(1) _ a(2)] 5(6) a(1) by (simp add: terminated_def)
  then show ?case
    using jq_enq_val [OF jq_atD(3) [OF jq(1)] room, of j] jq_okI [OF jq_at_put_jq [OF jq(1)], of "enq_val jq j"] v
    by (simp add: jobqueue_if_def shows_view_def jq_view_put_jq)
next
  case (6 m g new d)
  then show ?case using jq_noop(3) [OF 6(1)] by (simp add: jobqueue_if_def shows_view_def jq_view_def)
next
  case (7 m g new d)
  then show ?case using jq_noop(4) [OF 7(1)] by (simp add: jobqueue_if_def shows_view_def jq_view_def)
next
  case (8 m g new d)
  then show ?case using jq_noop(5) [OF 8(1)] by (simp add: jobqueue_if_def shows_view_def jq_view_def)
next
  case (9 m g new a as d r g' new')
  obtain jq where jq: "jq_at m q jq" "jq_list q m = jq_contents jq" using 9(1) by (rule jq_okD)
  have v: "g = jq_vars m" "new = jq_new m" "jq_contents jq = a # as" using 9(2) jq(2) by (simp_all add: jq_view_def)
  have ne: "jq_contents jq \<noteq> []" and hd: "hd (jq_contents jq) = a" using v(3) by simp_all
  obtain m1 where m1: "job_copy m d (Ptr (Slot q (q_head jq))) = Some (r, m1)" "jq_at m1 q jq" "jq_vars m1 = g'" "jq_new m1 = new'"
    "d \<noteq> NULL \<longrightarrow> r = d"
    using job_copy_out [OF jq(1) load_head [OF jq(1) ne], of d r g' new'] 9(3,4) v(1,2) hd by auto
  have d: "jq_inv (deq_val jq)" "jq_contents (deq_val jq) = as" using jq_deq_val [OF jq_atD(3) [OF jq(1)] ne] v(3) by simp_all
  then show ?case
    using jobqueue_dequeue_copy [OF jq(1) ne m1(1,2,5)] jq_okI [OF jq_at_put_jq [OF m1(2) d(1)]] m1(3,4)
    by (simp add: jobqueue_if_def shows_view_def jq_view_put_jq)
next
  case (10 m g new xs d r g' new')
  obtain jq where jq: "jq_at m q jq" "jq_list q m = jq_contents jq" using 10(1) by (rule jq_okD)
  have v: "g = jq_vars m" "new = jq_new m" "xs = jq_contents jq" using 10(2) jq(2) by (simp_all add: jq_view_def)
  have ne: "jq_contents jq \<noteq> []" using 10(3) v(3) by simp
  obtain m1 where m1: "job_copy m d (Ptr (Slot q (q_head jq))) = Some (r, m1)" "jq_at m1 q jq" "jq_vars m1 = g'" "jq_new m1 = new'"
    using job_copy_out [OF jq(1) load_head [OF jq(1) ne], of d r g' new'] 10(4,5) v by auto
  then show ?case
    using jobqueue_peekhead_copy [OF jq(1) ne, of d] jq_okI [OF m1(2)] v(3) by (simp add: jobqueue_if_def shows_view_def jq_view_def)
next
  case (11 m g new xs d r g' new')
  obtain jq where jq: "jq_at m q jq" "jq_list q m = jq_contents jq" using 11(1) by (rule jq_okD)
  have v: "g = jq_vars m" "new = jq_new m" "xs = jq_contents jq" using 11(2) jq(2) by (simp_all add: jq_view_def)
  have ne: "jq_contents jq \<noteq> []" using 11(3) v(3) by simp
  obtain m1 where m1: "job_copy m d (Ptr (Slot q ((q_tail jq - 1) mod int QUEUE_SIZE))) = Some (r, m1)" "jq_at m1 q jq"
    "jq_vars m1 = g'" "jq_new m1 = new'"
    using job_copy_out [OF jq(1) load_tail [OF jq(1) ne], of d r g' new'] 11(4,5) v by auto
  then show ?case
    using jobqueue_peektail_copy [OF jq(1) ne, of d] jq_okI [OF m1(2)] v(3) by (simp add: jobqueue_if_def shows_view_def jq_view_def)
qed

section \<open>Properties\<close>

lemma jq_ok_mem_of:
  assumes "list_all job_typ js" "jq_inv jq"
  shows "jq_ok 0 (mem_of js [jq] ok)" "jq_list 0 (mem_of js [jq] ok) = jq_contents jq"
proof -
  have "jq_typ jq" using assms(2) by (simp add: jq_inv_def)
  with assms have "jq_at (mem_of js [jq] ok) 0 jq"
    by (simp add: jq_at_def wf_mem_of mem_simps)
  then show "jq_ok 0 (mem_of js [jq] ok)" "jq_list 0 (mem_of js [jq] ok) = jq_contents jq"
    using jq_okI by blast+
qed

lemma job_item_mem_of:
  "a < length js \<Longrightarrow> job_ok (js ! a) \<Longrightarrow> job_item (mem_of js qs ok) (Ptr (Obj a)) = Some (js ! a)"
  by (simp add: job_item_def mem_simps job_ok_has_NUL copied_ok)

lemma own_var_mem_of: "own_var (mem_of js qs ok) (Ptr (Obj a)) \<longleftrightarrow> a < length js"
  by (simp add: own_var_def mem_simps)

text \<open>A queue of one job.\<close>

definition jq_one :: "job_t \<Rightarrow> jobqueue_t" where
  "jq_one j = enq_val jq_empty j"

lemma jq_one: "job_ok j \<Longrightarrow> jq_inv (jq_one j) \<and> jq_contents (jq_one j) = [j]"
  using jq_enq_val [of jq_empty j] jq_inv_empty by (simp add: jq_one_def copied_ok QUEUE_SIZE_def)

text \<open>
  A new queue is empty, and after any sequence of enqueues (each made when
  the queue reports that it is not full) and dequeues into the caller's
  variables, the jobs accepted are the jobs handed out followed by the queue's
  contents, in order: none is lost, duplicated, reordered or altered, no call is
  undefined, and at most 127 are queued.
\<close>

theorem jobqueue_fifo:
  assumes "wf_mem m" "m_avail m (m_next m)"
  shows "\<exists>q m1. jobqueue_new m = Some (Ptr q, m1) \<and> jq_list q m1 = [] \<and>
    (\<forall>ops. (\<forall>op \<in> set ops. fifo_op_ok own_var job_item m1 op) \<longrightarrow>
      (\<exists>ins outs t. fifo_run NULL job_item (pure_obs (\<lambda>s. jobqueue_is_full s (Ptr q)))
          (\<lambda>s. jobqueue_enqueue s (Ptr q)) (\<lambda>s. jobqueue_dequeue s (Ptr q)) m1 ops = Some (ins, outs, t) \<and>
        ins = outs @ jq_list q t \<and> length (jq_list q t) \<le> 127))"
proof -
  let ?q = "m_next m" and ?m = "alloc_jq m jq_empty"
  have "jq_typ jq_empty" using jq_inv_empty by (simp add: jq_inv_def)
  then have "wf_mem ?m" by (rule wf_alloc_jq [OF assms(1)])
  then have "jq_at ?m ?q jq_empty" using jq_inv_empty by (simp add: jq_at_def alloc_jq_def mem_simps)
  then have ok: "jq_ok ?q ?m" "jq_list ?q ?m = []" using jq_okI jq_inv_empty by fastforce+
  show ?thesis
    using jobqueue_new_ok [OF assms] ok jq.run_fifo [OF ok(1)] jq_bounded
    by (intro exI [of _ ?q] exI [of _ ?m]) (fastforce simp: QUEUE_SIZE_def)
qed

lemma jobqueue_fifo_witness:
  "\<exists>q m1. jobqueue_new (mem_of [mk_job 7 1 ''a''] [] True) = Some (Ptr q, m1) \<and> jq_list q m1 = []"
  using jobqueue_fifo [OF wf_mem_jobs [of "[mk_job 7 1 ''a'']" True]] by (auto simp: mem_simps)

text \<open>
  C3: any sequence of calls on any queue that satisfies the invariant is defined and gives
  exactly the results (a returned pointer and the job it points to), the queued jobs and
  the caller's variables that the documented effects give on a list of at most 127 jobs:
  NULL jobs, full and empty queues, destinations that are NULL (the job comes in a new object,
  which the calls that follow may use) and allocations that fail included, a dequeue then
  taking the job off and returning NULL. What is queued is the copy that \<^verbatim>\<open>job_copy\<close> makes,
  its label padded to 31 characters: equal to the caller's job when its label has
  31 characters, and not otherwise, though \<^verbatim>\<open>job.h\<close> promises an equal copy.
  What the caller sees to: a job that is enqueued when there is room is NULL or a
  terminated job in an object of the caller, and a destination, when there is a job
  for it, is NULL or an object of the caller (none points into the queue).
\<close>

theorem jobqueue_refines:
  assumes "jq_ok q m" "calls_ok 127 terminated copied NULL cs (jq_view q m)"
  shows "\<exists>rs t. queue_run (jobqueue_if q) NULL jq_vars cs m = Some (rs, t) \<and> jq_ok q t \<and>
    spec_run 127 copied NULL cs (jq_view q m) = (rs, jq_view q t)"
proof -
  have "calls_ok (QUEUE_SIZE - 1) terminated copied NULL cs (jq_view q m)" using assms(2) by (simp add: QUEUE_SIZE_def)
  moreover have "(\<lambda>s. fst (jq_view q s)) = jq_vars" by (simp add: jq_view_def)
  ultimately show ?thesis using jqi.run_refines [OF assms(1), of cs] by (simp add: QUEUE_SIZE_def)
qed

text \<open>A job with a short label in, its padded copy out into a new object, which is enqueued again.\<close>

lemma jobqueue_refines_witness:
  "\<exists>t. queue_run (jobqueue_if 0) NULL jq_vars [Q_enqueue NULL, Q_enqueue (Ptr (Obj 0)), Q_dequeue NULL, Q_enqueue (Ptr (Obj 2)),
        Q_peektail (Ptr (Obj 0)), Q_dequeue NULL, Q_is_empty, Q_dequeue (Ptr (Obj 9))]
      ((mem_of [job_zero] [jq_empty] True)\<lparr>m_avail := \<lambda>n. n = 2\<rparr>)
    = Some ([QR_void, QR_void, QR_job (Ptr (Obj 2)) (Some (copied job_zero)), QR_void,
        QR_job (Ptr (Obj 0)) (Some (copied job_zero)), QR_job NULL None, QR_bool True, QR_job NULL None], t)"
proof -
  let ?cs = "[Q_enqueue NULL, Q_enqueue (Ptr (Obj 0)), Q_dequeue NULL, Q_enqueue (Ptr (Obj 2)),
        Q_peektail (Ptr (Obj 0)), Q_dequeue NULL, Q_is_empty, Q_dequeue (Ptr (Obj 9))]"
  let ?m = "(mem_of [job_zero] [jq_empty] True)\<lparr>m_avail := \<lambda>n. n = 2\<rparr>"
  have "jq_typ jq_empty" using jq_inv_empty by (simp add: jq_inv_def)
  then have "wf_mem ?m" using wf_mem_of [of "[job_zero]" "[jq_empty]" True] by (simp add: wf_mem_def)
  then have "jq_at ?m 0 jq_empty" using jq_inv_empty by (simp add: jq_at_def mem_simps)
  then have ok: "jq_ok 0 ?m" "jq_list 0 ?m = []" using jq_okI jq_inv_empty by fastforce+
  have v: "jq_vars ?m (Ptr (Obj 0)) = Some job_zero" "jq_new ?m 0 = Ptr (Obj 2)" "jq_new ?m (Suc 0) = NULL"
    "terminated job_zero"
    by (simp_all add: mem_simps jq_new_def terminated_def job_zero_def MAX_NAME_SIZE_def)
  have cp: "copied (copied job_zero) = copied job_zero" "terminated (copied job_zero)"
    using job_ok_copied [of job_zero] by (simp_all add: copied_ok terminated_def job_ok_has_NUL)
  note specs = is_empty_spec_def is_full_spec_def enqueue_spec_def dequeue_spec_def peekhead_spec_def peektail_spec_def
    job_call_def hand_out_def Let_def
  have "calls_ok 127 terminated copied NULL ?cs (jq_view 0 ?m)"
    using ok(2) v cp by (simp add: jq_view_def specs)
  from jobqueue_refines [OF ok(1) this] obtain rs t where
    "queue_run (jobqueue_if 0) NULL jq_vars ?cs ?m = Some (rs, t)"
    "spec_run 127 copied NULL ?cs (jq_view 0 ?m) = (rs, jq_view 0 t)" by blast
  then show ?thesis using ok(2) v cp by (simp add: jq_view_def specs)
qed

text \<open>
  Enqueueing NULL, or on a full queue, has no effect at all; otherwise the
  contents grow at their end by the copy of the job (its label padded in full),
  and every job variable of the caller keeps its value.
\<close>

theorem jobqueue_enqueue_spec:
  assumes "jq_ok q m"
  shows "jobqueue_enqueue m (Ptr q) NULL = Some m \<and>
    (length (jq_list q m) = 127 \<longrightarrow> jobqueue_enqueue m (Ptr q) p = Some m) \<and>
    (length (jq_list q m) < 127 \<longrightarrow> job_item m p = Some a \<longrightarrow>
      (\<exists>t. jobqueue_enqueue m (Ptr q) p = Some t \<and> jq_ok q t \<and> jq_list q t = jq_list q m @ [a] \<and>
        job_item t = job_item m))"
  using jq_noop(1,2) [OF assms] jq_enqueue_step [OF assms, of p a]
  by (auto simp: fifo_step_def QUEUE_SIZE_def)

lemma jobqueue_enqueue_spec_witness:
  "\<exists>t. jobqueue_enqueue (mem_of [mk_job 7 1 ''a''] [jq_empty] True) (Ptr 0) (Ptr (Obj 0)) = Some t \<and>
    jq_list 0 t = [mk_job 7 1 ''a'']"
proof -
  let ?j = "mk_job 7 1 ''a''"
  have ok: "job_ok ?j" by (rule job_ok_mk_job) (simp add: NUL_def)
  have m: "list_all job_typ [?j]" by simp
  show ?thesis
    using jobqueue_enqueue_spec [OF jq_ok_mem_of(1) [OF m conjunct1 [OF jq_inv_empty], of True],
        of "Ptr (Obj 0)" ?j] job_item_mem_of [of 0 "[?j]" "[jq_empty]" True]
      jq_ok_mem_of(2) [OF m conjunct1 [OF jq_inv_empty], of True] jq_inv_empty ok
    by auto
qed

text \<open>
  Dequeueing from an empty queue returns NULL and changes nothing; otherwise
  the head job goes to the given variable, only that variable changes, and the
  slot it left is initialised again (the invariant of the queue that follows).
\<close>

theorem jobqueue_dequeue_spec:
  assumes "jq_ok q m" "own_var m d"
  shows "(jq_list q m = [] \<longrightarrow> jobqueue_dequeue m (Ptr q) d = Some (NULL, m)) \<and>
    (\<forall>a as. jq_list q m = a # as \<longrightarrow>
      (\<exists>t jq. jobqueue_dequeue m (Ptr q) d = Some (d, t) \<and> jq_ok q t \<and> jq_list q t = as \<and>
        job_item t = (job_item m)(d := Some a) \<and> m_queues t q = Some jq \<and>
        (\<forall>k < QUEUE_SIZE. k \<ge> length as \<longrightarrow> jq_ring jq ! k = job_zero)))"
proof (intro conjI allI impI)
  show "jq_list q m = [] \<Longrightarrow> jobqueue_dequeue m (Ptr q) d = Some (NULL, m)"
    by (rule jq_noop(3) [OF assms(1)])
  fix a as assume c: "jq_list q m = a # as"
  obtain t where t: "jobqueue_dequeue m (Ptr q) d = Some (d, t)" "jq_ok q t" "jq_list q t = as"
    "job_item t = (job_item m)(d := Some a)"
    using jq_dequeue_step [OF assms(1) c assms(2)] by (auto simp: fifo_step_def)
  obtain jq where jq: "jq_at t q jq" "jq_list q t = jq_contents jq" using t(2) by (rule jq_okD)
  have "length as = jq_count jq" using length_jq_contents [OF jq_atD(3) [OF jq(1)]] jq(2) t(3) by simp
  then have "\<forall>k < QUEUE_SIZE. k \<ge> length as \<longrightarrow> jq_ring jq ! k = job_zero"
    using jq_ring_split [OF jq_atD(3) [OF jq(1)]] jq(2) t(3) by (simp add: nth_append)
  then show "\<exists>t jq. jobqueue_dequeue m (Ptr q) d = Some (d, t) \<and> jq_ok q t \<and> jq_list q t = as \<and>
        job_item t = (job_item m)(d := Some a) \<and> m_queues t q = Some jq \<and>
        (\<forall>k < QUEUE_SIZE. k \<ge> length as \<longrightarrow> jq_ring jq ! k = job_zero)"
    using t jq_atD(2) [OF jq(1)] by blast
qed

lemma jobqueue_dequeue_spec_witness:
  "\<exists>t. jobqueue_dequeue (mem_of [job_zero] [jq_one (mk_job 7 1 ''a'')] True) (Ptr 0) (Ptr (Obj 0)) = Some (Ptr (Obj 0), t) \<and>
    jq_list 0 t = []"
proof -
  let ?j = "mk_job 7 1 ''a''"
  have "job_ok ?j" by (rule job_ok_mk_job) (simp add: NUL_def)
  note one = jq_one [OF this]
  have m: "list_all job_typ [job_zero]" by simp
  show ?thesis
    using jobqueue_dequeue_spec [OF jq_ok_mem_of(1) [OF m conjunct1 [OF one], of True], of "Ptr (Obj 0)"]
      jq_ok_mem_of(2) [OF m conjunct1 [OF one], of True] one by (auto simp: own_var_mem_of)
qed

text \<open>
  Peeking at the head returns the job that the next dequeue hands out, and
  after an accepted enqueue the tail shows the job just enqueued; neither peek
  changes the contents.
\<close>

theorem jobqueue_peek_spec:
  assumes "jq_ok q m" "own_var m d" "own_var m e"
  shows "(jq_list q m \<noteq> [] \<longrightarrow> (\<exists>t u. jobqueue_peekhead m (Ptr q) d = Some (d, t) \<and>
      jq_list q t = jq_list q m \<and> jobqueue_dequeue t (Ptr q) e = Some (e, u) \<and> job_item u e = job_item t d)) \<and>
    (length (jq_list q m) < 127 \<and> job_item m p = Some a \<longrightarrow>
      (\<exists>t u. jobqueue_enqueue m (Ptr q) p = Some t \<and> jobqueue_peektail t (Ptr q) d = Some (d, u) \<and>
        job_item u d = Some a \<and> jq_list q u = jq_list q m @ [a]))"
proof (intro conjI impI)
  assume ne: "jq_list q m \<noteq> []"
  show "\<exists>t u. jobqueue_peekhead m (Ptr q) d = Some (d, t) \<and> jq_list q t = jq_list q m \<and>
      jobqueue_dequeue t (Ptr q) e = Some (e, u) \<and> job_item u e = job_item t d"
    using jq.peek_then_deq [OF assms(1) ne assms(2,3)] by blast
next
  assume "length (jq_list q m) < 127 \<and> job_item m p = Some a"
  then have "length (jq_list q m) < QUEUE_SIZE - 1" "job_item m p = Some a" by (simp_all add: QUEUE_SIZE_def)
  from jq.enq_then_peektail [OF assms(1) this assms(2)]
  show "\<exists>t u. jobqueue_enqueue m (Ptr q) p = Some t \<and> jobqueue_peektail t (Ptr q) d = Some (d, u) \<and>
        job_item u d = Some a \<and> jq_list q u = jq_list q m @ [a]" by blast
qed

lemma jobqueue_peek_spec_witness:
  "\<exists>t u. jobqueue_peekhead (mem_of [job_zero, job_zero] [jq_one (mk_job 7 1 ''a'')] True) (Ptr 0) (Ptr (Obj 0)) = Some (Ptr (Obj 0), t) \<and>
    jobqueue_dequeue t (Ptr 0) (Ptr (Obj 1)) = Some (Ptr (Obj 1), u)"
proof -
  let ?j = "mk_job 7 1 ''a''"
  have "job_ok ?j" by (rule job_ok_mk_job) (simp add: NUL_def)
  note one = jq_one [OF this]
  have m: "list_all job_typ [job_zero, job_zero]" by simp
  show ?thesis
    using jobqueue_peek_spec [OF jq_ok_mem_of(1) [OF m conjunct1 [OF one], of True], of "Ptr (Obj 0)" "Ptr (Obj 1)" NULL ?j]
      jq_ok_mem_of(2) [OF m conjunct1 [OF one], of True] one by (auto simp: own_var_mem_of)
qed

text \<open>
  C35: dequeueing with a NULL destination when the allocation fails returns NULL,
  as for an empty queue, but has taken the head job off the queue: the job is
  lost.
\<close>

theorem jobqueue_dequeue_loses:
  assumes "jq_ok q m" "jq_list q m = a # as" "\<not> m_avail m (m_next m)"
  shows "\<exists>t. jobqueue_dequeue m (Ptr q) NULL = Some (NULL, t) \<and> jq_list q t = as \<and> m_jobs t = m_jobs m"
proof -
  obtain jq where jq: "jq_at m q jq" "jq_list q m = jq_contents jq" using assms(1) by (rule jq_okD)
  then have "jq_contents jq = a # as" using assms(2) by simp
  then have ne: "jq_contents jq \<noteq> []" "tl (jq_contents jq) = as" by simp_all
  have "jq_list q (put_jq (m\<lparr>m_next := Suc (m_next m)\<rparr>) q (deq_val jq)) = as"
    using jq_deq_val [OF jq_atD(3) [OF jq(1)] ne(1)] ne(2) by (simp add: jq_list_def mem_simps)
  then show ?thesis
    using jobqueue_dequeue_new_fail [OF jq(1) ne(1) assms(3)] by (auto simp: mem_simps)
qed

lemma jobqueue_dequeue_loses_witness:
  "\<exists>t. jobqueue_dequeue (mem_of [] [jq_one (mk_job 7 1 ''a'')] False) (Ptr 0) NULL = Some (NULL, t) \<and> jq_list 0 t = []"
proof -
  let ?j = "mk_job 7 1 ''a''"
  have "job_ok ?j" by (rule job_ok_mk_job) (simp add: NUL_def)
  note one = jq_one [OF this]
  show ?thesis
    using jobqueue_dequeue_loses [OF jq_ok_mem_of(1) [OF _ conjunct1 [OF one], of "[]" False], of ?j "[]"]
      jq_ok_mem_of(2) [OF _ conjunct1 [OF one], of "[]" False] one by (auto simp: mem_simps)
qed

text \<open>
  The queue reports itself empty exactly when it has no job and full exactly
  when it has 127, which is the capacity it reports.
\<close>

theorem jobqueue_observers:
  assumes "jq_ok q m"
  shows "jobqueue_is_empty m (Ptr q) = Some (jq_list q m = []) \<and>
    jobqueue_is_full m (Ptr q) = Some (length (jq_list q m) = 127) \<and>
    jobqueue_capacity m (Ptr q) = Some 127 \<and> length (jq_list q m) \<le> 127"
proof -
  obtain jq where "jq_at m q jq" using assms by (rule jq_okD)
  then have "jobqueue_capacity m (Ptr q) = Some 127"
    using jobqueue_capacity_ok [of m q jq] by (simp add: QUEUE_SIZE_def)
  then show ?thesis
    using jq_observe [OF assms] jq_bounded [OF assms] by (simp add: QUEUE_SIZE_def)
qed

lemma jobqueue_observers_witness:
  "jobqueue_is_empty (mem_of [] [jq_empty] True) (Ptr 0) = Some True \<and>
   jobqueue_is_full (mem_of [] [jq_empty] True) (Ptr 0) = Some False"
  using jobqueue_observers [OF jq_ok_mem_of(1) [OF _ conjunct1 [OF jq_inv_empty], of "[]" True]]
    jq_ok_mem_of(2) [OF _ conjunct1 [OF jq_inv_empty], of "[]" True] jq_inv_empty by simp

text \<open>
  Initialisation of any block of memory as a queue ends, whatever the block
  held: the loop of \<^verbatim>\<open>jobqueue_init\<close> returns with the empty queue of 128
  initialised slots, and deleting a queue from \<^verbatim>\<open>jobqueue_new\<close> gives its block back.
\<close>

theorem jobqueue_init_returns:
  assumes "wf_mem m" "m_queues m q = Some jq"
  shows "\<exists>m'. jobqueue_init m (Ptr q) = Some m' \<and> m_queues m' q = Some jq_empty \<and> jq_ok q m' \<and> jq_list q m' = [] \<and>
    (m_dyn m q \<longrightarrow> (\<exists>m''. jobqueue_delete m' (Ptr q) = Some m'' \<and> m_queues m'' q = None))"
proof -
  have "jq_typ jq_empty" using jq_inv_empty by (simp add: jq_inv_def)
  then have "jq_at (put_jq m q jq_empty) q jq_empty"
    using jq_inv_empty wf_put_jq [OF assms] by (simp add: jq_at_def mem_simps)
  then show ?thesis
    using jobqueue_init_ok [OF assms] jq_okI jq_inv_empty
    by (auto simp: mem_simps jobqueue_delete_def free_jq_def)
qed

lemma jobqueue_init_returns_witness:
  "\<exists>m'. jobqueue_init (mem_of [] [jq_empty] True) (Ptr 0) = Some m' \<and> m_queues m' 0 = Some jq_empty"
proof -
  have "jq_typ jq_empty" using jq_inv_empty by (simp add: jq_inv_def)
  then show ?thesis
    using jobqueue_init_returns [OF wf_mem_of [of "[]" "[jq_empty]" True], of 0 jq_empty] by (auto simp: mem_simps)
qed

end
