(* ===== verification/Sem_Jobqueue.thy ===== *)
theory Sem_Jobqueue
  imports Sched Jobqueue
begin

text \<open>
  The operations of \<^verbatim>\<open>sem_jobqueue.c\<close> on one shared queue, for any number of
  processes and any interleaving. A step is one semaphore operation or one
  statement of the queue operation inside (\<^verbatim>\<open>ipc_jobqueue.c\<close> and
  \<^verbatim>\<open>jobqueue.c\<close>), so that an unprotected queue would show its races. The
  semaphores are counters as POSIX has them: a wait on 0 blocks, and a wait
  may also fail (return -1) without taking anything. A caller of the dequeue
  and peek functions passes the address of a variable of its own, or NULL for a
  new job, whose \<^verbatim>\<open>malloc\<close> may fail. A caller of the enqueue function passes
  NULL or a pointer to a job of its own, which no other process can change.
\<close>

section \<open>State\<close>

datatype observer = Is_empty | Is_full | Peekhead "unit ptr" | Peektail "unit ptr"

datatype sem_result = R_void | R_bool bool | R_job "job_t option"

text \<open>
  The location of a process: \<open>Idle\<close> with the result of its last call, or the
  next statement of the call it is in. A job is the value behind the pointer
  the caller passed, \<open>None\<close> for NULL; a destination is \<open>NULL\<close> or the caller's
  variable. Past the copy a dequeue has its destination, the job at the head and
  whether there was memory for the copy.
\<close>

datatype sem_loc =
    Idle sem_result
  | Enq_wait_empty "job_t option" | Enq_wait_mutex "job_t option" | Enq_work "job_t option"
  | Enq_test "job_t option" | Enq_copy job_t | Enq_tail job_t | Enq_post_mutex | Enq_post_full
  | Deq_wait_full "unit ptr" | Deq_wait_mutex "unit ptr" | Deq_test "unit ptr" | Deq_copy "unit ptr"
  | Deq_init "unit ptr" job_t bool | Deq_head "unit ptr" job_t bool
  | Deq_work "job_t option" | Deq_post_mutex "job_t option" | Deq_post_empty "job_t option"
  | Obs_wait_mutex observer | Obs_work observer | Obs_read observer | Obs_post sem_result

datatype sem_call = Enqueue "job_t option" | Dequeue "unit ptr" | Observe observer

text \<open>
  What the schedule picks for a process: a call (with the process's pointer to its
  \<^verbatim>\<open>sem_jobqueue_t\<close>, NULL or to the shared queue), the next statement, or the next
  statement with a failing \<^verbatim>\<open>sem_wait\<close> or \<^verbatim>\<open>malloc\<close>.
\<close>

datatype sem_event = Call "unit ptr" sem_call | Go | Fail

text \<open>
  Besides the semaphores, the queue and the locations, the state records the
  jobs put on the queue and the jobs taken off it (with the process), how many units
  of \<^verbatim>\<open>empty\<close> and \<^verbatim>\<open>full\<close> calls took without returning them, and how many more
  enqueues passed their unit on without a job (its pointer was NULL) than dequeues
  got a unit of \<^verbatim>\<open>full\<close> and no job.
\<close>

record sem_sys =
  ss_mutex :: nat
  ss_full :: nat
  ss_empty :: nat
  ss_queue :: jobqueue_t
  ss_loc :: "sem_loc list"
  ss_in :: "job_t list"
  ss_out :: "(nat \<times> job_t) list"
  ss_lost_empty :: nat
  ss_lost_full :: nat
  ss_null :: nat

definition set_loc :: "nat \<Rightarrow> sem_loc \<Rightarrow> sem_sys \<Rightarrow> sem_sys" where
  "set_loc p l s = s\<lparr>ss_loc := (ss_loc s)[p := l]\<rparr>"

section \<open>Steps\<close>

text \<open>Reading element \<open>i\<close> of the array in shared memory, and writing it.\<close>

definition slot_get :: "jobqueue_t \<Rightarrow> int \<Rightarrow> job_t option" where
  "slot_get jq i = do { require (in_array jq i); Some (q_jobs jq ! nat i) }"

definition slot_set :: "jobqueue_t \<Rightarrow> int \<Rightarrow> job_t \<Rightarrow> jobqueue_t option" where
  "slot_set jq i j = do { require (in_array jq i); Some (jq\<lparr>q_jobs := (q_jobs jq)[nat i := j]\<rparr>) }"

text \<open>\<^verbatim>\<open>job_copy\<close> reads the label up to its NUL, which must be there, and pads it.\<close>

definition copy_of :: "job_t \<Rightarrow> job_t option" where
  "copy_of j = do { require (NUL \<in> set (j_label j)); Some (copied j) }"

text \<open>What an observer returns: from the queue, and when its \<^verbatim>\<open>sem_wait\<close> or \<^verbatim>\<open>malloc\<close> fails.\<close>

definition observe :: "observer \<Rightarrow> jobqueue_t \<Rightarrow> sem_result option" where
  "observe k jq = (case k of
     Is_empty \<Rightarrow> Some (R_bool (q_head jq = q_tail jq))
   | Is_full \<Rightarrow> do { n \<leftarrow> next_index jq (q_tail jq); Some (R_bool (q_head jq = n)) }
   | Peekhead _ \<Rightarrow>
       if q_head jq = q_tail jq then Some (R_job None)
       else do { j \<leftarrow> slot_get jq (q_head jq); x \<leftarrow> copy_of j; Some (R_job (Some x)) }
   | Peektail _ \<Rightarrow>
       if q_head jq = q_tail jq then Some (R_job None)
       else do {
         i \<leftarrow> (if q_tail jq < 1 then as_int (q_buf_size jq - 1) else as_int (q_tail jq - 1));
         j \<leftarrow> slot_get jq i;
         x \<leftarrow> copy_of j;
         Some (R_job (Some x)) })"

definition observe_fail :: "observer \<Rightarrow> sem_result" where
  "observe_fail k = (case k of
     Is_empty \<Rightarrow> R_bool True | Is_full \<Rightarrow> R_bool True
   | Peekhead _ \<Rightarrow> R_job None | Peektail _ \<Rightarrow> R_job None)"

text \<open>The start of a call: each function returns at once for a NULL queue.\<close>

definition call_loc :: "unit ptr \<Rightarrow> sem_call \<Rightarrow> sem_loc" where
  "call_loc sjq c = (case c of
     Enqueue j \<Rightarrow> if sjq = NULL then Idle R_void else Enq_wait_empty j
   | Dequeue d \<Rightarrow> if sjq = NULL then Idle (R_job None) else Deq_wait_full d
   | Observe k \<Rightarrow> if sjq = NULL then Idle (observe_fail k) else Obs_wait_mutex k)"

text \<open>The next statement of process \<open>p\<close>, for each location.\<close>

definition enq_go :: "nat \<Rightarrow> sem_sys \<Rightarrow> sem_loc \<Rightarrow> sem_sys option" where
  "enq_go p s l = (let jq = ss_queue s in case l of
     Enq_wait_empty j \<Rightarrow> Some (set_loc p (Enq_wait_mutex j) (s\<lparr>ss_empty := ss_empty s - 1\<rparr>))
   | Enq_wait_mutex j \<Rightarrow> Some (set_loc p (Enq_work j) (s\<lparr>ss_mutex := ss_mutex s - 1\<rparr>))
   | Enq_work j \<Rightarrow> Some (set_loc p (Enq_test j) s)
   | Enq_test j \<Rightarrow> (case j of
       None \<Rightarrow> Some (set_loc p Enq_post_mutex (s\<lparr>ss_null := Suc (ss_null s)\<rparr>))
     | Some x \<Rightarrow> do {
         n \<leftarrow> next_index jq (q_tail jq);
         Some (if q_head jq = n then set_loc p Enq_post_mutex (s\<lparr>ss_null := Suc (ss_null s)\<rparr>)
           else set_loc p (Enq_copy x) s) })
   | Enq_copy x \<Rightarrow> do {
       y \<leftarrow> copy_of x;
       jq1 \<leftarrow> slot_set jq (q_tail jq) y;
       Some (set_loc p (Enq_tail x) (s\<lparr>ss_queue := jq1\<rparr>)) }
   | Enq_tail x \<Rightarrow> do {
       t \<leftarrow> next_index jq (q_tail jq);
       Some (set_loc p Enq_post_mutex
         (s\<lparr>ss_queue := jq\<lparr>q_tail := t\<rparr>, ss_in := ss_in s @ [copied x]\<rparr>)) }
   | Enq_post_mutex \<Rightarrow> Some (set_loc p Enq_post_full (s\<lparr>ss_mutex := Suc (ss_mutex s)\<rparr>))
   | Enq_post_full \<Rightarrow> Some (set_loc p (Idle R_void) (s\<lparr>ss_full := Suc (ss_full s)\<rparr>))
   | _ \<Rightarrow> Some s)"

definition deq_go :: "nat \<Rightarrow> sem_sys \<Rightarrow> sem_loc \<Rightarrow> sem_sys option" where
  "deq_go p s l = (let jq = ss_queue s in case l of
     Deq_wait_full d \<Rightarrow> Some (set_loc p (Deq_wait_mutex d) (s\<lparr>ss_full := ss_full s - 1\<rparr>))
   | Deq_wait_mutex d \<Rightarrow> Some (set_loc p (Deq_test d) (s\<lparr>ss_mutex := ss_mutex s - 1\<rparr>))
   | Deq_test d \<Rightarrow> Some (if q_head jq = q_tail jq then set_loc p (Deq_work None) (s\<lparr>ss_null := ss_null s - 1\<rparr>)
       else set_loc p (Deq_copy d) s)
   | Deq_copy d \<Rightarrow> do {
       j \<leftarrow> slot_get jq (q_head jq);
       x \<leftarrow> copy_of j;
       Some (set_loc p (Deq_init d x True) s) }
   | Deq_init d x ok \<Rightarrow> do {
       jq1 \<leftarrow> slot_set jq (q_head jq) job_zero;
       Some (set_loc p (Deq_head d x ok) (s\<lparr>ss_queue := jq1\<rparr>)) }
   | Deq_head d x ok \<Rightarrow> do {
       h \<leftarrow> next_index jq (q_head jq);
       Some (set_loc p (Deq_work (if ok then Some x else None))
         (s\<lparr>ss_queue := jq\<lparr>q_head := h\<rparr>, ss_out := ss_out s @ [(p, x)]\<rparr>)) }
   | Deq_work r \<Rightarrow> Some (set_loc p (Deq_post_mutex r) s)
   | Deq_post_mutex r \<Rightarrow> Some (set_loc p (Deq_post_empty r) (s\<lparr>ss_mutex := Suc (ss_mutex s)\<rparr>))
   | Deq_post_empty r \<Rightarrow> Some (set_loc p (Idle (R_job r)) (s\<lparr>ss_empty := Suc (ss_empty s)\<rparr>))
   | _ \<Rightarrow> Some s)"

definition obs_go :: "nat \<Rightarrow> sem_sys \<Rightarrow> sem_loc \<Rightarrow> sem_sys option" where
  "obs_go p s l = (case l of
     Obs_wait_mutex k \<Rightarrow> Some (set_loc p (Obs_work k) (s\<lparr>ss_mutex := ss_mutex s - 1\<rparr>))
   | Obs_work k \<Rightarrow> Some (set_loc p (Obs_read k) s)
   | Obs_read k \<Rightarrow> do { r \<leftarrow> observe k (ss_queue s); Some (set_loc p (Obs_post r) s) }
   | Obs_post r \<Rightarrow> Some (set_loc p (Idle r) (s\<lparr>ss_mutex := Suc (ss_mutex s)\<rparr>))
   | _ \<Rightarrow> Some s)"

definition is_enq :: "sem_loc \<Rightarrow> bool" where
  "is_enq l = (case l of Enq_wait_empty _ \<Rightarrow> True | Enq_wait_mutex _ \<Rightarrow> True | Enq_work _ \<Rightarrow> True
     | Enq_test _ \<Rightarrow> True | Enq_copy _ \<Rightarrow> True | Enq_tail _ \<Rightarrow> True | Enq_post_mutex \<Rightarrow> True
     | Enq_post_full \<Rightarrow> True | _ \<Rightarrow> False)"

definition is_obs :: "sem_loc \<Rightarrow> bool" where
  "is_obs l = (case l of Obs_wait_mutex _ \<Rightarrow> True | Obs_work _ \<Rightarrow> True | Obs_read _ \<Rightarrow> True
     | Obs_post _ \<Rightarrow> True | _ \<Rightarrow> False)"

text \<open>
  A \<^verbatim>\<open>sem_wait\<close> that returns -1: the early returns of each function. A \<^verbatim>\<open>malloc\<close> that
  returns NULL, in a copy to a new job: \<^verbatim>\<open>job_copy\<close> has read the source's fields
  and returns NULL, with which the dequeue goes on.
\<close>

definition call_fails :: "nat \<Rightarrow> sem_sys \<Rightarrow> sem_loc \<Rightarrow> sem_sys option" where
  "call_fails p s l = (case l of
     Enq_wait_empty j \<Rightarrow> Some (set_loc p (Idle R_void) s)
   | Enq_wait_mutex j \<Rightarrow> Some (set_loc p (Idle R_void) (s\<lparr>ss_lost_empty := Suc (ss_lost_empty s)\<rparr>))
   | Deq_wait_full _ \<Rightarrow> Some (set_loc p (Idle (R_job None)) s)
   | Deq_wait_mutex _ \<Rightarrow> Some (set_loc p (Idle (R_job None)) (s\<lparr>ss_lost_full := Suc (ss_lost_full s)\<rparr>))
   | Obs_wait_mutex k \<Rightarrow> Some (set_loc p (Idle (observe_fail k)) s)
   | Deq_copy d \<Rightarrow> do {
       j \<leftarrow> slot_get (ss_queue s) (q_head (ss_queue s));
       Some (set_loc p (Deq_init d (copied j) False) s) }
   | Obs_read k \<Rightarrow> do { r \<leftarrow> observe k (ss_queue s); Some (set_loc p (Obs_post (observe_fail k)) s) }
   | _ \<Rightarrow> Some s)"

fun sem_step :: "nat \<times> sem_event \<Rightarrow> sem_sys \<Rightarrow> sem_sys option" where
  "sem_step (p, Call q c) s = Some (set_loc p (call_loc q c) s)"
| "sem_step (p, Go) s = (let l = ss_loc s ! p in
     if is_enq l then enq_go p s l else if is_obs l then obs_go p s l else deq_go p s l)"
| "sem_step (p, Fail) s = call_fails p s (ss_loc s ! p)"

text \<open>When a process can be picked: a wait on a semaphore of value 0 blocks.\<close>

definition is_idle :: "sem_loc \<Rightarrow> bool" where
  "is_idle l = (case l of Idle _ \<Rightarrow> True | _ \<Rightarrow> False)"

definition is_wait :: "sem_loc \<Rightarrow> bool" where
  "is_wait l = (case l of Enq_wait_empty _ \<Rightarrow> True | Enq_wait_mutex _ \<Rightarrow> True | Deq_wait_full _ \<Rightarrow> True
     | Deq_wait_mutex _ \<Rightarrow> True | Obs_wait_mutex _ \<Rightarrow> True | _ \<Rightarrow> False)"

definition is_alloc :: "sem_loc \<Rightarrow> bool" where
  "is_alloc l \<longleftrightarrow> l \<in> {Deq_copy NULL, Obs_read (Peekhead NULL), Obs_read (Peektail NULL)}"

definition blocked :: "sem_sys \<Rightarrow> sem_loc \<Rightarrow> bool" where
  "blocked s l = (case l of Enq_wait_empty _ \<Rightarrow> ss_empty s = 0 | Enq_wait_mutex _ \<Rightarrow> ss_mutex s = 0
     | Deq_wait_full _ \<Rightarrow> ss_full s = 0 | Deq_wait_mutex _ \<Rightarrow> ss_mutex s = 0
     | Obs_wait_mutex _ \<Rightarrow> ss_mutex s = 0 | _ \<Rightarrow> False)"

fun sem_may :: "sem_sys \<Rightarrow> nat \<times> sem_event \<Rightarrow> bool" where
  "sem_may s (p, Call q c) \<longleftrightarrow> p < length (ss_loc s) \<and> is_idle (ss_loc s ! p)"
| "sem_may s (p, Go) \<longleftrightarrow>
     p < length (ss_loc s) \<and> \<not> is_idle (ss_loc s ! p) \<and> \<not> blocked s (ss_loc s ! p)"
| "sem_may s (p, Fail) \<longleftrightarrow>
     p < length (ss_loc s) \<and> (is_wait (ss_loc s ! p) \<or> is_alloc (ss_loc s ! p))"

text \<open>
  The semaphores as \<^verbatim>\<open>sem_jobqueue_new\<close> creates them, over an initialised queue,
  with \<open>n\<close> processes that have made no call.
\<close>

definition sem_init :: "nat \<Rightarrow> sem_sys" where
  "sem_init n = \<lparr>ss_mutex = 1, ss_full = 0, ss_empty = QUEUE_SIZE - 1, ss_queue = jq_empty,
     ss_loc = replicate n (Idle R_void), ss_in = [], ss_out = [],
     ss_lost_empty = 0, ss_lost_full = 0, ss_null = 0\<rparr>"

text \<open>
  A caller that passes NULL or a job whose label ends: that of a job made by
  \<^verbatim>\<open>job_set\<close>, \<^verbatim>\<open>job_new\<close>, \<^verbatim>\<open>job_copy\<close> or \<^verbatim>\<open>job_init\<close> does. Of another the copy would be
  undefined.
\<close>

fun passable :: "job_t option \<Rightarrow> bool" where
  "passable None = True" | "passable (Some j) = (NUL \<in> set (j_label j))"

fun passable_call :: "sem_call \<Rightarrow> bool" where
  "passable_call (Enqueue j) = passable j" | "passable_call _ = True"

definition sem_legal :: "sem_sys \<Rightarrow> nat \<times> sem_event \<Rightarrow> bool" where
  "sem_legal s pe \<longleftrightarrow> sem_may s pe \<and> (case snd pe of Call _ c \<Rightarrow> passable_call c | _ \<Rightarrow> True)"

section \<open>Invariant\<close>

text \<open>
  The locations between the two mutex operations, and those at which a call
  holds a unit of \<^verbatim>\<open>empty\<close> or \<^verbatim>\<open>full\<close> that it has not yet turned into, or out
  of, a job on the queue (\<open>_tok\<close>), or has not yet passed on (\<open>_done\<close>).
\<close>

fun holds :: "sem_loc \<Rightarrow> bool" where
  "holds (Enq_work _) = True" | "holds (Enq_test _) = True" | "holds (Enq_copy _) = True"
| "holds (Enq_tail _) = True" | "holds Enq_post_mutex = True" | "holds (Deq_test _) = True"
| "holds (Deq_copy _) = True" | "holds (Deq_init _ _ _) = True" | "holds (Deq_head _ _ _) = True"
| "holds (Deq_work _) = True" | "holds (Deq_post_mutex _) = True" | "holds (Obs_work _) = True"
| "holds (Obs_read _) = True" | "holds (Obs_post _) = True" | "holds _ = False"

fun enq_tok :: "sem_loc \<Rightarrow> bool" where
  "enq_tok (Enq_wait_mutex _) = True" | "enq_tok (Enq_work _) = True" | "enq_tok (Enq_test _) = True"
| "enq_tok (Enq_copy _) = True" | "enq_tok (Enq_tail _) = True" | "enq_tok _ = False"

fun enq_done :: "sem_loc \<Rightarrow> bool" where
  "enq_done Enq_post_mutex = True" | "enq_done Enq_post_full = True" | "enq_done _ = False"

fun deq_tok :: "sem_loc \<Rightarrow> bool" where
  "deq_tok (Deq_wait_mutex _) = True" | "deq_tok (Deq_test _) = True" | "deq_tok (Deq_copy _) = True"
| "deq_tok (Deq_init _ _ _) = True" | "deq_tok (Deq_head _ _ _) = True" | "deq_tok _ = False"

fun deq_done :: "sem_loc \<Rightarrow> bool" where
  "deq_done (Deq_work _) = True" | "deq_done (Deq_post_mutex _) = True"
| "deq_done (Deq_post_empty _) = True" | "deq_done _ = False"

text \<open>Labels end, and no \<^verbatim>\<open>malloc\<close> failed for a caller with a destination.\<close>

fun loc_ok :: "sem_loc \<Rightarrow> bool" where
  "loc_ok (Enq_wait_empty j) = passable j" | "loc_ok (Enq_wait_mutex j) = passable j"
| "loc_ok (Enq_work j) = passable j" | "loc_ok (Enq_test j) = passable j"
| "loc_ok (Enq_copy x) = passable (Some x)" | "loc_ok (Deq_init d x ok) = (ok \<or> d = NULL)"
| "loc_ok (Deq_head d x ok) = (ok \<or> d = NULL)" | "loc_ok _ = True"

text \<open>
  The shared queue while a process is inside, over the queue \<open>jq\<close> as it was
  before the operation: the statements done so far; and what the process has
  read.
\<close>

fun phys :: "sem_loc \<Rightarrow> jobqueue_t \<Rightarrow> jobqueue_t" where
  "phys (Enq_tail x) jq = jq\<lparr>q_jobs := (q_jobs jq)[nat (q_tail jq) := copied x]\<rparr>"
| "phys (Deq_head d x ok) jq = jq\<lparr>q_jobs := (q_jobs jq)[nat (q_head jq) := job_zero]\<rparr>"
| "phys _ jq = jq"

fun read_ok :: "sem_loc \<Rightarrow> jobqueue_t \<Rightarrow> bool" where
  "read_ok (Deq_copy d) jq = (jq_contents jq \<noteq> [])"
| "read_ok (Deq_init d x ok) jq = (jq_contents jq \<noteq> [] \<and> x = hd (jq_contents jq))"
| "read_ok (Deq_head d x ok) jq = (jq_contents jq \<noteq> [] \<and> x = hd (jq_contents jq))"
| "read_ok _ jq = True"

definition sem_counts :: "jobqueue_t \<Rightarrow> sem_sys \<Rightarrow> bool" where
  "sem_counts jq s \<longleftrightarrow>
     ss_mutex s + cnt holds (ss_loc s) = 1 \<and>
     ss_empty s + cnt enq_tok (ss_loc s) + length (jq_contents jq) + ss_null s + cnt deq_done (ss_loc s)
       + ss_lost_empty s = QUEUE_SIZE - 1 \<and>
     ss_full s + cnt deq_tok (ss_loc s) + cnt enq_done (ss_loc s) + ss_lost_full s
       = length (jq_contents jq) + ss_null s"

definition sem_shape :: "jobqueue_t \<Rightarrow> sem_sys \<Rightarrow> bool" where
  "sem_shape jq s \<longleftrightarrow>
     (\<forall>l \<in> set (ss_loc s). loc_ok l) \<and>
     (ss_mutex s = 1 \<longrightarrow> ss_queue s = jq) \<and>
     (\<forall>i < length (ss_loc s). holds (ss_loc s ! i) \<longrightarrow>
        ss_queue s = phys (ss_loc s ! i) jq \<and> read_ok (ss_loc s ! i) jq)"

text \<open>What went in is what came out followed by what is queued.\<close>

definition sem_rel :: "jobqueue_t \<Rightarrow> sem_sys \<Rightarrow> bool" where
  "sem_rel jq s \<longleftrightarrow> jq_inv jq \<and> sem_counts jq s \<and> sem_shape jq s \<and>
     ss_in s = map snd (ss_out s) @ jq_contents jq"

definition sem_inv :: "sem_sys \<Rightarrow> bool" where
  "sem_inv s \<longleftrightarrow> (\<exists>jq. sem_rel jq s)"

lemma set_loc_sel [simp]:
  "ss_mutex (set_loc p l s) = ss_mutex s" "ss_full (set_loc p l s) = ss_full s"
  "ss_empty (set_loc p l s) = ss_empty s" "ss_queue (set_loc p l s) = ss_queue s"
  "ss_loc (set_loc p l s) = (ss_loc s)[p := l]" "ss_in (set_loc p l s) = ss_in s"
  "ss_out (set_loc p l s) = ss_out s" "ss_lost_empty (set_loc p l s) = ss_lost_empty s"
  "ss_lost_full (set_loc p l s) = ss_lost_full s" "ss_null (set_loc p l s) = ss_null s"
  by (simp_all add: set_loc_def)

lemma sem_inv_init: "sem_inv (sem_init n)"
  using jq_inv_empty
  by (auto simp: sem_inv_def sem_rel_def sem_counts_def sem_shape_def sem_init_def
      intro!: exI [of _ jq_empty])

section \<open>Every step keeps the invariant\<close>

text \<open>
  The change of the counters in a step of process \<open>p\<close> from location \<open>l\<close> to \<open>v\<close>.
\<close>

definition moves :: "sem_loc \<Rightarrow> sem_loc \<Rightarrow> jobqueue_t \<Rightarrow> jobqueue_t \<Rightarrow> sem_sys \<Rightarrow> sem_sys \<Rightarrow> bool" where
  "moves l v jq jq' s t \<longleftrightarrow>
     ss_mutex t + of_bool (holds v) = ss_mutex s + of_bool (holds l) \<and>
     ss_empty t + of_bool (enq_tok v) + length (jq_contents jq') + ss_null t + of_bool (deq_done v) + ss_lost_empty t
       = ss_empty s + of_bool (enq_tok l) + length (jq_contents jq) + ss_null s + of_bool (deq_done l) + ss_lost_empty s \<and>
     ss_full t + of_bool (deq_tok v) + of_bool (enq_done v) + ss_lost_full t + length (jq_contents jq) + ss_null s
       = ss_full s + of_bool (deq_tok l) + of_bool (enq_done l) + ss_lost_full s + length (jq_contents jq') + ss_null t"

lemma sem_counts_move:
  assumes "sem_counts jq s" "p < length (ss_loc s)" "ss_loc t = ss_loc s"
    "moves (ss_loc s ! p) v jq jq' s t"
  shows "sem_counts jq' (set_loc p v t)"
  using assms(1,4) cnt_update [OF assms(2), of holds v] cnt_update [OF assms(2), of enq_tok v]
    cnt_update [OF assms(2), of enq_done v] cnt_update [OF assms(2), of deq_tok v]
    cnt_update [OF assms(2), of deq_done v]
  unfolding sem_counts_def moves_def set_loc_sel assms(3) by linarith

lemma sem_alone:
  assumes "sem_counts jq s" "p < length (ss_loc s)" "holds (ss_loc s ! p) \<or> ss_mutex s = 1"
    "i < length (ss_loc s)" "i \<noteq> p"
  shows "\<not> holds (ss_loc s ! i)"
proof
  assume i: "holds (ss_loc s ! i)"
  have c: "ss_mutex s + cnt holds (ss_loc s) = 1" using assms(1) by (simp add: sem_counts_def)
  have "0 < cnt holds (ss_loc s)" by (rule cnt_pos [of i, OF assms(4)]) (rule i)
  then have "holds (ss_loc s ! p)" using c assms(3) by auto
  then have "i = p" using c i assms(2,4) cnt_unique [of holds "ss_loc s" i p] by simp
  with assms(5) show False by simp
qed

text \<open>A step of the process that is, becomes, or was inside.\<close>

lemma sem_rel_inside:
  assumes rel: "sem_rel jq s" and p: "p < length (ss_loc s)" and loc: "ss_loc t = ss_loc s"
    and inside: "holds (ss_loc s ! p) \<or> ss_mutex s = 1"
    and mv: "moves (ss_loc s ! p) v jq jq' s t"
    and ok: "loc_ok v" and inv: "jq_inv jq'" and q: "ss_queue t = phys v jq'" and rd: "read_ok v jq'"
    and hold: "holds v \<or> phys v jq' = jq'"
    and log: "ss_in t = map snd (ss_out t) @ jq_contents jq'"
  shows "sem_rel jq' (set_loc p v t)"
proof -
  have c: "sem_counts jq s" using rel by (simp add: sem_rel_def)
  have c': "sem_counts jq' (set_loc p v t)" by (rule sem_counts_move [OF c p loc mv])
  have alone: "\<not> holds (ss_loc s ! i)" if "i < length (ss_loc s)" "i \<noteq> p" for i
    by (rule sem_alone [OF c p inside that])
  have "holds v \<longrightarrow> ss_mutex t \<noteq> 1"
    using c' cnt_pos [of p "ss_loc (set_loc p v t)" holds] p loc by (auto simp: sem_counts_def)
  then have "sem_shape jq' (set_loc p v t)"
    using rel ok q rd hold alone p loc set_update_subset_insert [of "ss_loc s" p v]
    by (auto simp: sem_shape_def sem_rel_def nth_list_update)
  with c' inv log show ?thesis by (simp add: sem_rel_def)
qed

text \<open>A step of a process outside.\<close>

lemma sem_rel_outside:
  assumes rel: "sem_rel jq s" and p: "p < length (ss_loc s)" and loc: "ss_loc t = ss_loc s"
    and out: "\<not> holds (ss_loc s ! p)" "\<not> holds v" and same: "ss_queue t = ss_queue s"
    and mv: "moves (ss_loc s ! p) v jq jq s t" and ok: "loc_ok v"
    and log: "ss_in t = ss_in s" "ss_out t = ss_out s"
  shows "sem_rel jq (set_loc p v t)"
proof -
  have m: "ss_mutex t = ss_mutex s" using mv out by (simp add: moves_def)
  have "sem_shape jq (set_loc p v t)"
    using rel ok same m out p loc set_update_subset_insert [of "ss_loc s" p v]
    by (auto simp: sem_shape_def sem_rel_def nth_list_update)
  then show ?thesis
    using sem_counts_move [OF _ p loc mv] rel log by (simp add: sem_rel_def)
qed

lemma sem_rel_holder:
  assumes "sem_rel jq s" "p < length (ss_loc s)" "holds (ss_loc s ! p)"
  shows "ss_queue s = phys (ss_loc s ! p) jq" "read_ok (ss_loc s ! p) jq"
  using assms by (auto simp: sem_rel_def sem_shape_def)

lemma sem_rel_loc_ok: "sem_rel jq s \<Longrightarrow> p < length (ss_loc s) \<Longrightarrow> loc_ok (ss_loc s ! p)"
  by (simp add: sem_rel_def sem_shape_def)

lemma sem_rel_room:
  assumes "sem_rel jq s" "p < length (ss_loc s)" "enq_tok (ss_loc s ! p)"
  shows "length (jq_contents jq) + ss_null s < QUEUE_SIZE - 1"
  using assms cnt_pos [of p "ss_loc s" enq_tok] by (auto simp: sem_rel_def sem_counts_def)

lemma sem_rel_job:
  assumes "sem_rel jq s" "p < length (ss_loc s)" "deq_tok (ss_loc s ! p)"
  shows "0 < length (jq_contents jq) + ss_null s"
  using assms cnt_pos [of p "ss_loc s" deq_tok] by (auto simp: sem_rel_def sem_counts_def)

lemma slot_set_ok:
  assumes "jq_inv jq" "0 \<le> i" "i < int QUEUE_SIZE"
  shows "slot_set jq i j = Some (jq\<lparr>q_jobs := (q_jobs jq)[nat i := j]\<rparr>)"
    and "slot_get jq i = Some (q_jobs jq ! nat i)"
  using assms jq_inv_ranges(6) [OF assms(1)] by (simp_all add: slot_set_def slot_get_def in_array_def)

text \<open>The counters are in their ranges.\<close>

lemma sem_mutex_le: "sem_rel jq s \<Longrightarrow> ss_mutex s \<le> 1"
  by (simp add: sem_rel_def sem_counts_def)

lemma sem_rel_free: "sem_rel jq s \<Longrightarrow> ss_mutex s \<noteq> 0 \<Longrightarrow> ss_mutex s = 1 \<and> ss_queue s = jq"
  using sem_mutex_le [of jq s] by (auto simp: sem_rel_def sem_shape_def)

lemma sem_rel_inv: "sem_rel jq s \<Longrightarrow> jq_inv jq"
  and sem_rel_log: "sem_rel jq s \<Longrightarrow> ss_in s = map snd (ss_out s) @ jq_contents jq"
  and sem_invI: "sem_rel jq s \<Longrightarrow> sem_inv s"
  by (auto simp: sem_rel_def sem_inv_def)

lemma enq_go_inv:
  assumes rel: "sem_rel jq s" and p: "p < length (ss_loc s)" and l: "ss_loc s ! p = l"
    and enq: "is_enq l" and free: "\<not> blocked s l"
  shows "\<exists>t. enq_go p s l = Some t \<and> sem_inv t"
proof -
  note inside = sem_rel_inside [OF rel p] and outside = sem_rel_outside [OF rel p]
  note r = jq_inv_ranges [OF sem_rel_inv [OF rel]]
  note simps = l enq_go_def moves_def blocked_def is_enq_def
  have ok: "loc_ok l" using sem_rel_loc_ok [OF rel p] l by simp
  have holder: "holds l \<Longrightarrow> ss_queue s = phys l jq" using sem_rel_holder(1) [OF rel p] l by simp
  note log = sem_rel_log [OF rel]
  show ?thesis
  proof (cases l)
    case (Enq_wait_empty j)
    have "sem_rel jq (set_loc p (Enq_wait_mutex j) (s\<lparr>ss_empty := ss_empty s - 1\<rparr>))"
      by (rule outside) (use Enq_wait_empty free ok in \<open>auto simp: simps\<close>)
    then show ?thesis using Enq_wait_empty by (auto simp: simps intro: sem_invI)
  next
    case (Enq_wait_mutex j)
    then have m: "ss_mutex s = 1 \<and> ss_queue s = jq" using sem_rel_free [OF rel] free by (simp add: simps)
    have "sem_rel jq (set_loc p (Enq_work j) (s\<lparr>ss_mutex := ss_mutex s - 1\<rparr>))"
      by (rule inside) (use Enq_wait_mutex m ok r log sem_rel_inv [OF rel] in \<open>auto simp: simps\<close>)
    then show ?thesis using Enq_wait_mutex by (auto simp: simps intro: sem_invI)
  next
    case (Enq_work j)
    have "sem_rel jq (set_loc p (Enq_test j) s)"
      by (rule inside) (use Enq_work holder ok log sem_rel_inv [OF rel] in \<open>auto simp: simps\<close>)
    then show ?thesis using Enq_work by (auto simp: simps intro: sem_invI)
  next
    case (Enq_test j)
    have q: "ss_queue s = jq" using holder Enq_test by simp
    show ?thesis
    proof (cases j)
      case None
      have "sem_rel jq (set_loc p Enq_post_mutex (s\<lparr>ss_null := Suc (ss_null s)\<rparr>))"
        by (rule inside) (use Enq_test q log sem_rel_inv [OF rel] in \<open>auto simp: simps\<close>)
      then show ?thesis using Enq_test None by (auto simp: simps intro: sem_invI)
    next
      case (Some x)
      have "length (jq_contents jq) < QUEUE_SIZE - 1"
        using sem_rel_room [OF rel p] l Enq_test by simp
      then have "q_head jq \<noteq> (q_tail jq + 1) mod int QUEUE_SIZE"
        using jq_full_iff [OF sem_rel_inv [OF rel]] by simp
      moreover have "sem_rel jq (set_loc p (Enq_copy x) s)"
        by (rule inside) (use Enq_test Some q ok log sem_rel_inv [OF rel] in \<open>auto simp: simps\<close>)
      ultimately show ?thesis
        using Enq_test Some q next_index_ok [of jq "q_tail jq"] r by (auto simp: simps intro: sem_invI)
    qed
  next
    case (Enq_copy x)
    have q: "ss_queue s = jq" using holder Enq_copy by simp
    have "sem_rel jq (set_loc p (Enq_tail x)
        (s\<lparr>ss_queue := jq\<lparr>q_jobs := (q_jobs jq)[nat (q_tail jq) := copied x]\<rparr>\<rparr>))"
      by (rule inside) (use Enq_copy q ok log sem_rel_inv [OF rel] in \<open>auto simp: simps\<close>)
    then show ?thesis
      using Enq_copy q ok slot_set_ok(1) [OF sem_rel_inv [OF rel] r(3,4)]
      by (auto simp: simps copy_of_def intro: sem_invI)
  next
    case (Enq_tail x)
    have q: "ss_queue s = jq\<lparr>q_jobs := (q_jobs jq)[nat (q_tail jq) := copied x]\<rparr>"
      using holder Enq_tail by simp
    have room: "length (jq_contents jq) < QUEUE_SIZE - 1"
      using sem_rel_room [OF rel p] l Enq_tail by simp
    have "sem_rel (enq_val jq x) (set_loc p Enq_post_mutex
        (s\<lparr>ss_queue := enq_val jq x, ss_in := ss_in s @ [copied x]\<rparr>))"
      by (rule inside) (use Enq_tail ok log jq_enq_val [OF sem_rel_inv [OF rel] room] in \<open>auto simp: simps\<close>)
    then show ?thesis
      using Enq_tail q next_index_ok [of "ss_queue s" "q_tail jq"] r
      by (auto simp: simps enq_val_def intro: sem_invI)
  next
    case Enq_post_mutex
    have "sem_rel jq (set_loc p Enq_post_full (s\<lparr>ss_mutex := Suc (ss_mutex s)\<rparr>))"
      by (rule inside) (use Enq_post_mutex holder ok log sem_rel_inv [OF rel] in \<open>auto simp: simps\<close>)
    then show ?thesis using Enq_post_mutex by (auto simp: simps intro: sem_invI)
  next
    case Enq_post_full
    have "sem_rel jq (set_loc p (Idle R_void) (s\<lparr>ss_full := Suc (ss_full s)\<rparr>))"
      by (rule outside) (use Enq_post_full in \<open>auto simp: simps\<close>)
    then show ?thesis using Enq_post_full by (auto simp: simps intro: sem_invI)
  qed (use enq in \<open>simp_all add: is_enq_def\<close>)
qed

text \<open>A queued job is its own copy.\<close>

lemma jq_contents_copied: "jq_inv jq \<Longrightarrow> j \<in> set (jq_contents jq) \<Longrightarrow> copied j = j"
  using jq_contents_ok copied_ok by blast

lemma jq_contents_copy_of: "jq_inv jq \<Longrightarrow> j \<in> set (jq_contents jq) \<Longrightarrow> copy_of j = Some j"
  using jq_contents_ok [of jq j] copied_ok [of j] job_ok_has_NUL [of j] by (simp add: copy_of_def)

lemma deq_go_inv:
  assumes rel: "sem_rel jq s" and p: "p < length (ss_loc s)" and l: "ss_loc s ! p = l"
    and deq: "\<not> is_enq l" "\<not> is_obs l" "\<not> is_idle l" and free: "\<not> blocked s l"
  shows "\<exists>t. deq_go p s l = Some t \<and> sem_inv t"
proof -
  note inside = sem_rel_inside [OF rel p] and outside = sem_rel_outside [OF rel p]
  note inv = sem_rel_inv [OF rel]
  note r = jq_inv_ranges [OF inv]
  note simps = l deq_go_def moves_def blocked_def
  have ok: "loc_ok l" using sem_rel_loc_ok [OF rel p] l by simp
  have holder: "holds l \<Longrightarrow> ss_queue s = phys l jq \<and> read_ok l jq"
    using sem_rel_holder [OF rel p] l by simp
  have job: "deq_tok l \<Longrightarrow> 0 < length (jq_contents jq) + ss_null s" using sem_rel_job [OF rel p] l by simp
  note log = sem_rel_log [OF rel]
  show ?thesis
  proof (cases l)
    case (Deq_wait_full d)
    have "sem_rel jq (set_loc p (Deq_wait_mutex d) (s\<lparr>ss_full := ss_full s - 1\<rparr>))"
      by (rule outside) (use Deq_wait_full free in \<open>auto simp: simps\<close>)
    then show ?thesis using Deq_wait_full by (auto simp: simps intro: sem_invI)
  next
    case (Deq_wait_mutex d)
    then have m: "ss_mutex s = 1 \<and> ss_queue s = jq" using sem_rel_free [OF rel] free by (simp add: simps)
    have "sem_rel jq (set_loc p (Deq_test d) (s\<lparr>ss_mutex := ss_mutex s - 1\<rparr>))"
      by (rule inside) (use Deq_wait_mutex m log inv in \<open>auto simp: simps\<close>)
    then show ?thesis using Deq_wait_mutex by (auto simp: simps intro: sem_invI)
  next
    case (Deq_test d)
    show ?thesis
    proof (cases "jq_contents jq = []")
      case True
      have "sem_rel jq (set_loc p (Deq_work None) (s\<lparr>ss_null := ss_null s - 1\<rparr>))"
        by (rule inside) (use Deq_test True job holder log inv in \<open>auto simp: simps\<close>)
      moreover have "q_head jq = q_tail jq" using True jq_empty_iff [OF inv] by simp
      ultimately show ?thesis using Deq_test holder by (auto simp: simps intro: sem_invI)
    next
      case False
      have "sem_rel jq (set_loc p (Deq_copy d) s)"
        by (rule inside) (use Deq_test False holder log inv in \<open>auto simp: simps\<close>)
      moreover have "q_head jq \<noteq> q_tail jq" using False jq_empty_iff [OF inv] by simp
      ultimately show ?thesis using Deq_test holder by (auto simp: simps intro: sem_invI)
    qed
  next
    case (Deq_copy d)
    have ne: "jq_contents jq \<noteq> []" using holder Deq_copy by simp
    have "sem_rel jq (set_loc p (Deq_init d (hd (jq_contents jq)) True) s)"
      by (rule inside) (use Deq_copy holder log inv in \<open>auto simp: simps\<close>)
    then show ?thesis
      using Deq_copy holder slot_set_ok(2) [OF inv r(1,2)] jq_head_job [OF inv ne] jq_contents_copy_of [OF inv] ne
      by (auto simp: simps intro: sem_invI)
  next
    case (Deq_init d x f)
    have "sem_rel jq (set_loc p (Deq_head d x f)
        (s\<lparr>ss_queue := jq\<lparr>q_jobs := (q_jobs jq)[nat (q_head jq) := job_zero]\<rparr>\<rparr>))"
      by (rule inside) (use Deq_init ok holder log inv in \<open>auto simp: simps\<close>)
    then show ?thesis
      using Deq_init holder slot_set_ok(1) [OF inv r(1,2)] by (auto simp: simps intro: sem_invI)
  next
    case (Deq_head d x f)
    have q: "ss_queue s = jq\<lparr>q_jobs := (q_jobs jq)[nat (q_head jq) := job_zero]\<rparr>"
      and x: "x = hd (jq_contents jq)" and ne: "jq_contents jq \<noteq> []" using holder Deq_head by simp_all
    then have len: "length (jq_contents jq) = length (tl (jq_contents jq)) + 1"
      by (cases "jq_contents jq") simp_all
    have "sem_rel (deq_val jq) (set_loc p (Deq_work (if f then Some x else None))
        (s\<lparr>ss_queue := deq_val jq, ss_out := ss_out s @ [(p, x)]\<rparr>))"
      by (intro inside) (use Deq_head x log jq_deq_val [OF inv ne] ne len in \<open>auto simp: simps simp del: length_tl\<close>)
    then show ?thesis
      using Deq_head q next_index_ok [of "ss_queue s" "q_head jq"] r
      by (auto simp: simps deq_val_def intro: sem_invI)
  next
    case (Deq_work x)
    have "sem_rel jq (set_loc p (Deq_post_mutex x) s)"
      by (rule inside) (use Deq_work holder ok log inv in \<open>auto simp: simps\<close>)
    then show ?thesis using Deq_work by (auto simp: simps intro: sem_invI)
  next
    case (Deq_post_mutex x)
    have "sem_rel jq (set_loc p (Deq_post_empty x) (s\<lparr>ss_mutex := Suc (ss_mutex s)\<rparr>))"
      by (rule inside) (use Deq_post_mutex holder ok log inv in \<open>auto simp: simps\<close>)
    then show ?thesis using Deq_post_mutex by (auto simp: simps intro: sem_invI)
  next
    case (Deq_post_empty x)
    have "sem_rel jq (set_loc p (Idle (R_job x)) (s\<lparr>ss_empty := Suc (ss_empty s)\<rparr>))"
      by (rule outside) (use Deq_post_empty in \<open>auto simp: simps\<close>)
    then show ?thesis using Deq_post_empty by (auto simp: simps intro: sem_invI)
  qed (use deq in \<open>simp_all add: is_enq_def is_obs_def is_idle_def\<close>)
qed

text \<open>What an observer returns is about the queue as it is when the call is inside.\<close>

definition observed :: "observer \<Rightarrow> job_t list \<Rightarrow> sem_result" where
  "observed k xs = (case k of
     Is_empty \<Rightarrow> R_bool (xs = [])
   | Is_full \<Rightarrow> R_bool (length xs = QUEUE_SIZE - 1)
   | Peekhead _ \<Rightarrow> R_job (if xs = [] then None else Some (hd xs))
   | Peektail _ \<Rightarrow> R_job (if xs = [] then None else Some (last xs)))"

lemma observe_ok:
  assumes inv: "jq_inv jq"
  shows "observe k jq = Some (observed k (jq_contents jq))"
proof (cases k)
  case Is_empty
  then show ?thesis using jq_empty_iff [OF inv] by (simp add: observe_def observed_def)
next
  case Is_full
  then show ?thesis
    using jq_full_iff [OF inv] jq_inv_ranges [OF inv] next_index_ok [of jq "q_tail jq"]
    by (simp add: observe_def observed_def)
next
  case (Peekhead d)
  then show ?thesis
    using jq_empty_iff [OF inv] jq_head_job [OF inv] jq_inv_ranges [OF inv] slot_set_ok(2) [OF inv]
      jq_contents_copy_of [OF inv]
    by (simp add: observe_def observed_def)
next
  case (Peektail d)
  let ?i = "(q_tail jq - 1) mod int QUEUE_SIZE"
  have "0 \<le> ?i" "?i < int QUEUE_SIZE" by (simp_all add: QUEUE_SIZE_def)
  then show ?thesis
    using Peektail jq_empty_iff [OF inv] jq_tail_job [OF inv] peektail_index [OF inv]
      slot_set_ok(2) [OF inv] jq_contents_copy_of [OF inv]
    by (simp add: observe_def observed_def)
qed

lemma obs_go_inv:
  assumes rel: "sem_rel jq s" and p: "p < length (ss_loc s)" and l: "ss_loc s ! p = l"
    and obs: "is_obs l" and free: "\<not> blocked s l"
  shows "\<exists>t. obs_go p s l = Some t \<and> sem_inv t"
proof -
  note inside = sem_rel_inside [OF rel p]
  note inv = sem_rel_inv [OF rel]
  note simps = l obs_go_def moves_def blocked_def
  have holder: "holds l \<Longrightarrow> ss_queue s = phys l jq" using sem_rel_holder(1) [OF rel p] l by simp
  note log = sem_rel_log [OF rel]
  show ?thesis
  proof (cases l)
    case (Obs_wait_mutex k)
    then have m: "ss_mutex s = 1 \<and> ss_queue s = jq" using sem_rel_free [OF rel] free by (simp add: simps)
    have "sem_rel jq (set_loc p (Obs_work k) (s\<lparr>ss_mutex := ss_mutex s - 1\<rparr>))"
      by (rule inside) (use Obs_wait_mutex m log inv in \<open>auto simp: simps\<close>)
    then show ?thesis using Obs_wait_mutex by (auto simp: simps intro: sem_invI)
  next
    case (Obs_work k)
    have "sem_rel jq (set_loc p (Obs_read k) s)"
      by (rule inside) (use Obs_work holder log inv in \<open>auto simp: simps\<close>)
    then show ?thesis using Obs_work by (auto simp: simps intro: sem_invI)
  next
    case (Obs_read k)
    have "sem_rel jq (set_loc p (Obs_post (observed k (jq_contents jq))) s)"
      by (rule inside) (use Obs_read holder log inv in \<open>auto simp: simps\<close>)
    then show ?thesis using Obs_read holder observe_ok [OF inv] by (auto simp: simps intro: sem_invI)
  next
    case (Obs_post v)
    have "sem_rel jq (set_loc p (Idle v) (s\<lparr>ss_mutex := Suc (ss_mutex s)\<rparr>))"
      by (rule inside) (use Obs_post holder log inv in \<open>auto simp: simps\<close>)
    then show ?thesis using Obs_post by (auto simp: simps intro: sem_invI)
  qed (use obs in \<open>simp_all add: is_obs_def\<close>)
qed

text \<open>Starting a call and failing a wait change no queue and no semaphore.\<close>

definition at_rest :: "sem_loc \<Rightarrow> bool" where
  "at_rest l \<longleftrightarrow> \<not> holds l \<and> \<not> enq_tok l \<and> \<not> enq_done l \<and> \<not> deq_tok l \<and> \<not> deq_done l"

lemma idle_at_rest: "is_idle l \<Longrightarrow> at_rest l"
  by (cases l) (simp_all add: is_idle_def at_rest_def)

lemma call_loc_at_rest:
  "passable_call c \<Longrightarrow> at_rest (call_loc q c) \<and> loc_ok (call_loc q c)"
  by (cases c; cases q) (simp_all add: call_loc_def at_rest_def)

lemma call_inv:
  assumes rel: "sem_rel jq s" and p: "p < length (ss_loc s)" and idle: "is_idle (ss_loc s ! p)"
    and c: "passable_call c"
  shows "sem_rel jq (set_loc p (call_loc q c) s)"
  by (rule sem_rel_outside [OF rel p])
    (use idle_at_rest [OF idle] call_loc_at_rest [OF c, of q] in \<open>auto simp: at_rest_def moves_def\<close>)

lemma fail_inv:
  assumes rel: "sem_rel jq s" and p: "p < length (ss_loc s)"
    and w: "is_wait (ss_loc s ! p) \<or> is_alloc (ss_loc s ! p)"
  shows "\<exists>t. call_fails p s (ss_loc s ! p) = Some t \<and> sem_rel jq t"
proof -
  note outside = sem_rel_outside [OF rel p] and inside = sem_rel_inside [OF rel p]
  note inv = sem_rel_inv [OF rel]
  note r = jq_inv_ranges(1,2) [OF inv]
  have same: "sem_rel jq (set_loc p (Idle v) s)"
    if "\<not> holds (ss_loc s ! p)" "moves (ss_loc s ! p) (Idle v) jq jq s s" for v
    by (rule outside) (use that in auto)
  show ?thesis
  proof (cases "ss_loc s ! p")
    case (Enq_wait_mutex j)
    have "sem_rel jq (set_loc p (Idle R_void) (s\<lparr>ss_lost_empty := Suc (ss_lost_empty s)\<rparr>))"
      by (rule outside) (use Enq_wait_mutex in \<open>auto simp: moves_def\<close>)
    then show ?thesis using Enq_wait_mutex by (simp add: call_fails_def)
  next
    case (Deq_wait_mutex d)
    have "sem_rel jq (set_loc p (Idle (R_job None)) (s\<lparr>ss_lost_full := Suc (ss_lost_full s)\<rparr>))"
      by (rule outside) (use Deq_wait_mutex in \<open>auto simp: moves_def\<close>)
    then show ?thesis using Deq_wait_mutex by (simp add: call_fails_def)
  next
    case (Deq_copy d)
    then have d: "d = NULL" using w by (simp add: is_alloc_def is_wait_def)
    have q: "ss_queue s = jq" "jq_contents jq \<noteq> []" using sem_rel_holder [OF rel p] Deq_copy by simp_all
    have "sem_rel jq (set_loc p (Deq_init d (hd (jq_contents jq)) False) s)"
      by (rule inside) (use Deq_copy d q sem_rel_log [OF rel] inv in \<open>auto simp: moves_def\<close>)
    then show ?thesis
      using Deq_copy q slot_set_ok(2) [OF inv r] jq_head_job [OF inv q(2)] jq_contents_copied [OF inv]
      by (simp add: call_fails_def)
  next
    case (Obs_read k)
    have q: "ss_queue s = jq" using sem_rel_holder [OF rel p] Obs_read by simp
    have "sem_rel jq (set_loc p (Obs_post (observe_fail k)) s)"
      by (rule inside) (use Obs_read q sem_rel_log [OF rel] inv in \<open>auto simp: moves_def\<close>)
    then show ?thesis using Obs_read q observe_ok [OF inv] by (simp add: call_fails_def)
  qed (use w same in \<open>auto simp: is_wait_def is_alloc_def call_fails_def moves_def\<close>)
qed

text \<open>A process is inside: between its two operations on the mutex.\<close>

definition inside :: "sem_sys \<Rightarrow> nat \<Rightarrow> bool" where
  "inside s p \<longleftrightarrow> p < length (ss_loc s) \<and> holds (ss_loc s ! p)"

interpretation sem: exclusion sem_step sem_legal sem_inv inside
proof (unfold_locales, goal_cases)
  case (1 s pe)
  obtain jq where rel: "sem_rel jq s" using 1(1) by (auto simp: sem_inv_def)
  obtain p e where pe: "pe = (p, e)" by (cases pe)
  note may = 1(2) [unfolded sem_legal_def pe]
  show ?case
  proof (cases e)
    case (Call q c)
    then show ?thesis using may call_inv [OF rel, of p c q] pe by (auto intro: sem_invI)
  next
    case Go
    then show ?thesis
      using may pe enq_go_inv [OF rel, of p] obs_go_inv [OF rel, of p] deq_go_inv [OF rel, of p]
      by (auto simp: Let_def)
  next
    case Fail
    then show ?thesis using may fail_inv [OF rel, of p] pe by (auto intro: sem_invI)
  qed
next
  case (2 s p q)
  then obtain jq where "sem_counts jq s" by (auto simp: sem_inv_def sem_rel_def)
  then show ?case using 2(2,3) sem_alone [of jq s p q] by (auto simp: inside_def)
qed

text \<open>The state after a schedule, and every state on the way.\<close>

lemma sem_run:
  obtains t where "sched_run sem_step sem_legal (sem_init n) evs = Some t" "sem_inv t"
  using sem.run_inv [OF sem_inv_init] by blast

lemma sem_reach: "u \<in> set (sched_trace sem_step sem_legal (sem_init n) evs) \<Longrightarrow> sem_inv u"
  by (rule sem.trace_inv [OF sem_inv_init])

text \<open>The jobs put and not yet taken; they are the contents of the shared queue.\<close>

definition queued :: "sem_sys \<Rightarrow> job_t list" where
  "queued s = drop (length (ss_out s)) (ss_in s)"

lemma sem_rel_queued: "sem_rel jq s \<Longrightarrow> jq_contents jq = queued s"
  using sem_rel_log [of jq s] by (simp add: queued_def)

section \<open>Blocking\<close>

definition stuck :: "sem_sys \<Rightarrow> bool" where
  "stuck s \<longleftrightarrow> (\<forall>l \<in> set (ss_loc s). is_idle l \<or> blocked s l)"

lemma stuck_mutex:
  assumes rel: "sem_rel jq s" and st: "stuck s"
  shows "ss_mutex s = 1" "cnt holds (ss_loc s) = 0"
proof -
  have "\<forall>l \<in> set (ss_loc s). \<not> holds l"
  proof
    fix l assume "l \<in> set (ss_loc s)"
    then have "is_idle l \<or> blocked s l" using st by (simp add: stuck_def)
    then show "\<not> holds l" by (cases l) (simp_all add: is_idle_def blocked_def)
  qed
  then show c: "cnt holds (ss_loc s) = 0" by (simp add: cnt_zero_iff)
  then show "ss_mutex s = 1" using rel by (simp add: sem_rel_def sem_counts_def)
qed

text \<open>In a stuck state only producers at \<^verbatim>\<open>empty\<close> and consumers at \<^verbatim>\<open>full\<close> wait.\<close>

lemma stuck_loc:
  assumes rel: "sem_rel jq s" and st: "stuck s" and l: "l \<in> set (ss_loc s)"
  shows "is_idle l \<or> (\<exists>j. l = Enq_wait_empty j) \<and> ss_empty s = 0 \<or> (\<exists>d. l = Deq_wait_full d) \<and> ss_full s = 0"
proof -
  have "is_idle l \<or> blocked s l" using st l by (simp add: stuck_def)
  then show ?thesis using stuck_mutex(1) [OF rel st] by (cases l) (simp_all add: blocked_def)
qed

lemma stuck_counts:
  assumes rel: "sem_rel jq s" and st: "stuck s"
  shows "ss_empty s + length (queued s) + ss_null s + ss_lost_empty s = QUEUE_SIZE - 1"
    and "ss_full s + ss_lost_full s = length (queued s) + ss_null s"
proof -
  have *: "\<not> enq_tok l \<and> \<not> enq_done l \<and> \<not> deq_tok l \<and> \<not> deq_done l" if "l \<in> set (ss_loc s)" for l
    using stuck_loc [OF rel st that] by (cases l) (simp_all add: is_idle_def)
  have "cnt enq_tok (ss_loc s) = 0" "cnt enq_done (ss_loc s) = 0" "cnt deq_tok (ss_loc s) = 0"
    "cnt deq_done (ss_loc s) = 0"
    using * by (simp_all add: cnt_zero_iff)
  then show "ss_empty s + length (queued s) + ss_null s + ss_lost_empty s = QUEUE_SIZE - 1"
    and "ss_full s + ss_lost_full s = length (queued s) + ss_null s"
    using rel sem_rel_queued [OF rel] by (simp_all add: sem_rel_def sem_counts_def)
qed

section \<open>A call ends\<close>

text \<open>The steps left to a process in its call.\<close>

fun steps_left :: "sem_loc \<Rightarrow> nat" where
  "steps_left (Enq_wait_empty _) = 8" | "steps_left (Enq_wait_mutex _) = 7"
| "steps_left (Enq_work _) = 6" | "steps_left (Enq_test _) = 5" | "steps_left (Enq_copy _) = 4"
| "steps_left (Enq_tail _) = 3" | "steps_left Enq_post_mutex = 2" | "steps_left Enq_post_full = 1"
| "steps_left (Deq_wait_full _) = 9" | "steps_left (Deq_wait_mutex _) = 8" | "steps_left (Deq_test _) = 7"
| "steps_left (Deq_copy _) = 6" | "steps_left (Deq_init _ _ _) = 5" | "steps_left (Deq_head _ _ _) = 4"
| "steps_left (Deq_work _) = 3" | "steps_left (Deq_post_mutex _) = 2"
| "steps_left (Deq_post_empty _) = 1" | "steps_left (Obs_wait_mutex _) = 4"
| "steps_left (Obs_work _) = 3" | "steps_left (Obs_read _) = 2" | "steps_left (Obs_post _) = 1"
| "steps_left (Idle _) = 0"

lemma steps_left_Go:
  assumes "p < length (ss_loc s)" "\<not> is_idle (ss_loc s ! p)" "sem_step (p, Go) s = Some t"
  shows "steps_left (ss_loc t ! p) < steps_left (ss_loc s ! p) \<and>
    (\<forall>i. i \<noteq> p \<longrightarrow> ss_loc t ! i = ss_loc s ! i) \<and> length (ss_loc t) = length (ss_loc s)"
  using assms
  by (cases "ss_loc s ! p")
    (auto simp: is_idle_def is_enq_def is_obs_def enq_go_def obs_go_def deq_go_def Let_def
      bind_eq_Some_conv split: option.splits if_splits)

section \<open>The statements inside are the queue's operations\<close>

text \<open>\<open>k\<close> consecutive steps of process \<open>p\<close>.\<close>

definition alone :: "nat \<Rightarrow> nat \<Rightarrow> sem_sys \<Rightarrow> sem_sys option" where
  "alone p k s = sched_run sem_step sem_may s (replicate k (p, Go))"

lemma alone_0 [simp]: "alone p 0 s = Some s"
  by (simp add: alone_def)

lemma alone_Suc:
  assumes "p < length (ss_loc s)" "\<not> is_idle (ss_loc s ! p)" "\<not> blocked s (ss_loc s ! p)"
  shows "alone p (Suc k) s = do { t \<leftarrow> sem_step (p, Go) s; alone p k t }"
  using assms by (simp add: alone_def del: sem_step.simps)

lemmas loc_simps = is_idle_def blocked_def is_enq_def is_obs_def enq_go_def deq_go_def obs_go_def

lemma enq_statements:
  assumes at: "jq_at m q jq" and src: "m_jobs m a = Some j" "NUL \<in> set (j_label j)"
    and s: "p < length (ss_loc s)" "ss_loc s ! p = Enq_test (Some j)" "ss_queue s = jq"
  shows "\<exists>k t m'. alone p k s = Some t \<and> ss_loc t ! p = Enq_post_mutex \<and>
    jobqueue_enqueue m (Ptr q) (Ptr (Obj a)) = Some m' \<and> m_queues m' q = Some (ss_queue t)"
proof -
  note inv = jq_atD(3) [OF at]
  note r = jq_inv_ranges [OF inv]
  have nx: "next_index jq (q_tail jq) = Some ((q_tail jq + 1) mod int QUEUE_SIZE)"
    using next_index_ok r by simp
  show ?thesis
  proof (cases "length (jq_contents jq) = QUEUE_SIZE - 1")
    case True
    then have "alone p (Suc 0) s = Some (set_loc p Enq_post_mutex (s\<lparr>ss_null := Suc (ss_null s)\<rparr>))"
      using s nx jq_full_iff [OF inv] by (simp add: alone_Suc loc_simps)
    moreover have "jobqueue_enqueue m (Ptr q) (Ptr (Obj a)) = Some m"
      by (rule jobqueue_enqueue_full [OF at True])
    ultimately show ?thesis using s jq_atD(2) [OF at] by (intro exI conjI) (auto simp: loc_simps)
  next
    case False
    have "alone p (Suc (Suc (Suc 0))) s = Some (set_loc p Enq_post_mutex
        (s\<lparr>ss_loc := (ss_loc s)[p := Enq_tail j], ss_queue := enq_val jq j, ss_in := ss_in s @ [copied j]\<rparr>))"
      using src(2) s nx jq_full_iff [OF inv] False slot_set_ok(1) [OF inv r(3,4)] r
        next_index_ok [of "jq\<lparr>q_jobs := (q_jobs jq)[nat (q_tail jq) := copied j]\<rparr>" "q_tail jq"]
      by (simp add: alone_Suc loc_simps copy_of_def enq_val_def set_loc_def)
    with jobqueue_enqueue_room [OF at False src] s show ?thesis
      by (intro exI conjI) (auto simp: mem_simps)
  qed
qed

lemma deq_statements:
  assumes at: "jq_at m q jq" and dst: "m_jobs m a = Some j0"
    and s: "p < length (ss_loc s)" "ss_loc s ! p = Deq_test (Ptr ())" "ss_queue s = jq"
  shows "\<exists>k t r m'. alone p k s = Some t \<and> jobqueue_dequeue m (Ptr q) (Ptr (Obj a)) = Some (r, m') \<and>
    m_queues m' q = Some (ss_queue t) \<and>
    ss_loc t ! p = Deq_work (if r = NULL then None else m_jobs m' a)"
proof -
  note inv = jq_atD(3) [OF at]
  note r = jq_inv_ranges [OF inv]
  show ?thesis
  proof (cases "jq_contents jq = []")
    case True
    then have "alone p (Suc 0) s = Some (set_loc p (Deq_work None) (s\<lparr>ss_null := ss_null s - 1\<rparr>))"
      using s jq_empty_iff [OF inv] by (simp add: alone_Suc loc_simps)
    with jobqueue_dequeue_empty [OF at True] s jq_atD(2) [OF at] show ?thesis
      by (intro exI conjI) auto
  next
    case False
    let ?h = "hd (jq_contents jq)"
    have "alone p (Suc (Suc (Suc (Suc 0)))) s = Some (set_loc p (Deq_work (Some ?h))
        (s\<lparr>ss_loc := (ss_loc s)[p := Deq_head (Ptr ()) ?h True], ss_queue := deq_val jq, ss_out := ss_out s @ [(p, ?h)]\<rparr>))"
      using s jq_empty_iff [OF inv] False slot_set_ok [OF inv r(1,2)] r
        jq_head_job [OF inv False] jq_contents_copy_of [OF inv]
        next_index_ok [of "jq\<lparr>q_jobs := (q_jobs jq)[nat (q_head jq) := job_zero]\<rparr>" "q_head jq"]
      by (simp add: alone_Suc loc_simps deq_val_def set_loc_def)
    with jobqueue_dequeue_to [OF at False dst] s show ?thesis
      by (intro exI conjI) (auto simp: mem_simps)
  qed
qed

text \<open>With a NULL destination the copy is a new job, or NULL when \<^verbatim>\<open>malloc\<close> fails.\<close>

definition new_job :: "mem \<Rightarrow> job_loc ptr \<Rightarrow> job_t option" where
  "new_job m r = (case r of NULL \<Rightarrow> None | Ptr l \<Rightarrow> load_job m l)"

lemma deq_statements_new:
  assumes at: "jq_at m q jq" and s: "p < length (ss_loc s)" "ss_loc s ! p = Deq_test NULL" "ss_queue s = jq"
  shows "\<exists>k t r m'. sched_run sem_step sem_may s
      (map (Pair p) (take k [Go, if m_avail m (m_next m) then Go else Fail, Go, Go])) = Some t \<and>
    jobqueue_dequeue m (Ptr q) NULL = Some (r, m') \<and> m_queues m' q = Some (ss_queue t) \<and>
    ss_loc t ! p = Deq_work (new_job m' r)"
proof -
  note inv = jq_atD(3) [OF at]
  note r = jq_inv_ranges [OF inv]
  show ?thesis
  proof (cases "jq_contents jq = []")
    case True
    let ?t = "set_loc p (Deq_work None) (s\<lparr>ss_null := ss_null s - 1\<rparr>)"
    have "sched_run sem_step sem_may s (map (Pair p) (take (Suc 0) [Go, if m_avail m (m_next m) then Go else Fail, Go, Go])) = Some ?t"
      using s jq_empty_iff [OF inv] True by (simp add: loc_simps)
    moreover have "m_queues m q = Some (ss_queue ?t)" "ss_loc ?t ! p = Deq_work (new_job m NULL)"
      using s jq_atD(2) [OF at] by (simp_all add: new_job_def)
    ultimately show ?thesis using jobqueue_dequeue_empty [OF at True] by blast
  next
    case False
    let ?h = "hd (jq_contents jq)" and ?ok = "m_avail m (m_next m)"
    let ?t = "set_loc p (Deq_work (if ?ok then Some ?h else None))
        (s\<lparr>ss_loc := (ss_loc s)[p := Deq_head NULL ?h ?ok], ss_queue := deq_val jq, ss_out := ss_out s @ [(p, ?h)]\<rparr>)"
    have run: "sched_run sem_step sem_may s (map (Pair p) (take 4 [Go, if ?ok then Go else Fail, Go, Go])) = Some ?t"
      using s jq_empty_iff [OF inv] False slot_set_ok [OF inv r(1,2)] r
        jq_head_job [OF inv False] jq_contents_copy_of [OF inv] jq_contents_copied [OF inv]
        next_index_ok [of "jq\<lparr>q_jobs := (q_jobs jq)[nat (q_head jq) := job_zero]\<rparr>" "q_head jq"]
      by (simp add: loc_simps call_fails_def is_alloc_def is_wait_def deq_val_def set_loc_def)
    obtain r m' where d: "jobqueue_dequeue m (Ptr q) NULL = Some (r, m')" "m_queues m' q = Some (deq_val jq)"
      "new_job m' r = (if ?ok then Some ?h else None)"
      using jobqueue_dequeue_new [OF at False] jobqueue_dequeue_new_fail [OF at False]
      by (cases ?ok) (auto simp: new_job_def mem_simps)
    have "m_queues m' q = Some (ss_queue ?t)" "ss_loc ?t ! p = Deq_work (new_job m' r)"
      using d s by simp_all
    then show ?thesis using run d(1) by blast
  qed
qed

text \<open>The observers return what the queue's own observers say at that moment.\<close>

lemma obs_statements:
  assumes at: "jq_at m q jq" and dst: "m_jobs m a = Some j0"
  shows "observe Is_empty jq = map_option R_bool (jobqueue_is_empty m (Ptr q)) \<and>
    observe Is_full jq = map_option R_bool (jobqueue_is_full m (Ptr q)) \<and>
    (\<exists>r m'. jobqueue_peekhead m (Ptr q) (Ptr (Obj a)) = Some (r, m') \<and>
      observe (Peekhead (Ptr ())) jq = Some (R_job (if r = NULL then None else m_jobs m' a))) \<and>
    (\<exists>r m'. jobqueue_peektail m (Ptr q) (Ptr (Obj a)) = Some (r, m') \<and>
      observe (Peektail (Ptr ())) jq = Some (R_job (if r = NULL then None else m_jobs m' a)))"
  using jobqueue_is_empty_ok [OF at] jobqueue_is_full_ok [OF at] jobqueue_peekhead_empty [OF at]
    jobqueue_peekhead_to [OF at _ dst] jobqueue_peektail_empty [OF at] jobqueue_peektail_to [OF at _ dst]
  by (cases "jq_contents jq = []") (simp_all add: observe_ok [OF jq_atD(3) [OF at]] observed_def)

section \<open>What a dequeue returns\<close>

text \<open>The jobs taken by process \<open>p\<close>, and the job a call on its way out returns.\<close>

definition taken :: "nat \<Rightarrow> sem_sys \<Rightarrow> job_t list" where
  "taken p s = map snd (filter (\<lambda>e. fst e = p) (ss_out s))"

fun returning :: "sem_loc \<Rightarrow> job_t option" where
  "returning (Deq_work r) = r" | "returning (Deq_post_mutex r) = r"
| "returning (Deq_post_empty r) = r" | "returning _ = None"

definition ret_inv :: "sem_sys \<Rightarrow> bool" where
  "ret_inv s \<longleftrightarrow> sem_inv s \<and> (\<forall>p < length (ss_loc s). \<forall>x. returning (ss_loc s ! p) = Some x \<longrightarrow>
     (\<exists>xs. taken p s = xs @ [x]))"

definition ret_moves :: "nat \<Rightarrow> sem_sys \<Rightarrow> sem_sys \<Rightarrow> bool" where
  "ret_moves p s t \<longleftrightarrow> length (ss_loc t) = length (ss_loc s) \<and> (\<forall>i. i \<noteq> p \<longrightarrow> ss_loc t ! i = ss_loc s ! i) \<and>
    (ss_out t = ss_out s \<and>
       (returning (ss_loc t ! p) = None \<or> returning (ss_loc t ! p) = returning (ss_loc s ! p)) \<or>
     (\<exists>x. ss_out t = ss_out s @ [(p, x)] \<and> returning (ss_loc t ! p) \<in> {None, Some x}))"

lemma call_ret: "p < length (ss_loc s) \<Longrightarrow> ret_moves p s (set_loc p (call_loc q c) s)"
  by (cases c) (simp_all add: call_loc_def ret_moves_def)

lemma fail_ret:
  assumes "p < length (ss_loc s)" "call_fails p s (ss_loc s ! p) = Some t"
  shows "ret_moves p s t"
  using assms by (cases "ss_loc s ! p") (auto simp: call_fails_def ret_moves_def bind_eq_Some_conv)

lemma enq_go_ret:
  assumes "p < length (ss_loc s)" "enq_go p s (ss_loc s ! p) = Some t"
  shows "ret_moves p s t"
  using assms
  by (cases "ss_loc s ! p")
    (auto simp: enq_go_def ret_moves_def bind_eq_Some_conv Let_def split: option.splits if_splits)

lemma obs_go_ret:
  assumes "p < length (ss_loc s)" "obs_go p s (ss_loc s ! p) = Some t"
  shows "ret_moves p s t"
  using assms by (cases "ss_loc s ! p") (auto simp: obs_go_def ret_moves_def bind_eq_Some_conv)

lemma deq_go_ret:
  assumes "p < length (ss_loc s)" "deq_go p s (ss_loc s ! p) = Some t"
  shows "ret_moves p s t"
  using assms
  by (cases "ss_loc s ! p") (auto simp: deq_go_def ret_moves_def bind_eq_Some_conv Let_def split: if_splits)

lemma step_ret:
  assumes "sem_may s (p, e)" "sem_step (p, e) s = Some t"
  shows "ret_moves p s t"
  using assms call_ret fail_ret [of p s t] enq_go_ret [of p s t] obs_go_ret [of p s t] deq_go_ret [of p s t]
  by (cases e) (auto simp: Let_def split: if_splits)

interpretation sem_ret: invariant_system sem_step sem_legal ret_inv
proof (unfold_locales, goal_cases)
  case (1 s pe)
  obtain p e where pe: "pe = (p, e)" by (cases pe)
  have may: "sem_may s (p, e)" using 1(2) by (simp add: sem_legal_def pe)
  have "sem_inv s" using 1(1) by (simp add: ret_inv_def)
  from sem.step_inv [OF this 1(2)] obtain t where t: "sem_step (p, e) s = Some t" "sem_inv t"
    unfolding pe by blast
  have v: "ret_moves p s t" by (rule step_ret [OF may t(1)])
  have "\<exists>xs. taken i t = xs @ [x]"
    if i: "i < length (ss_loc t)" and r: "returning (ss_loc t ! i) = Some x" for i x
  proof (cases "i = p")
    case True
    then show ?thesis using v i r 1(1) by (auto simp: taken_def ret_inv_def ret_moves_def)
  next
    case False
    then have "taken i t = taken i s" using v by (auto simp: taken_def ret_moves_def)
    then show ?thesis using False v i r 1(1) by (simp add: ret_inv_def ret_moves_def)
  qed
  then have "ret_inv t" using t(2) by (simp add: ret_inv_def)
  then show ?case using t(1) pe by blast
qed

lemma ret_reach:
  assumes "u \<in> set (sched_trace sem_step sem_legal (sem_init n) evs)"
  shows "ret_inv u"
  by (rule sem_ret.trace_inv [OF _ assms]) (use sem_inv_init in \<open>simp add: ret_inv_def\<close>,
    simp add: sem_init_def)

section \<open>Units without a job\<close>

text \<open>Past its waits an enqueue finds room; a dequeue finds a job, or a unit of a NULL enqueue.\<close>

lemma enq_test_room:
  assumes "sem_inv s" "p < length (ss_loc s)" "ss_loc s ! p = Enq_test (Some x)"
  shows "sem_step (p, Go) s = Some (set_loc p (Enq_copy x) s)"
proof -
  obtain jq where rel: "sem_rel jq s" using assms(1) by (auto simp: sem_inv_def)
  note inv = sem_rel_inv [OF rel]
  have "ss_queue s = jq" using sem_rel_holder(1) [OF rel assms(2)] assms(3) by simp
  moreover have "q_head jq \<noteq> (q_tail jq + 1) mod int QUEUE_SIZE"
    using sem_rel_room [OF rel assms(2)] jq_full_iff [OF inv] assms(3) by simp
  ultimately show ?thesis
    using assms(3) next_index_ok [of jq "q_tail jq"] jq_inv_ranges [OF inv] by (simp add: loc_simps)
qed

lemma deq_test_job:
  assumes "sem_inv s" "p < length (ss_loc s)" "ss_loc s ! p = Deq_test d"
  shows "if queued s = [] then 0 < ss_null s \<and>
      sem_step (p, Go) s = Some (set_loc p (Deq_work None) (s\<lparr>ss_null := ss_null s - 1\<rparr>))
    else sem_step (p, Go) s = Some (set_loc p (Deq_copy d) s)"
proof -
  obtain jq where rel: "sem_rel jq s" using assms(1) by (auto simp: sem_inv_def)
  have "ss_queue s = jq" using sem_rel_holder(1) [OF rel assms(2)] assms(3) by simp
  then show ?thesis
    using sem_rel_job [OF rel assms(2)] jq_empty_iff [OF sem_rel_inv [OF rel]] sem_rel_queued [OF rel] assms(3)
    by (auto simp: loc_simps)
qed

text \<open>Every such unit is that of a call with a NULL job.\<close>

fun null_call :: "sem_event \<Rightarrow> bool" where
  "null_call (Call q (Enqueue None)) = True" | "null_call _ = False"

fun null_loc :: "sem_loc \<Rightarrow> bool" where
  "null_loc (Enq_wait_empty None) = True" | "null_loc (Enq_wait_mutex None) = True"
| "null_loc (Enq_work None) = True" | "null_loc (Enq_test None) = True" | "null_loc _ = False"

definition null_units :: "sem_sys \<Rightarrow> nat" where
  "null_units s = ss_null s + cnt null_loc (ss_loc s)"

lemma null_units_move:
  assumes "p < length (ss_loc s)" "ss_loc t = ss_loc s"
    "ss_null t + of_bool (null_loc v) \<le> ss_null s + of_bool (null_loc (ss_loc s ! p)) + k"
  shows "null_units (set_loc p v t) \<le> null_units s + k"
  using cnt_update [OF assms(1), of null_loc v] assms(2,3) by (simp add: null_units_def)

lemma null_units_call:
  assumes "p < length (ss_loc s)"
  shows "null_units (set_loc p (call_loc q c) s) \<le> null_units s + of_bool (null_call (Call q c))"
  by (rule null_units_move [OF assms refl], cases c; cases q)
    (auto simp: call_loc_def split: option.splits elim: null_loc.elims)

lemma null_units_fail:
  assumes "p < length (ss_loc s)" "call_fails p s (ss_loc s ! p) = Some t"
  shows "null_units t \<le> null_units s"
  using assms null_units_move [OF assms(1), of _ _ 0]
  by (cases "ss_loc s ! p") (auto simp: call_fails_def bind_eq_Some_conv)

lemma null_units_go:
  assumes inv: "sem_inv s" and p: "p < length (ss_loc s)" and t: "sem_step (p, Go) s = Some t"
  shows "null_units t \<le> null_units s"
proof -
  note move = null_units_move [OF p, of _ _ 0, simplified]
  show ?thesis
  proof (cases "ss_loc s ! p")
    case (Enq_test j)
    show ?thesis
    proof (cases j)
      case None
      then show ?thesis using t Enq_test by (auto simp: loc_simps intro!: move)
    next
      case (Some x)
      then show ?thesis using t Enq_test enq_test_room [OF inv p, of x] by (auto intro!: move)
    qed
  next
    case (Deq_test d)
    then show ?thesis using t deq_test_job [OF inv p] by (auto intro!: move split: if_splits)
  next
    case (Enq_wait_empty j)
    then show ?thesis using t by (cases j) (auto simp: loc_simps intro!: move)
  next
    case (Enq_wait_mutex j)
    then show ?thesis using t by (cases j) (auto simp: loc_simps intro!: move)
  next
    case (Enq_work j)
    then show ?thesis using t by (cases j) (auto simp: loc_simps intro!: move)
  qed (use t in \<open>auto simp: loc_simps Let_def bind_eq_Some_conv intro!: move\<close>)
qed

lemma null_units_step:
  assumes "sem_inv s" "sem_legal s pe" "sem_step pe s = Some t"
  shows "null_units t \<le> null_units s + of_bool (null_call (snd pe))"
proof -
  obtain p e where pe: "pe = (p, e)" by (cases pe)
  have p: "p < length (ss_loc s)" using assms(2) pe by (cases e) (auto simp: sem_legal_def)
  show ?thesis
    using assms(1,3) pe null_units_fail [OF p] null_units_go [OF assms(1) p]
  proof (cases e)
    case (Call q c)
    then show ?thesis using assms(3) pe null_units_call [OF p, of q c] by simp
  qed (auto simp del: sem_step.simps(2))
qed

lemma null_units_run:
  assumes "sem_inv s" "u \<in> set (sched_trace sem_step sem_legal s evs)"
  shows "null_units u \<le> null_units s + length (filter (\<lambda>pe. null_call (snd pe)) evs)"
  using assms
proof (induction evs arbitrary: s)
  case Nil
  then show ?case by simp
next
  case (Cons pe evs)
  show ?case
  proof (cases "sem_legal s pe")
    case True
    then obtain t where t: "sem_step pe s = Some t" "sem_inv t" using sem.step_inv Cons.prems(1) by blast
    then show ?thesis
      using Cons.IH [OF t(2)] Cons.prems(2) True null_units_step [OF Cons.prems(1) True t(1)] by auto
  next
    case False
    then have "u = s \<or> u \<in> set (sched_trace sem_step sem_legal s evs)" using Cons.prems(2) by auto
    then show ?thesis using Cons.IH [OF Cons.prems(1)] by (auto intro: le_SucI)
  qed
qed

lemma ss_null_le:
  assumes "u \<in> set (sched_trace sem_step sem_legal (sem_init n) evs)"
  shows "ss_null u \<le> length (filter (\<lambda>pe. null_call (snd pe)) evs)"
  using null_units_run [OF sem_inv_init assms] by (simp add: null_units_def) (simp add: sem_init_def)

section \<open>Concrete runs\<close>

text \<open>Process \<open>p\<close> makes a whole enqueue; the state after it, from the initial one.\<close>

definition put_events :: "nat \<Rightarrow> job_t option \<Rightarrow> (nat \<times> sem_event) list" where
  "put_events p j = (p, Call (Ptr ()) (Enqueue j)) # replicate 8 (p, Go)"

definition one_queued :: "job_t \<Rightarrow> sem_sys" where
  "one_queued j = (sem_init 2)\<lparr>ss_full := 1, ss_empty := QUEUE_SIZE - 2, ss_queue := jq_one j,
     ss_in := [copied j]\<rparr>"

lemma jq_empty_sel [simp]:
  "q_head jq_empty = 0" "q_tail jq_empty = 0" "q_buf_size jq_empty = int QUEUE_SIZE"
  "length (q_jobs jq_empty) = QUEUE_SIZE"
  by (simp_all add: jq_empty_def)

lemma next_index_0: "q_buf_size jq = int QUEUE_SIZE \<Longrightarrow> next_index jq 0 = Some 1"
  by (simp add: next_index_ok QUEUE_SIZE_def)

lemma replicate_runs:
  "replicate 2 x = [x, x]" "replicate 6 x = [x, x, x, x, x, x]" "replicate 8 x = [x, x, x, x, x, x, x, x]"
  by (simp_all add: numeral_eq_Suc)

lemmas run_simps = loc_simps call_loc_def set_loc_def slot_set_def slot_get_def in_array_def
  next_index_0 sem_legal_def sem_init_def copy_of_def replicate_runs One_nat_def

lemma put_run:
  "NUL \<in> set (j_label j) \<Longrightarrow> sched_run sem_step sem_legal (sem_init 2) (put_events 0 (Some j)) = Some (one_queued j)"
  by (simp add: put_events_def one_queued_def jq_one_def enq_val_def run_simps QUEUE_SIZE_def)

lemma put_reach:
  "NUL \<in> set (j_label j) \<Longrightarrow> one_queued j \<in> set (sched_trace sem_step sem_legal (sem_init 2) (put_events 0 (Some j)))"
  by (rule sched_trace_last [OF put_run])

section \<open>Properties\<close>

text \<open>
  C2: for any number of processes and any schedule of calls (with failing waits and
  failing mallocs, NULL queues, NULL jobs and NULL destinations; a job that is passed
  must have a NUL in its label, calls with another are skipped), no step is
  undefined, and the padded copies of the jobs put on the queue are, in order, the
  jobs taken off it followed by at most 127 queued ones, less the units that
  NULL enqueues hold: none is lost while queued, duplicated or reordered; whenever the
  mutex is free the buffer in shared memory holds exactly the queued ones. (A job
  taken with a NULL destination and a failing malloc is not returned.)
\<close>

theorem sem_fifo:
  "\<exists>t rest. sched_run sem_step sem_legal (sem_init n) evs = Some t \<and>
    ss_in t = map snd (ss_out t) @ rest \<and> length rest + ss_null t \<le> 127 \<and> (\<forall>j \<in> set rest. job_ok j) \<and>
    (ss_mutex t = 1 \<longrightarrow> jq_inv (ss_queue t) \<and> jq_contents (ss_queue t) = rest)"
proof -
  obtain t jq where t: "sched_run sem_step sem_legal (sem_init n) evs = Some t" "sem_rel jq t"
    using sem_run sem_inv_def by metis
  have inv: "jq_inv jq" using t(2) by (rule sem_rel_inv)
  have "length (jq_contents jq) + ss_null t \<le> 127"
    using t(2) by (simp add: sem_rel_def sem_counts_def QUEUE_SIZE_def)
  moreover have "\<forall>j \<in> set (jq_contents jq). job_ok j" using jq_contents_ok [OF inv] by blast
  ultimately show ?thesis
    using t(1) sem_rel_log [OF t(2)] sem_rel_free [OF t(2)] inv
    by (intro exI [of _ t] exI [of _ "jq_contents jq"]) auto
qed

lemma job_zero_NUL: "NUL \<in> set (j_label job_zero)"
  by (simp add: job_zero_def MAX_NAME_SIZE_def)

lemma sem_fifo_witness:
  "\<exists>rest. [copied job_zero] = map snd (ss_out (one_queued job_zero)) @ rest \<and>
    jq_contents (ss_queue (one_queued job_zero)) = rest"
  using sem_fifo [of 2 "put_events 0 (Some job_zero)"]
  unfolding put_run [OF job_zero_NUL] by (simp add: one_queued_def) (auto simp: sem_init_def)

text \<open>
  C12: the mutex semaphore excludes: in every state of every schedule of calls, from the
  new queue and with labels that end in the jobs passed, at most one process is between
  its \<^verbatim>\<open>sem_wait\<close> and its \<^verbatim>\<open>sem_post\<close> on the mutex, so the queue's statements of two calls
  never interleave.
\<close>

theorem sem_exclusive:
  assumes "u \<in> set (sched_trace sem_step sem_legal (sem_init n) evs)" "inside u p" "inside u q"
  shows "p = q"
  by (rule sem.run_excl [OF sem_inv_init assms])

lemma sem_exclusive_witness:
  "\<exists>u. inside u 0 \<and> (\<forall>q. inside u q \<longrightarrow> 0 = q)"
proof -
  have "\<exists>u. sched_run sem_step sem_legal (sem_init 2) [(0, Call (Ptr ()) (Observe Is_full)), (0, Go)] = Some u \<and> inside u 0"
    by (simp add: run_simps inside_def)
  then obtain u where u: "sched_run sem_step sem_legal (sem_init 2) [(0, Call (Ptr ()) (Observe Is_full)), (0, Go)] = Some u"
    and c: "inside u 0" by (elim exE conjE)
  show ?thesis
    by (intro exI [of _ u] conjI allI impI c sem_exclusive [OF sched_trace_last [OF u] c])
qed

text \<open>
  C16: past its two waits an enqueue of a job always finds room, in every state that any
  schedule of calls reaches from the new queue (waits and mallocs may fail; a job that
  is passed is NULL or has a label that ends), so that no job is silently dropped; and a
  dequeue finds a job, except that for each enqueue of NULL, which puts no job but
  raises \<^verbatim>\<open>full\<close>, one dequeue may find the queue empty, and then goes on to return NULL.
\<close>

theorem sem_tests_pass:
  assumes "u \<in> set (sched_trace sem_step sem_legal (sem_init n) evs)" "p < length (ss_loc u)"
  shows "(\<forall>x. ss_loc u ! p = Enq_test (Some x) \<longrightarrow> sem_step (p, Go) u = Some (set_loc p (Enq_copy x) u)) \<and>
    (\<forall>d. ss_loc u ! p = Deq_test d \<longrightarrow>
      (if queued u \<noteq> [] then sem_step (p, Go) u = Some (set_loc p (Deq_copy d) u)
       else 0 < ss_null u \<and> sem_step (p, Go) u = Some (set_loc p (Deq_work None) (u\<lparr>ss_null := ss_null u - 1\<rparr>)))) \<and>
    ss_null u \<le> length (filter (\<lambda>pe. null_call (snd pe)) evs)"
proof -
  have inv: "sem_inv u" by (rule sem_reach [OF assms(1)])
  show ?thesis
    using enq_test_room [OF inv assms(2)] deq_test_job [OF inv assms(2)] ss_null_le [OF assms(1)]
    by (simp split: if_splits del: sem_step.simps)
qed

lemma sem_tests_pass_witness:
  "\<exists>u. ss_loc u ! 1 = Deq_test NULL \<and> sem_step (1, Go) u = Some (set_loc 1 (Deq_copy NULL) u)"
proof -
  let ?evs = "put_events 0 (Some job_zero) @ [(1, Call (Ptr ()) (Dequeue NULL)), (1, Go), (1, Go)]"
  have "\<exists>u. sched_run sem_step sem_legal (sem_init 2) ?evs = Some u \<and> ss_loc u ! 1 = Deq_test NULL \<and>
      1 < length (ss_loc u) \<and> queued u = [copied job_zero]"
    by (simp add: sched_run_append put_run job_zero_NUL) (simp add: one_queued_def run_simps queued_def)
  then obtain u where u: "sched_run sem_step sem_legal (sem_init 2) ?evs = Some u"
    and c: "ss_loc u ! 1 = Deq_test NULL" "1 < length (ss_loc u)" "queued u = [copied job_zero]" by (elim exE conjE)
  show ?thesis using sem_tests_pass [OF sched_trace_last [OF u] c(2)] c(1,3) by auto
qed

text \<open>
  What a dequeue returns is the job that it took: in every reachable state a
  call about to return a job returns the last one its process took off the queue.
\<close>

theorem sem_dequeue_returns:
  assumes "u \<in> set (sched_trace sem_step sem_legal (sem_init n) evs)" "p < length (ss_loc u)"
    and "ss_loc u ! p = Deq_post_empty (Some x)"
  shows "\<exists>xs t. taken p u = xs @ [x] \<and>
    sem_step (p, Go) u = Some t \<and> ss_loc t ! p = Idle (R_job (Some x))"
proof -
  have "\<exists>xs. taken p u = xs @ [x]"
    using ret_reach [OF assms(1)] assms(2,3) by (simp add: ret_inv_def)
  then show ?thesis using assms(2,3) by (simp add: loc_simps)
qed

text \<open>The state when process 1 is about to return the job that process 0 put.\<close>

lemma one_taken:
  assumes "job_ok j"
  shows "\<exists>u. sched_run sem_step sem_legal (sem_init 2)
      (put_events 0 (Some j) @ (1, Call (Ptr ()) (Dequeue (Ptr ()))) # replicate 8 (1, Go)) = Some u \<and>
    ss_loc u ! 1 = Deq_post_empty (Some j) \<and> length (ss_loc u) = 2 \<and> ss_in u = [j] \<and> ss_out u = [(1, j)]"
proof -
  have "copied j = j" "NUL \<in> set (j_label j)" using copied_ok [OF assms] job_ok_has_NUL [OF assms] by simp_all
  moreover have "q_head (jq_one j) = 0" "q_tail (jq_one j) = 1" "q_buf_size (jq_one j) = int QUEUE_SIZE"
    "length (q_jobs (jq_one j)) = QUEUE_SIZE" "q_jobs (jq_one j) ! 0 = copied j"
    by (simp_all add: jq_one_def enq_val_def QUEUE_SIZE_def)
  ultimately show ?thesis
    by (simp add: sched_run_append put_run) (simp add: one_queued_def run_simps Let_def QUEUE_SIZE_def)
qed

lemma sem_dequeue_returns_witness:
  "\<exists>u t. ss_loc u ! 1 = Deq_post_empty (Some (mk_job 7 1 ''a'')) \<and> sem_step (1, Go) u = Some t \<and>
    ss_loc t ! 1 = Idle (R_job (Some (mk_job 7 1 ''a'')))"
proof -
  have "job_ok (mk_job 7 1 ''a'')" by (rule job_ok_mk_job) (simp add: NUL_def)
  from one_taken [OF this] obtain u where
    u: "sched_run sem_step sem_legal (sem_init 2) (put_events 0 (Some (mk_job 7 1 ''a'')) @
      (1, Call (Ptr ()) (Dequeue (Ptr ()))) # replicate 8 (1, Go)) = Some u"
    and c: "ss_loc u ! 1 = Deq_post_empty (Some (mk_job 7 1 ''a''))" "length (ss_loc u) = 2"
    by (elim exE conjE)
  have "1 < length (ss_loc u)" using c(2) by simp
  from sem_dequeue_returns [OF sched_trace_last [OF u] this c(1)] c(1) show ?thesis by blast
qed

text \<open>
  C10: in every state that any schedule of calls reaches from the new queue, with jobs
  that are NULL or have a label that ends, and in which no wait has failed half-way (on
  the mutex, after a unit of \<^verbatim>\<open>full\<close> or \<^verbatim>\<open>empty\<close> was taken; C34), the only way the system
  stops with calls pending is that either every pending call is an enqueue and no slot
  is free, or every one is a dequeue and the queue is empty. A slot is free unless it
  holds one of the queued jobs or the unit of an enqueue of NULL that no dequeue has got
  yet, of which there are at most as many as calls with NULL: without such calls
  producers stop at 127 queued jobs.
\<close>

theorem sem_no_deadlock:
  assumes "u \<in> set (sched_trace sem_step sem_legal (sem_init n) evs)"
    and "stuck u" "ss_lost_empty u = 0" "ss_lost_full u = 0"
  shows "(((\<forall>l \<in> set (ss_loc u). is_idle l \<or> (\<exists>j. l = Enq_wait_empty j)) \<and>
      ((\<exists>l \<in> set (ss_loc u). \<not> is_idle l) \<longrightarrow> length (queued u) + ss_null u = 127)) \<or>
    ((\<forall>l \<in> set (ss_loc u). is_idle l \<or> (\<exists>d. l = Deq_wait_full d)) \<and> queued u = [] \<and> ss_null u = 0)) \<and>
    ss_null u \<le> length (filter (\<lambda>pe. null_call (snd pe)) evs)"
proof -
  obtain jq where rel: "sem_rel jq u" using sem_reach [OF assms(1)] by (auto simp: sem_inv_def)
  note loc = stuck_loc [OF rel assms(2)] and counts = stuck_counts [OF rel assms(2)]
  have e: "ss_empty u + length (queued u) + ss_null u = 127" and f: "ss_full u = length (queued u) + ss_null u"
    using counts assms(3,4) by (simp_all add: QUEUE_SIZE_def)
  show ?thesis
  proof (cases "queued u = [] \<and> ss_null u = 0")
    case True
    then have "ss_empty u \<noteq> 0" using e by simp
    then have "\<forall>l \<in> set (ss_loc u). is_idle l \<or> (\<exists>d. l = Deq_wait_full d)" using loc by fastforce
    then show ?thesis using True by simp
  next
    case False
    then have "ss_full u \<noteq> 0" using f by simp
    then have *: "is_idle l \<or> (\<exists>j. l = Enq_wait_empty j) \<and> ss_empty u = 0" if "l \<in> set (ss_loc u)" for l
      using loc [OF that] by simp
    have "length (queued u) + ss_null u = 127" if "l \<in> set (ss_loc u)" "\<not> is_idle l" for l
      using * [OF that(1)] that(2) e by simp
    then show ?thesis using * ss_null_le [OF assms(1)] by blast
  qed
qed

lemma sem_no_deadlock_witness:
  "\<exists>u. stuck u \<and> ss_loc u ! 0 = Deq_wait_full NULL \<and> queued u = []"
proof -
  have "\<exists>u. sched_run sem_step sem_legal (sem_init 2) [(0, Call (Ptr ()) (Dequeue NULL))] = Some u \<and>
      ss_loc u = [Deq_wait_full NULL, Idle R_void] \<and> stuck u \<and> ss_lost_empty u = 0 \<and> ss_lost_full u = 0"
    by (simp add: run_simps stuck_def)
  then obtain u where u: "sched_run sem_step sem_legal (sem_init 2) [(0, Call (Ptr ()) (Dequeue NULL))] = Some u"
    and c: "ss_loc u = [Deq_wait_full NULL, Idle R_void]" "stuck u" "ss_lost_empty u = 0" "ss_lost_full u = 0"
    by (elim exE conjE)
  show ?thesis using sem_no_deadlock [OF sched_trace_last [OF u] c(2,3,4)] c
    by (intro exI [of _ u]) (auto simp: is_idle_def)
qed

text \<open>
  Every step of a call brings it nearer its end, whatever the other processes
  do in between, which leave it where it is: a call that is not blocked returns
  within 9 steps of its own.
\<close>

theorem sem_call_ends:
  assumes "p < length (ss_loc s)" "sem_step (p, Go) s = Some t" "\<not> is_idle (ss_loc s ! p)"
  shows "steps_left (ss_loc t ! p) < steps_left (ss_loc s ! p) \<and> steps_left (ss_loc s ! p) \<le> 9 \<and>
    (steps_left (ss_loc s ! p) = 1 \<longrightarrow> is_idle (ss_loc t ! p)) \<and>
    (\<forall>i. i \<noteq> p \<longrightarrow> ss_loc t ! i = ss_loc s ! i)"
proof -
  have "steps_left l \<le> 9" "steps_left l = 0 \<longleftrightarrow> is_idle l" for l
    by (cases l; simp add: is_idle_def)+
  then show ?thesis using steps_left_Go [OF assms(1,3,2)] by force
qed

lemma sem_call_ends_witness:
  "\<exists>t. sem_step (0, Go) (sem_init 1\<lparr>ss_loc := [Obs_post R_void]\<rparr>) = Some t \<and> is_idle (ss_loc t ! 0)"
proof -
  let ?s = "sem_init 1\<lparr>ss_loc := [Obs_post R_void]\<rparr>"
  have l: "0 < length (ss_loc ?s)" "\<not> is_idle (ss_loc ?s ! 0)" "steps_left (ss_loc ?s ! 0) = 1"
    by (simp_all add: is_idle_def)
  have "\<exists>t. sem_step (0, Go) ?s = Some t" by (simp add: loc_simps)
  then obtain t where t: "sem_step (0, Go) ?s = Some t" by (elim exE)
  show ?thesis using sem_call_ends [OF l(1) t l(2)] l(3) t by blast
qed

text \<open>
  An observer sees a queue that exists: the value it reads is that of its
  function on the queued jobs at that moment (empty, 127 queued, first, last).
\<close>

theorem sem_observes:
  assumes "u \<in> set (sched_trace sem_step sem_legal (sem_init n) evs)" "p < length (ss_loc u)"
    and "ss_loc u ! p = Obs_read k"
  shows "sem_step (p, Go) u = Some (set_loc p (Obs_post (case k of
     Is_empty \<Rightarrow> R_bool (queued u = []) | Is_full \<Rightarrow> R_bool (length (queued u) = 127)
   | Peekhead _ \<Rightarrow> R_job (if queued u = [] then None else Some (hd (queued u)))
   | Peektail _ \<Rightarrow> R_job (if queued u = [] then None else Some (last (queued u))))) u)"
proof -
  obtain jq where rel: "sem_rel jq u" using sem_reach [OF assms(1)] by (auto simp: sem_inv_def)
  have "ss_queue u = jq" using sem_rel_holder(1) [OF rel assms(2)] assms(3) by simp
  then show ?thesis
    using observe_ok [OF sem_rel_inv [OF rel], of k] sem_rel_queued [OF rel] assms(3)
    by (cases k) (simp_all add: loc_simps observed_def QUEUE_SIZE_def)
qed

lemma sem_observes_witness:
  "\<exists>u. ss_loc u ! 0 = Obs_read Is_full \<and> sem_step (0, Go) u = Some (set_loc 0 (Obs_post (R_bool False)) u)"
proof -
  let ?evs = "[(0, Call (Ptr ()) (Observe Is_full)), (0, Go), (0, Go)]"
  have "\<exists>u. sched_run sem_step sem_legal (sem_init 2) ?evs = Some u \<and> ss_loc u = [Obs_read Is_full, Idle R_void] \<and> queued u = []"
    by (simp add: run_simps queued_def)
  then obtain u where u: "sched_run sem_step sem_legal (sem_init 2) ?evs = Some u"
    and c: "ss_loc u = [Obs_read Is_full, Idle R_void]" "queued u = []" by (elim exE conjE)
  have "0 < length (ss_loc u)" "ss_loc u ! 0 = Obs_read Is_full" using c(1) by simp_all
  from sem_observes [OF sched_trace_last [OF u] this] this(2) c(2) show ?thesis by auto
qed

text \<open>
  C26: the statements that a call runs between the mutex operations are those of the
  queue: run without interruption (as mutual exclusion makes them), from any
  well-formed shared queue and, for an enqueue, a job whose label ends, they leave the
  queue that \<^verbatim>\<open>jobqueue_enqueue\<close> and \<^verbatim>\<open>jobqueue_dequeue\<close> leave, with the same result;
  the dequeue into a variable of the caller and, whether or not \<^verbatim>\<open>malloc\<close> succeeds,
  into a new job.
\<close>

theorem sem_refines_jobqueue:
  assumes "jq_at m q (ss_queue s)" "m_jobs m a = Some j" "NUL \<in> set (j_label j)" "p < length (ss_loc s)"
  shows "(ss_loc s ! p = Enq_test (Some j) \<longrightarrow> (\<exists>k t m'. alone p k s = Some t \<and> ss_loc t ! p = Enq_post_mutex \<and>
      jobqueue_enqueue m (Ptr q) (Ptr (Obj a)) = Some m' \<and> m_queues m' q = Some (ss_queue t))) \<and>
    (ss_loc s ! p = Deq_test (Ptr ()) \<longrightarrow> (\<exists>k t r m'. alone p k s = Some t \<and>
      jobqueue_dequeue m (Ptr q) (Ptr (Obj a)) = Some (r, m') \<and> m_queues m' q = Some (ss_queue t) \<and>
      ss_loc t ! p = Deq_work (if r = NULL then None else m_jobs m' a))) \<and>
    (ss_loc s ! p = Deq_test NULL \<longrightarrow> (\<exists>k t r m'. sched_run sem_step sem_may s
        (map (Pair p) (take k [Go, if m_avail m (m_next m) then Go else Fail, Go, Go])) = Some t \<and>
      jobqueue_dequeue m (Ptr q) NULL = Some (r, m') \<and> m_queues m' q = Some (ss_queue t) \<and>
      ss_loc t ! p = Deq_work (new_job m' r)))"
  using enq_statements [OF assms(1,2,3,4)] deq_statements [OF assms(1,2,4)] deq_statements_new [OF assms(1,4)]
  by (intro conjI impI) blast+

lemma sem_refines_jobqueue_witness:
  "\<exists>k t m'. alone 0 k (sem_init 1\<lparr>ss_loc := [Enq_test (Some (mk_job 7 1 ''a''))]\<rparr>) = Some t \<and>
    jobqueue_enqueue (mem_of [mk_job 7 1 ''a''] [jq_empty] True) (Ptr 0) (Ptr (Obj 0)) = Some m' \<and>
    m_queues m' 0 = Some (ss_queue t)"
proof -
  let ?j = "mk_job 7 1 ''a''" and ?m = "mem_of [mk_job 7 1 ''a''] [jq_empty] True"
    and ?s = "sem_init 1\<lparr>ss_loc := [Enq_test (Some (mk_job 7 1 ''a''))]\<rparr>"
  have "job_ok ?j" by (rule job_ok_mk_job) (simp add: NUL_def)
  then have j: "m_jobs ?m 0 = Some ?j" "NUL \<in> set (j_label ?j)" by (simp_all add: mem_simps job_ok_has_NUL)
  have "jq_ok 0 ?m" by (rule jq_ok_mem_of) (simp_all add: jq_inv_empty)
  then have "jq_at ?m 0 (ss_queue ?s)" by (simp add: jq_ok_def mem_simps sem_init_def)
  from sem_refines_jobqueue [OF this j, of 0] show ?thesis by auto
qed

text \<open>
  C34: a wait on the mutex that fails after the wait on \<^verbatim>\<open>full\<close> succeeded gives its
  unit of \<^verbatim>\<open>full\<close> away for good: with one job queued (any whose label ends), the next
  dequeue blocks although the queue is not empty, and nothing else is running.
\<close>

theorem sem_wait_failure_strands_job:
  assumes "NUL \<in> set (j_label j)"
  shows "\<exists>u. sched_run sem_step sem_legal (sem_init 2) (put_events 0 (Some j) @
      [(1, Call (Ptr ()) (Dequeue d)), (1, Go), (1, Fail), (1, Call (Ptr ()) (Dequeue d))]) = Some u \<and>
    stuck u \<and> ss_loc u ! 1 = Deq_wait_full d \<and> jq_contents (ss_queue u) = [copied j]"
proof -
  have "jq_contents (jq_one j) = [copied j]"
    using jq_enq_val [of jq_empty j] jq_inv_empty by (simp add: jq_one_def QUEUE_SIZE_def)
  then show ?thesis
    by (simp add: sched_run_append put_run assms)
      (simp add: one_queued_def run_simps call_fails_def is_wait_def stuck_def)
qed

lemma sem_wait_failure_strands_job_witness:
  "\<exists>u. sched_run sem_step sem_legal (sem_init 2) (put_events 0 (Some job_zero) @
      [(1, Call (Ptr ()) (Dequeue NULL)), (1, Go), (1, Fail), (1, Call (Ptr ()) (Dequeue NULL))]) = Some u \<and>
    stuck u \<and> jq_contents (ss_queue u) = [copied job_zero]"
  using sem_wait_failure_strands_job [OF job_zero_NUL, of NULL] by blast


end
