(* ===== verification/Bwait_Jobqueue.thy ===== *)
theory Bwait_Jobqueue
  imports Sem_Jobqueue Mutex_Peterson Mutex_Lockvar
begin

text \<open>
  The shared queue under the busy-waiting mutexes, used as \<^verbatim>\<open>mutex.h\<close> describes:
  every process repeats \<^verbatim>\<open>mutex_enter\<close>, critical work, \<^verbatim>\<open>mutex_leave\<close>, and calls
  the queue functions only as critical work. A step is a step of the mutex
  (\<open>Mutex_Peterson\<close>, \<open>Mutex_Lockvar\<close>) or one statement of \<^verbatim>\<open>jobqueue_enqueue\<close>,
  \<^verbatim>\<open>jobqueue_dequeue\<close> or an observer on the queue in shared memory, so a mutex that
  fails to exclude exposes the races of the queue code.
\<close>

section \<open>Statements of the queue functions\<close>

text \<open>
  \<open>B_out\<close> is outside the queue functions, with the result of the last call. The
  other locations are the next statement: the test, copy and index update of
  \<^verbatim>\<open>jobqueue_enqueue\<close>; the test of \<^verbatim>\<open>jobqueue_dequeue\<close>, the test and copy of the
  \<^verbatim>\<open>jobqueue_peekhead\<close> it calls, its \<^verbatim>\<open>job_init\<close> and index update. The copy of a
  job and its initialisation are one step each. A destination is NULL or the contents
  of the caller's variable; past the copy a dequeue has the job at its destination, if
  there is one, and whether the caller gets it (not when there was no memory for a
  new job).
\<close>

datatype bq_loc =
    B_out sem_result
  | E_test "job_t option" | E_copy job_t | E_tail job_t
  | D_test "job_t ptr" | D_peek "job_t ptr" | D_copy "job_t ptr"
  | D_init "job_t option" bool | D_head "job_t option" bool
  | O_read observer

datatype bq_call = B_enqueue "job_t option" | B_dequeue "job_t ptr" | B_observe observer

text \<open>With the jobs put and the jobs that dequeue calls took for their process.\<close>

record 'p bq_sys =
  bq_queue :: jobqueue_t
  bq_loc :: "'p \<Rightarrow> bq_loc"
  bq_in :: "job_t list"
  bq_out :: "('p \<times> job_t) list"

definition bq_start :: "bq_call \<Rightarrow> bq_loc" where
  "bq_start c = (case c of B_enqueue j \<Rightarrow> E_test j | B_dequeue d \<Rightarrow> D_test d | B_observe k \<Rightarrow> O_read k)"

definition bq_move :: "'p \<Rightarrow> bq_loc \<Rightarrow> 'p bq_sys \<Rightarrow> 'p bq_sys" where
  "bq_move p l s = s\<lparr>bq_loc := (bq_loc s)(p := l)\<rparr>"

definition bq_go :: "'p \<Rightarrow> 'p bq_sys \<Rightarrow> 'p bq_sys option" where
  "bq_go p s = (let jq = bq_queue s in case bq_loc s p of
     E_test j \<Rightarrow> (case j of
       None \<Rightarrow> Some (bq_move p (B_out R_void) s)
     | Some x \<Rightarrow> do {
         n \<leftarrow> next_index jq (q_tail jq);
         Some (bq_move p (if q_head jq = n then B_out R_void else E_copy x) s) })
   | E_copy x \<Rightarrow> do {
       y \<leftarrow> copy_of x;
       jq1 \<leftarrow> slot_set jq (q_tail jq) y;
       Some (bq_move p (E_tail x) (s\<lparr>bq_queue := jq1\<rparr>)) }
   | E_tail x \<Rightarrow> do {
       t \<leftarrow> next_index jq (q_tail jq);
       Some (bq_move p (B_out R_void) (s\<lparr>bq_queue := jq\<lparr>q_tail := t\<rparr>, bq_in := bq_in s @ [copied x]\<rparr>)) }
   | D_test d \<Rightarrow> Some (bq_move p (if q_head jq = q_tail jq then B_out (R_job None) else D_peek d) s)
   | D_peek d \<Rightarrow> Some (bq_move p
       (if q_head jq = q_tail jq then (case d of NULL \<Rightarrow> D_init None False | Ptr j \<Rightarrow> D_init (Some j) True)
        else D_copy d) s)
   | D_copy d \<Rightarrow> do {
       j \<leftarrow> slot_get jq (q_head jq);
       y \<leftarrow> copy_of j;
       Some (bq_move p (D_init (Some y) True) s) }
   | D_init x ok \<Rightarrow> do {
       jq1 \<leftarrow> slot_set jq (q_head jq) job_zero;
       Some (bq_move p (D_head x ok) (s\<lparr>bq_queue := jq1\<rparr>)) }
   | D_head x ok \<Rightarrow> do {
       h \<leftarrow> next_index jq (q_head jq);
       Some (bq_move p (B_out (R_job (if ok then x else None)))
         (s\<lparr>bq_queue := jq\<lparr>q_head := h\<rparr>,
            bq_out := bq_out s @ (case x of None \<Rightarrow> [] | Some j \<Rightarrow> [(p, j)])\<rparr>)) }
   | O_read k \<Rightarrow> do { r \<leftarrow> observe k jq; Some (bq_move p (B_out r) s) }
   | B_out r \<Rightarrow> Some s)"

text \<open>The same with a \<^verbatim>\<open>malloc\<close> that fails, in a copy to a new job.\<close>

definition bq_alloc :: "bq_loc \<Rightarrow> bool" where
  "bq_alloc l \<longleftrightarrow> l \<in> {D_copy NULL, O_read (Peekhead NULL), O_read (Peektail NULL)}"

definition bq_fails :: "'p \<Rightarrow> 'p bq_sys \<Rightarrow> 'p bq_sys option" where
  "bq_fails p s = (let jq = bq_queue s in case bq_loc s p of
     D_copy d \<Rightarrow> do {
       j \<leftarrow> slot_get jq (q_head jq);
       Some (bq_move p (D_init (Some (copied j)) False) s) }
   | O_read k \<Rightarrow> do { r \<leftarrow> observe k jq; Some (bq_move p (B_out (observe_fail k)) s) }
   | _ \<Rightarrow> Some s)"

definition bq_init :: "'p bq_sys" where
  "bq_init = \<lparr>bq_queue = jq_empty, bq_loc = (\<lambda>_. B_out R_void), bq_in = [], bq_out = []\<rparr>"

section \<open>The critical region around them\<close>

datatype bw_event = B_mutex | B_call bq_call | B_go | B_fail

text \<open>
  The usage loop over any mutex, given by the step of its functions: a process in
  its critical region may start a call, and leaves the region only between calls. A
  job that is enqueued is NULL or has a label that ends.
\<close>

fun callable :: "bq_call \<Rightarrow> bool" where
  "callable (B_enqueue j) = passable j" | "callable _ = True"

definition outside :: "bq_loc \<Rightarrow> bool" where
  "outside l = (case l of B_out _ \<Rightarrow> True | _ \<Rightarrow> False)"

fun bw_step ::
  "('p \<Rightarrow> 'm \<Rightarrow> 'm option) \<Rightarrow> 'p \<times> bw_event \<Rightarrow> 'm \<times> 'p bq_sys \<Rightarrow> ('m \<times> 'p bq_sys) option" where
  "bw_step mstep (p, B_mutex) (m, s) = do { m' \<leftarrow> mstep p m; Some (m', s) }"
| "bw_step mstep (p, B_call c) (m, s) = Some (m, bq_move p (bq_start c) s)"
| "bw_step mstep (p, B_go) (m, s) = do { t \<leftarrow> bq_go p s; Some (m, t) }"
| "bw_step mstep (p, B_fail) (m, s) = do { t \<leftarrow> bq_fails p s; Some (m, t) }"

fun bw_may ::
  "('m \<Rightarrow> 'p \<Rightarrow> bool) \<Rightarrow> ('m \<Rightarrow> 'p \<Rightarrow> bool) \<Rightarrow> 'm \<times> 'p bq_sys \<Rightarrow> 'p \<times> bw_event \<Rightarrow> bool" where
  "bw_may mmay crit (m, s) (p, B_mutex) \<longleftrightarrow> mmay m p \<and> outside (bq_loc s p)"
| "bw_may mmay crit (m, s) (p, B_call c) \<longleftrightarrow> crit m p \<and> outside (bq_loc s p) \<and> callable c"
| "bw_may mmay crit (m, s) (p, B_go) \<longleftrightarrow> \<not> outside (bq_loc s p)"
| "bw_may mmay crit (m, s) (p, B_fail) \<longleftrightarrow> bq_alloc (bq_loc s p)"

section \<open>One process enqueues, one dequeues\<close>

text \<open>
  The queue keeps its contents as long as no two processes are in an enqueue and
  no two in a dequeue: the two kinds of call work on different indices and, the
  tests passed, on different slots. \<open>en\<close> and \<open>de\<close> are the processes in such calls.
\<close>

fun is_E :: "bq_loc \<Rightarrow> bool" where
  "is_E (E_test _) = True" | "is_E (E_copy _) = True" | "is_E (E_tail _) = True" | "is_E _ = False"

fun is_D :: "bq_loc \<Rightarrow> bool" where
  "is_D (D_test _) = True" | "is_D (D_peek _) = True" | "is_D (D_copy _) = True"
| "is_D (D_init _ _) = True" | "is_D (D_head _ _) = True" | "is_D _ = False"

fun owner_loc :: "'p bq_sys \<Rightarrow> 'p option \<Rightarrow> bq_loc" where
  "owner_loc s None = B_out R_void"
| "owner_loc s (Some p) = bq_loc s p"

text \<open>The slots already written by calls in progress, over the queue \<open>jq\<close> without them.\<close>

fun e_over :: "bq_loc \<Rightarrow> jobqueue_t \<Rightarrow> jobqueue_t" where
  "e_over (E_tail x) jq = jq\<lparr>q_jobs := (q_jobs jq)[nat (q_tail jq) := copied x]\<rparr>"
| "e_over _ jq = jq"

fun d_over :: "bq_loc \<Rightarrow> jobqueue_t \<Rightarrow> jobqueue_t" where
  "d_over (D_head x ok) jq = jq\<lparr>q_jobs := (q_jobs jq)[nat (q_head jq) := job_zero]\<rparr>"
| "d_over _ jq = jq"

text \<open>What the tests passed so far tell.\<close>

fun e_ok :: "bq_loc \<Rightarrow> jobqueue_t \<Rightarrow> bool" where
  "e_ok (E_test j) jq \<longleftrightarrow> passable j"
| "e_ok (E_copy x) jq \<longleftrightarrow> length (jq_contents jq) < QUEUE_SIZE - 1 \<and> passable (Some x)"
| "e_ok (E_tail x) jq \<longleftrightarrow> length (jq_contents jq) < QUEUE_SIZE - 1"
| "e_ok _ jq \<longleftrightarrow> True"

fun d_ok :: "bq_loc \<Rightarrow> jobqueue_t \<Rightarrow> bool" where
  "d_ok (D_peek d) jq \<longleftrightarrow> jq_contents jq \<noteq> []"
| "d_ok (D_copy d) jq \<longleftrightarrow> jq_contents jq \<noteq> []"
| "d_ok (D_init x ok) jq \<longleftrightarrow> jq_contents jq \<noteq> [] \<and> x = Some (hd (jq_contents jq))"
| "d_ok (D_head x ok) jq \<longleftrightarrow> jq_contents jq \<noteq> [] \<and> x = Some (hd (jq_contents jq))"
| "d_ok _ jq \<longleftrightarrow> True"

definition owners :: "'p bq_sys \<Rightarrow> 'p option \<Rightarrow> 'p option \<Rightarrow> bool" where
  "owners s en de \<longleftrightarrow> (\<forall>p. is_E (bq_loc s p) \<longleftrightarrow> en = Some p) \<and> (\<forall>p. is_D (bq_loc s p) \<longleftrightarrow> de = Some p)"

definition bq_rel :: "jobqueue_t \<Rightarrow> bq_loc \<Rightarrow> bq_loc \<Rightarrow> 'p bq_sys \<Rightarrow> bool" where
  "bq_rel jq le ld s \<longleftrightarrow> jq_inv jq \<and> bq_in s = map snd (bq_out s) @ jq_contents jq \<and>
     e_ok le jq \<and> d_ok ld jq \<and> bq_queue s = d_over ld (e_over le jq)"

definition bq_inv :: "'p bq_sys \<Rightarrow> bool" where
  "bq_inv s \<longleftrightarrow> (\<exists>jq en de. owners s en de \<and> bq_rel jq (owner_loc s en) (owner_loc s de) s)"

lemma over_sel [simp]:
  "q_head (e_over l jq) = q_head jq" "q_tail (e_over l jq) = q_tail jq" "q_buf_size (e_over l jq) = q_buf_size jq"
  "q_head (d_over l jq) = q_head jq" "q_tail (d_over l jq) = q_tail jq" "q_buf_size (d_over l jq) = q_buf_size jq"
  "length (q_jobs (e_over l jq)) = length (q_jobs jq)" "length (q_jobs (d_over l jq)) = length (q_jobs jq)"
  by (cases l; simp)+

lemma e_over_idle: "\<not> is_E l \<Longrightarrow> e_over l jq = jq" and d_over_idle: "\<not> is_D l \<Longrightarrow> d_over l jq = jq"
  and e_ok_idle: "\<not> is_E l \<Longrightarrow> e_ok l jq" and d_ok_idle: "\<not> is_D l \<Longrightarrow> d_ok l jq"
  by (cases l; simp)+

lemma bq_move_sel [simp]:
  "bq_queue (bq_move p l s) = bq_queue s" "bq_in (bq_move p l s) = bq_in s" "bq_out (bq_move p l s) = bq_out s"
  "bq_loc (bq_move p l s) = (bq_loc s)(p := l)"
  by (simp_all add: bq_move_def)

lemma bq_rel_move [simp]: "bq_rel jq le ld (bq_move p l s) = bq_rel jq le ld s"
  by (simp add: bq_rel_def)

lemma bq_inv_init: "bq_inv bq_init"
  using jq_inv_empty
  by (auto simp: bq_inv_def owners_def bq_rel_def bq_init_def intro!: exI [of _ jq_empty] exI [of _ None])

text \<open>The slots of the two kinds of call differ while there is a job.\<close>

lemma head_tail_slots: "jq_inv jq \<Longrightarrow> jq_contents jq \<noteq> [] \<Longrightarrow> nat (q_head jq) \<noteq> nat (q_tail jq)"
  using jq_empty_iff [of jq] jq_inv_ranges [of jq] by auto

lemma e_over_head:
  "jq_inv jq \<Longrightarrow> jq_contents jq \<noteq> [] \<Longrightarrow> q_jobs (e_over l jq) ! nat (q_head jq) = q_jobs jq ! nat (q_head jq)"
  using head_tail_slots [of jq] by (cases l) simp_all

lemma d_over_tail_swap:
  assumes "jq_inv jq" "d_ok ld jq"
  shows "(d_over ld jq)\<lparr>q_jobs := (q_jobs (d_over ld jq))[nat (q_tail jq) := x]\<rparr> =
    d_over ld (jq\<lparr>q_jobs := (q_jobs jq)[nat (q_tail jq) := x]\<rparr>)"
  using assms head_tail_slots [of jq] by (cases ld) (simp_all add: list_update_swap)

lemma e_over_head_swap:
  assumes "jq_inv jq" "jq_contents jq \<noteq> []"
  shows "(e_over le jq)\<lparr>q_jobs := (q_jobs (e_over le jq))[nat (q_head jq) := x], q_head := h\<rparr> =
    e_over le (jq\<lparr>q_jobs := (q_jobs jq)[nat (q_head jq) := x], q_head := h\<rparr>)"
  using assms head_tail_slots [of jq] by (cases le) (simp_all add: list_update_swap)

lemma slot_over:
  assumes "jq_inv jq" "0 \<le> i" "i < int QUEUE_SIZE"
  shows "slot_set (d_over ld (e_over le jq)) i j =
      Some ((d_over ld (e_over le jq))\<lparr>q_jobs := (q_jobs (d_over ld (e_over le jq)))[nat i := j]\<rparr>)"
    and "slot_get (d_over ld (e_over le jq)) i = Some (q_jobs (d_over ld (e_over le jq)) ! nat i)"
  using assms jq_inv_ranges(6) [OF assms(1)] by (simp_all add: slot_set_def slot_get_def in_array_def)

lemma next_over:
  assumes "jq_inv jq" "0 \<le> i" "i < int QUEUE_SIZE"
  shows "next_index (d_over ld (e_over le jq)) i = Some ((i + 1) mod int QUEUE_SIZE)"
  using assms next_index_ok [of "d_over ld (e_over le jq)" i] jq_inv_ranges [OF assms(1)] by simp

text \<open>Every slot holds a job whose label ends, also while a call is in progress.\<close>

lemma slot_terminated:
  assumes "jq_inv jq" "i < QUEUE_SIZE"
  shows "NUL \<in> set (j_label (q_jobs jq ! i))"
proof -
  have "q_jobs jq ! i \<in> set (jq_ring jq)" using assms jq_inv_ranges(6) [OF assms(1)] by (simp add: jq_ring_def)
  then consider "q_jobs jq ! i \<in> set (jq_contents jq)" | "q_jobs jq ! i = job_zero"
    using jq_ring_split [OF assms(1)] by auto
  then show ?thesis by cases (use jq_contents_ok [OF assms(1)] job_ok_has_NUL job_zero_NUL in auto)
qed

lemma terminated_over:
  assumes "jq_inv jq" "i < QUEUE_SIZE"
  shows "NUL \<in> set (j_label (q_jobs (d_over ld (e_over le jq)) ! i))"
proof -
  have "NUL \<in> set (j_label (copied x))" for x by (rule job_ok_has_NUL [OF job_ok_copied])
  then have "NUL \<in> set (j_label (q_jobs (e_over le jq) ! i))"
    using slot_terminated [OF assms] jq_inv_ranges [OF assms(1)] assms(2)
    by (cases le) (auto simp: nth_list_update nat_less_iff)
  then show ?thesis
    using job_zero_NUL jq_inv_ranges [OF assms(1)] assms(2) by (cases ld) (auto simp: nth_list_update nat_less_iff)
qed

lemma observe_over:
  assumes "jq_inv jq"
  shows "\<exists>r. observe k (d_over ld (e_over le jq)) = Some r"
proof -
  note r = jq_inv_ranges [OF assms]
  have lab: "copy_of (q_jobs (d_over ld (e_over le jq)) ! nat i) = Some (copied (q_jobs (d_over ld (e_over le jq)) ! nat i))" if "0 \<le> i" "i < int QUEUE_SIZE" for i
    using terminated_over [OF assms, of "nat i" ld le] that by (simp add: copy_of_def nat_less_iff)
  have "\<exists>i. (if q_tail jq < 1 then as_int (q_buf_size jq - 1) else as_int (q_tail jq - 1)) = Some i \<and>
      0 \<le> i \<and> i < int QUEUE_SIZE"
    using r by (auto simp: as_int_Some INT_MIN_def INT_MAX_def QUEUE_SIZE_def)
  then show ?thesis
    using r slot_over(2) [OF assms, of _ ld le] next_over [OF assms r(3,4), of ld le] lab [OF r(1,2)] lab
    by (cases k) (auto simp: observe_def split: if_splits)
qed

section \<open>Every statement keeps the contents\<close>

lemma bq_go_E:
  assumes rel: "bq_rel jq l ld s" and l: "bq_loc s p = l" "is_E l"
  shows "\<exists>t jq' v. bq_go p s = Some t \<and> bq_loc t = (bq_loc s)(p := v) \<and> (is_E v \<or> outside v) \<and> bq_rel jq' v ld t"
proof -
  have inv: "jq_inv jq" and log: "bq_in s = map snd (bq_out s) @ jq_contents jq"
    and ok: "e_ok l jq" "d_ok ld jq" and q: "bq_queue s = d_over ld (e_over l jq)"
    using rel by (simp_all add: bq_rel_def)
  note r = jq_inv_ranges [OF inv]
  note next_t = next_over [OF inv r(3,4), of ld l]
  show ?thesis
  proof (cases l)
    case (E_test j)
    show ?thesis
    proof (cases j)
      case None
      then show ?thesis using E_test l rel
        by (intro exI [of _ "bq_move p (B_out R_void) s"] exI [of _ jq] exI [of _ "B_out R_void"])
          (simp add: bq_go_def outside_def bq_rel_def)
    next
      case (Some x)
      let ?v = "if q_head jq = (q_tail jq + 1) mod int QUEUE_SIZE then B_out R_void else E_copy x"
      have "bq_go p s = Some (bq_move p ?v s)"
        using E_test Some l q next_t by (simp add: bq_go_def)
      moreover have "bq_rel jq ?v ld s"
        using rel E_test Some jq_full_iff [OF inv] jq_count_less [of jq] length_jq_contents [OF inv] by (auto simp: bq_rel_def)
      ultimately show ?thesis
        by (intro exI [of _ "bq_move p ?v s"] exI [of _ jq] exI [of _ ?v]) (simp add: outside_def)
    qed
  next
    case (E_copy x)
    let ?jq = "d_over ld (e_over (E_tail x) jq)"
    have "copy_of x = Some (copied x)" using ok(1) E_copy by (simp add: copy_of_def)
    then have "bq_go p s = Some (bq_move p (E_tail x) (s\<lparr>bq_queue := ?jq\<rparr>))"
      using E_copy l q slot_over(1) [OF inv r(3,4), of ld l] d_over_tail_swap [OF inv ok(2)] by (simp add: bq_go_def)
    then show ?thesis using rel E_copy
      by (intro exI [of _ "bq_move p (E_tail x) (s\<lparr>bq_queue := ?jq\<rparr>)"] exI [of _ jq] exI [of _ "E_tail x"])
        (simp add: bq_rel_def bq_move_def)
  next
    case (E_tail x)
    have room: "length (jq_contents jq) < QUEUE_SIZE - 1" using ok(1) E_tail by simp
    note enq = jq_enq_val [OF inv room, of x]
    let ?t = "bq_move p (B_out R_void) (s\<lparr>bq_queue := d_over ld (enq_val jq x), bq_in := bq_in s @ [copied x]\<rparr>)"
    have "(d_over ld (e_over l jq))\<lparr>q_tail := (q_tail jq + 1) mod int QUEUE_SIZE\<rparr> = d_over ld (enq_val jq x)"
      using E_tail by (cases ld) (simp_all add: enq_val_def)
    then have "bq_go p s = Some ?t" using E_tail l q next_t by (simp add: bq_go_def)
    moreover have "d_ok ld (enq_val jq x)" using ok(2) enq by (cases ld) auto
    then have "bq_rel (enq_val jq x) (B_out R_void) ld ?t"
      using enq log by (simp add: bq_rel_def bq_move_def)
    ultimately show ?thesis
      by (intro exI [of _ ?t] exI [of _ "enq_val jq x"] exI [of _ "B_out R_void"]) (simp add: outside_def)
  qed (use l in simp_all)
qed

lemma bq_go_D:
  assumes rel: "bq_rel jq le l s" and l: "bq_loc s p = l" "is_D l"
  shows "\<exists>t jq' v. bq_go p s = Some t \<and> bq_loc t = (bq_loc s)(p := v) \<and> (is_D v \<or> outside v) \<and> bq_rel jq' le v t"
proof -
  have inv: "jq_inv jq" and log: "bq_in s = map snd (bq_out s) @ jq_contents jq"
    and ok: "e_ok le jq" "d_ok l jq" and q: "bq_queue s = d_over l (e_over le jq)"
    using rel by (simp_all add: bq_rel_def)
  note r = jq_inv_ranges [OF inv]
  show ?thesis
  proof (cases l)
    case (D_test d)
    let ?v = "if q_head jq = q_tail jq then B_out (R_job None) else D_peek d"
    have "bq_go p s = Some (bq_move p ?v s)" using D_test l q by (simp add: bq_go_def)
    moreover have "bq_rel jq le ?v s" using rel D_test jq_empty_iff [OF inv] by (simp add: bq_rel_def)
    ultimately show ?thesis
      by (intro exI [of _ "bq_move p ?v s"] exI [of _ jq] exI [of _ ?v]) (simp add: outside_def)
  next
    case (D_peek d)
    have "bq_go p s = Some (bq_move p (D_copy d) s)"
      using D_peek l q ok jq_empty_iff [OF inv] by (simp add: bq_go_def)
    then show ?thesis using rel D_peek
      by (intro exI [of _ "bq_move p (D_copy d) s"] exI [of _ jq] exI [of _ "D_copy d"]) (simp add: bq_rel_def)
  next
    case (D_copy d)
    let ?v = "D_init (Some (hd (jq_contents jq))) True"
    have ne: "jq_contents jq \<noteq> []" using ok(2) D_copy by simp
    have "bq_go p s = Some (bq_move p ?v s)"
      using D_copy l q slot_over(2) [OF inv r(1,2), of l le] e_over_head [OF inv ne] jq_head_job [OF inv ne]
        jq_contents_copy_of [OF inv] ne by (simp add: bq_go_def)
    then show ?thesis using rel D_copy
      by (intro exI [of _ "bq_move p ?v s"] exI [of _ jq] exI [of _ ?v]) (simp add: bq_rel_def)
  next
    case (D_init x f)
    let ?v = "D_head x f"
    let ?jq = "d_over ?v (e_over le jq)"
    have "bq_go p s = Some (bq_move p ?v (s\<lparr>bq_queue := ?jq\<rparr>))"
      using D_init l q slot_over(1) [OF inv r(1,2), of l le] by (simp add: bq_go_def Let_def)
    then show ?thesis using rel D_init
      by (intro exI [of _ "bq_move p ?v (s\<lparr>bq_queue := ?jq\<rparr>)"] exI [of _ jq] exI [of _ ?v])
        (simp add: bq_rel_def bq_move_def)
  next
    case (D_head x f)
    have ne: "jq_contents jq \<noteq> []" and x: "x = Some (hd (jq_contents jq))" using ok(2) D_head by simp_all
    note deq = jq_deq_val [OF inv ne]
    let ?v = "B_out (R_job (if f then x else None))"
    let ?t = "bq_move p ?v (s\<lparr>bq_queue := e_over le (deq_val jq), bq_out := bq_out s @ [(p, hd (jq_contents jq))]\<rparr>)"
    have "(d_over l (e_over le jq))\<lparr>q_head := (q_head jq + 1) mod int QUEUE_SIZE\<rparr> = e_over le (deq_val jq)"
      using D_head e_over_head_swap [OF inv ne] by (simp add: deq_val_def)
    then have "bq_go p s = Some ?t"
      using D_head l q x next_over [OF inv r(1,2), of l le] by (simp add: bq_go_def)
    moreover have "e_ok le (deq_val jq)" using ok(1) deq by (cases le) auto
    then have "bq_rel (deq_val jq) le ?v ?t"
      using deq log ne by (simp add: bq_rel_def bq_move_def)
    ultimately show ?thesis
      by (intro exI [of _ ?t] exI [of _ "deq_val jq"] exI [of _ ?v]) (simp add: outside_def)
  qed (use l in simp_all)
qed

lemma bq_rel_idle_E: "\<not> is_E v \<Longrightarrow> bq_rel jq v ld s \<Longrightarrow> bq_rel jq (B_out R_void) ld s"
  and bq_rel_idle_D: "\<not> is_D v \<Longrightarrow> bq_rel jq le v s \<Longrightarrow> bq_rel jq le (B_out R_void) s"
  by (simp_all add: bq_rel_def e_over_idle d_over_idle)

lemma outside_kind: "outside v \<Longrightarrow> \<not> is_E v \<and> \<not> is_D v" "is_E v \<Longrightarrow> \<not> is_D v"
  by (cases v; simp add: outside_def)+

lemma owner_loc_other: "bq_loc t = (bq_loc s)(p := v) \<Longrightarrow> w \<noteq> Some p \<Longrightarrow> owner_loc t w = owner_loc s w"
  by (cases w) simp_all

text \<open>A process in no call, or in an observer, owns neither kind of call.\<close>

definition bq_kept :: "'p \<Rightarrow> 'p bq_sys \<Rightarrow> 'p bq_sys \<Rightarrow> bool" where
  "bq_kept p s t \<longleftrightarrow> (\<exists>v. bq_loc t = (bq_loc s)(p := v) \<and>
     (is_E v \<longrightarrow> is_E (bq_loc s p)) \<and> (is_D v \<longrightarrow> is_D (bq_loc s p)))"

lemma bq_moved_D:
  assumes own: "owners s en de" and D: "is_D (bq_loc s p)" and t: "bq_loc t = (bq_loc s)(p := v)" "is_D v \<or> outside v"
    and rel: "bq_rel jq (owner_loc s en) v t"
  shows "bq_inv t \<and> bq_kept p s t"
proof -
  have de: "de = Some p" and en: "en \<noteq> Some p" using own D outside_kind(2) by (auto simp: owners_def)
  let ?de = "if is_D v then Some p else None"
  have "owners t en ?de" using own t en de outside_kind [of v] by (auto simp: owners_def)
  moreover have "bq_rel jq (owner_loc t en) (owner_loc t ?de) t"
    using rel bq_rel_idle_D t(1) owner_loc_other [OF t(1) en] by auto
  ultimately have "bq_inv t" unfolding bq_inv_def by blast
  then show ?thesis using t D outside_kind [of v] by (auto simp: bq_kept_def)
qed

lemma bq_moved_O:
  assumes inv: "bq_inv s" and O: "bq_loc s p = O_read k"
  shows "bq_inv (bq_move p (B_out r) s) \<and> bq_kept p s (bq_move p (B_out r) s) \<and> (\<exists>r. observe k (bq_queue s) = Some r)"
proof -
  obtain jq en de where own: "owners s en de" and rel: "bq_rel jq (owner_loc s en) (owner_loc s de) s"
    using inv by (auto simp: bq_inv_def)
  have q: "jq_inv jq" "bq_queue s = d_over (owner_loc s de) (e_over (owner_loc s en) jq)"
    using rel by (simp_all add: bq_rel_def)
  let ?t = "bq_move p (B_out r) s"
  have "\<not> is_E (bq_loc s p)" "\<not> is_D (bq_loc s p)" using O by simp_all
  then have no: "en \<noteq> Some p" "de \<noteq> Some p" using own unfolding owners_def by blast+
  then have "owners ?t en de" using own by (auto simp: owners_def)
  then have "bq_inv ?t" unfolding bq_inv_def
    using rel owner_loc_other [of ?t s p "B_out r"] no by (intro exI [of _ jq] exI [of _ en] exI [of _ de]) simp
  then show ?thesis using observe_over [OF q(1)] unfolding q(2) by (auto simp: bq_kept_def)
qed

lemma bq_go_inv:
  assumes "bq_inv s"
  shows "\<exists>t. bq_go p s = Some t \<and> bq_inv t \<and> bq_kept p s t"
proof -
  obtain jq en de where own: "owners s en de" and rel: "bq_rel jq (owner_loc s en) (owner_loc s de) s"
    using assms by (auto simp: bq_inv_def)
  consider (E) "is_E (bq_loc s p)" | (D) "is_D (bq_loc s p)" | (O) k where "bq_loc s p = O_read k"
    | (out) r where "bq_loc s p = B_out r"
    by (cases "bq_loc s p") auto
  then show ?thesis
  proof cases
    case E
    then have en: "en = Some p" and de: "de \<noteq> Some p"
      using own outside_kind by (auto simp: owners_def)
    from bq_go_E [OF rel _ , of p] E en obtain t jq' v where t: "bq_go p s = Some t" "bq_loc t = (bq_loc s)(p := v)"
      "is_E v \<or> outside v" and rel': "bq_rel jq' v (owner_loc s de) t" by auto
    let ?en = "if is_E v then Some p else None"
    have "owners t ?en de" using own t en de outside_kind [of v] by (auto simp: owners_def)
    moreover have "bq_rel jq' (owner_loc t ?en) (owner_loc t de) t"
      using rel' bq_rel_idle_E t(2) owner_loc_other [OF t(2) de] by auto
    ultimately have "bq_inv t" unfolding bq_inv_def by blast
    then show ?thesis using t E outside_kind [of v] by (auto simp: bq_kept_def)
  next
    case D
    then have de: "de = Some p" using own by (auto simp: owners_def)
    from bq_go_D [OF rel _ , of p] D de obtain t jq' v where t: "bq_go p s = Some t" "bq_loc t = (bq_loc s)(p := v)"
      "is_D v \<or> outside v" "bq_rel jq' (owner_loc s en) v t" by auto
    then show ?thesis using bq_moved_D [OF own D t(2,3,4)] by blast
  next
    case (O k)
    obtain r where r: "observe k (bq_queue s) = Some r" using bq_moved_O [OF assms O] by blast
    have "bq_go p s = Some (bq_move p (B_out r) s)" using O r by (simp add: bq_go_def)
    then show ?thesis using bq_moved_O [OF assms O] by blast
  next
    case out
    then have "bq_go p s = Some s" by (simp add: bq_go_def)
    then show ?thesis using assms out by (auto simp: bq_kept_def intro!: exI [of _ "bq_loc s p"])
  qed
qed

lemma bq_fails_inv:
  assumes inv: "bq_inv s" and l: "bq_alloc (bq_loc s p)"
  shows "\<exists>t. bq_fails p s = Some t \<and> bq_inv t \<and> bq_kept p s t"
proof -
  consider (D) d where "bq_loc s p = D_copy d" | (O) k where "bq_loc s p = O_read k"
    using l by (auto simp: bq_alloc_def)
  then show ?thesis
  proof cases
    case (D d)
    obtain jq en de where own: "owners s en de" and rel: "bq_rel jq (owner_loc s en) (owner_loc s de) s"
      using inv by (auto simp: bq_inv_def)
    have "de = Some p" using own D by (auto simp: owners_def)
    then have rel: "bq_rel jq (owner_loc s en) (D_copy d) s" using rel D by simp
    then have jq: "jq_inv jq" "bq_queue s = e_over (owner_loc s en) jq" and ne: "jq_contents jq \<noteq> []"
      by (simp_all add: bq_rel_def)
    note r = jq_inv_ranges [OF jq(1)]
    let ?v = "D_init (Some (hd (jq_contents jq))) False"
    have "bq_fails p s = Some (bq_move p ?v s)"
      using D jq(2) slot_over(2) [OF jq(1) r(1,2), of "B_out R_void" "owner_loc s en"] e_over_head [OF jq(1) ne]
        jq_head_job [OF jq(1) ne] jq_contents_copied [OF jq(1)] ne by (simp add: bq_fails_def)
    moreover have "bq_inv (bq_move p ?v s) \<and> bq_kept p s (bq_move p ?v s)"
      by (rule bq_moved_D [OF own, of _ _ ?v jq]) (use D rel ne in \<open>simp_all add: bq_rel_def\<close>)
    ultimately show ?thesis by blast
  next
    case (O k)
    obtain r where r: "observe k (bq_queue s) = Some r" using bq_moved_O [OF inv O] by blast
    have "bq_fails p s = Some (bq_move p (B_out (observe_fail k)) s)" using O r by (simp add: bq_fails_def)
    then show ?thesis using bq_moved_O [OF inv O] by blast
  qed
qed

text \<open>A new call, when no other process is in one of its kind.\<close>

lemma bq_call_inv:
  assumes inv: "bq_inv s" and out: "outside (bq_loc s p)" and pass: "callable c"
    and E: "is_E (bq_start c) \<Longrightarrow> \<forall>q. \<not> is_E (bq_loc s q)"
    and D: "is_D (bq_start c) \<Longrightarrow> \<forall>q. \<not> is_D (bq_loc s q)"
  shows "bq_inv (bq_move p (bq_start c) s)"
proof -
  let ?v = "bq_start c" let ?t = "bq_move p ?v s"
  obtain jq en de where own: "owners s en de" and rel: "bq_rel jq (owner_loc s en) (owner_loc s de) s"
    using inv by (auto simp: bq_inv_def)
  have no: "en \<noteq> Some p" "de \<noteq> Some p" using own outside_kind(1) [OF out] by (auto simp: owners_def)
  have en: "is_E ?v \<Longrightarrow> en = None" using E own by (cases en) (auto simp: owners_def)
  have de: "is_D ?v \<Longrightarrow> de = None" using D own by (cases de) (auto simp: owners_def)
  have start: "e_over ?v jq' = jq'" "e_ok ?v jq'" "d_over ?v jq' = jq'" "d_ok ?v jq'" for jq'
    using pass by (cases c; simp add: bq_start_def)+
  let ?en = "if is_E ?v then Some p else en" let ?de = "if is_D ?v then Some p else de"
  have "owners ?t ?en ?de"
    using own no en de outside_kind(2) [of ?v] by (auto simp: owners_def)
  moreover have "bq_rel jq (owner_loc ?t ?en) (owner_loc ?t ?de) s"
    using rel en de start owner_loc_other [of ?t s p ?v] no by (auto simp: bq_rel_def)
  ultimately show ?thesis unfolding bq_inv_def by (metis bq_rel_move)
qed

lemma bq_kept_kind:
  assumes "bq_kept p s t"
  shows "is_E (bq_loc t q) \<Longrightarrow> is_E (bq_loc s q)" "is_D (bq_loc t q) \<Longrightarrow> is_D (bq_loc s q)"
  using assms by (cases "q = p"; auto simp: bq_kept_def)+

text \<open>The jobs put are the jobs taken followed by those on the queue.\<close>

definition in_order :: "'p bq_sys \<Rightarrow> bool" where
  "in_order s \<longleftrightarrow> take (length (bq_out s)) (bq_in s) = map snd (bq_out s) \<and>
     length (bq_out s) \<le> length (bq_in s) \<and> length (bq_in s) < length (bq_out s) + QUEUE_SIZE"

lemma bq_inv_in_order:
  assumes "bq_inv s"
  shows "in_order s"
proof -
  obtain jq where "jq_inv jq" "bq_in s = map snd (bq_out s) @ jq_contents jq"
    using assms by (auto simp: bq_inv_def bq_rel_def)
  then show ?thesis using jq_count_less [of jq] length_jq_contents [of jq] by (simp add: in_order_def)
qed

text \<open>What a system shows that keeps the invariant.\<close>

lemma bq_runs:
  assumes sys: "invariant_system stp may J" and start: "J w" and J: "\<And>w. J w \<Longrightarrow> bq_inv (snd w)"
  shows "(\<exists>u. sched_run stp may w es = Some u) \<and> (\<forall>u \<in> set (sched_trace stp may w es). in_order (snd u))"
  using invariant_system.run_inv [OF sys start] invariant_system.trace_inv [OF sys start]
    bq_inv_in_order [OF J] by blast

section \<open>The queue in a critical region\<close>

definition guarded :: "('m \<Rightarrow> bool) \<Rightarrow> ('m \<Rightarrow> 'p \<Rightarrow> bool) \<Rightarrow> 'm \<times> 'p bq_sys \<Rightarrow> bool" where
  "guarded minv crit w \<longleftrightarrow> minv (fst w) \<and> bq_inv (snd w) \<and>
     (\<forall>p. \<not> outside (bq_loc (snd w) p) \<longrightarrow> crit (fst w) p)"

lemma is_kind_inside: "is_E l \<Longrightarrow> \<not> outside l" "is_D l \<Longrightarrow> \<not> outside l"
  using outside_kind(1) by blast+

lemma bq_kept_outside:
  assumes "bq_kept p s t" "\<not> outside (bq_loc t q)" "\<not> outside (bq_loc s p)"
  shows "\<not> outside (bq_loc s q)"
  using assms by (cases "q = p") (auto simp: bq_kept_def)

context mutex_system
begin

lemma guarded_step:
  assumes "guarded inv crit w" "bw_may may crit w e"
  shows "\<exists>u. bw_step step e w = Some u \<and> guarded inv crit u"
proof -
  obtain m s p ev where w: "w = (m, s)" "e = (p, ev)" by (cases w; cases e)
  have m: "inv m" and s: "bq_inv s" and crit: "\<And>q. \<not> outside (bq_loc s q) \<Longrightarrow> crit m q"
    using assms(1) by (auto simp: guarded_def w)
  show ?thesis
  proof (cases ev)
    case B_mutex
    then have may: "may m p" "outside (bq_loc s p)" using assms(2) by (simp_all add: w)
    obtain m' where m': "step p m = Some m'" "inv m'" using step_inv [OF m may(1)] by blast
    have "crit m' q" if "\<not> outside (bq_loc s q)" for q
      using crit_kept [OF m may(1) m'(1) _ crit [OF that]] that may(2) by (cases "q = p") auto
    then show ?thesis using B_mutex m' s by (simp add: w guarded_def)
  next
    case (B_call c)
    then have c: "crit m p" "outside (bq_loc s p)" "callable c" using assms(2) by (simp_all add: w)
    have none: "outside (bq_loc s q)" for q using crit inv_excl [OF m c(1), of q] c(2) by blast
    have "bq_inv (bq_move p (bq_start c) s)"
      using none is_kind_inside by (intro bq_call_inv [OF s c(2,3)]) blast+
    then show ?thesis using B_call m c none by (simp add: w guarded_def)
  next
    case B_go
    then have p: "\<not> outside (bq_loc s p)" using assms(2) by (simp add: w)
    obtain t where t: "bq_go p s = Some t" "bq_inv t" "bq_kept p s t" using bq_go_inv [OF s] by blast
    then show ?thesis using B_go m crit bq_kept_outside [OF t(3) _ p] by (auto simp: w guarded_def)
  next
    case B_fail
    then have l: "bq_alloc (bq_loc s p)" using assms(2) by (simp add: w)
    then have p: "\<not> outside (bq_loc s p)" by (auto simp: bq_alloc_def outside_def)
    obtain t where t: "bq_fails p s = Some t" "bq_inv t" "bq_kept p s t" using bq_fails_inv [OF s l] by blast
    then show ?thesis using B_fail m crit bq_kept_outside [OF t(3) _ p] by (auto simp: w guarded_def)
  qed
qed

sublocale bw: invariant_system "bw_step step" "bw_may may crit" "guarded inv crit"
  by unfold_locales (rule guarded_step)

lemma bw_fifo:
  assumes "inv m"
  shows "(\<exists>u. sched_run (bw_step step) (bw_may may crit) (m, bq_init) es = Some u) \<and>
    (\<forall>u \<in> set (sched_trace (bw_step step) (bw_may may crit) (m, bq_init) es). in_order (snd u))"
proof (rule bq_runs [OF bw.invariant_system_axioms])
  show "guarded inv crit (m, bq_init)"
    using assms bq_inv_init by (simp add: guarded_def) (simp add: bq_init_def outside_def)
qed (simp add: guarded_def)

end

section \<open>One producer and one consumer\<close>

text \<open>Runs in which only \<open>pp\<close> enqueues and only \<open>pc\<close> dequeues.\<close>

definition roles ::
  "'p \<Rightarrow> 'p \<Rightarrow> ('w \<Rightarrow> 'p \<times> bw_event \<Rightarrow> bool) \<Rightarrow> 'w \<Rightarrow> 'p \<times> bw_event \<Rightarrow> bool" where
  "roles pp pc may w e \<longleftrightarrow> may w e \<and> (case e of
     (p, B_call (B_enqueue _)) \<Rightarrow> p = pp
   | (p, B_call (B_dequeue _)) \<Rightarrow> p = pc
   | _ \<Rightarrow> True)"

definition role_inv :: "('m \<Rightarrow> bool) \<Rightarrow> 'p \<Rightarrow> 'p \<Rightarrow> 'm \<times> 'p bq_sys \<Rightarrow> bool" where
  "role_inv minv pp pc w \<longleftrightarrow> minv (fst w) \<and> bq_inv (snd w) \<and>
     (\<forall>p. is_E (bq_loc (snd w) p) \<longrightarrow> p = pp) \<and> (\<forall>p. is_D (bq_loc (snd w) p) \<longrightarrow> p = pc)"

lemma role_inv_init: "minv m \<Longrightarrow> role_inv minv pp pc (m, bq_init)"
  using bq_inv_init by (simp add: role_inv_def) (simp add: bq_init_def)

context invariant_system
begin

lemma role_step:
  assumes "role_inv inv pp pc w" "roles pp pc (bw_may may crit) w e"
  shows "\<exists>u. bw_step step e w = Some u \<and> role_inv inv pp pc u"
proof -
  obtain m s p ev where w: "w = (m, s)" "e = (p, ev)" by (cases w; cases e)
  have m: "inv m" and s: "bq_inv s" and E: "\<And>q. is_E (bq_loc s q) \<Longrightarrow> q = pp"
    and D: "\<And>q. is_D (bq_loc s q) \<Longrightarrow> q = pc"
    using assms(1) by (auto simp: role_inv_def w)
  have may: "bw_may may crit (m, s) (p, ev)" using assms(2) by (simp add: roles_def w)
  show ?thesis
  proof (cases ev)
    case B_mutex
    then obtain m' where "step p m = Some m'" "inv m'" using step_inv [OF m] may by auto
    then show ?thesis using B_mutex s E D by (auto simp: w role_inv_def)
  next
    case (B_call c)
    then have out: "outside (bq_loc s p)" "callable c" using may by simp_all
    have c: "is_E (bq_start c) \<Longrightarrow> p = pp" "is_D (bq_start c) \<Longrightarrow> p = pc"
      using assms(2) B_call by (cases c; simp add: roles_def w bq_start_def)+
    have "bq_inv (bq_move p (bq_start c) s)"
      using c E D outside_kind(1) [OF out(1)] by (intro bq_call_inv [OF s out]) blast+
    then show ?thesis using B_call m c E D by (auto simp: w role_inv_def)
  next
    case B_go
    obtain t where t: "bq_go p s = Some t" "bq_inv t" "bq_kept p s t" using bq_go_inv [OF s] by blast
    then show ?thesis using B_go m E D bq_kept_kind [OF t(3)] by (auto simp: w role_inv_def)
  next
    case B_fail
    then have "bq_alloc (bq_loc s p)" using may by simp
    then obtain t where t: "bq_fails p s = Some t" "bq_inv t" "bq_kept p s t" using bq_fails_inv [OF s] by blast
    then show ?thesis using B_fail m E D bq_kept_kind [OF t(3)] by (auto simp: w role_inv_def)
  qed
qed

lemma role_fifo:
  assumes "inv m"
  shows "(\<exists>u. sched_run (bw_step step) (roles pp pc (bw_may may crit)) (m, bq_init) es = Some u) \<and>
    (\<forall>u \<in> set (sched_trace (bw_step step) (roles pp pc (bw_may may crit)) (m, bq_init) es). in_order (snd u))"
proof (rule bq_runs)
  show "invariant_system (bw_step step) (roles pp pc (bw_may may crit)) (role_inv inv pp pc)"
    by unfold_locales (rule role_step)
  show "role_inv inv pp pc (m, bq_init)" by (rule role_inv_init) (rule assms)
qed (simp add: role_inv_def)

end

section \<open>Two processes inside at once\<close>

text \<open>
  Two processes \<open>p\<close> and \<open>q\<close> inside together, each enqueueing: both pass the test and
  copy to the same slot, then both advance \<^verbatim>\<open>tail\<close>. Then \<open>p\<close> dequeues twice.
\<close>

definition lose_schedule :: "'p \<Rightarrow> 'p \<Rightarrow> job_t \<Rightarrow> job_t \<Rightarrow> job_t \<Rightarrow> ('p \<times> bw_event) list" where
  "lose_schedule p q x y d =
     [(p, B_call (B_enqueue (Some x))), (q, B_call (B_enqueue (Some y))),
      (p, B_go), (q, B_go), (p, B_go), (q, B_go), (p, B_go), (q, B_go),
      (p, B_call (B_dequeue (Ptr d))), (p, B_go), (p, B_go), (p, B_go), (p, B_go), (p, B_go),
      (p, B_call (B_dequeue (Ptr d))), (p, B_go), (p, B_go), (p, B_go), (p, B_go), (p, B_go)]"

lemma copied_NUL: "NUL \<in> set (j_label (copied x))"
  by (rule job_ok_has_NUL [OF job_ok_copied])

lemma lose_next:
  "q_buf_size jq = int QUEUE_SIZE \<Longrightarrow> next_index jq 0 = Some 1"
  "q_buf_size jq = int QUEUE_SIZE \<Longrightarrow> next_index jq 1 = Some 2"
  using next_index_ok [of jq 0] next_index_ok [of jq 1] by (simp_all add: QUEUE_SIZE_def)

lemma lose_slots:
  assumes "length (q_jobs jq) = QUEUE_SIZE"
  shows "slot_set jq 0 j = Some (jq\<lparr>q_jobs := (q_jobs jq)[0 := j]\<rparr>)" "slot_get jq 0 = Some (q_jobs jq ! 0)"
    "slot_set jq 1 j = Some (jq\<lparr>q_jobs := (q_jobs jq)[Suc 0 := j]\<rparr>)" "slot_get jq 1 = Some (q_jobs jq ! Suc 0)"
  using assms by (simp_all add: slot_set_def slot_get_def in_array_def QUEUE_SIZE_def)

lemma lose_run:
  assumes "p \<noteq> q" "crit m p" "crit m q" "NUL \<in> set (j_label x)" "NUL \<in> set (j_label y)"
  shows "\<exists>s. sched_run (bw_step stp) (bw_may may crit) (m, bq_init) (lose_schedule p q x y d) = Some (m, s) \<and>
    bq_in s = [copied x, copied y] \<and> bq_out s = [(p, copied (copied y)), (p, copied job_zero)]"
proof -
  have ne: "q \<noteq> p" using assms(1) by simp
  have len: "0 < QUEUE_SIZE" "1 < QUEUE_SIZE" by (simp_all add: QUEUE_SIZE_def)
  have lab: "NUL \<in> set (j_label (copied y))" "NUL \<in> set (j_label job_zero)"
    by (rule job_ok_has_NUL [OF job_ok_copied], rule job_zero_NUL)
  show ?thesis
    using assms ne len lab
    by (simp add: lose_schedule_def copy_of_def bq_init_def jq_empty_def bq_start_def outside_def bq_go_def bq_move_def
        lose_next lose_slots)
qed

lemma mutex_run:
  "sched_run (bw_step stp) (bw_may may crit) (m, bq_init) (map (\<lambda>p. (p, B_mutex)) ps) =
     map_option (\<lambda>m'. (m', bq_init)) (sched_run stp may m ps)"
proof (induction ps arbitrary: m)
  case Nil
  then show ?case by simp
next
  case (Cons p ps)
  then show ?case by (cases "stp p m") (simp_all add: bq_init_def outside_def)
qed

lemma both_inside_lose:
  assumes "sched_run stp may m ps = Some m'" "p \<noteq> q" "crit m' p" "crit m' q"
    and "NUL \<in> set (j_label x)" "NUL \<in> set (j_label y)"
  shows "\<exists>s. sched_run (bw_step stp) (bw_may may crit) (m, bq_init)
      (map (\<lambda>p. (p, B_mutex)) ps @ lose_schedule p q x y d) = Some (m', s) \<and>
    bq_in s = [copied x, copied y] \<and> bq_out s = [(p, copied (copied y)), (p, copied job_zero)]"
  using lose_run [where p = p and q = q and crit = crit and m = m' and stp = stp and may = may and x = x and y = y and d = d] assms by (simp add: sched_run_append mutex_run)

section \<open>The three mutexes\<close>

definition pet_in :: "pet_sys \<Rightarrow> 32 word \<Rightarrow> bool" where
  "pet_in s p \<longleftrightarrow> ps_pc s p = Crit"

definition lock_in :: "lock_sys \<Rightarrow> nat \<Rightarrow> bool" where
  "lock_in s p \<longleftrightarrow> ls_pc s p = Holding"

definition noop_in :: "'m \<times> (nat \<Rightarrow> bool) \<Rightarrow> nat \<Rightarrow> bool" where
  "noop_in s p \<longleftrightarrow> snd s p"

abbreviation anyone :: "'s \<Rightarrow> 'p \<Rightarrow> bool" where
  "anyone s p \<equiv> True"

interpretation pet_mux: mutex_system "pet_step own_mutex" "unbroken e d" "pet_ok e d" pet_in for e d
proof (unfold_locales, goal_cases)
  case (1 s p q)
  then show ?case using pet.inv_excl [of e d s p q] by (simp add: pet_in_def)
next
  case (2 s q t p)
  then show ?case
    by (auto simp: pet_in_def pet_step_def bind_eq_Some_conv split: if_splits)
qed

interpretation lock_mux: mutex_system "lock_step shared_lock" test_and_set lock_inv lock_in
proof (unfold_locales, goal_cases)
  case (1 s p q)
  then show ?case using lock_tas.inv_excl [of s p q] by (simp add: lock_in_def)
next
  case (2 s q t p)
  then show ?case by (auto simp: lock_in_def lock_step_cases split: lock_pc.splits)
qed

interpretation noop_any: invariant_system "noop_step mux" anyone "\<lambda>_. True" for mux :: "unit ptr"
  by unfold_locales (simp add: noop_step_def split: prod.splits)

section \<open>Properties\<close>

text \<open>
  C7: under a mutex that excludes, the shared queue is safe: with Peterson's mutex
  when neither process is interrupted between its two stores, and with the lock
  variable, for any number of processes, when test and store are not separated,
  every run of enqueues, dequeues and observers in critical regions is defined,
  and at every moment the jobs put are, in order, the jobs taken followed by at
  most 127 on the queue. NULL jobs, NULL destinations and failing allocations are
  among the calls (a job taken for a new object that there is no memory for counts as
  taken); the label of a job that is enqueued ends.
\<close>

theorem bwait_fifo:
  assumes "pet_pids e d"
  shows "((\<exists>u. sched_run (bw_step (pet_step own_mutex)) (bw_may (unbroken e d) pet_in) (pet_init, bq_init) es = Some u) \<and>
      (\<forall>u \<in> set (sched_trace (bw_step (pet_step own_mutex)) (bw_may (unbroken e d) pet_in) (pet_init, bq_init) es).
         in_order (snd u))) \<and>
    ((\<exists>u. sched_run (bw_step (lock_step shared_lock)) (bw_may test_and_set lock_in) (lock_init, bq_init) es' = Some u) \<and>
      (\<forall>u \<in> set (sched_trace (bw_step (lock_step shared_lock)) (bw_may test_and_set lock_in) (lock_init, bq_init) es').
         in_order (snd u)))"
proof (rule conjI)
  have "pet_ok e d pet_init" using assms pet_inv_init by (simp add: pet_ok_def)
  then show "(\<exists>u. sched_run (bw_step (pet_step own_mutex)) (bw_may (unbroken e d) pet_in) (pet_init, bq_init) es = Some u) \<and>
      (\<forall>u \<in> set (sched_trace (bw_step (pet_step own_mutex)) (bw_may (unbroken e d) pet_in) (pet_init, bq_init) es).
         in_order (snd u))"
    by (rule pet_mux.bw_fifo)
next
  have "lock_inv lock_init" by (simp add: lock_inv_def lock_init_def)
  then show "(\<exists>u. sched_run (bw_step (lock_step shared_lock)) (bw_may test_and_set lock_in) (lock_init, bq_init) es' = Some u) \<and>
      (\<forall>u \<in> set (sched_trace (bw_step (lock_step shared_lock)) (bw_may test_and_set lock_in) (lock_init, bq_init) es').
         in_order (snd u))"
    by (rule lock_mux.bw_fifo)
qed

text \<open>One process makes the calls a schedule needs to get in, put a job and take it.\<close>

definition solo_schedule :: "'p \<Rightarrow> nat \<Rightarrow> job_t \<Rightarrow> ('p \<times> bw_event) list" where
  "solo_schedule p n x = replicate n (p, B_mutex) @
     [(p, B_call (B_enqueue (Some x))), (p, B_go), (p, B_go), (p, B_go),
      (p, B_call (B_dequeue (Ptr job_zero))), (p, B_go), (p, B_go), (p, B_go), (p, B_go), (p, B_go)]"

lemma bwait_fifo_witness:
  "\<exists>u. sched_run (bw_step (lock_step shared_lock)) (bw_may test_and_set lock_in) (lock_init, bq_init)
      (solo_schedule (7::nat) 2 job_zero) = Some u \<and> bq_out (snd u) = [(7, copied (copied job_zero))] \<and> in_order (snd u)"
proof -
  have pids: "pet_pids 100 101" by (simp add: pet_pids_def)
  have "\<exists>u. sched_run (bw_step (lock_step shared_lock)) (bw_may test_and_set lock_in) (lock_init, bq_init)
      (solo_schedule (7::nat) 2 job_zero) = Some u \<and> bq_out (snd u) = [(7, copied (copied job_zero))]"
    by (simp add: solo_schedule_def numeral_2_eq_2 lock_step_cases lock_init_def lock_in_def test_and_set_def
        bq_init_def jq_empty_def bq_start_def outside_def bq_go_def bq_move_def lose_next lose_slots copy_of_def
        job_zero_NUL copied_NUL)
      (simp add: QUEUE_SIZE_def copied_NUL)
  then obtain u where u: "sched_run (bw_step (lock_step shared_lock)) (bw_may test_and_set lock_in) (lock_init, bq_init)
      (solo_schedule (7::nat) 2 job_zero) = Some u" and o: "bq_out (snd u) = [(7, copied (copied job_zero))]"
    by (elim exE conjE)
  show ?thesis
    using bwait_fifo [OF pids, of "[]" "solo_schedule 7 2 job_zero"] sched_trace_last [OF u] u o by blast
qed

text \<open>
  C11: one producer and one consumer need no mutual exclusion. If only one process
  enqueues and only one dequeues, the queue keeps its order in every interleaving
  whatsoever: with \<^verbatim>\<open>mutex_peterson.c\<close> as written, with the lock variable and with
  the mutex that does nothing. Calls are as in C7, and the pids are an even and an odd one.
\<close>

theorem bwait_one_producer_one_consumer:
  assumes "pet_pids e d"
  shows "((\<exists>u. sched_run (bw_step (pet_step own_mutex)) (roles a b (bw_may (any_pid e d) pet_in)) (pet_init, bq_init) es = Some u) \<and>
      (\<forall>u \<in> set (sched_trace (bw_step (pet_step own_mutex)) (roles a b (bw_may (any_pid e d) pet_in)) (pet_init, bq_init) es).
         in_order (snd u))) \<and>
    ((\<exists>u. sched_run (bw_step (lock_step shared_lock)) (roles i j (bw_may anyone lock_in)) (lock_init, bq_init) es' = Some u) \<and>
      (\<forall>u \<in> set (sched_trace (bw_step (lock_step shared_lock)) (roles i j (bw_may anyone lock_in)) (lock_init, bq_init) es').
         in_order (snd u))) \<and>
    ((\<exists>u. sched_run (bw_step (noop_step mux)) (roles i j (bw_may anyone noop_in)) (m, bq_init) es' = Some u) \<and>
      (\<forall>u \<in> set (sched_trace (bw_step (noop_step mux)) (roles i j (bw_may anyone noop_in)) (m, bq_init) es').
         in_order (snd u)))"
  by (intro conjI pet_any.role_fifo [THEN conjunct1] pet_any.role_fifo [THEN conjunct2]
      lock_any.role_fifo [THEN conjunct1] lock_any.role_fifo [THEN conjunct2]
      noop_any.role_fifo [THEN conjunct1] noop_any.role_fifo [THEN conjunct2] pet_flags_init assms)
    (simp_all add: lock_held_def lock_init_def)

text \<open>A dequeue that runs through the middle of an enqueue, both processes inside.\<close>

definition overlap_schedule :: "'p \<Rightarrow> 'p \<Rightarrow> job_t \<Rightarrow> job_t \<Rightarrow> ('p \<times> bw_event) list" where
  "overlap_schedule p q x y =
     [(p, B_mutex), (q, B_mutex), (p, B_call (B_enqueue (Some x))), (p, B_go), (p, B_go), (p, B_go),
      (p, B_call (B_enqueue (Some y))), (q, B_call (B_dequeue (Ptr job_zero))), (p, B_go), (q, B_go), (p, B_go),
      (q, B_go), (q, B_go), (q, B_go), (q, B_go), (p, B_go)]"

lemma bwait_one_producer_one_consumer_witness:
  "\<exists>u. sched_run (bw_step (noop_step (Ptr ()))) (roles (0::nat) 1 (bw_may anyone noop_in)) ((0::nat, \<lambda>_. False), bq_init)
      (overlap_schedule 0 1 (job_zero\<lparr>j_id := 1\<rparr>) (job_zero\<lparr>j_id := 2\<rparr>)) = Some u \<and> noop_in (fst u) 0 \<and> noop_in (fst u) 1 \<and>
    map snd (bq_out (snd u)) = [copied (job_zero\<lparr>j_id := 1\<rparr>)] \<and> in_order (snd u)"
proof -
  have pids: "pet_pids 100 101" by (simp add: pet_pids_def)
  have "\<exists>u. sched_run (bw_step (noop_step (Ptr ()))) (roles (0::nat) 1 (bw_may anyone noop_in)) ((0::nat, \<lambda>_. False), bq_init)
      (overlap_schedule 0 1 x y) = Some u \<and> noop_in (fst u) 0 \<and> noop_in (fst u) 1 \<and>
    map snd (bq_out (snd u)) = [copied (copied x)]" if "NUL \<in> set (j_label x)" "NUL \<in> set (j_label y)" for x y
    using that
    by (simp add: overlap_schedule_def roles_def noop_step_def noop_enter_def noop_in_def
        bq_init_def jq_empty_def bq_start_def outside_def bq_go_def bq_move_def lose_next lose_slots copy_of_def
        job_zero_NUL copied_NUL)
      (simp add: QUEUE_SIZE_def copied_NUL)
  note run = this
  have "NUL \<in> set (j_label (job_zero\<lparr>j_id := 1\<rparr>))" "NUL \<in> set (j_label (job_zero\<lparr>j_id := 2\<rparr>))"
    using job_zero_NUL by simp_all
  from run [OF this] obtain u where u: "sched_run (bw_step (noop_step (Ptr ()))) (roles (0::nat) 1 (bw_may anyone noop_in))
      ((0::nat, \<lambda>_. False), bq_init) (overlap_schedule 0 1 (job_zero\<lparr>j_id := 1\<rparr>) (job_zero\<lparr>j_id := 2\<rparr>)) = Some u"
    and o: "noop_in (fst u) 0" "noop_in (fst u) 1"
      "map snd (bq_out (snd u)) = [copied (copied (job_zero\<lparr>j_id := 1\<rparr>))]"
    by (elim exE conjE)
  have "in_order (snd u)"
    using bwait_one_producer_one_consumer [OF pids, of 0 0 "[]" "0::nat" 1
        "overlap_schedule 0 1 (job_zero\<lparr>j_id := 1\<rparr>) (job_zero\<lparr>j_id := 2\<rparr>)" "Ptr ()" "(0::nat, \<lambda>_. False)"]
      sched_trace_last [OF u] by blast
  then show ?thesis using u o copied_ok [OF job_ok_copied, of "job_zero\<lparr>j_id := 1\<rparr>"] by auto
qed

text \<open>
  C9: with two producers a mutex that lets both in loses jobs, and each of the three
  does: after Peterson's entry in the order of \<open>broken_schedule\<close>, after two
  processes that read the lock before either sets it, or with the mutex that does
  nothing, both copy to the same slot. The first job is gone, and the second of
  two dequeues hands over a job nobody put. The jobs are any two whose labels end.
\<close>

theorem bwait_loses_job:
  assumes "pet_pids e d" "p \<noteq> q" "NUL \<in> set (j_label x)" "NUL \<in> set (j_label y)"
  shows "(\<exists>m s. sched_run (bw_step (pet_step own_mutex)) (bw_may (any_pid e d) pet_in) (pet_init, bq_init)
        (map (\<lambda>p. (p, B_mutex)) (broken_schedule e d) @ lose_schedule e d x y v) = Some (m, s) \<and>
      bq_in s = [copied x, copied y] \<and> bq_out s = [(e, copied y), (e, copied job_zero)]) \<and>
    (\<exists>m s. sched_run (bw_step (lock_step shared_lock)) (bw_may anyone lock_in) (lock_init, bq_init)
        (map (\<lambda>p. (p, B_mutex)) [p, q, p, q] @ lose_schedule p q x y v) = Some (m, s) \<and>
      bq_in s = [copied x, copied y] \<and> bq_out s = [(p, copied y), (p, copied job_zero)]) \<and>
    (\<exists>m s. sched_run (bw_step (noop_step mux)) (bw_may anyone noop_in) ((k, \<lambda>_. False), bq_init)
        (map (\<lambda>p. (p, B_mutex)) [p, q] @ lose_schedule p q x y v) = Some (m, s) \<and>
      bq_in s = [copied x, copied y] \<and> bq_out s = [(p, copied y), (p, copied job_zero)])"
proof (intro conjI)
  note twice = copied_ok [OF job_ok_copied, of y]
  have ed: "e \<noteq> d" by (rule pet_pids_index(5) [OF assms(1)])
  have "\<exists>m. sched_run (pet_step own_mutex) (any_pid e d) pet_init (broken_schedule e d) = Some m \<and> pet_in m e \<and> pet_in m d"
    using pet_pids_index [OF assms(1)]
    by (simp add: broken_schedule_def any_pid_def pet_step_def pet_init_def pet_in_def)
  then show "\<exists>m s. sched_run (bw_step (pet_step own_mutex)) (bw_may (any_pid e d) pet_in) (pet_init, bq_init)
        (map (\<lambda>p. (p, B_mutex)) (broken_schedule e d) @ lose_schedule e d x y v) = Some (m, s) \<and>
      bq_in s = [copied x, copied y] \<and> bq_out s = [(e, copied y), (e, copied job_zero)]"
    using both_inside_lose [where crit = pet_in, OF _ ed, where x = x and y = y and d = v] assms(3,4) twice by metis
  have "\<exists>m. sched_run (lock_step shared_lock) anyone lock_init [p, q, p, q] = Some m \<and> lock_in m p \<and> lock_in m q"
    using assms(2) by (simp add: lock_step_cases lock_init_def lock_in_def)
  then show "\<exists>m s. sched_run (bw_step (lock_step shared_lock)) (bw_may anyone lock_in) (lock_init, bq_init)
        (map (\<lambda>p. (p, B_mutex)) [p, q, p, q] @ lose_schedule p q x y v) = Some (m, s) \<and>
      bq_in s = [copied x, copied y] \<and> bq_out s = [(p, copied y), (p, copied job_zero)]"
    using both_inside_lose [where crit = lock_in, OF _ assms(2), where x = x and y = y and d = v] assms(3,4) twice by metis
  have "\<exists>m. sched_run (noop_step mux) anyone (k, \<lambda>_. False) [p, q] = Some m \<and> noop_in m p \<and> noop_in m q"
    using assms(2) by (simp add: noop_step_def noop_enter_def noop_in_def)
  then show "\<exists>m s. sched_run (bw_step (noop_step mux)) (bw_may anyone noop_in) ((k, \<lambda>_. False), bq_init)
        (map (\<lambda>p. (p, B_mutex)) [p, q] @ lose_schedule p q x y v) = Some (m, s) \<and>
      bq_in s = [copied x, copied y] \<and> bq_out s = [(p, copied y), (p, copied job_zero)]"
    using both_inside_lose [where crit = noop_in, OF _ assms(2), where x = x and y = y and d = v] assms(3,4) twice by metis
qed

lemma bwait_loses_job_witness:
  "\<exists>m s. sched_run (bw_step (pet_step own_mutex)) (bw_may (any_pid 100 101) pet_in) (pet_init, bq_init)
      (map (\<lambda>p. (p, B_mutex)) (broken_schedule 100 101) @
        lose_schedule 100 101 (job_zero\<lparr>j_id := 1\<rparr>) (job_zero\<lparr>j_id := 2\<rparr>) job_zero) = Some (m, s) \<and>
    length (bq_in s) = 2 \<and> copied (job_zero\<lparr>j_id := 1\<rparr>) \<notin> snd ` set (bq_out s)"
proof -
  have "pet_pids 100 101" by (simp add: pet_pids_def)
  note lose = bwait_loses_job [OF this, of 0 "Suc 0" "job_zero\<lparr>j_id := 1\<rparr>" "job_zero\<lparr>j_id := 2\<rparr>" job_zero
    "Ptr ()" "0 :: nat"]
  obtain m s where run: "sched_run (bw_step (pet_step own_mutex)) (bw_may (any_pid 100 101) pet_in) (pet_init, bq_init)
      (map (\<lambda>p. (p, B_mutex)) (broken_schedule 100 101) @
        lose_schedule 100 101 (job_zero\<lparr>j_id := 1\<rparr>) (job_zero\<lparr>j_id := 2\<rparr>) job_zero) = Some (m, s)"
    and logs: "bq_in s = [copied (job_zero\<lparr>j_id := 1\<rparr>), copied (job_zero\<lparr>j_id := 2\<rparr>)]"
      "bq_out s = [(100, copied (job_zero\<lparr>j_id := 2\<rparr>)), (100, copied job_zero)]"
    using conjunct1 [OF lose [OF n_not_Suc_n]] job_zero_NUL by (simp, elim exE conjE)
  have "copied (job_zero\<lparr>j_id := 1\<rparr>) \<noteq> copied (job_zero\<lparr>j_id := 2\<rparr>)" "copied (job_zero\<lparr>j_id := 1\<rparr>) \<noteq> copied job_zero"
    by (simp_all add: copied_def mk_job_def job_zero_def)
  with logs show ?thesis by (intro exI [of _ m] exI [of _ s] conjI run) simp_all
qed

end
