(* ===== verification/Mutex_Contract.thy ===== *)
theory Mutex_Contract
  imports Bwait_Jobqueue
begin

text \<open>
  The two states of a mutex that \<^verbatim>\<open>mutex.h\<close> describes, acquired by a process or
  available, as a transition system; and the runs of Peterson's mutex and of the lock
  variable that refine it.
\<close>

section \<open>The contract\<close>

datatype 'p mutex_act = Acquire 'p | Release 'p

inductive mutex_go :: "'p option \<Rightarrow> 'p mutex_act \<Rightarrow> 'p option \<Rightarrow> bool" where
  acquire: "mutex_go None (Acquire p) (Some p)"
| release: "mutex_go (Some p) (Release p) None"

inductive_simps mutex_go_simps [simp]:
  "mutex_go None a s"
  "mutex_go (Some p) a s"

inductive mutex_runs :: "'p option \<Rightarrow> 'p mutex_act list \<Rightarrow> 'p option \<Rightarrow> bool" where
  idle: "mutex_runs s [] s"
| act: "mutex_go s a t \<Longrightarrow> mutex_runs t as u \<Longrightarrow> mutex_runs s (a # as) u"

inductive_simps mutex_runs_simps:
  "mutex_runs s [] u"
  "mutex_runs s (a # as) u"

text \<open>An acquired mutex is released by its holder before anybody acquires it again.\<close>

lemma mutex_runs_alternate:
  "mutex_runs None (as @ Acquire p # b # bs) u \<Longrightarrow> b = Release p"
proof -
  have "mutex_runs s (as @ Acquire p # b # bs) u \<Longrightarrow> b = Release p" for s
    by (induction as arbitrary: s) (auto simp: mutex_runs_simps elim: mutex_go.cases)
  then show "mutex_runs None (as @ Acquire p # b # bs) u \<Longrightarrow> b = Release p" .
qed

text \<open>The actions seen in a run: a process comes to be in its region, or leaves it.\<close>

fun mutex_acts ::
  "('p \<Rightarrow> 's \<Rightarrow> 's option) \<Rightarrow> ('s \<Rightarrow> 'p \<Rightarrow> bool) \<Rightarrow> ('s \<Rightarrow> 'p \<Rightarrow> bool) \<Rightarrow> 's \<Rightarrow> 'p list \<Rightarrow> 'p mutex_act list" where
  "mutex_acts step may crit s [] = []"
| "mutex_acts step may crit s (p # ps) =
     (if may s p then
        (case step p s of
           None \<Rightarrow> []
         | Some t \<Rightarrow>
             (if crit s p = crit t p then [] else if crit t p then [Acquire p] else [Release p]) @ mutex_acts step may crit t ps)
      else mutex_acts step may crit s ps)"

definition owned :: "('s \<Rightarrow> 'p \<Rightarrow> bool) \<Rightarrow> 's \<Rightarrow> 'p option \<Rightarrow> bool" where
  "owned crit s owner \<longleftrightarrow> (\<forall>p. crit s p \<longleftrightarrow> owner = Some p)"

text \<open>A process comes to be in its region by a step of its own only.\<close>

locale mutex_contract = mutex_system +
  assumes crit_own: "inv s \<Longrightarrow> may s q \<Longrightarrow> step q s = Some t \<Longrightarrow> p \<noteq> q \<Longrightarrow> crit t p \<Longrightarrow> crit s p"
begin

lemma step_others: "inv s \<Longrightarrow> may s q \<Longrightarrow> step q s = Some t \<Longrightarrow> p \<noteq> q \<Longrightarrow> crit t p = crit s p"
  using crit_kept crit_own by blast

lemma step_refines:
  assumes "inv s" "may s p" "step p s = Some t" "inv t" "owned crit s owner"
  shows "if crit s p = crit t p then owned crit t owner
    else \<exists>owner'. mutex_go owner (if crit t p then Acquire p else Release p) owner' \<and> owned crit t owner'"
proof (cases "crit t p")
  case True
  then have only: "crit t q \<longleftrightarrow> q = p" for q using inv_excl [OF assms(4)] by blast
  show ?thesis
  proof (cases "crit s p")
    case True
    then show ?thesis using only \<open>crit t p\<close> assms(5) by (auto simp: owned_def)
  next
    case False
    then have "\<not> crit s q" for q using only step_others [OF assms(1-3), of q] by (cases "q = p") auto
    then have "owner = None" using assms(5) by (cases owner) (auto simp: owned_def)
    then show ?thesis using only False True by (auto simp: owned_def)
  qed
next
  case False
  show ?thesis
  proof (cases "crit s p")
    case True
    then have "owner = Some p" using assms(5) by (simp add: owned_def)
    moreover have "\<not> crit t q" for q
      using step_others [OF assms(1-3), of q] inv_excl [OF assms(1) True, of q] False by (cases "q = p") auto
    ultimately show ?thesis using True False by (auto simp: owned_def)
  next
    case none: False
    have "crit t q = crit s q" for q using step_others [OF assms(1-3), of q] False none by (cases "q = p") auto
    then show ?thesis using none False assms(5) by (simp add: owned_def)
  qed
qed

lemma run_refines:
  assumes "inv s" "owned crit s owner"
  shows "\<exists>t owner'. sched_run step may s ps = Some t \<and> owned crit t owner' \<and>
    mutex_runs owner (mutex_acts step may crit s ps) owner'"
  using assms
proof (induction ps arbitrary: s owner)
  case Nil
  then show ?case by (auto intro: mutex_runs.idle)
next
  case (Cons p ps)
  show ?case
  proof (cases "may s p")
    case True
    then obtain t where t: "step p s = Some t" "inv t" using step_inv Cons.prems(1) by blast
    note ref = step_refines [OF Cons.prems(1) True t Cons.prems(2)]
    show ?thesis
    proof (cases "crit s p = crit t p")
      case True
      then show ?thesis using Cons.IH [OF t(2)] ref \<open>may s p\<close> t(1) by simp
    next
      case False
      then obtain owner' where o: "mutex_go owner (if crit t p then Acquire p else Release p) owner'" "owned crit t owner'"
        using ref by auto
      from Cons.IH [OF t(2) o(2)] obtain u owner'' where "sched_run step may t ps = Some u" "owned crit u owner''"
        "mutex_runs owner ((if crit t p then Acquire p else Release p) # mutex_acts step may crit t ps) owner''"
        using mutex_runs.act [OF o(1)] by blast
      then show ?thesis using False \<open>may s p\<close> t(1) by (intro exI [of _ u] exI [of _ owner'']) (simp split: if_splits)
    qed
  next
    case False
    then show ?thesis using Cons by simp
  qed
qed

end

interpretation pet_spec: mutex_contract "pet_step own_mutex" "unbroken e d" "pet_ok e d" pet_in for e d
proof (unfold_locales, goal_cases)
  case (1 s q t p)
  then show ?case by (auto simp: pet_in_def pet_step_def bind_eq_Some_conv split: if_splits)
qed

interpretation lock_spec: mutex_contract "lock_step shared_lock" test_and_set lock_inv lock_in
proof (unfold_locales, goal_cases)
  case (1 s q t p)
  then show ?case by (auto simp: lock_in_def lock_step_cases split: lock_pc.splits)
qed

section \<open>Properties\<close>

text \<open>
  C13: the contract of \<^verbatim>\<open>mutex.h\<close>: Peterson's mutex, when neither process is
  interrupted between its two stores, and the lock variable, for any number of
  processes, when test and store are not separated, are in one of two states at every
  moment, available or acquired by the one process that is in its critical region:
  in every run that starts with the mutex available a process acquires it only while it
  is available and only its holder releases it.
\<close>

theorem mutex_refines:
  assumes "pet_pids e d"
  shows "(\<exists>t owner. sched_run (pet_step own_mutex) (unbroken e d) pet_init ps = Some t \<and>
      owned pet_in t owner \<and> mutex_runs None (mutex_acts (pet_step own_mutex) (unbroken e d) pet_in pet_init ps) owner) \<and>
    (\<exists>t owner. sched_run (lock_step shared_lock) test_and_set lock_init qs = Some t \<and>
      owned lock_in t owner \<and> mutex_runs None (mutex_acts (lock_step shared_lock) test_and_set lock_in lock_init qs) owner)"
proof
  have "pet_ok e d pet_init" "owned pet_in pet_init None"
    using assms pet_inv_init by (simp_all add: pet_ok_def owned_def pet_in_def pet_init_def)
  then show "\<exists>t owner. sched_run (pet_step own_mutex) (unbroken e d) pet_init ps = Some t \<and>
      owned pet_in t owner \<and> mutex_runs None (mutex_acts (pet_step own_mutex) (unbroken e d) pet_in pet_init ps) owner"
    by (rule pet_spec.run_refines)
  have "lock_inv lock_init" "owned lock_in lock_init None"
    by (simp_all add: lock_inv_def lock_init_def owned_def lock_in_def)
  then show "\<exists>t owner. sched_run (lock_step shared_lock) test_and_set lock_init qs = Some t \<and>
      owned lock_in t owner \<and> mutex_runs None (mutex_acts (lock_step shared_lock) test_and_set lock_in lock_init qs) owner"
    by (rule lock_spec.run_refines)
qed

lemma mutex_refines_witness:
  "mutex_acts (pet_step own_mutex) (unbroken 100 101) pet_in pet_init [100, 100, 100, 100, 100] = [Acquire 100, Release 100] \<and>
    (\<exists>owner. mutex_runs None [Acquire (100 :: 32 word), Release 100] owner)"
proof -
  have pids: "pet_pids 100 101" by (simp add: pet_pids_def)
  note i = pet_pids_index [OF pids]
  have "mutex_acts (pet_step own_mutex) (unbroken 100 101) pet_in pet_init [100, 100, 100, 100, 100] = [Acquire 100, Release 100]"
    using i by (simp add: pet_step_def pet_init_def unbroken_def pet_in_def)
  with mutex_refines [OF pids, of "[100, 100, 100, 100, 100]" "[]"] show ?thesis by metis
qed

end
