(* ===== verification/Entry_Log.thy ===== *)
theory Entry_Log
  imports Prelude
begin

text \<open>
  The contract of an append-only log, and the loop of the usage section of
  \<^verbatim>\<open>joblog.h\<close> that reads a log from its first entry to its end. Reading and
  writing are parameters; \<open>None\<close> is undefined behaviour, and an entry read is
  \<open>None\<close> inside the result when there is no entry with that number.
\<close>

section \<open>Clients\<close>

text \<open>\<^verbatim>\<open>while ((entry = joblog_read_entry (proc, i, NULL))) i++;\<close>\<close>

partial_function (option) read_log ::
  "(int \<Rightarrow> 's \<Rightarrow> ('e option \<times> 's) option) \<Rightarrow> int \<Rightarrow> 's \<Rightarrow> ('e list \<times> 's) option" where
  "read_log rd i s = do {
     (r, s1) \<leftarrow> rd i s;
     (case r of
        None \<Rightarrow> Some ([], s1)
      | Some e \<Rightarrow> do { (es, s2) \<leftarrow> read_log rd (i + 1) s1; Some (e # es, s2) }) }"

fun write_log :: "('a \<Rightarrow> 's \<Rightarrow> 's option) \<Rightarrow> 'a list \<Rightarrow> 's \<Rightarrow> 's option" where
  "write_log wr [] s = Some s"
| "write_log wr (a # as) s = do { s1 \<leftarrow> wr a s; write_log wr as s1 }"

section \<open>The contract\<close>

text \<open>
  \<open>limit\<close> bounds the numbers with which entries can be asked for; \<open>same\<close> is
  what reading and writing leave alone.
\<close>

locale entry_log =
  fixes ok :: "'s \<Rightarrow> bool"
    and entries :: "'s \<Rightarrow> 'e list"
    and same :: "'s \<Rightarrow> 'r"
    and good :: "'a \<Rightarrow> bool"
    and line :: "'a \<Rightarrow> 'e"
    and limit :: nat
    and wr :: "'a \<Rightarrow> 's \<Rightarrow> 's option"
    and rd :: "int \<Rightarrow> 's \<Rightarrow> ('e option \<times> 's) option"
  assumes wr_good: "ok s \<Longrightarrow> good a \<Longrightarrow>
      \<exists>t. wr a s = Some t \<and> ok t \<and> entries t = entries s @ [line a] \<and> same t = same s"
    and rd_entry: "ok s \<Longrightarrow> k < length (entries s) \<Longrightarrow> k \<le> limit \<Longrightarrow>
      \<exists>t. rd (int k) s = Some (Some (entries s ! k), t) \<and> ok t \<and> entries t = entries s \<and> same t = same s"
    and rd_end: "ok s \<Longrightarrow> length (entries s) \<le> k \<Longrightarrow> k \<le> limit \<Longrightarrow>
      \<exists>t. rd (int k) s = Some (None, t) \<and> ok t \<and> entries t = entries s \<and> same t = same s"
begin

lemma write_log_appends:
  assumes "ok s" "list_all good as"
  shows "\<exists>t. write_log wr as s = Some t \<and> ok t \<and> entries t = entries s @ map line as \<and> same t = same s"
  using assms
proof (induction as arbitrary: s)
  case Nil
  then show ?case by simp
next
  case (Cons a as)
  then have "good a" by simp
  from wr_good [OF Cons.prems(1) this] obtain s1 where
    s1: "wr a s = Some s1" "ok s1" "entries s1 = entries s @ [line a]" "same s1 = same s" by blast
  from Cons.IH [OF s1(2)] Cons.prems(2) show ?case by (force simp: s1)
qed

text \<open>From entry \<open>k\<close> on, the loop ends and gives the entries from \<open>k\<close> on.\<close>

lemma read_log_from:
  assumes "ok s" "k \<le> length (entries s)" "length (entries s) \<le> limit"
  shows "\<exists>t. read_log rd (int k) s = Some (drop k (entries s), t) \<and> ok t \<and> entries t = entries s \<and> same t = same s"
  using assms
proof (induction "length (entries s) - k" arbitrary: k s)
  case 0
  then have "length (entries s) = k" by simp
  with rd_end [of s k] 0 show ?case by (subst read_log.simps) auto
next
  case (Suc n)
  then have k: "k < length (entries s)" "k \<le> limit" by simp_all
  from rd_entry [OF Suc.prems(1) k] obtain s1 where
    s1: "rd (int k) s = Some (Some (entries s ! k), s1)" "ok s1" "entries s1 = entries s" "same s1 = same s" by blast
  have "n = length (entries s1) - Suc k" using Suc.hyps(2) s1(3) by simp
  from Suc.hyps(1) [OF this s1(2)] obtain t where
    t: "read_log rd (int (Suc k)) s1 = Some (drop (Suc k) (entries s), t)" "ok t" "entries t = entries s" "same t = same s"
    using s1(3,4) Suc.prems k by auto
  have "drop k (entries s) = entries s ! k # drop (Suc k) (entries s)" using k(1) by (rule Cons_nth_drop_Suc [symmetric])
  then show ?case using s1 t by (subst read_log.simps) (simp add: add.commute)
qed

text \<open>What was written is read back, whole and in order.\<close>

theorem write_read:
  assumes "ok s" "list_all good as" "length (entries s) + length as \<le> limit"
  shows "\<exists>t u. write_log wr as s = Some t \<and> read_log rd 0 t = Some (entries s @ map line as, u) \<and>
    ok u \<and> entries u = entries t \<and> same u = same s"
proof -
  from write_log_appends [OF assms(1,2)] obtain t where
    t: "write_log wr as s = Some t" "ok t" "entries t = entries s @ map line as" "same t = same s" by blast
  from read_log_from [OF t(2), of 0] t assms(3) show ?thesis by auto
qed

end

end
