(* ===== verification/Joblog.thy ===== *)
theory Joblog
  imports Job Proc Entry_Log
begin

text \<open>
  \<^verbatim>\<open>joblog.c\<close>: the log files of jobs, one line of \<open>JOBLOG_ENTRY_SIZE\<close> bytes per job.
  The file system is what the program sees of it: the node at \<^verbatim>\<open>./out\<close>, the
  regular files by path, the open streams and the strings allocated by
  \<^verbatim>\<open>asprintf\<close>. Output is buffered in its stream until \<^verbatim>\<open>fclose\<close>. Which library
  calls succeed, and the \<^verbatim>\<open>errno\<close> of one that fails, are arguments. A directory
  with the path of a log file is not modelled.
\<close>

section \<open>State\<close>

datatype out_node = Absent | Directory | Other

record fs_t =
  fs_errno :: int
  fs_out :: out_node
  fs_files :: "string \<Rightarrow> string option"
  fs_streams :: nat
  fs_blocks :: nat

record stream =
  st_name :: string
  st_pos :: nat
  st_pending :: string

text \<open>\<open>l_local\<close> is what the local array of \<^verbatim>\<open>joblog_read_entry\<close> holds at first.\<close>

record log_faults =
  l_stat :: bool
  l_mkdir :: bool
  l_unlink :: bool
  l_name :: bool
  l_open :: bool
  l_seek :: bool
  l_read :: bool
  l_dup :: bool
  l_print :: bool
  l_flush :: bool
  l_remove :: bool
  l_err :: int
  l_local :: "char list"

definition EEXIST :: int where "EEXIST = 17"

definition newline :: char where "newline = CHR 0x0A"

definition JOBLOG_PATH :: string where "JOBLOG_PATH = ''./out''"

section \<open>Library calls\<close>

definition fail :: "int \<Rightarrow> fs_t \<Rightarrow> fs_t" where
  "fail e fs = fs\<lparr>fs_errno := e\<rparr>"

definition free_str :: "fs_t \<Rightarrow> fs_t option" where
  "free_str fs = do { require (0 < fs_blocks fs); Some (fs\<lparr>fs_blocks := fs_blocks fs - 1\<rparr>) }"

definition open_stream :: "string \<Rightarrow> fs_t \<Rightarrow> stream option \<times> fs_t" where
  "open_stream nm fs =
     (Some \<lparr>st_name = nm, st_pos = 0, st_pending = []\<rparr>, fs\<lparr>fs_streams := Suc (fs_streams fs)\<rparr>)"

text \<open>Opening with \<^verbatim>\<open>"r"\<close> needs the file; \<^verbatim>\<open>"a"\<close> creates it when the directory is there.\<close>

definition fopen_r :: "log_faults \<Rightarrow> string \<Rightarrow> fs_t \<Rightarrow> stream option \<times> fs_t" where
  "fopen_r fz nm fs =
     (if \<not> l_open fz then (None, fail (l_err fz) fs)
      else if fs_files fs nm = None then (None, fail ENOENT fs)
      else open_stream nm fs)"

definition fopen_a :: "log_faults \<Rightarrow> string \<Rightarrow> fs_t \<Rightarrow> stream option \<times> fs_t" where
  "fopen_a fz nm fs =
     (if \<not> l_open fz then (None, fail (l_err fz) fs)
      else case fs_files fs nm of
        Some _ \<Rightarrow> open_stream nm fs
      | None \<Rightarrow>
          if fs_out fs = Directory then open_stream nm (fs\<lparr>fs_files := (fs_files fs)(nm \<mapsto> [])\<rparr>)
          else (None, fail ENOENT fs))"

definition fseek :: "log_faults \<Rightarrow> stream \<Rightarrow> int \<Rightarrow> fs_t \<Rightarrow> stream option \<times> fs_t" where
  "fseek fz st off fs =
     (if l_seek fz then (Some (st\<lparr>st_pos := nat off\<rparr>), fs) else (None, fail (l_err fz) fs))"

text \<open>At most \<open>n\<close> bytes, up to and including a newline.\<close>

fun get_line :: "nat \<Rightarrow> string \<Rightarrow> string" where
  "get_line 0 cs = []"
| "get_line (Suc n) [] = []"
| "get_line (Suc n) (c # cs) = (if c = newline then [c] else c # get_line n cs)"

text \<open>\<^verbatim>\<open>fgets\<close>: NULL at the end of the file, which is no error and leaves \<^verbatim>\<open>errno\<close> alone.\<close>

definition fgets :: "log_faults \<Rightarrow> char list \<Rightarrow> nat \<Rightarrow> stream \<Rightarrow> fs_t \<Rightarrow> (char list option \<times> fs_t) option" where
  "fgets fz buf n st fs =
     (if \<not> l_read fz then Some (None, fail (l_err fz) fs)
      else do {
        c \<leftarrow> fs_files fs (st_name st);
        let s = get_line (n - 1) (drop (st_pos st) c);
        if s = [] then Some (None, fs)
        else do {
          require (length s < length buf);
          Some (Some (s @ NUL # drop (Suc (length s)) buf), fs) } })"

definition fprintf :: "log_faults \<Rightarrow> stream \<Rightarrow> string \<Rightarrow> fs_t \<Rightarrow> int \<times> stream \<times> fs_t" where
  "fprintf fz st s fs =
     (if l_print fz then (int (length s), st\<lparr>st_pending := st_pending st @ s\<rparr>, fs)
      else (- 1, st, fail (l_err fz) fs))"

text \<open>Closing writes what is pending; when that fails the data is lost.\<close>

definition fclose :: "log_faults \<Rightarrow> stream \<Rightarrow> fs_t \<Rightarrow> fs_t option" where
  "fclose fz st fs = do {
     require (0 < fs_streams fs);
     let fs1 = fs\<lparr>fs_streams := fs_streams fs - 1\<rparr>;
     Some (if st_pending st = [] then fs1
       else if \<not> l_flush fz then fail (l_err fz) fs1
       else case fs_files fs1 (st_name st) of
         None \<Rightarrow> fs1
       | Some c \<Rightarrow> fs1\<lparr>fs_files := (fs_files fs1)(st_name st \<mapsto> c @ st_pending st)\<rparr>) }"

definition remove_file :: "log_faults \<Rightarrow> string \<Rightarrow> fs_t \<Rightarrow> int \<times> fs_t" where
  "remove_file fz nm fs =
     (if \<not> l_remove fz then (- 1, fail (l_err fz) fs)
      else if fs_files fs nm = None then (- 1, fail ENOENT fs)
      else (0, fs\<lparr>fs_files := (fs_files fs)(nm := None)\<rparr>))"

definition stat_out :: "log_faults \<Rightarrow> fs_t \<Rightarrow> out_node option \<times> fs_t" where
  "stat_out fz fs =
     (if \<not> l_stat fz then (None, fail (l_err fz) fs)
      else if fs_out fs = Absent then (None, fail ENOENT fs)
      else (Some (fs_out fs), fs))"

definition mkdir_out :: "log_faults \<Rightarrow> fs_t \<Rightarrow> int \<times> fs_t" where
  "mkdir_out fz fs =
     (if \<not> l_mkdir fz then (- 1, fail (l_err fz) fs)
      else if fs_out fs \<noteq> Absent then (- 1, fail EEXIST fs)
      else (0, fs\<lparr>fs_out := Directory\<rparr>))"

definition unlink_out :: "log_faults \<Rightarrow> fs_t \<Rightarrow> fs_t" where
  "unlink_out fz fs =
     (if \<not> l_unlink fz then fail (l_err fz) fs
      else if fs_out fs = Other then fs\<lparr>fs_out := Absent\<rparr> else fail ENOENT fs)"

section \<open>Operations\<close>

definition log_name_fmt :: "string \<Rightarrow> int \<Rightarrow> string" where
  "log_name_fmt label i = JOBLOG_PATH @ ''/'' @ label @ fmt_d 7 i @ ''.txt''"

definition log_entry_fmt :: "int \<Rightarrow> int \<Rightarrow> string \<Rightarrow> string" where
  "log_entry_fmt p i label = ''pid:'' @ fmt_d 7 p @ '',id:'' @ fmt_d 5 i @ '',label:'' @ label @ [newline]"

definition new_log_name :: "log_faults \<Rightarrow> proc_t ptr \<Rightarrow> fs_t \<Rightarrow> (char list ptr \<times> fs_t) option" where
  "new_log_name fz proc fs = (case proc of
     NULL \<Rightarrow> Some (NULL, fs)
   | Ptr p \<Rightarrow> do {
       label \<leftarrow> c_str (pr_type_label p);
       name \<leftarrow> asprintf_buf (l_name fz) (log_name_fmt label (sint (pr_id p)));
       Some (Ptr name, fs\<lparr>fs_blocks := Suc (fs_blocks fs)\<rparr>) })"

text \<open>Passing NULL to \<^verbatim>\<open>remove\<close> is undefined.\<close>

definition joblog_delete :: "log_faults \<Rightarrow> proc_t ptr \<Rightarrow> fs_t \<Rightarrow> fs_t option" where
  "joblog_delete fz proc fs = do {
     (name, fs1) \<leftarrow> new_log_name fz proc fs;
     let lastErrorNum = fs_errno fs1;
     nm \<leftarrow> (case name of NULL \<Rightarrow> None | Ptr b \<Rightarrow> c_str b);
     let (del, fs2) = remove_file fz nm fs1;
     if del \<noteq> 0 then free_str (fs2\<lparr>fs_errno := lastErrorNum\<rparr>) else free_str fs2 }"

definition joblog_init :: "log_faults \<Rightarrow> proc_t ptr \<Rightarrow> fs_t \<Rightarrow> (int \<times> fs_t) option" where
  "joblog_init fz proc fs = (case proc of
     NULL \<Rightarrow> Some (- 1, fs\<lparr>fs_errno := EINVAL\<rparr>)
   | Ptr p \<Rightarrow>
       let (r, fs1) =
         (if pr_is_init p then
            (case stat_out fz fs of
               (None, fs1) \<Rightarrow> mkdir_out fz (fs1\<lparr>fs_errno := 0\<rparr>)
             | (Some node, fs1) \<Rightarrow>
                 if node \<noteq> Directory then mkdir_out fz ((unlink_out fz fs1)\<lparr>fs_errno := 0\<rparr>) else (0, fs1))
          else (0, fs))
       in do { fs2 \<leftarrow> joblog_delete fz proc fs1; Some (r, fs2) })"

text \<open>\<^verbatim>\<open>joblog_read_entry\<close> from the test of \<^verbatim>\<open>buf\<close> on; the result is what it points to.\<close>

definition joblog_get_entry ::
  "log_faults \<Rightarrow> char list ptr \<Rightarrow> stream \<Rightarrow> fs_t \<Rightarrow> (char list ptr \<times> fs_t) option" where
  "joblog_get_entry fz buf st fs = (case buf of
     Ptr b \<Rightarrow> do {
       (r, fs1) \<leftarrow> fgets fz b JOBLOG_ENTRY_SIZE st fs;
       fs2 \<leftarrow> fclose fz st fs1;
       Some (case r of None \<Rightarrow> (NULL, fs2) | Some b' \<Rightarrow> (Ptr b', fs2)) }
   | NULL \<Rightarrow> do {
       (r, fs1) \<leftarrow> fgets fz (l_local fz) JOBLOG_ENTRY_SIZE st fs;
       (case r of
          None \<Rightarrow> do { fs2 \<leftarrow> fclose fz st fs1; Some (NULL, fs2) }
        | Some a \<Rightarrow> do {
            s \<leftarrow> c_str a;
            if \<not> l_dup fz then do { fs2 \<leftarrow> fclose fz st (fail (l_err fz) fs1); Some (NULL, fs2) }
            else do {
              fs2 \<leftarrow> fclose fz st (fs1\<lparr>fs_blocks := Suc (fs_blocks fs1)\<rparr>);
              Some (Ptr (s @ [NUL]), fs2) } }) })"

definition joblog_read_entry ::
  "log_faults \<Rightarrow> proc_t ptr \<Rightarrow> int \<Rightarrow> char list ptr \<Rightarrow> fs_t \<Rightarrow> (char list ptr \<times> fs_t) option" where
  "joblog_read_entry fz proc entry_num buf fs =
     (let lastErrorNum = fs_errno fs in
      if proc = NULL then Some (NULL, fs)
      else if entry_num < 0 then Some (NULL, fs)
      else do {
        (fileName, fs1) \<leftarrow> new_log_name fz proc fs;
        (case fileName of
           NULL \<Rightarrow> Some (NULL, fs1)
         | Ptr b \<Rightarrow> do {
             nm \<leftarrow> c_str b;
             let (f, fs2) = fopen_r fz nm fs1;
             fs3 \<leftarrow> free_str fs2;
             (case f of
                None \<Rightarrow> Some (NULL, fs3\<lparr>fs_errno := lastErrorNum\<rparr>)
              | Some st \<Rightarrow> do {
                  off \<leftarrow> as_int (entry_num * int JOBLOG_ENTRY_SIZE);
                  (case fseek fz st off fs3 of
                     (None, fs4) \<Rightarrow> Some (NULL, fs4\<lparr>fs_errno := lastErrorNum\<rparr>)
                   | (Some st1, fs4) \<Rightarrow> joblog_get_entry fz buf st1 fs4) }) }) })"

text \<open>
  The two identifiers are printed with \<^verbatim>\<open>%d\<close>, the unsigned one too: its bits are
  read as a signed number.
\<close>

definition joblog_write_entry :: "log_faults \<Rightarrow> proc_t ptr \<Rightarrow> job_t ptr \<Rightarrow> fs_t \<Rightarrow> fs_t option" where
  "joblog_write_entry fz proc job fs =
     (let lastErrorNum = fs_errno fs in
      if proc = NULL then Some (fs\<lparr>fs_errno := lastErrorNum\<rparr>)
      else (case job of
        NULL \<Rightarrow> Some (fs\<lparr>fs_errno := lastErrorNum\<rparr>)
      | Ptr j \<Rightarrow> do {
          (fileName, fs1) \<leftarrow> new_log_name fz proc fs;
          (case fileName of
             NULL \<Rightarrow> Some (fs1\<lparr>fs_errno := lastErrorNum\<rparr>)
           | Ptr b \<Rightarrow> do {
               nm \<leftarrow> c_str b;
               let (f, fs2) = fopen_a fz nm fs1;
               fs3 \<leftarrow> free_str fs2;
               (case f of
                  None \<Rightarrow> Some (fs3\<lparr>fs_errno := lastErrorNum\<rparr>)
                | Some st \<Rightarrow> do {
                    label \<leftarrow> c_str (j_label j);
                    let (r, st1, fs4) = fprintf fz st (log_entry_fmt (sint (j_pid j)) (sint (j_id j)) label) fs3;
                    if r < 0 then do { fs5 \<leftarrow> fclose fz st1 fs4; Some (fs5\<lparr>fs_errno := lastErrorNum\<rparr>) }
                    else fclose fz st1 fs4 }) }) }))"

section \<open>Log files\<close>

text \<open>
  The entries a file of whole lines holds, and the files that are such: every
  line has 58 characters before its newline.
\<close>

fun log_lines :: "string \<Rightarrow> string list" where
  "log_lines c = (if c = [] then [] else take 58 c # log_lines (drop 59 c))"

declare log_lines.simps [simp del]

lemma log_lines_Nil [simp]: "log_lines [] = []"
  by (simp add: log_lines.simps)

definition log_line :: "string \<Rightarrow> bool" where
  "log_line e \<longleftrightarrow> length e = JOBLOG_ENTRY_SIZE - 1 \<and> newline \<notin> set e \<and> NUL \<notin> set e"

definition log_text :: "string list \<Rightarrow> string" where
  "log_text es = concat (map (\<lambda>e. e @ [newline]) es)"

definition log_form :: "string \<Rightarrow> bool" where
  "log_form c \<longleftrightarrow> c = log_text (log_lines c) \<and> list_all log_line (log_lines c)"

lemma log_line_length: "log_line e \<Longrightarrow> length e = 58"
  by (simp add: log_line_def JOBLOG_ENTRY_SIZE_def)

lemma log_lines_text: "list_all log_line es \<Longrightarrow> log_lines (log_text es) = es"
proof (induction es)
  case Nil
  then show ?case by (simp add: log_text_def log_lines.simps)
next
  case (Cons e es)
  then have "length e = 58" by (simp add: log_line_length)
  with Cons show ?case by (subst log_lines.simps) (simp add: log_text_def)
qed

lemma log_form_text: "list_all log_line es \<Longrightarrow> log_form (log_text es)"
  by (simp add: log_form_def log_lines_text)

text \<open>Appending a line to the file appends an entry to the log.\<close>

lemma log_form_append:
  assumes "log_form c" "log_line e"
  shows "log_form (c @ e @ [newline])" "log_lines (c @ e @ [newline]) = log_lines c @ [e]"
proof -
  have c: "c @ e @ [newline] = log_text (log_lines c @ [e])"
    using assms(1) by (simp add: log_form_def) (simp add: log_text_def)
  have "list_all log_line (log_lines c @ [e])" using assms by (simp add: log_form_def)
  with c show "log_form (c @ e @ [newline])" "log_lines (c @ e @ [newline]) = log_lines c @ [e]"
    by (metis log_form_text, metis log_lines_text)
qed

text \<open>Seeking to \<open>59 k\<close> leads to line \<open>k\<close>, or to or past the end.\<close>

lemma log_text_drop:
  assumes "list_all log_line es"
  shows "drop (59 * k) (log_text es) =
    (if k < length es then es ! k @ newline # log_text (drop (Suc k) es) else [])"
  using assms
proof (induction es arbitrary: k)
  case Nil
  then show ?case by (simp add: log_text_def)
next
  case (Cons e es)
  then have e: "length e = 58" by (simp add: log_line_length)
  show ?case
  proof (cases k)
    case 0
    then show ?thesis by (simp add: log_text_def)
  next
    case (Suc j)
    have "drop (59 * k) (log_text (e # es)) = drop (59 * j) (log_text es)"
      using e Suc by (simp add: log_text_def)
    then show ?thesis using Cons Suc by simp
  qed
qed

lemma get_line_whole: "newline \<notin> set e \<Longrightarrow> length e = n \<Longrightarrow> get_line n (e @ r) = e"
  by (induction e arbitrary: n) auto

lemma get_line_Nil [simp]: "get_line n [] = []"
  by (cases n) simp_all

lemma get_line_entry:
  assumes "log_form c"
  shows "get_line 58 (drop (59 * k) c) = (if k < length (log_lines c) then log_lines c ! k else [])"
proof -
  have c: "c = log_text (log_lines c)" "list_all log_line (log_lines c)" using assms by (simp_all add: log_form_def)
  show ?thesis
  proof (cases "k < length (log_lines c)")
    case True
    then have "log_line (log_lines c ! k)" using c(2) by (simp add: list_all_length)
    then show ?thesis
      using True log_text_drop [OF c(2), of k] c(1) get_line_whole [of "log_lines c ! k" 58]
      by (simp add: log_line_def JOBLOG_ENTRY_SIZE_def)
  next
    case False
    then show ?thesis using log_text_drop [OF c(2), of k] c(1) by simp
  qed
qed

section \<open>The log of a process\<close>

text \<open>\<open>nm\<close> is the path of the log of \<open>p\<close>; the library calls succeed.\<close>

definition log_named :: "proc_t \<Rightarrow> string \<Rightarrow> bool" where
  "log_named p nm \<longleftrightarrow> (\<exists>l. c_str (pr_type_label p) = Some l \<and> nm = log_name_fmt l (sint (pr_id p)))"

definition log_calls_ok :: "log_faults \<Rightarrow> bool" where
  "log_calls_ok fz \<longleftrightarrow> l_name fz \<and> l_open fz \<and> l_seek fz \<and> l_read fz \<and> l_dup fz \<and> l_print fz \<and> l_flush fz \<and>
     length (l_local fz) = JOBLOG_ENTRY_SIZE"

definition log_ok :: "string \<Rightarrow> fs_t \<Rightarrow> bool" where
  "log_ok nm fs \<longleftrightarrow> fs_out fs = Directory \<and> (case fs_files fs nm of None \<Rightarrow> True | Some c \<Rightarrow> log_form c)"

definition log_of :: "string \<Rightarrow> fs_t \<Rightarrow> string list" where
  "log_of nm fs = (case fs_files fs nm of None \<Rightarrow> [] | Some c \<Rightarrow> log_lines c)"

text \<open>A job whose identifiers fit their columns, and the line it gets.\<close>

definition loggable :: "job_t \<Rightarrow> bool" where
  "loggable j \<longleftrightarrow> job_ok j \<and> newline \<notin> set (job_str j) \<and>
     0 \<le> sint (j_pid j) \<and> sint (j_pid j) < 10 ^ 7 \<and> 0 \<le> sint (j_id j) \<and> sint (j_id j) < 10 ^ 5"

definition job_line :: "job_t \<Rightarrow> string" where
  "job_line j = ''pid:'' @ fmt_d 7 (sint (j_pid j)) @ '',id:'' @ fmt_d 5 (sint (j_id j)) @ '',label:'' @ job_str j"

lemma log_entry_line: "log_entry_fmt (sint (j_pid j)) (sint (j_id j)) (job_str j) = job_line j @ [newline]"
  by (simp add: log_entry_fmt_def job_line_def)

lemma digits_not_newline: "newline \<notin> set (dec_nat n)"
proof (induction n rule: dec_nat.induct)
  case (1 n)
  have d: "digit k \<noteq> newline" if "k < 10" for k
  proof -
    have "of_char (digit k) = 48 + k" using that by (rule digit_value)
    then show ?thesis by (auto simp: newline_def)
  qed
  from 1 show ?case by (subst dec_nat.simps) (auto dest: sym simp: d [symmetric] d)
qed

lemma fmt_d_newline: "newline \<notin> set (fmt_d w v)"
  using digits_not_newline by (simp add: fmt_d_def zero_pad_def) (simp add: newline_def)

lemma job_line_ok: "loggable j \<Longrightarrow> log_line (job_line j)"
  using job_ok_label [of j] fmt_d_length [of 7 "sint (j_pid j)"] fmt_d_length [of 5 "sint (j_id j)"]
    fmt_d_newline fmt_d_NUL job_str_NUL [of j]
  by (simp add: loggable_def log_line_def job_line_def JOBLOG_ENTRY_SIZE_def MAX_NAME_SIZE_def)
    (simp add: newline_def NUL_def)

lemma fs_errno_same [simp]: "fs\<lparr>fs_errno := fs_errno fs\<rparr> = fs"
  by (cases fs) simp

lemma fs_blocks_same [simp]: "fs\<lparr>fs_blocks := fs_blocks fs\<rparr> = fs"
  by (cases fs) simp

lemma fs_streams_same [simp]: "fs\<lparr>fs_streams := fs_streams fs\<rparr> = fs"
  by (cases fs) simp

lemma log_named_NUL: "log_named p nm \<Longrightarrow> NUL \<notin> set nm"
proof -
  assume "log_named p nm"
  then obtain l where "NUL \<notin> set l" "nm = log_name_fmt l (sint (pr_id p))"
    by (auto simp: log_named_def c_str_Some_iff)
  then show ?thesis using fmt_d_NUL by (simp add: log_name_fmt_def JOBLOG_PATH_def) (simp add: NUL_def)
qed

lemma new_log_name_ok:
  assumes "log_named p nm" "l_name fz"
  shows "new_log_name fz (Ptr p) fs = Some (Ptr (nm @ [NUL]), fs\<lparr>fs_blocks := Suc (fs_blocks fs)\<rparr>)"
    "c_str (nm @ [NUL]) = Some nm"
  using assms c_str_NUL [OF log_named_NUL [OF assms(1)], of "[]"]
  by (auto simp: log_named_def new_log_name_def asprintf_buf_def)

section \<open>Reading and writing\<close>

text \<open>A line that is read fills the buffer up to the byte its newline would take.\<close>

lemma fgets_entry:
  assumes "l_read fz" "fs_files fs nm = Some c" "log_form c" "length b \<ge> JOBLOG_ENTRY_SIZE"
  shows "fgets fz b JOBLOG_ENTRY_SIZE \<lparr>st_name = nm, st_pos = 59 * k, st_pending = []\<rparr> fs =
    Some (if k < length (log_lines c) then Some (log_lines c ! k @ NUL # drop JOBLOG_ENTRY_SIZE b) else None, fs)"
proof -
  have len: "length (log_lines c ! k) = 58 \<and> log_lines c ! k \<noteq> []" if "k < length (log_lines c)"
    using that assms(3) log_line_length [of "log_lines c ! k"] by (auto simp: log_form_def list_all_length)
  then show ?thesis
    using assms get_line_entry [OF assms(3), of k] by (simp add: fgets_def JOBLOG_ENTRY_SIZE_def)
qed

lemma log_line_str: "list_all log_line es \<Longrightarrow> k < length es \<Longrightarrow> c_str (es ! k @ NUL # r) = Some (es ! k)"
  by (simp add: c_str_NUL log_line_def list_all_length)

text \<open>Reading entry \<open>k\<close>, into a new string or a buffer, and asking past the end.\<close>

lemma joblog_read_ok:
  assumes nm: "log_named p nm" and fz: "log_calls_ok fz" and ok: "log_ok nm fs"
    and k: "int k * int JOBLOG_ENTRY_SIZE \<le> INT_MAX"
  shows "k < length (log_of nm fs) \<Longrightarrow> joblog_read_entry fz (Ptr p) (int k) NULL fs
      = Some (Ptr (log_of nm fs ! k @ [NUL]), fs\<lparr>fs_blocks := Suc (fs_blocks fs)\<rparr>)"
    and "k < length (log_of nm fs) \<Longrightarrow> JOBLOG_ENTRY_SIZE \<le> length b \<Longrightarrow>
      joblog_read_entry fz (Ptr p) (int k) (Ptr b) fs
      = Some (Ptr (log_of nm fs ! k @ NUL # drop JOBLOG_ENTRY_SIZE b), fs)"
    and "length (log_of nm fs) \<le> k \<Longrightarrow> joblog_read_entry fz (Ptr p) (int k) NULL fs = Some (NULL, fs)"
    and "length (log_of nm fs) \<le> k \<Longrightarrow> JOBLOG_ENTRY_SIZE \<le> length b \<Longrightarrow>
      joblog_read_entry fz (Ptr p) (int k) (Ptr b) fs = Some (NULL, fs)"
proof -
  have fz': "l_name fz" "l_open fz" "l_seek fz" "l_read fz" "l_dup fz" "length (l_local fz) = JOBLOG_ENTRY_SIZE"
    using fz by (simp_all add: log_calls_ok_def)
  have off: "as_int (int k * int JOBLOG_ENTRY_SIZE) = Some (int (59 * k))"
    using k by (simp add: as_int_Some INT_MIN_def JOBLOG_ENTRY_SIZE_def)
  have pos: "nat (59 * int k) = 59 * k" by simp
  note run = pos joblog_read_entry_def new_log_name_ok [OF nm fz'(1)] fopen_r_def free_str_def fseek_def
    open_stream_def joblog_get_entry_def off fz' fclose_def
  show "joblog_read_entry fz (Ptr p) (int k) NULL fs
      = Some (Ptr (log_of nm fs ! k @ [NUL]), fs\<lparr>fs_blocks := Suc (fs_blocks fs)\<rparr>)"
    if l: "k < length (log_of nm fs)"
  proof -
    obtain c where c: "fs_files fs nm = Some c" using l by (cases "fs_files fs nm") (simp_all add: log_of_def)
    then have "log_form c" using ok by (simp add: log_ok_def)
    moreover from this have "list_all log_line (log_lines c)" by (simp add: log_form_def)
    ultimately show ?thesis using c l
      by (simp add: run log_of_def fgets_entry log_line_str)
  qed
  show "joblog_read_entry fz (Ptr p) (int k) (Ptr b) fs
      = Some (Ptr (log_of nm fs ! k @ NUL # drop JOBLOG_ENTRY_SIZE b), fs)"
    if l: "k < length (log_of nm fs)" and b: "JOBLOG_ENTRY_SIZE \<le> length b"
  proof -
    obtain c where c: "fs_files fs nm = Some c" using l by (cases "fs_files fs nm") (simp_all add: log_of_def)
    then have "log_form c" using ok by (simp add: log_ok_def)
    with c l b show ?thesis by (simp add: run log_of_def fgets_entry)
  qed
  have past: "joblog_read_entry fz (Ptr p) (int k) buf fs = Some (NULL, fs)"
    if l: "length (log_of nm fs) \<le> k" and b: "buf = NULL \<or> (\<exists>b. buf = Ptr b \<and> JOBLOG_ENTRY_SIZE \<le> length b)" for buf
  proof (cases "fs_files fs nm")
    case None
    then show ?thesis by (simp add: run fail_def)
  next
    case (Some c)
    then have "log_form c" using ok by (simp add: log_ok_def)
    with Some l b show ?thesis by (auto simp: run log_of_def fgets_entry)
  qed
  then show "length (log_of nm fs) \<le> k \<Longrightarrow> joblog_read_entry fz (Ptr p) (int k) NULL fs = Some (NULL, fs)"
    and "length (log_of nm fs) \<le> k \<Longrightarrow> JOBLOG_ENTRY_SIZE \<le> length b \<Longrightarrow>
      joblog_read_entry fz (Ptr p) (int k) (Ptr b) fs = Some (NULL, fs)" by blast+
qed

text \<open>Writing appends the line to the file of the process, made when missing.\<close>

lemma joblog_write_text:
  assumes nm: "log_named p nm" and fz: "log_calls_ok fz" and l: "c_str (j_label j) = Some l"
    and out: "fs_out fs = Directory"
  shows "joblog_write_entry fz (Ptr p) (Ptr j) fs = Some (fs\<lparr>fs_files := (fs_files fs)(nm \<mapsto>
    (case fs_files fs nm of None \<Rightarrow> [] | Some c \<Rightarrow> c) @ log_entry_fmt (sint (j_pid j)) (sint (j_id j)) l)\<rparr>)"
proof -
  have fz': "l_name fz" "l_open fz" "l_print fz" "l_flush fz" using fz by (simp_all add: log_calls_ok_def)
  have "log_entry_fmt (sint (j_pid j)) (sint (j_id j)) l \<noteq> []" by (simp add: log_entry_fmt_def)
  then show ?thesis
    using out l
    by (cases "fs_files fs nm")
      (simp_all add: joblog_write_entry_def new_log_name_ok [OF nm fz'(1)] fopen_a_def fz' open_stream_def
        free_str_def fprintf_def fclose_def Let_def)
qed

lemma joblog_write_ok:
  assumes nm: "log_named p nm" and fz: "log_calls_ok fz" and j: "loggable j" and ok: "log_ok nm fs"
  shows "\<exists>fs'. joblog_write_entry fz (Ptr p) (Ptr j) fs = Some fs' \<and> log_ok nm fs' \<and>
    log_of nm fs' = log_of nm fs @ [job_line j] \<and>
    fs' = fs\<lparr>fs_files := (fs_files fs)(nm := fs_files fs' nm)\<rparr>"
proof -
  let ?c = "case fs_files fs nm of None \<Rightarrow> [] | Some c \<Rightarrow> c"
  have out: "fs_out fs = Directory" using ok by (simp add: log_ok_def)
  have "log_form []" by (simp add: log_form_def log_text_def)
  then have c: "log_form ?c" using ok by (auto simp: log_ok_def split: option.splits)
  have lines: "log_lines ?c = log_of nm fs" by (auto simp: log_of_def split: option.splits)
  have "job_ok j" using j by (simp add: loggable_def)
  then have "c_str (j_label j) = Some (job_str j)" by (rule job_ok_label)
  from joblog_write_text [OF nm fz this out] show ?thesis
    using log_form_append [OF c job_line_ok [OF j]] out lines
    by (simp add: log_entry_line log_ok_def log_of_def)
qed

section \<open>The contract of a log\<close>

text \<open>The body of the usage loop: read into a new string, look at it, free it.\<close>

definition next_entry :: "log_faults \<Rightarrow> proc_t \<Rightarrow> int \<Rightarrow> fs_t \<Rightarrow> (string option \<times> fs_t) option" where
  "next_entry fz p i fs = do {
     (r, fs1) \<leftarrow> joblog_read_entry fz (Ptr p) i NULL fs;
     (case r of
        NULL \<Rightarrow> Some (None, fs1)
      | Ptr b \<Rightarrow> do { s \<leftarrow> c_str b; fs2 \<leftarrow> free_str fs1; Some (Some s, fs2) }) }"

definition write_job :: "log_faults \<Rightarrow> proc_t \<Rightarrow> job_t \<Rightarrow> fs_t \<Rightarrow> fs_t option" where
  "write_job fz p j = joblog_write_entry fz (Ptr p) (Ptr j)"

definition log_limit :: nat where
  "log_limit = 36398027"

lemma log_limit: "k \<le> log_limit \<longleftrightarrow> int k * int JOBLOG_ENTRY_SIZE \<le> INT_MAX"
  by (auto simp: log_limit_def JOBLOG_ENTRY_SIZE_def INT_MAX_def)

text \<open>A process and its log, with library calls that succeed.\<close>

definition logging :: "log_faults \<Rightarrow> proc_t \<Rightarrow> string \<Rightarrow> fs_t \<Rightarrow> bool" where
  "logging fz p nm fs \<longleftrightarrow> log_calls_ok fz \<and> log_named p nm \<and> log_ok nm fs"

text \<open>All but the file itself.\<close>

definition beside :: "string \<Rightarrow> fs_t \<Rightarrow> fs_t" where
  "beside nm fs = fs\<lparr>fs_files := (fs_files fs)(nm := None)\<rparr>"

lemma beside_upd: "t = s\<lparr>fs_files := (fs_files s)(nm := x)\<rparr> \<Longrightarrow> beside nm t = beside nm s"
  by (simp add: beside_def)

lemma beside_errno: "beside nm t = beside nm s \<Longrightarrow> fs_errno t = fs_errno s"
  by (drule arg_cong [of _ _ fs_errno]) (simp add: beside_def)

interpretation jlog: entry_log "logging fz p nm" "log_of nm" "beside nm" loggable job_line log_limit
  "write_job fz p" "next_entry fz p" for fz p nm
proof (unfold_locales, goal_cases)
  case (1 s a)
  then obtain t where t: "joblog_write_entry fz (Ptr p) (Ptr a) s = Some t" "log_ok nm t"
    "log_of nm t = log_of nm s @ [job_line a]" "t = s\<lparr>fs_files := (fs_files s)(nm := fs_files t nm)\<rparr>"
    using joblog_write_ok [of p nm fz a s] unfolding logging_def by blast
  have "beside nm t = beside nm s" using t(4) by (rule beside_upd)
  then show ?case using 1 t(1,2,3) by (simp add: write_job_def logging_def)
next
  case (2 s k)
  have form: "list_all log_line (log_of nm s)"
    using 2(1) by (auto simp: logging_def log_ok_def log_of_def log_form_def split: option.splits)
  show ?case
    using 2 joblog_read_ok(1) [of p nm fz s k] log_line_str [OF form 2(2), of "[]"]
    by (simp add: logging_def log_limit next_entry_def free_str_def)
next
  case (3 s k)
  then show ?case using joblog_read_ok(3) [of p nm fz s k] by (simp add: logging_def log_limit next_entry_def)
qed

section \<open>Properties\<close>

text \<open>A process, a job and a file system for the concrete instances.\<close>

definition log_proc :: proc_t where
  "log_proc = proc_of SEM_CONS_PROC 7 True \<lparr>w_min = 20, w_max = 40\<rparr> \<lparr>w_min = 20, w_max = 40\<rparr>"

definition log_all_ok :: log_faults where
  "log_all_ok = \<lparr>l_stat = True, l_mkdir = True, l_unlink = True, l_name = True, l_open = True, l_seek = True,
     l_read = True, l_dup = True, l_print = True, l_flush = True, l_remove = True, l_err = 5,
     l_local = replicate JOBLOG_ENTRY_SIZE NUL\<rparr>"

definition fs_start :: fs_t where
  "fs_start = \<lparr>fs_errno = 3, fs_out = Directory, fs_files = (\<lambda>_. None), fs_streams = 0, fs_blocks = 0\<rparr>"

lemma log_calls_ok_all [simp]: "log_calls_ok log_all_ok"
  by (simp add: log_calls_ok_def log_all_ok_def)

lemma log_named_proc: "log_named log_proc (log_name_fmt ''sem_cons'' 7)"
proof -
  have "c_str (''sem_cons'' @ NUL # replicate (MAX_NAME_SIZE - 9) NUL) = Some ''sem_cons''"
    by (rule c_str_NUL) (simp add: NUL_def)
  moreover have "pr_type_label log_proc = ''sem_cons'' @ NUL # replicate (MAX_NAME_SIZE - 9) NUL"
    by (simp add: log_proc_def proc_of_def proctype_label_def MAX_NAME_SIZE_def numeral_eq_Suc)
  ultimately have "c_str (pr_type_label log_proc) = Some ''sem_cons''" by simp
  moreover have "sint (pr_id log_proc) = 7" by (simp add: log_proc_def proc_of_def)
  ultimately show ?thesis unfolding log_named_def by metis
qed

lemma loggable_mk_job:
  "NUL \<notin> set s \<Longrightarrow> newline \<notin> set s \<Longrightarrow> 0 \<le> sint i \<Longrightarrow> sint i < 10 ^ 7 \<Longrightarrow> 0 \<le> sint k \<Longrightarrow> sint k < 10 ^ 5 \<Longrightarrow>
   loggable (mk_job i k s)"
proof -
  assume s: "NUL \<notin> set s" "newline \<notin> set s" and n: "0 \<le> sint i" "sint i < 10 ^ 7" "0 \<le> sint k" "sint k < 10 ^ 5"
  have ok: "job_ok (mk_job i k s)" by (rule job_ok_mk_job [OF s(1)])
  have "job_str (mk_job i k s) = take (MAX_NAME_SIZE - 1) (s @ replicate (MAX_NAME_SIZE - 1) PAD_CHAR)"
    using pad_label_str [OF s(1)] job_ok_label(1) [OF ok] by (simp add: mk_job_def)
  moreover have "newline \<notin> set (s @ replicate (MAX_NAME_SIZE - 1) PAD_CHAR)"
    using s(2) by (auto simp: newline_def PAD_CHAR_def)
  ultimately have "newline \<notin> set (job_str (mk_job i k s))" by (metis in_set_takeD)
  then show ?thesis using ok n by (simp add: loggable_def) (simp add: mk_job_def)
qed

text \<open>Writing jobs to a new log and reading it from the start.\<close>

lemma log_pass:
  assumes "log_calls_ok fz" "log_named p nm" "fs_out fs = Directory" "fs_files fs nm = None"
    and "list_all loggable js" "length js \<le> log_limit"
  shows "\<exists>fs1 fs2. write_log (write_job fz p) js fs = Some fs1 \<and> logging fz p nm fs1 \<and>
    log_of nm fs1 = map job_line js \<and>
    read_log (next_entry fz p) 0 fs1 = Some (map job_line js, fs2) \<and> beside nm fs2 = beside nm fs"
proof -
  have start: "logging fz p nm fs" "log_of nm fs = []"
    using assms by (simp_all add: logging_def log_ok_def log_of_def)
  from jlog.write_log_appends [OF start(1) assms(5)] obtain fs1 where
    w: "write_log (write_job fz p) js fs = Some fs1" "logging fz p nm fs1" "log_of nm fs1 = map job_line js"
      "beside nm fs1 = beside nm fs" using start(2) by auto
  from jlog.read_log_from [OF w(2), of 0] obtain fs2 where
    "read_log (next_entry fz p) 0 fs1 = Some (map job_line js, fs2)" "beside nm fs2 = beside nm fs"
    using w assms(6) by auto
  with w show ?thesis by blast
qed

text \<open>
  C18: the jobs a process writes to a new log are read back, all of them, in order and
  as the lines they were written as: by the loop of the usage section, which ends after
  the last one, and entry by entry into a buffer of at least the required size. Neither
  changes anything else: no string or stream is left over, and \<^verbatim>\<open>errno\<close> is as before.
  Assumed: the directory of the logs is there and the log is not; the label of the
  process is a string; no library call of the logging functions fails; each job has a
  padded label without newline, a pid of at most 7 and an id of at most 5 digits, not
  negative as an \<^verbatim>\<open>int\<close> (C39 has an id of 6); and there are at most 36398027 jobs, which
  is where the offset of an entry reaches the largest \<^verbatim>\<open>int\<close>.
\<close>

theorem joblog_roundtrip:
  assumes "log_calls_ok fz" "log_named p nm" "fs_out fs = Directory" "fs_files fs nm = None"
    and "list_all loggable js" "length js \<le> log_limit"
  shows "\<exists>fs1 fs2. write_log (write_job fz p) js fs = Some fs1 \<and>
    read_log (next_entry fz p) 0 fs1 = Some (map job_line js, fs2) \<and> beside nm fs2 = beside nm fs \<and>
    (\<forall>k b. k < length js \<longrightarrow> JOBLOG_ENTRY_SIZE \<le> length b \<longrightarrow>
      (\<exists>b'. joblog_read_entry fz (Ptr p) (int k) (Ptr b) fs1 = Some (Ptr b', fs1) \<and> c_str b' = Some (job_line (js ! k))))"
proof -
  from log_pass [OF assms] obtain fs1 fs2 where
    w: "write_log (write_job fz p) js fs = Some fs1" "logging fz p nm fs1" "log_of nm fs1 = map job_line js"
    and r: "read_log (next_entry fz p) 0 fs1 = Some (map job_line js, fs2)" "beside nm fs2 = beside nm fs" by blast
  have "\<exists>b'. joblog_read_entry fz (Ptr p) (int k) (Ptr b) fs1 = Some (Ptr b', fs1) \<and> c_str b' = Some (job_line (js ! k))"
    if k: "k < length js" and b: "JOBLOG_ENTRY_SIZE \<le> length b" for k b
  proof -
    have lim: "int k * int JOBLOG_ENTRY_SIZE \<le> INT_MAX" using k assms(6) log_limit [of k] by simp
    have "list_all log_line (map job_line js)" using assms(5) job_line_ok by (auto simp: list_all_iff)
    from log_line_str [OF this, of k] k
    have str: "c_str (job_line (js ! k) @ NUL # drop JOBLOG_ENTRY_SIZE b) = Some (job_line (js ! k))" by simp
    have "log_ok nm fs1" using w(2) by (simp add: logging_def)
    from joblog_read_ok(2) [OF assms(2,1) this lim _ b] k w(3) str show ?thesis by simp
  qed
  with w(1) r show ?thesis by blast
qed

lemma joblog_roundtrip_witness:
  "\<exists>fs1 fs2. write_log (write_job log_all_ok log_proc) [mk_job 5 10 ''newjob'', mk_job 5 11 ''a''] fs_start = Some fs1 \<and>
    read_log (next_entry log_all_ok log_proc) 0 fs1
      = Some ([job_line (mk_job 5 10 ''newjob''), job_line (mk_job 5 11 ''a'')], fs2) \<and> fs_errno fs2 = 3"
proof -
  have "loggable (mk_job 5 10 ''newjob'')" "loggable (mk_job 5 11 ''a'')"
    by (rule loggable_mk_job; simp add: NUL_def newline_def)+
  then have js: "list_all loggable [mk_job 5 10 ''newjob'', mk_job 5 11 ''a'']" by simp
  have start: "fs_out fs_start = Directory" "fs_files fs_start nm = None" for nm by (simp_all add: fs_start_def)
  have len: "length [mk_job 5 10 ''newjob'', mk_job 5 11 ''a''] \<le> log_limit" by (simp add: log_limit_def)
  from joblog_roundtrip [OF log_calls_ok_all log_named_proc start js len] obtain fs1 fs2 where
    r: "write_log (write_job log_all_ok log_proc) [mk_job 5 10 ''newjob'', mk_job 5 11 ''a''] fs_start = Some fs1"
    "read_log (next_entry log_all_ok log_proc) 0 fs1 = Some (map job_line [mk_job 5 10 ''newjob'', mk_job 5 11 ''a''], fs2)"
    "beside (log_name_fmt ''sem_cons'' 7) fs2 = beside (log_name_fmt ''sem_cons'' 7) fs_start" by blast
  have "fs_errno fs2 = 3" using beside_errno [OF r(3)] by (simp add: fs_start_def)
  with r(1,2) show ?thesis by auto
qed

lemma job_line_inject:
  assumes "loggable j" "loggable k" "job_line j = job_line k"
  shows "j = k"
proof -
  have len: "length (fmt_d 7 (sint (j_pid j))) = length (fmt_d 7 (sint (j_pid k)))"
    "length (fmt_d 5 (sint (j_id j))) = length (fmt_d 5 (sint (j_id k)))"
    using assms(1,2) by (simp_all add: loggable_def fmt_d_length)
  have "fmt_d 7 (sint (j_pid j)) = fmt_d 7 (sint (j_pid k))" "fmt_d 5 (sint (j_id j)) = fmt_d 5 (sint (j_id k))"
    and str: "job_str j = job_str k"
    using assms(3) len by (simp_all add: job_line_def)
  then have "sint (j_pid j) = sint (j_pid k)" "sint (j_id j) = sint (j_id k)"
    using assms(1,2) fmt_d_inject by (auto simp: loggable_def)
  then have "j_pid j = j_pid k" "j_id j = j_id k" by (auto intro: signed_word_eqI)
  moreover have "j_label j = j_label k"
    using str job_ok_label(3) [of j] job_ok_label(3) [of k] assms(1,2) by (simp add: loggable_def)
  ultimately show ?thesis by simp
qed

text \<open>
  The log tells which jobs were written: two sequences of jobs that fit the
  columns give the same lines only when they are the same jobs in the same order.
\<close>

theorem joblog_lines_faithful:
  assumes "list_all loggable js" "list_all loggable ks"
  shows "map (\<lambda>j. log_entry_fmt (sint (j_pid j)) (sint (j_id j)) (job_str j)) js
      = map (\<lambda>j. log_entry_fmt (sint (j_pid j)) (sint (j_id j)) (job_str j)) ks \<longleftrightarrow> js = ks"
proof -
  have "map job_line js = map job_line ks \<Longrightarrow> js = ks" using assms
  proof (induction js arbitrary: ks)
    case Nil
    then show ?case by simp
  next
    case (Cons j js)
    then show ?case using job_line_inject by (cases ks) auto
  qed
  moreover have "map job_line js = map job_line ks"
    if "map (\<lambda>j. job_line j @ [newline]) js = map (\<lambda>j. job_line j @ [newline]) ks"
  proof -
    have "map butlast (map (\<lambda>j. job_line j @ [newline]) js) = map butlast (map (\<lambda>j. job_line j @ [newline]) ks)"
      using that by (rule arg_cong)
    then show ?thesis by (simp add: o_def)
  qed
  ultimately show ?thesis by (auto simp: log_entry_line)
qed

lemma joblog_lines_faithful_witness:
  "map (\<lambda>j. log_entry_fmt (sint (j_pid j)) (sint (j_id j)) (job_str j)) [mk_job 5 10 ''a'']
    \<noteq> map (\<lambda>j. log_entry_fmt (sint (j_pid j)) (sint (j_id j)) (job_str j)) [mk_job 5 11 ''a'']"
proof -
  have "loggable (mk_job 5 10 ''a'')" "loggable (mk_job 5 11 ''a'')"
    by (rule loggable_mk_job; simp add: NUL_def newline_def)+
  then show ?thesis
    using joblog_lines_faithful [of "[mk_job 5 10 ''a'']" "[mk_job 5 11 ''a'']"] by (simp add: mk_job_def)
qed

lemma get_line_length: "length (get_line n cs) \<le> n"
  by (induction n cs rule: get_line.induct) auto

text \<open>What is read at \<open>59 k\<close> of a file with any contents.\<close>

lemma joblog_read_raw:
  assumes nm: "log_named p nm" and fz: "log_calls_ok fz" and c: "fs_files fs nm = Some c"
    and k: "int k * int JOBLOG_ENTRY_SIZE \<le> INT_MAX" and b: "JOBLOG_ENTRY_SIZE \<le> length b"
    and s: "get_line 58 (drop (59 * k) c) = s" "s \<noteq> []"
  shows "joblog_read_entry fz (Ptr p) (int k) (Ptr b) fs = Some (Ptr (s @ NUL # drop (Suc (length s)) b), fs)"
proof -
  have fz': "l_name fz" "l_open fz" "l_seek fz" "l_read fz" using fz by (simp_all add: log_calls_ok_def)
  have off: "as_int (int k * int JOBLOG_ENTRY_SIZE) = Some (int (59 * k))"
    using k by (simp add: as_int_Some INT_MIN_def JOBLOG_ENTRY_SIZE_def)
  have pos: "nat (59 * int k) = 59 * k" by simp
  have len: "length s < length b" using get_line_length [of 58 "drop (59 * k) c"] s(1) b by (simp add: JOBLOG_ENTRY_SIZE_def)
  have "fgets fz b JOBLOG_ENTRY_SIZE \<lparr>st_name = nm, st_pos = 59 * k, st_pending = []\<rparr>
      (fs\<lparr>fs_streams := Suc (fs_streams fs)\<rparr>)
    = Some (Some (s @ NUL # drop (Suc (length s)) b), fs\<lparr>fs_streams := Suc (fs_streams fs)\<rparr>)"
    using fz' c s len by (simp add: fgets_def JOBLOG_ENTRY_SIZE_def)
  then show ?thesis
    using c by (simp add: pos joblog_read_entry_def new_log_name_ok [OF nm fz'(1)] fopen_r_def free_str_def fseek_def
        open_stream_def joblog_get_entry_def off fz' fclose_def)
qed

lemma job_line_long:
  assumes "job_ok j" "newline \<notin> set (job_str j)" "0 \<le> sint (j_pid j)" "sint (j_pid j) < 10 ^ 7"
    and "length (fmt_d 5 (sint (j_id j))) = 6"
  shows "length (job_line j) = 59" "newline \<notin> set (job_line j)"
  using assms job_ok_label [of j] fmt_d_length [of 7 "sint (j_pid j)"] fmt_d_newline
  by (simp_all add: job_line_def MAX_NAME_SIZE_def) (simp add: newline_def)

lemma dec_nat_length_ge: "10 ^ w \<le> n \<Longrightarrow> w < length (dec_nat n)"
proof (induction w arbitrary: n)
  case 0
  then show ?case by (subst dec_nat.simps) simp
next
  case (Suc w)
  then have "10 ^ w \<le> n div 10" by (simp add: less_eq_div_iff_mult_less_eq mult.commute)
  moreover have "10 * 10 ^ w \<le> n" "(1::nat) \<le> 10 ^ w" using Suc.prems by simp_all
  then have "\<not> n < 10" by linarith
  ultimately show ?case using Suc.IH by (subst dec_nat.simps) simp
qed

lemma fmt_d_long: "0 < w \<Longrightarrow> 10 ^ w \<le> v \<Longrightarrow> v < 10 ^ Suc w \<Longrightarrow> length (fmt_d w v) = Suc w"
proof -
  assume a: "0 < w" "10 ^ w \<le> v" "v < 10 ^ Suc w"
  have "0 < v" using a(2) zero_less_power [of "10::int" w] by linarith
  have "10 ^ w \<le> nat v" using a(2) \<open>0 < v\<close> by (simp add: le_nat_iff)
  moreover have "nat v < 10 ^ Suc w" using a(3) \<open>0 < v\<close> by (simp add: nat_less_iff)
  ultimately have "length (dec_nat (nat v)) = Suc w"
    using dec_nat_length_ge [of w "nat v"] dec_nat_length [of "Suc w" "nat v"] by simp
  then show ?thesis using \<open>0 < v\<close> by (simp add: fmt_d_def zero_pad_def)
qed

text \<open>
  C39: entries are found by the size of a line, so a job whose number needs six
  digits (a valid \<^verbatim>\<open>unsigned int\<close>) breaks the log: its own entry is read back
  without its last character, and the entry of the job written after it as an
  empty line, with a newline the header excludes.
\<close>

theorem joblog_long_id_misaligns:
  assumes "log_calls_ok fz" "log_named p nm" "fs_out fs = Directory" "fs_files fs nm = None"
    and "job_ok j" "newline \<notin> set (job_str j)" "0 \<le> sint (j_pid j)" "sint (j_pid j) < 10 ^ 7"
    and "10 ^ 5 \<le> sint (j_id j)" "sint (j_id j) < 10 ^ 6" "job_ok k" "length b = JOBLOG_ENTRY_SIZE"
  shows "\<exists>fs' b0 b1. write_log (write_job fz p) [j, k] fs = Some fs' \<and>
    joblog_read_entry fz (Ptr p) 0 (Ptr b) fs' = Some (Ptr b0, fs') \<and> c_str b0 = Some (take 58 (job_line j)) \<and>
    joblog_read_entry fz (Ptr p) 1 (Ptr b) fs' = Some (Ptr b1, fs') \<and> c_str b1 = Some [newline]"
proof -
  have line: "length (job_line j) = 59" "newline \<notin> set (job_line j)"
    using job_line_long [OF assms(5,6,7,8)] fmt_d_long [of 5 "sint (j_id j)"] assms(9,10) by simp_all
  let ?c = "job_line j @ newline # job_line k @ [newline]"
  let ?fs = "fs\<lparr>fs_files := (fs_files fs)(nm \<mapsto> ?c)\<rparr>"
  have w: "write_log (write_job fz p) [j, k] fs = Some ?fs"
    using joblog_write_text [OF assms(2,1) job_ok_label(1) [OF assms(5)] assms(3)] assms(3,4)
      joblog_write_text [OF assms(2,1) job_ok_label(1) [OF assms(11)]]
    by (simp add: write_job_def log_entry_line)
  have lim: "int 0 * int JOBLOG_ENTRY_SIZE \<le> INT_MAX" "int 1 * int JOBLOG_ENTRY_SIZE \<le> INT_MAX"
    by (simp_all add: JOBLOG_ENTRY_SIZE_def INT_MAX_def)
  have b: "JOBLOG_ENTRY_SIZE \<le> length b" using assms(12) by simp
  have split: "?c = take 58 (job_line j) @ (drop 58 (job_line j) @ newline # job_line k @ [newline])"
    by (metis append_assoc append_take_drop_id)
  have "newline \<notin> set (take 58 (job_line j))" using line(2) by (meson in_set_takeD)
  from get_line_whole [OF this, of 58] have g0: "get_line 58 (drop (59 * 0) ?c) = take 58 (job_line j)"
    using line(1) by (subst split) simp
  have g1: "get_line 58 (drop (59 * 1) ?c) = [newline]"
    using line(1) by (simp add: numeral_eq_Suc)
  have ne: "take 58 (job_line j) \<noteq> []" using line(1) by auto
  have "NUL \<notin> set (job_line j)"
    using job_str_NUL [of j] fmt_d_NUL by (simp add: job_line_def) (simp add: NUL_def)
  then have n0: "NUL \<notin> set (take 58 (job_line j))" by (meson in_set_takeD)
  have n1: "NUL \<notin> set [newline]" by (simp add: NUL_def newline_def)
  have fs: "fs_files ?fs nm = Some ?c" by simp
  from joblog_read_raw [OF assms(2,1) fs lim(1) b g0 ne] joblog_read_raw [OF assms(2,1) fs lim(2) b g1]
    c_str_NUL [OF n0] c_str_NUL [OF n1] w
  show ?thesis by (auto simp: One_nat_def)
qed

lemma joblog_long_id_misaligns_witness:
  "\<exists>fs' b1. write_log (write_job log_all_ok log_proc) [mk_job 5 100000 ''a'', mk_job 5 1 ''b''] fs_start = Some fs' \<and>
    joblog_read_entry log_all_ok (Ptr log_proc) 1 (Ptr (replicate JOBLOG_ENTRY_SIZE NUL)) fs' = Some (Ptr b1, fs') \<and>
    c_str b1 = Some [newline]"
proof -
  have "loggable (mk_job 5 1 ''a'')" by (rule loggable_mk_job) (simp_all add: NUL_def newline_def)
  then have "newline \<notin> set (job_str (mk_job 5 100000 ''a''))"
    by (simp add: loggable_def) (simp add: mk_job_def job_str_def)
  moreover have "job_ok (mk_job 5 100000 ''a'')" "job_ok (mk_job 5 1 ''b'')"
    by (rule job_ok_mk_job; simp add: NUL_def)+
  moreover have "fs_out fs_start = Directory" "fs_files fs_start nm = None" for nm by (simp_all add: fs_start_def)
  ultimately show ?thesis
    using joblog_long_id_misaligns [OF log_calls_ok_all log_named_proc, of fs_start "mk_job 5 100000 ''a''" "mk_job 5 1 ''b''"
        "replicate JOBLOG_ENTRY_SIZE NUL"]
    by (force simp: mk_job_def)
qed

lemma joblog_delete_ok:
  assumes nm: "log_named p nm" and fz: "l_name fz"
  shows "joblog_delete fz (Ptr p) fs = Some (fs\<lparr>fs_files := if l_remove fz then (fs_files fs)(nm := None) else fs_files fs\<rparr>)"
  by (cases "fs_files fs nm")
    (auto simp: joblog_delete_def new_log_name_ok [OF nm fz] remove_file_def free_str_def fail_def Let_def fun_upd_idem)

text \<open>
  Initialisation deletes the process's log and, in the init process, makes the
  directory when it is missing or is something else. It fails, with the
  \<^verbatim>\<open>errno\<close> of \<^verbatim>\<open>mkdir\<close>, exactly when that call does; a log that cannot be
  deleted is no failure and stays. A NULL process is \<^verbatim>\<open>EINVAL\<close>.
\<close>

theorem joblog_init_spec:
  assumes "log_named p nm" "l_name fz" "l_stat fz" "l_unlink fz"
  shows "joblog_init fz NULL fs = Some (- 1, fs\<lparr>fs_errno := EINVAL\<rparr>) \<and>
    (\<exists>r fs'. joblog_init fz (Ptr p) fs = Some (r, fs') \<and>
      (r = 0 \<longleftrightarrow> \<not> pr_is_init p \<or> fs_out fs = Directory \<or> l_mkdir fz) \<and>
      (r \<noteq> 0 \<longrightarrow> r = - 1 \<and> fs_errno fs' = l_err fz) \<and>
      (r = 0 \<and> pr_is_init p \<longrightarrow> fs_out fs' = Directory) \<and>
      fs_files fs' = (if l_remove fz then (fs_files fs)(nm := None) else fs_files fs) \<and>
      fs_streams fs' = fs_streams fs \<and> fs_blocks fs' = fs_blocks fs)"
  using assms(2,3,4)
  by (cases "pr_is_init p"; cases "fs_out fs"; cases "l_mkdir fz")
    (simp_all add: joblog_init_def joblog_delete_ok [OF assms(1)] stat_out_def mkdir_out_def unlink_out_def fail_def)

lemma joblog_init_spec_witness:
  "\<exists>fs'. joblog_init log_all_ok (Ptr log_proc) (fs_start\<lparr>fs_out := Absent\<rparr>) = Some (0, fs') \<and> fs_out fs' = Directory"
  using joblog_init_spec [OF log_named_proc, of log_all_ok "fs_start\<lparr>fs_out := Absent\<rparr>"]
  by (auto simp: log_all_ok_def log_proc_def proc_of_def)

text \<open>Different processes have different logs.\<close>

lemma proctype_label_end: "\<exists>s c. proctype_label t = s @ [c] \<and> (c = CHR ''s'' \<or> c = CHR ''d'')"
  by (cases t) (simp_all add: proctype_label_def)

lemma dec_nat_digits: "c \<in> set (dec_nat n) \<Longrightarrow> \<exists>k < 10. c = digit k"
proof (induction n rule: dec_nat.induct)
  case (1 n)
  show ?case
  proof (cases "n < 10")
    case True
    then show ?thesis using 1 by (subst (asm) dec_nat.simps) auto
  next
    case False
    have last: "\<exists>k < 10. digit (n mod 10) = digit k" by (rule exI [of _ "n mod 10"]) simp
    have "c \<in> set (dec_nat (n div 10)) \<or> c = digit (n mod 10)"
      using "1.prems" False by (subst (asm) dec_nat.simps) auto
    then show ?thesis using "1.IH" [OF False] last by blast
  qed
qed

lemma fmt_d_digits: "0 \<le> v \<Longrightarrow> c \<in> set (fmt_d w v) \<Longrightarrow> (of_char c :: nat) < 58"
proof -
  assume v: "0 \<le> v" and c: "c \<in> set (fmt_d w v)"
  then have "c = CHR ''0'' \<or> c \<in> set (dec_nat (nat v))" by (auto simp: fmt_d_def zero_pad_def split: if_splits)
  then show ?thesis
  proof
    assume "c \<in> set (dec_nat (nat v))"
    then obtain k where "k < 10" "c = digit k" using dec_nat_digits by blast
    then show ?thesis using digit_value [of k] by (simp add: digit_def)
  qed simp
qed

text \<open>A text is split uniquely into a part that ends in no digit and a number.\<close>

lemma label_number_split:
  assumes "\<And>c. c \<in> set n \<Longrightarrow> (of_char c :: nat) < 58" "\<And>c. c \<in> set n' \<Longrightarrow> (of_char c :: nat) < 58"
    and "58 \<le> (of_char c :: nat)" "58 \<le> (of_char c' :: nat)" "s @ c # n = s' @ c' # n'"
  shows "s @ [c] = s' @ [c'] \<and> n = n'"
proof -
  let ?P = "\<lambda>c. (of_char c :: nat) < 58"
  have t: "takeWhile ?P (rev (r @ d # m)) = rev m" if "\<And>c. c \<in> set m \<Longrightarrow> ?P c" "58 \<le> (of_char d :: nat)" for r m :: string and d
  proof -
    have "takeWhile ?P (rev m @ (d # rev r)) = rev m @ takeWhile ?P (d # rev r)"
      by (rule takeWhile_append2) (use that(1) in simp)
    then show ?thesis using that(2) by simp
  qed
  have "takeWhile ?P (rev (s @ c # n)) = rev n" "takeWhile ?P (rev (s' @ c' # n')) = rev n'"
    by (rule t; use assms(1-4) in blast)+
  then have "n = n'" using assms(5) by simp
  then show ?thesis using assms(5) by simp
qed

lemma log_name_inject:
  assumes "log_name_fmt (proctype_label t) i = log_name_fmt (proctype_label u) k" "0 \<le> i" "0 \<le> k"
  shows "t = u \<and> i = k"
proof -
  obtain s c where t: "proctype_label t = s @ [c]" "58 \<le> (of_char c :: nat)"
    using proctype_label_end [of t] by auto
  obtain s' c' where u: "proctype_label u = s' @ [c']" "58 \<le> (of_char c' :: nat)"
    using proctype_label_end [of u] by auto
  have "proctype_label t @ fmt_d 7 i = proctype_label u @ fmt_d 7 k"
    using assms(1) by (simp add: log_name_fmt_def)
  with t(1) u(1) have eq: "s @ c # fmt_d 7 i = s' @ c' # fmt_d 7 k" by simp
  have "s @ [c] = s' @ [c'] \<and> fmt_d 7 i = fmt_d 7 k"
    by (rule label_number_split [OF _ _ t(2) u(2) eq]) (use fmt_d_digits assms in blast)+
  then have "proctype_label t = proctype_label u" "i = k"
    using t(1) u(1) fmt_d_inject [OF assms(2,3), of 7] by simp_all
  then show ?thesis by (cases t; cases u) (simp_all add: proctype_label_def)
qed

text \<open>
  Every process has its own log: two processes share a file only when they
  have the same type and number, so writing or deleting a process's log leaves
  the logs of all others as they are. The numbers are those of processes, which
  are not negative, and the labels those \<^verbatim>\<open>proc_new\<close> sets.
\<close>

theorem joblog_own_file:
  assumes "c_str (pr_type_label p) = Some (proctype_label (pr_type p))" "0 \<le> sint (pr_id p)" "log_named p nm"
    and "c_str (pr_type_label q) = Some (proctype_label (pr_type q))" "0 \<le> sint (pr_id q)" "log_named q nm'"
    and "pr_type p \<noteq> pr_type q \<or> pr_id p \<noteq> pr_id q"
    and "log_calls_ok fz" "fs_out fs = Directory" "c_str (j_label j) = Some l"
  shows "\<exists>fs1 fs2. joblog_write_entry fz (Ptr p) (Ptr j) fs = Some fs1 \<and> fs_files fs1 nm' = fs_files fs nm' \<and>
    joblog_delete fz (Ptr p) fs1 = Some fs2 \<and> fs_files fs2 nm' = fs_files fs nm'"
proof -
  have nm: "nm = log_name_fmt (proctype_label (pr_type p)) (sint (pr_id p))"
    "nm' = log_name_fmt (proctype_label (pr_type q)) (sint (pr_id q))"
    using assms(1,3,4,6) by (auto simp: log_named_def)
  have "nm \<noteq> nm'"
  proof
    assume "nm = nm'"
    then have "pr_type p = pr_type q" "sint (pr_id p) = sint (pr_id q)"
      using nm log_name_inject [OF _ assms(2,5)] by auto
    then show False using assms(7) by (auto intro: signed_word_eqI)
  qed
  moreover have "l_name fz" using assms(8) by (simp add: log_calls_ok_def)
  ultimately show ?thesis
    using joblog_write_text [OF assms(3,8,10,9)] joblog_delete_ok [OF assms(3), of fz] by simp
qed

lemma c_str_proc_of: "c_str (pr_type_label (proc_of t i b cw nw)) = Some (proctype_label t)"
proof -
  have "NUL \<notin> set (proctype_label t)" by (cases t) (simp_all add: proctype_label_def NUL_def)
  moreover have "length (proctype_label t) < MAX_NAME_SIZE" by (cases t) (simp_all add: proctype_label_def MAX_NAME_SIZE_def)
  then have "pr_type_label (proc_of t i b cw nw) = proctype_label t @ NUL # replicate (MAX_NAME_SIZE - 1 - length (proctype_label t)) NUL"
    by (simp add: proc_of_def flip: replicate_Suc)
  ultimately show ?thesis using c_str_NUL by metis
qed

lemma joblog_own_file_witness:
  "\<exists>fs1. joblog_write_entry log_all_ok (Ptr log_proc) (Ptr (mk_job 5 10 ''a'')) fs_start = Some fs1 \<and>
    fs_files fs1 (log_name_fmt ''sem_prod'' 7) = None"
proof -
  let ?q = "proc_of SEM_PROD_PROC 7 True \<lparr>w_min = 20, w_max = 40\<rparr> \<lparr>w_min = 20, w_max = 40\<rparr>"
  have q: "c_str (pr_type_label ?q) = Some (proctype_label (pr_type ?q))"
    "c_str (pr_type_label log_proc) = Some (proctype_label (pr_type log_proc))"
    unfolding log_proc_def by (simp_all only: c_str_proc_of) (simp_all add: proc_of_def)
  have ids: "sint (pr_id ?q) = 7" "sint (pr_id log_proc) = 7" "pr_type log_proc \<noteq> pr_type ?q"
    by (simp_all add: proc_of_def log_proc_def)
  have "proctype_label (pr_type ?q) = ''sem_prod''" by (simp add: proc_of_def proctype_label_def)
  then have named: "log_named ?q (log_name_fmt ''sem_prod'' 7)" using q(1) ids(1) by (auto simp: log_named_def)
  have "c_str (j_label (mk_job 5 10 ''a'')) = Some (job_str (mk_job 5 10 ''a''))"
    by (rule job_ok_label(1)) (rule job_ok_mk_job, simp add: NUL_def)
  moreover have "fs_out fs_start = Directory" "fs_files fs_start nm = None" for nm by (simp_all add: fs_start_def)
  ultimately show ?thesis
    using joblog_own_file [OF q(2) _ log_named_proc q(1) _ named _ log_calls_ok_all, of fs_start] ids by force
qed



text \<open>
  The failures of writing. Missing arguments and a file that cannot be opened
  change nothing. When printing fails the file keeps its contents, but an empty
  one has been made if there was none; when the data cannot be written out as the
  stream is closed, the entry is lost and \<^verbatim>\<open>errno\<close> is not restored.
\<close>

theorem joblog_write_failures:
  assumes "log_named p nm" "l_name fz" "c_str (j_label j) = Some l"
  shows "joblog_write_entry fz NULL (Ptr j) fs = Some fs \<and> joblog_write_entry fz (Ptr p) NULL fs = Some fs \<and>
    (\<not> l_open fz \<or> fs_files fs nm = None \<and> fs_out fs \<noteq> Directory \<longrightarrow> joblog_write_entry fz (Ptr p) (Ptr j) fs = Some fs) \<and>
    (l_open fz \<and> fs_out fs = Directory \<and> \<not> (l_print fz \<and> l_flush fz) \<longrightarrow>
      joblog_write_entry fz (Ptr p) (Ptr j) fs = Some (fs\<lparr>
        fs_files := (fs_files fs)(nm \<mapsto> (case fs_files fs nm of None \<Rightarrow> [] | Some c \<Rightarrow> c)),
        fs_errno := (if l_print fz then l_err fz else fs_errno fs)\<rparr>))"
proof -
  have "log_entry_fmt (sint (j_pid j)) (sint (j_id j)) l \<noteq> []" by (simp add: log_entry_fmt_def)
  then show ?thesis
    using assms(2,3)
    by (cases "fs_files fs nm")
      (auto simp: joblog_write_entry_def new_log_name_ok [OF assms(1)] fopen_a_def open_stream_def
        free_str_def fprintf_def fclose_def fail_def Let_def map_upd_triv)
qed

lemma joblog_write_failures_witness:
  "\<exists>fs'. joblog_write_entry (log_all_ok\<lparr>l_flush := False\<rparr>) (Ptr log_proc) (Ptr (mk_job 5 10 ''a'')) fs_start = Some fs' \<and>
    fs_files fs' (log_name_fmt ''sem_cons'' 7) = Some [] \<and> fs_errno fs' = 5"
proof -
  have "c_str (j_label (mk_job 5 10 ''a'')) = Some (job_str (mk_job 5 10 ''a''))"
    by (rule job_ok_label(1)) (rule job_ok_mk_job, simp add: NUL_def)
  then show ?thesis
    using joblog_write_failures [OF log_named_proc, of "log_all_ok\<lparr>l_flush := False\<rparr>" _ _ fs_start]
    by (simp add: log_all_ok_def fs_start_def)
qed

end
