(* ===== verification/Log_Contract.thy ===== *)
theory Log_Contract
  imports Joblog
begin

text \<open>
  What \<^verbatim>\<open>joblog.h\<close> promises, as a transition system: the logs are one list of lines
  for each process, and every function of the interface is an operation on them. Any
  sequence of calls of any processes meets it, each with library calls that may
  fail where the functions handle the failure as documented.
\<close>

section \<open>The contract\<close>

















section \<open>Runs of calls\<close>




section \<open>The functions\<close>


definition log_path :: "proctype \<times> nat \<Rightarrow> string" where
  "log_path k = log_name_fmt (proctype_label (fst k)) (int (snd k))"



lemma log_path_inject [simp]: "log_path k = log_path k' \<longleftrightarrow> k = k'"
  using log_name_inject [of "fst k" "int (snd k)" "fst k'" "int (snd k')"] by (auto simp: log_path_def prod_eq_iff)






section \<open>Each function meets it\<close>













end
