(* ===== verification/Sem_Contract.thy ===== *)
theory Sem_Contract
  imports Sem_Jobqueue
begin

text \<open>
  The contract of \<^verbatim>\<open>sem_jobqueue.h\<close>: to its callers the semaphore queue is one
  queue whose operations take effect at once, some time between the call and the
  return, although the processes run interleaved (linearizability). The state of
  the contract is a list of jobs, the number of units that enqueues of NULL added
  without a job and, for every process, whether it is in a call
  and whether that call has taken effect; the concurrent states of theory
  \<open>Sem_Jobqueue\<close> are mapped to it by a function, and each of their steps to the
  events of the contract it stands for.
\<close>

section \<open>The contract\<close>

text \<open>
  What a call does to the list of jobs and the number \<open>n\<close> of units without a job, and
  what it returns. A job takes a slot, a unit without a job keeps one free, and
  there are 127. An enqueue waits until there is room for a unit, and a dequeue until
  there is one, so neither takes effect on a full or an empty queue, except that a
  dequeue may get the unit of an enqueue of NULL when there is no job. \<open>ok\<close> tells
  whether there is memory for a copy to a new job, which only a caller without a
  destination of its own needs: a dequeue takes the job even when it has none.
\<close>

definition copy_result :: "bool \<Rightarrow> job_t option \<Rightarrow> sem_result" where
  "copy_result ok r = R_job (if ok then r else None)"

definition sem_spec :: "sem_call \<Rightarrow> bool \<Rightarrow> job_t list \<times> nat \<Rightarrow> (sem_result \<times> job_t list \<times> nat) option" where
  "sem_spec c ok = (\<lambda>(xs, n). case c of
     Enqueue j \<Rightarrow> do {
       require (length xs + n < QUEUE_SIZE - 1);
       Some (R_void, enqueue_spec (QUEUE_SIZE - 1) (map_option copied j) xs, if j = None then Suc n else n) }
   | Dequeue d \<Rightarrow> do {
       require (ok \<or> d = NULL);
       if is_empty_spec xs then do { require (0 < n); Some (R_job None, xs, n - 1) }
       else (let (r, ys) = dequeue_spec xs in Some (copy_result ok r, ys, n)) }
   | Observe Is_empty \<Rightarrow> Some (R_bool (is_empty_spec xs), xs, n)
   | Observe Is_full \<Rightarrow> Some (R_bool (is_full_spec (QUEUE_SIZE - 1) xs), xs, n)
   | Observe (Peekhead d) \<Rightarrow> do { require (ok \<or> d = NULL); Some (copy_result ok (peekhead_spec xs), xs, n) }
   | Observe (Peektail d) \<Rightarrow> do { require (ok \<or> d = NULL); Some (copy_result ok (peektail_spec xs), xs, n) })"

text \<open>What a call returns when it fails (a failed wait, or a NULL queue): it has no effect.\<close>

definition sem_failed :: "sem_call \<Rightarrow> sem_result" where
  "sem_failed c = (case c of
     Enqueue _ \<Rightarrow> R_void
   | Dequeue _ \<Rightarrow> R_job None
   | Observe Is_empty \<Rightarrow> R_bool True
   | Observe Is_full \<Rightarrow> R_bool True
   | Observe (Peekhead _) \<Rightarrow> R_job None
   | Observe (Peektail _) \<Rightarrow> R_job None)"

text \<open>
  What happens, seen from outside: a call, its effect (and whether a copy it makes
  gets memory), its return.
\<close>

datatype sem_action = Invoke nat sem_call | Effect nat bool | Return nat sem_result

datatype phase = Ready | Called sem_call | Done sem_result

type_synonym contract = "(nat \<Rightarrow> phase) \<times> job_t list \<times> nat"

text \<open>The actions the contract allows: the effect is between call and return, and at most one.\<close>

fun contract_step :: "contract \<Rightarrow> sem_action \<Rightarrow> contract option" where
  "contract_step (ph, xs) (Invoke p c) = do {
     require (ph p = Ready);
     Some (ph(p := Called c), xs) }"
| "contract_step (ph, xs) (Effect p ok) = (case ph p of
     Called c \<Rightarrow> do { (r, ys) \<leftarrow> sem_spec c ok xs; Some (ph(p := Done r), ys) }
   | _ \<Rightarrow> None)"
| "contract_step (ph, xs) (Return p r) = do {
     require (case ph p of Ready \<Rightarrow> False | Called c \<Rightarrow> r = sem_failed c | Done v \<Rightarrow> r = v);
     Some (ph(p := Ready), xs) }"

fun contract_run :: "contract \<Rightarrow> sem_action list \<Rightarrow> contract option" where
  "contract_run u [] = Some u"
| "contract_run u (a # as) = do { v \<leftarrow> contract_step u a; contract_run v as }"

lemma contract_run_append:
  "contract_run u (as @ bs) = do { v \<leftarrow> contract_run u as; contract_run v bs }"
  by (induction as arbitrary: u) (auto split: bind_splits)

section \<open>The abstraction\<close>

text \<open>
  The phase of a process at a location: the effect is the store of the new tail,
  the store of the new head, the test that finds no job to store or to take, or the
  observer's reading.
\<close>

fun phase_of :: "sem_loc \<Rightarrow> phase" where
  "phase_of (Enq_wait_empty j) = Called (Enqueue j)" | "phase_of (Enq_wait_mutex j) = Called (Enqueue j)"
| "phase_of (Enq_work j) = Called (Enqueue j)" | "phase_of (Enq_test j) = Called (Enqueue j)"
| "phase_of (Enq_copy x) = Called (Enqueue (Some x))" | "phase_of (Enq_tail x) = Called (Enqueue (Some x))"
| "phase_of Enq_post_mutex = Done R_void" | "phase_of Enq_post_full = Done R_void"
| "phase_of (Deq_wait_full d) = Called (Dequeue d)" | "phase_of (Deq_wait_mutex d) = Called (Dequeue d)"
| "phase_of (Deq_test d) = Called (Dequeue d)" | "phase_of (Deq_copy d) = Called (Dequeue d)"
| "phase_of (Deq_init d x ok) = Called (Dequeue d)" | "phase_of (Deq_head d x ok) = Called (Dequeue d)"
| "phase_of (Deq_work r) = Done (R_job r)" | "phase_of (Deq_post_mutex r) = Done (R_job r)"
| "phase_of (Deq_post_empty r) = Done (R_job r)" | "phase_of (Obs_wait_mutex k) = Called (Observe k)"
| "phase_of (Obs_work k) = Called (Observe k)" | "phase_of (Obs_read k) = Called (Observe k)"
| "phase_of (Obs_post r) = Done r" | "phase_of (Idle r) = Ready"

definition phases :: "sem_sys \<Rightarrow> nat \<Rightarrow> phase" where
  "phases s p = (if p < length (ss_loc s) then phase_of (ss_loc s ! p) else Ready)"

definition abs_queue :: "sem_sys \<Rightarrow> contract" where
  "abs_queue s = (phases s, queued s, ss_null s)"

text \<open>
  The actions a step of process \<open>p\<close> from location \<open>l\<close> to \<open>v\<close> stands for: the effect
  when the phase turns to \<open>Done\<close>, with memory for a copy unless the \<^verbatim>\<open>malloc\<close> of the
  dequeue has failed or that of the observer fails.
\<close>

fun has_memory :: "sem_loc \<Rightarrow> sem_event \<Rightarrow> bool" where
  "has_memory (Deq_head d x ok) e = ok" | "has_memory l e = (e \<noteq> Fail)"

fun takes_effect :: "phase \<Rightarrow> phase \<Rightarrow> bool" where
  "takes_effect (Called c) (Done r) = True" | "takes_effect _ _ = False"

definition step_actions :: "nat \<times> sem_event \<Rightarrow> sem_loc \<Rightarrow> sem_loc \<Rightarrow> sem_action list" where
  "step_actions pe l v =
     (case snd pe of Call q c \<Rightarrow> [Invoke (fst pe) c]
      | e \<Rightarrow> if takes_effect (phase_of l) (phase_of v) then [Effect (fst pe) (has_memory l e)] else []) @
     (case v of Idle r \<Rightarrow> [Return (fst pe) r] | _ \<Rightarrow> [])"

text \<open>The actions of a run of the system.\<close>

fun actions :: "sem_sys \<Rightarrow> (nat \<times> sem_event) list \<Rightarrow> sem_action list" where
  "actions s [] = []"
| "actions s (pe # pes) =
     (if sem_legal s pe then (case sem_step pe s of
        None \<Rightarrow> []
      | Some t \<Rightarrow> step_actions pe (ss_loc s ! fst pe) (ss_loc t ! fst pe) @ actions t pes)
      else actions s pes)"

section \<open>Simulation\<close>

lemma phases_set_loc:
  "p < length (ss_loc s) \<Longrightarrow> ss_loc t = ss_loc s \<Longrightarrow> phases (set_loc p v t) = (phases s)(p := phase_of v)"
  by (auto simp: phases_def fun_eq_iff nth_list_update)

lemma phases_at: "p < length (ss_loc s) \<Longrightarrow> phases s p = phase_of (ss_loc s ! p)"
  by (simp add: phases_def)

lemma queued_set_loc [simp]: "queued (set_loc p v s) = queued s"
  by (simp add: queued_def)

lemma queued_cong: "ss_in t = ss_in s \<Longrightarrow> ss_out t = ss_out s \<Longrightarrow> queued t = queued s"
  by (simp add: queued_def)

text \<open>A step that has no effect and does not end the call.\<close>

lemma sim_stutter:
  assumes "p < length (ss_loc s)" "ss_loc t = ss_loc s" "phase_of v = phase_of (ss_loc s ! p)"
    "ss_in t = ss_in s" "ss_out t = ss_out s" "ss_null t = ss_null s"
  shows "abs_queue (set_loc p v t) = abs_queue s"
  using assms phases_set_loc [OF assms(1,2), of v] queued_cong [OF assms(4,5)]
  by (simp add: abs_queue_def phases_at [symmetric] fun_upd_idem)

lemma sim_return:
  assumes "p < length (ss_loc s)" "ss_loc t = ss_loc s"
    "phase_of (ss_loc s ! p) = Done r \<or> (\<exists>c. phase_of (ss_loc s ! p) = Called c \<and> r = sem_failed c)"
    "ss_in t = ss_in s" "ss_out t = ss_out s" "ss_null t = ss_null s"
  shows "contract_run (abs_queue s) [Return p r] = Some (abs_queue (set_loc p (Idle r) t))"
  using assms phases_set_loc [OF assms(1,2), of "Idle r"] queued_cong [OF assms(4,5)]
  by (auto simp: abs_queue_def phases_at)

lemma sim_effect:
  assumes "p < length (ss_loc s)" "ss_loc t = ss_loc s" "phase_of (ss_loc s ! p) = Called c"
    "sem_spec c ok (queued s, ss_null s) = Some (r, queued t, ss_null t)" "phase_of v = Done r"
  shows "contract_run (abs_queue s) [Effect p ok] = Some (abs_queue (set_loc p v t))"
  using assms phases_set_loc [OF assms(1,2), of v] by (simp add: abs_queue_def phases_at)

lemma sim_call:
  assumes "p < length (ss_loc s)" "is_idle (ss_loc s ! p)"
  shows "contract_run (abs_queue s) (step_actions (p, Call q c) l (call_loc q c)) = Some (abs_queue (set_loc p (call_loc q c) s))"
proof -
  have "phases s p = Ready" using assms by (cases "ss_loc s ! p") (simp_all add: phases_at is_idle_def)
  then show ?thesis
    using phases_set_loc [OF assms(1) refl, of "call_loc q c"] assms(1)
    by (cases c; cases q)
      (auto simp: abs_queue_def step_actions_def call_loc_def sem_failed_def observe_fail_def split: observer.split)
qed

lemma observe_fail_failed: "observe_fail k = sem_failed (Observe k)"
  by (cases k) (simp_all add: sem_failed_def observe_fail_def)

text \<open>The spec of the observers.\<close>

lemma observed_spec: "sem_spec (Observe k) True (xs, n) = Some (observed k xs, xs, n)"
  by (cases k) (simp_all add: sem_spec_def observed_def copy_result_def is_empty_spec_def is_full_spec_def
      peekhead_spec_def peektail_spec_def)

lemma sim_fail_wait:
  assumes "p < length (ss_loc s)" "is_wait (ss_loc s ! p)" "call_fails p s (ss_loc s ! p) = Some t"
  shows "contract_run (abs_queue s) (step_actions (p, Fail) (ss_loc s ! p) (ss_loc t ! p)) = Some (abs_queue t)"
proof -
  note ret = sim_return [OF assms(1)]
  show ?thesis
  proof (cases "ss_loc s ! p")
    case (Enq_wait_mutex j)
    then show ?thesis
      using assms(1,3) ret [of "s\<lparr>ss_lost_empty := Suc (ss_lost_empty s)\<rparr>" R_void]
      by (auto simp: call_fails_def step_actions_def sem_failed_def)
  next
    case (Deq_wait_mutex d)
    then show ?thesis
      using assms(1,3) ret [of "s\<lparr>ss_lost_full := Suc (ss_lost_full s)\<rparr>" "R_job None"]
      by (auto simp: call_fails_def step_actions_def sem_failed_def)
  next
    case (Obs_wait_mutex k)
    then show ?thesis
      using assms(1,3) ret [of s "sem_failed (Observe k)"]
      by (auto simp: call_fails_def step_actions_def observe_fail_failed)
  next
    case (Enq_wait_empty j)
    then show ?thesis
      using assms(1,3) ret [of s R_void] by (auto simp: call_fails_def step_actions_def sem_failed_def)
  next
    case (Deq_wait_full d)
    then show ?thesis
      using assms(1,3) ret [of s "R_job None"] by (auto simp: call_fails_def step_actions_def sem_failed_def)
  qed (use assms(2) in \<open>simp_all add: is_wait_def\<close>)
qed

lemma sim_fail_alloc:
  assumes p: "p < length (ss_loc s)" and a: "is_alloc (ss_loc s ! p)" and t: "call_fails p s (ss_loc s ! p) = Some t"
  shows "contract_run (abs_queue s) (step_actions (p, Fail) (ss_loc s ! p) (ss_loc t ! p)) = Some (abs_queue t)"
proof (cases "ss_loc s ! p")
  case (Deq_copy d)
  then show ?thesis
    using t p sim_stutter [OF p, of s "Deq_init d x False" for x]
    by (auto simp: call_fails_def step_actions_def bind_eq_Some_conv)
next
  case (Obs_read k)
  then have k: "k = Peekhead NULL \<or> k = Peektail NULL" using a by (auto simp: is_alloc_def)
  have t': "t = set_loc p (Obs_post (R_job None)) s"
    using t Obs_read k by (auto simp: call_fails_def observe_fail_def bind_eq_Some_conv)
  have "sem_spec (Observe k) False (queued s, ss_null s) = Some (R_job None, queued s, ss_null s)"
    using k by (auto simp: sem_spec_def copy_result_def)
  then have "contract_run (abs_queue s) [Effect p False] = Some (abs_queue t)"
    unfolding t' by (intro sim_effect [OF p refl]) (use Obs_read in simp_all)
  then show ?thesis using Obs_read p t' by (simp add: step_actions_def)
qed (use a in \<open>simp_all add: is_alloc_def\<close>)

lemma sem_rel_length: "sem_rel jq s \<Longrightarrow> length (ss_out s) \<le> length (ss_in s)"
  using sem_rel_log [of jq s] by simp

text \<open>Each statement of a process whose call is not blocked.\<close>

lemma sim_enq:
  assumes rel: "sem_rel jq s" and p: "p < length (ss_loc s)" and enq: "is_enq (ss_loc s ! p)"
    and t: "enq_go p s (ss_loc s ! p) = Some t"
  shows "contract_run (abs_queue s) (step_actions (p, Go) (ss_loc s ! p) (ss_loc t ! p)) = Some (abs_queue t)"
proof -
  note stutter = sim_stutter [OF p]
  have room: "enq_tok (ss_loc s ! p) \<Longrightarrow> length (queued s) + ss_null s < QUEUE_SIZE - 1"
    using sem_rel_room [OF rel p] sem_rel_queued [OF rel] by simp
  show ?thesis
  proof (cases "ss_loc s ! p")
    case (Enq_tail x)
    then have spec: "sem_spec (Enqueue (Some x)) True (queued s, ss_null s) = Some (R_void, queued s @ [copied x], ss_null s)"
      using room by (simp add: sem_spec_def enqueue_spec_def is_full_spec_def)
    obtain u where u: "t = set_loc p Enq_post_mutex u" "ss_loc u = ss_loc s" "queued u = queued s @ [copied x]"
      "ss_null u = ss_null s"
      using t Enq_tail sem_rel_length [OF rel] by (auto simp: enq_go_def Let_def bind_eq_Some_conv queued_def)
    have "contract_run (abs_queue s) [Effect p True] = Some (abs_queue t)"
      unfolding u(1) by (rule sim_effect [OF p u(2)]) (use Enq_tail spec u(3,4) in auto)
    then show ?thesis using Enq_tail p u by (simp add: step_actions_def)
  next
    case (Enq_test j)
    show ?thesis
    proof (cases j)
      case None
      let ?u = "s\<lparr>ss_null := Suc (ss_null s)\<rparr>"
      have t': "t = set_loc p Enq_post_mutex ?u" using t Enq_test None by (simp add: enq_go_def)
      have "sem_spec (Enqueue None) True (queued s, ss_null s) = Some (R_void, queued ?u, ss_null ?u)"
        using room Enq_test by (simp add: sem_spec_def enqueue_spec_def queued_def)
      then have "contract_run (abs_queue s) [Effect p True] = Some (abs_queue t)"
        unfolding t' by (intro sim_effect [OF p]) (use Enq_test None in simp_all)
      then show ?thesis using Enq_test None p t' by (simp add: step_actions_def)
    next
      case (Some x)
      have "sem_step (p, Go) s = Some (set_loc p (Enq_copy x) s)"
        by (rule enq_test_room [OF sem_invI [OF rel] p]) (use Enq_test Some in simp)
      then have "t = set_loc p (Enq_copy x) s" using t enq by simp
      then show ?thesis using Enq_test Some p stutter [of s "Enq_copy x"] by (simp add: step_actions_def)
    qed
  next
    case Enq_post_full
    then show ?thesis
      using t p sim_return [OF p, of "s\<lparr>ss_full := Suc (ss_full s)\<rparr>" R_void]
      by (auto simp: enq_go_def step_actions_def)
  qed (use enq t p stutter in \<open>auto simp: is_enq_def enq_go_def step_actions_def Let_def bind_eq_Some_conv\<close>)
qed

lemma sim_deq:
  assumes rel: "sem_rel jq s" and p: "p < length (ss_loc s)"
    and deq: "\<not> is_enq (ss_loc s ! p)" "\<not> is_obs (ss_loc s ! p)" "\<not> is_idle (ss_loc s ! p)"
    and t: "deq_go p s (ss_loc s ! p) = Some t"
  shows "contract_run (abs_queue s) (step_actions (p, Go) (ss_loc s ! p) (ss_loc t ! p)) = Some (abs_queue t)"
proof -
  note stutter = sim_stutter [OF p]
  have holder: "holds (ss_loc s ! p) \<Longrightarrow> read_ok (ss_loc s ! p) jq"
    using sem_rel_holder(2) [OF rel p] by simp
  show ?thesis
  proof (cases "ss_loc s ! p")
    case (Deq_head d x ok)
    have ne: "queued s \<noteq> []" "x = hd (queued s)" "ok \<or> d = NULL"
      using holder sem_rel_loc_ok [OF rel p] Deq_head sem_rel_queued [OF rel] by simp_all
    then have spec: "sem_spec (Dequeue d) ok (queued s, ss_null s) =
        Some (R_job (if ok then Some x else None), tl (queued s), ss_null s)"
      by (simp add: sem_spec_def copy_result_def is_empty_spec_def dequeue_spec_def)
    obtain u where u: "t = set_loc p (Deq_work (if ok then Some x else None)) u" "ss_loc u = ss_loc s"
      "queued u = tl (queued s)" "ss_null u = ss_null s"
      using t Deq_head by (auto simp: deq_go_def Let_def bind_eq_Some_conv queued_def drop_Suc tl_drop)
    have "contract_run (abs_queue s) [Effect p ok] = Some (abs_queue t)"
      unfolding u(1) by (rule sim_effect [OF p u(2)]) (use Deq_head spec u(3,4) in auto)
    then show ?thesis using Deq_head p u by (simp add: step_actions_def)
  next
    case (Deq_test d)
    have go: "sem_step (p, Go) s = Some t" using t Deq_test by (simp add: is_enq_def is_obs_def)
    note test = deq_test_job [OF sem_invI [OF rel] p Deq_test, unfolded go]
    show ?thesis
    proof (cases "queued s = []")
      case True
      let ?u = "s\<lparr>ss_null := ss_null s - 1\<rparr>"
      have t': "t = set_loc p (Deq_work None) ?u" "0 < ss_null s" using test True by simp_all
      have "sem_spec (Dequeue d) True (queued s, ss_null s) = Some (R_job None, queued ?u, ss_null ?u)"
        using True t'(2) by (simp add: sem_spec_def is_empty_spec_def queued_def)
      then have "contract_run (abs_queue s) [Effect p True] = Some (abs_queue t)"
        unfolding t'(1) by (intro sim_effect [OF p]) (use Deq_test in simp_all)
      then show ?thesis using Deq_test p t' by (simp add: step_actions_def)
    next
      case False
      then show ?thesis using test Deq_test p stutter [of s "Deq_copy d"] by (simp add: step_actions_def)
    qed
  next
    case (Deq_post_empty r)
    then show ?thesis
      using t p sim_return [OF p, of "s\<lparr>ss_empty := Suc (ss_empty s)\<rparr>" "R_job r"]
      by (auto simp: deq_go_def step_actions_def)
  qed (use deq t p stutter in \<open>auto simp: is_enq_def is_obs_def is_idle_def deq_go_def step_actions_def Let_def bind_eq_Some_conv\<close>)
qed

lemma sim_obs:
  assumes rel: "sem_rel jq s" and p: "p < length (ss_loc s)" and obs: "is_obs (ss_loc s ! p)"
    and t: "obs_go p s (ss_loc s ! p) = Some t"
  shows "contract_run (abs_queue s) (step_actions (p, Go) (ss_loc s ! p) (ss_loc t ! p)) = Some (abs_queue t)"
proof -
  note stutter = sim_stutter [OF p]
  show ?thesis
  proof (cases "ss_loc s ! p")
    case (Obs_read k)
    have "ss_queue s = jq" using sem_rel_holder(1) [OF rel p] Obs_read by simp
    then have r: "t = set_loc p (Obs_post (observed k (queued s))) s"
      using t Obs_read observe_ok [OF sem_rel_inv [OF rel], of k] sem_rel_queued [OF rel] by (simp add: obs_go_def)
    have "contract_run (abs_queue s) [Effect p True] = Some (abs_queue t)"
      unfolding r by (rule sim_effect [OF p refl]) (use Obs_read observed_spec in auto)
    then show ?thesis using Obs_read p r by (simp add: step_actions_def)
  next
    case (Obs_post r)
    then show ?thesis
      using t p sim_return [OF p, of "s\<lparr>ss_mutex := Suc (ss_mutex s)\<rparr>" r] by (auto simp: obs_go_def step_actions_def)
  qed (use obs t p stutter in \<open>auto simp: is_obs_def obs_go_def step_actions_def\<close>)
qed

lemma sim_step:
  assumes inv: "sem_inv s" and may: "sem_legal s (p, e)" and t: "sem_step (p, e) s = Some t"
  shows "contract_run (abs_queue s) (step_actions (p, e) (ss_loc s ! p) (ss_loc t ! p)) = Some (abs_queue t)"
proof -
  obtain jq where rel: "sem_rel jq s" using inv by (auto simp: sem_inv_def)
  show ?thesis
  proof (cases e)
    case (Call q c)
    then show ?thesis using may t sim_call [of p s q c] by (auto simp: sem_legal_def)
  next
    case Go
    then show ?thesis
      using may t sim_enq [OF rel, of p t] sim_obs [OF rel, of p t] sim_deq [OF rel, of p t]
      by (auto simp: sem_legal_def Let_def split: if_splits)
  next
    case Fail
    then show ?thesis
      using may t sim_fail_wait [of p s t] sim_fail_alloc [of p s t] by (auto simp: sem_legal_def)
  qed
qed

lemma sim_run:
  assumes "sem_inv s"
  shows "\<exists>t. sched_run sem_step sem_legal s pes = Some t \<and> contract_run (abs_queue s) (actions s pes) = Some (abs_queue t)"
  using assms
proof (induction pes arbitrary: s)
  case Nil
  then show ?case by simp
next
  case (Cons pe pes)
  show ?case
  proof (cases "sem_legal s pe")
    case True
    obtain t where t: "sem_step pe s = Some t" "sem_inv t" using sem.step_inv [OF Cons.prems True] by blast
    have "contract_run (abs_queue s) (step_actions pe (ss_loc s ! fst pe) (ss_loc t ! fst pe)) = Some (abs_queue t)"
      using sim_step [OF Cons.prems, of "fst pe" "snd pe" t] True t(1) by simp
    then show ?thesis using Cons.IH [OF t(2)] True t(1) by (simp add: contract_run_append)
  next
    case False
    then show ?thesis using Cons by simp
  qed
qed

section \<open>Properties\<close>

lemma abs_queue_init: "abs_queue (sem_init n) = (\<lambda>_. Ready, [], 0)"
  by (auto simp: abs_queue_def phases_def queued_def sem_init_def fun_eq_iff)

text \<open>
  C1: linearizability. For any number of processes and any schedule, with failing
  waits and mallocs, NULL queues, NULL jobs and NULL destinations (a job that is passed
  must have a NUL in its label, calls with another are skipped), the calls and
  returns of the run are those of the contract: every call that returns a success
  took effect exactly once between its call and its return, as the operation on one
  list of at most 127 jobs, and returned what that operation gives (a dequeue or
  peek to a new job NULL when \<^verbatim>\<open>malloc\<close> fails); a call whose wait failed had no effect
  on the list and returned its failure value; the list is, at every moment, the
  queued jobs. An enqueue of NULL leaves the list alone but
  adds a unit, for which one dequeue may return NULL from the empty list.
\<close>

theorem sem_linearizable:
  "\<exists>t. sched_run sem_step sem_legal (sem_init n) pes = Some t \<and>
    contract_run (\<lambda>_. Ready, [], 0) (actions (sem_init n) pes) = Some (phases t, queued t, ss_null t)"
  using sim_run [OF sem_inv_init, of n pes] by (simp add: abs_queue_init) (simp add: abs_queue_def)

end
