(* ===== verification/Ipc_Jobqueue.thy ===== *)
theory Ipc_Jobqueue
  imports Ipc Jobqueue
begin

text \<open>
  \<^verbatim>\<open>ipc_jobqueue.c\<close>: the job queue in shared memory, for one process at a time
  (theory \<open>Sem_Jobqueue\<close> has its interleavings). The contents of the shared
  objects are the queues of the store (theory \<open>Store\<close>): the address in an
  \<^verbatim>\<open>ipc_t\<close> is the number of a queue. The operations simulate work; the number
  \<^verbatim>\<open>random()\<close> gives them is an argument. They meet the same contract as those of
  \<^verbatim>\<open>jobqueue.c\<close>.
\<close>

section \<open>Operations\<close>

text \<open>\<^verbatim>\<open>sizeof(jobqueue_t)\<close>: three \<^verbatim>\<open>int\<close>s and 128 jobs of 40 bytes.\<close>

definition SIZEOF_JOBQUEUE :: nat where "SIZEOF_JOBQUEUE = 3 * 4 + QUEUE_SIZE * 40"

definition jq_zero :: jobqueue_t where
  "jq_zero = \<lparr>q_head = 0, q_tail = 0, q_buf_size = 0, q_jobs = replicate QUEUE_SIZE job_zero\<rparr>"

definition queue_ops :: "mem shm_ops" where
  "queue_ops = \<lparr>
     ob_new = (\<lambda>m. (m_next m, m\<lparr>m_next := Suc (m_next m), m_queues := (m_queues m)(m_next m \<mapsto> jq_zero)\<rparr>)),
     ob_zero = (\<lambda>n m. put_jq m n jq_zero)\<rparr>"

definition ipc_jobqueue_new ::
  "ipc_faults \<Rightarrow> proc_t ptr \<Rightarrow> mem os \<Rightarrow> (ipc_t ptr \<times> mem os) option" where
  "ipc_jobqueue_new fz proc os = do {
     (ijq, os1) \<leftarrow> ipc_new queue_ops fz proc (Ptr (''ipc_jobq'' @ [NUL])) SIZEOF_JOBQUEUE os;
     (case ijq of
        NULL \<Rightarrow> Some (NULL, os1)
      | Ptr i \<Rightarrow> (case proc of
          NULL \<Rightarrow> None
        | Ptr p \<Rightarrow>
            if pr_is_init p then do {
              m \<leftarrow> jobqueue_init (os_mem os1) (ip_addr i);
              Some (ijq, os1\<lparr>os_mem := m\<rparr>) }
            else Some (ijq, os1))) }"

text \<open>\<^verbatim>\<open>do_critical_work(ijq->proc)\<close>: the sleep it makes, if any, is recorded.\<close>

definition ipc_work :: "int \<Rightarrow> ipc_t \<Rightarrow> mem os \<Rightarrow> mem os option" where
  "ipc_work rnd i os = do {
     req \<leftarrow> do_critical_work rnd (Some (ip_proc i));
     Some (case req of None \<Rightarrow> os | Some t \<Rightarrow> os\<lparr>os_sleeps := os_sleeps os @ [t]\<rparr>) }"

definition ipc_jobqueue_capacity :: "ipc_t ptr \<Rightarrow> mem os \<Rightarrow> 64 word option" where
  "ipc_jobqueue_capacity ijq os = (case ijq of
     NULL \<Rightarrow> Some 0
   | Ptr i \<Rightarrow> jobqueue_capacity (os_mem os) (ip_addr i))"

text \<open>An access of shared memory past the end of the object is undefined (\<^verbatim>\<open>SIGBUS\<close>).\<close>

definition mapped_queue :: "ipc_t \<Rightarrow> mem os \<Rightarrow> nat option" where
  "mapped_queue i os = (case ip_addr i of
     NULL \<Rightarrow> None
   | Ptr n \<Rightarrow> do { require (SIZEOF_JOBQUEUE \<le> os_size os n); Some n })"

definition ipc_jobqueue_dequeue ::
  "int \<Rightarrow> ipc_t ptr \<Rightarrow> mem os \<Rightarrow> job_loc ptr \<Rightarrow> (job_loc ptr \<times> mem os) option" where
  "ipc_jobqueue_dequeue rnd ijq os dst = (case ijq of
     NULL \<Rightarrow> Some (NULL, os)
   | Ptr i \<Rightarrow> do {
       (r, m) \<leftarrow> jobqueue_dequeue (os_mem os) (ip_addr i) dst;
       os1 \<leftarrow> ipc_work rnd i (os\<lparr>os_mem := m\<rparr>);
       Some (r, os1) })"

definition ipc_jobqueue_enqueue :: "int \<Rightarrow> ipc_t ptr \<Rightarrow> mem os \<Rightarrow> job_loc ptr \<Rightarrow> mem os option" where
  "ipc_jobqueue_enqueue rnd ijq os job = (case ijq of
     NULL \<Rightarrow> Some os
   | Ptr i \<Rightarrow> do {
       os1 \<leftarrow> ipc_work rnd i os;
       m \<leftarrow> jobqueue_enqueue (os_mem os1) (ip_addr i) job;
       Some (os1\<lparr>os_mem := m\<rparr>) })"

definition ipc_jobqueue_is_empty :: "int \<Rightarrow> ipc_t ptr \<Rightarrow> mem os \<Rightarrow> (bool \<times> mem os) option" where
  "ipc_jobqueue_is_empty rnd ijq os = (case ijq of
     NULL \<Rightarrow> Some (True, os)
   | Ptr i \<Rightarrow> do {
       os1 \<leftarrow> ipc_work rnd i os;
       b \<leftarrow> jobqueue_is_empty (os_mem os1) (ip_addr i);
       Some (b, os1) })"

definition ipc_jobqueue_is_full :: "int \<Rightarrow> ipc_t ptr \<Rightarrow> mem os \<Rightarrow> (bool \<times> mem os) option" where
  "ipc_jobqueue_is_full rnd ijq os = (case ijq of
     NULL \<Rightarrow> Some (True, os)
   | Ptr i \<Rightarrow> do {
       os1 \<leftarrow> ipc_work rnd i os;
       b \<leftarrow> jobqueue_is_full (os_mem os1) (ip_addr i);
       Some (b, os1) })"

definition ipc_jobqueue_peekhead ::
  "int \<Rightarrow> ipc_t ptr \<Rightarrow> mem os \<Rightarrow> job_loc ptr \<Rightarrow> (job_loc ptr \<times> mem os) option" where
  "ipc_jobqueue_peekhead rnd ijq os dst = (case ijq of
     NULL \<Rightarrow> Some (NULL, os)
   | Ptr i \<Rightarrow> do {
       os1 \<leftarrow> ipc_work rnd i os;
       (r, m) \<leftarrow> jobqueue_peekhead (os_mem os1) (ip_addr i) dst;
       Some (r, os1\<lparr>os_mem := m\<rparr>) })"

definition ipc_jobqueue_peektail ::
  "int \<Rightarrow> ipc_t ptr \<Rightarrow> mem os \<Rightarrow> job_loc ptr \<Rightarrow> (job_loc ptr \<times> mem os) option" where
  "ipc_jobqueue_peektail rnd ijq os dst = (case ijq of
     NULL \<Rightarrow> Some (NULL, os)
   | Ptr i \<Rightarrow> do {
       os1 \<leftarrow> ipc_work rnd i os;
       (r, m) \<leftarrow> jobqueue_peektail (os_mem os1) (ip_addr i) dst;
       Some (r, os1\<lparr>os_mem := m\<rparr>) })"

definition ipc_jobqueue_delete :: "ipc_t ptr \<Rightarrow> mem os \<Rightarrow> mem os option" where
  "ipc_jobqueue_delete ijq os = (case ijq of NULL \<Rightarrow> Some os | Ptr i \<Rightarrow> free_block os)"

section \<open>The queue contract holds\<close>

text \<open>A descriptor whose critical work is within \<^verbatim>\<open>long\<close>, and what \<^verbatim>\<open>random()\<close> may return.\<close>

definition work_ok :: "int \<Rightarrow> proc_t \<Rightarrow> bool" where
  "work_ok rnd p \<longleftrightarrow> 0 \<le> rnd \<and> rnd \<le> RANDOM_MAX \<and> w_max (pr_crit_work p) \<le> LONG_MAX"

definition ijq_ok :: "int \<Rightarrow> ipc_t \<Rightarrow> mem os \<Rightarrow> bool" where
  "ijq_ok rnd i os \<longleftrightarrow> work_ok rnd (ip_proc i) \<and>
     (case ip_addr i of NULL \<Rightarrow> False | Ptr q \<Rightarrow> jq_ok q (os_mem os))"

definition ijq_list :: "ipc_t \<Rightarrow> mem os \<Rightarrow> job_t list" where
  "ijq_list i os = (case ip_addr i of NULL \<Rightarrow> [] | Ptr q \<Rightarrow> jq_list q (os_mem os))"

definition os_var :: "mem os \<Rightarrow> job_loc ptr \<Rightarrow> bool" where
  "os_var os = own_var (os_mem os)"

definition os_item :: "mem os \<Rightarrow> job_loc ptr \<Rightarrow> job_t option" where
  "os_item os = job_item (os_mem os)"

text \<open>The simulated work touches nothing but the record of sleeps, adding \<open>z\<close>.\<close>

definition works :: "int \<Rightarrow> ipc_t \<Rightarrow> timespec list \<Rightarrow> bool" where
  "works rnd i z \<longleftrightarrow> (\<forall>os. ipc_work rnd i os = Some (os\<lparr>os_sleeps := os_sleeps os @ z\<rparr>))"

lemma worksD: "works rnd i z \<Longrightarrow> ipc_work rnd i os = Some (os\<lparr>os_sleeps := os_sleeps os @ z\<rparr>)"
  by (simp add: works_def)

lemma ipc_work_ok:
  assumes "work_ok rnd (ip_proc i)"
  shows "\<exists>z. works rnd i z"
proof -
  let ?lo = "w_min (pr_crit_work (ip_proc i))" and ?hi = "w_max (pr_crit_work (ip_proc i))"
  have "\<exists>req. do_critical_work rnd (Some (ip_proc i)) = Some req"
  proof (cases "1 \<le> ?lo \<and> ?lo < ?hi")
    case True
    then obtain ms where "delay_randms rnd ?lo ?hi = delay_ms ms" "?lo \<le> ms" "ms \<le> ?hi"
      using delay_randms_ok [of ?lo ?hi rnd] assms by (auto simp: work_ok_def)
    moreover from this True have "\<exists>t. delay_ms ms = Some (Some t)"
      using delay_ms_ok [of ms] assms by (force simp: work_ok_def)
    ultimately show ?thesis by (auto simp: do_critical_work_def)
  next
    case False
    then show ?thesis by (auto simp: do_critical_work_def delay_randms_def)
  qed
  then obtain req where req: "do_critical_work rnd (Some (ip_proc i)) = Some req" by blast
  show ?thesis
    by (rule exI [of _ "case req of None \<Rightarrow> [] | Some t \<Rightarrow> [t]"])
      (simp add: works_def ipc_work_def req split: option.split)
qed

abbreviation ijq_step ::
  "int \<Rightarrow> ipc_t \<Rightarrow> mem os \<Rightarrow> job_t list \<Rightarrow> ((job_loc ptr \<Rightarrow> job_t option) \<Rightarrow> job_loc ptr \<Rightarrow> job_t option) \<Rightarrow> mem os \<Rightarrow> bool" where
  "ijq_step rnd i \<equiv> fifo_step (ijq_ok rnd i) (ijq_list i) os_var os_item"

text \<open>A step of the queue inside is a step of the shared queue, whatever work goes with it.\<close>

lemma ijq_step_lift:
  assumes "ijq_ok rnd i os" "ip_addr i = Ptr q" "jq_step q (os_mem os) xs f m" "os_mem os' = m"
  shows "ijq_step rnd i os xs f os'"
  using assms by (simp add: fifo_step_def ijq_ok_def ijq_list_def os_var_def os_item_def)

lemma ijq_okD:
  assumes "ijq_ok rnd i os"
  obtains q z where "ip_addr i = Ptr q" "jq_ok q (os_mem os)" "ijq_list i os = jq_list q (os_mem os)"
    "works rnd i z"
proof -
  obtain q where q: "ip_addr i = Ptr q" "jq_ok q (os_mem os)"
    using assms by (auto simp: ijq_ok_def split: ptr.splits)
  obtain z where "works rnd i z"
    using ipc_work_ok assms by (auto simp: ijq_ok_def)
  with q that show ?thesis by (simp add: ijq_list_def)
qed

lemma ijq_tests:
  assumes ok: "ijq_ok rnd i os"
  shows "\<exists>t. ipc_jobqueue_is_empty rnd (Ptr i) os = Some (ijq_list i os = [], t) \<and>
      ijq_step rnd i os (ijq_list i os) id t"
    and "\<exists>t. ipc_jobqueue_is_full rnd (Ptr i) os = Some (length (ijq_list i os) = QUEUE_SIZE - 1, t) \<and>
      ijq_step rnd i os (ijq_list i os) id t"
proof -
  obtain q z where q: "ip_addr i = Ptr q" "jq_ok q (os_mem os)" "ijq_list i os = jq_list q (os_mem os)"
    "works rnd i z"
    using ok by (rule ijq_okD)
  let ?t = "os\<lparr>os_sleeps := os_sleeps os @ z\<rparr>"
  have "ijq_step rnd i os (ijq_list i os) id ?t"
    using ijq_step_lift [OF ok q(1) jq_step_same [OF q(2)]] q(3) by simp
  then show "\<exists>t. ipc_jobqueue_is_empty rnd (Ptr i) os = Some (ijq_list i os = [], t) \<and>
      ijq_step rnd i os (ijq_list i os) id t"
    and "\<exists>t. ipc_jobqueue_is_full rnd (Ptr i) os = Some (length (ijq_list i os) = QUEUE_SIZE - 1, t) \<and>
      ijq_step rnd i os (ijq_list i os) id t"
    using jq_observe [OF q(2)] q worksD by (simp_all add: ipc_jobqueue_is_empty_def ipc_jobqueue_is_full_def)
qed

text \<open>Each operation does to the shared queue what the queue's operation does.\<close>

lemma ijq_enqueue:
  assumes ok: "ijq_ok rnd i os"
    and op: "\<And>q. ip_addr i = Ptr q \<Longrightarrow> \<exists>m. jobqueue_enqueue (os_mem os) (Ptr q) p = Some m \<and> jq_step q (os_mem os) xs f m"
  shows "\<exists>t. ipc_jobqueue_enqueue rnd (Ptr i) os p = Some t \<and> ijq_step rnd i os xs f t"
proof -
  obtain q z where q: "ip_addr i = Ptr q" "works rnd i z"
    using ok by (rule ijq_okD) simp
  obtain m where m: "jobqueue_enqueue (os_mem os) (Ptr q) p = Some m" "jq_step q (os_mem os) xs f m"
    using op [OF q(1)] by blast
  show ?thesis
    using q m(1) worksD ijq_step_lift [OF ok q(1) m(2)] by (simp add: ipc_jobqueue_enqueue_def)
qed

lemma ijq_dequeue:
  assumes ok: "ijq_ok rnd i os"
    and op: "\<And>q. ip_addr i = Ptr q \<Longrightarrow>
      \<exists>m. jobqueue_dequeue (os_mem os) (Ptr q) d = Some (r, m) \<and> jq_step q (os_mem os) xs f m"
  shows "\<exists>t. ipc_jobqueue_dequeue rnd (Ptr i) os d = Some (r, t) \<and> ijq_step rnd i os xs f t"
proof -
  obtain q z where q: "ip_addr i = Ptr q" "works rnd i z"
    using ok by (rule ijq_okD) simp
  obtain m where m: "jobqueue_dequeue (os_mem os) (Ptr q) d = Some (r, m)" "jq_step q (os_mem os) xs f m"
    using op [OF q(1)] by blast
  show ?thesis
    using q m(1) worksD ijq_step_lift [OF ok q(1) m(2)] by (simp add: ipc_jobqueue_dequeue_def)
qed

lemma ijq_peek:
  assumes ok: "ijq_ok rnd i os"
  shows "(\<And>q. ip_addr i = Ptr q \<Longrightarrow>
      \<exists>m. jobqueue_peekhead (os_mem os) (Ptr q) d = Some (r, m) \<and> jq_step q (os_mem os) xs f m) \<Longrightarrow>
      \<exists>t. ipc_jobqueue_peekhead rnd (Ptr i) os d = Some (r, t) \<and> ijq_step rnd i os xs f t"
    and "(\<And>q. ip_addr i = Ptr q \<Longrightarrow>
      \<exists>m. jobqueue_peektail (os_mem os) (Ptr q) d = Some (r, m) \<and> jq_step q (os_mem os) xs f m) \<Longrightarrow>
      \<exists>t. ipc_jobqueue_peektail rnd (Ptr i) os d = Some (r, t) \<and> ijq_step rnd i os xs f t"
proof -
  obtain q z where q: "ip_addr i = Ptr q" "works rnd i z"
    using ok by (rule ijq_okD) simp
  note lift = ijq_step_lift [OF ok q(1)]
  show "\<exists>t. ipc_jobqueue_peekhead rnd (Ptr i) os d = Some (r, t) \<and> ijq_step rnd i os xs f t"
    if op: "\<And>q. ip_addr i = Ptr q \<Longrightarrow>
      \<exists>m. jobqueue_peekhead (os_mem os) (Ptr q) d = Some (r, m) \<and> jq_step q (os_mem os) xs f m"
    using op [OF q(1)] q worksD lift by (auto simp: ipc_jobqueue_peekhead_def)
  show "\<exists>t. ipc_jobqueue_peektail rnd (Ptr i) os d = Some (r, t) \<and> ijq_step rnd i os xs f t"
    if op: "\<And>q. ip_addr i = Ptr q \<Longrightarrow>
      \<exists>m. jobqueue_peektail (os_mem os) (Ptr q) d = Some (r, m) \<and> jq_step q (os_mem os) xs f m"
    using op [OF q(1)] q worksD lift by (auto simp: ipc_jobqueue_peektail_def)
qed

interpretation ijq: peekable_fifo "ijq_ok rnd i" "ijq_list i" "QUEUE_SIZE - 1" NULL os_var os_item
  "ipc_jobqueue_is_empty rnd (Ptr i)" "ipc_jobqueue_is_full rnd (Ptr i)"
  "ipc_jobqueue_enqueue rnd (Ptr i)" "ipc_jobqueue_dequeue rnd (Ptr i)"
  "ipc_jobqueue_peekhead rnd (Ptr i)" "ipc_jobqueue_peektail rnd (Ptr i)" for rnd i
proof (unfold_locales, goal_cases)
  case 1
  show ?case by (simp add: os_var_def own_var_def)
next
  case (2 s)
  then show ?case by (auto elim!: ijq_okD intro: jq_bounded)
next
  case (3 s)
  then show ?case by (rule ijq_tests(1))
next
  case (4 s)
  then show ?case by (rule ijq_tests(2))
next
  case (5 s)
  show ?case
    by (rule ijq_enqueue [OF 5]) (use 5 jq.enq_nil in \<open>auto simp: ijq_ok_def ijq_list_def\<close>)
next
  case (6 s p)
  show ?case
    by (rule ijq_enqueue [OF 6(1)]) (use 6 jq.enq_full in \<open>auto simp: ijq_ok_def ijq_list_def\<close>)
next
  case (7 s p a)
  show ?case
    by (rule ijq_enqueue [OF 7(1)]) (use 7 jq.enq_room in \<open>auto simp: ijq_ok_def ijq_list_def os_item_def\<close>)
next
  case (8 s d)
  show ?case
    by (rule ijq_dequeue [OF 8(1)]) (use 8 jq.deq_empty in \<open>auto simp: ijq_ok_def ijq_list_def\<close>)
next
  case (9 s a as d)
  show ?case
    by (rule ijq_dequeue [OF 9(1)]) (use 9 jq.deq_item in \<open>auto simp: ijq_ok_def ijq_list_def os_var_def\<close>)
next
  case (10 s d)
  show ?case
    by (rule ijq_peek(1) [OF 10(1)]) (use 10 jq.peekhead_empty in \<open>auto simp: ijq_ok_def ijq_list_def\<close>)
next
  case (11 s d)
  show ?case
    by (rule ijq_peek(2) [OF 11(1)]) (use 11 jq.peektail_empty in \<open>auto simp: ijq_ok_def ijq_list_def\<close>)
next
  case (12 s d)
  show ?case
    by (rule ijq_peek(1) [OF 12(1)]) (use 12 jq.peekhead_item in \<open>auto simp: ijq_ok_def ijq_list_def os_var_def\<close>)
next
  case (13 s d)
  show ?case
    by (rule ijq_peek(2) [OF 13(1)]) (use 13 jq.peektail_item in \<open>auto simp: ijq_ok_def ijq_list_def os_var_def\<close>)
qed

section \<open>The whole interface\<close>

text \<open>
  The operations on a handle. The number that \<^verbatim>\<open>random()\<close> gives in the \<open>n\<close>-th call, if the
  call draws one, is \<open>rnds n\<close>: the state counts the calls.
\<close>

definition numbered :: "(int \<Rightarrow> 's \<Rightarrow> ('b \<times> 's) option) \<Rightarrow> (nat \<Rightarrow> int) \<Rightarrow> 's \<times> nat \<Rightarrow> ('b \<times> 's \<times> nat) option" where
  "numbered f rnds s = map_option (\<lambda>(b, t). (b, (t, Suc (snd s)))) (f (rnds (snd s)) (fst s))"

definition ipc_jobqueue_if :: "(nat \<Rightarrow> int) \<Rightarrow> ipc_t \<Rightarrow> (mem os \<times> nat, job_loc ptr) queue_if" where
  "ipc_jobqueue_if rnds i = \<lparr>
     qi_empty = numbered (\<lambda>rnd. ipc_jobqueue_is_empty rnd (Ptr i)) rnds,
     qi_full = numbered (\<lambda>rnd. ipc_jobqueue_is_full rnd (Ptr i)) rnds,
     qi_enq = (\<lambda>s p. map_option (\<lambda>t. (t, Suc (snd s))) (ipc_jobqueue_enqueue (rnds (snd s)) (Ptr i) (fst s) p)),
     qi_deq = (\<lambda>s d. numbered (\<lambda>rnd os. ipc_jobqueue_dequeue rnd (Ptr i) os d) rnds s),
     qi_peekhead = (\<lambda>s d. numbered (\<lambda>rnd os. ipc_jobqueue_peekhead rnd (Ptr i) os d) rnds s),
     qi_peektail = (\<lambda>s d. numbered (\<lambda>rnd os. ipc_jobqueue_peektail rnd (Ptr i) os d) rnds s)\<rparr>"

definition ipc_view :: "ipc_t \<Rightarrow> mem os \<times> nat \<Rightarrow> (job_loc ptr, job_t) queue_view" where
  "ipc_view i s = (case ip_addr i of
     NULL \<Rightarrow> (jq_vars (os_mem (fst s)), jq_new (os_mem (fst s)), [])
   | Ptr q \<Rightarrow> jq_view q (os_mem (fst s)))"

definition ipc_ok :: "(nat \<Rightarrow> int) \<Rightarrow> ipc_t \<Rightarrow> mem os \<times> nat \<Rightarrow> bool" where
  "ipc_ok rnds i s \<longleftrightarrow> (\<forall>k. work_ok (rnds k) (ip_proc i)) \<and>
     (case ip_addr i of NULL \<Rightarrow> False | Ptr q \<Rightarrow> jq_ok q (os_mem (fst s)))"

definition ipc_vars :: "mem os \<times> nat \<Rightarrow> job_loc ptr \<Rightarrow> job_t option" where
  "ipc_vars s = jq_vars (os_mem (fst s))"

lemma ipc_okE:
  assumes "ipc_ok rnds i s"
  obtains q z where "ip_addr i = Ptr q" "jq_ok q (os_mem (fst s))" "jq_view q (os_mem (fst s)) = ipc_view i s"
    "works (rnds (snd s)) i z"
proof -
  obtain q where q: "ip_addr i = Ptr q" "jq_ok q (os_mem (fst s))" "work_ok (rnds (snd s)) (ip_proc i)"
    using assms by (auto simp: ipc_ok_def split: ptr.splits)
  obtain z where "works (rnds (snd s)) i z" using ipc_work_ok [OF q(3)] by blast
  with q that show ?thesis by (simp add: ipc_view_def)
qed

text \<open>A state that a call leaves, from the memory that the wrapped call leaves.\<close>

lemma ipc_shows:
  assumes "ipc_ok rnds i s" "ip_addr i = Ptr q" "shows_view (jq_ok q) (jq_view q) u m" "os_mem (fst t) = m"
  shows "shows_view (ipc_ok rnds i) (ipc_view i) u t"
  using assms by (simp add: shows_view_def ipc_ok_def ipc_view_def)

text \<open>Each wrapper runs the function it wraps, on the same memory.\<close>

lemma ipc_wraps:
  assumes ok: "ipc_ok rnds i s" and q: "ip_addr i = Ptr q"
  shows "\<exists>t. qi_empty (jobqueue_if q) (os_mem (fst s)) = Some (b, t) \<and> shows_view (jq_ok q) (jq_view q) u t \<Longrightarrow>
      \<exists>t. qi_empty (ipc_jobqueue_if rnds i) s = Some (b, t) \<and> shows_view (ipc_ok rnds i) (ipc_view i) u t"
    and "\<exists>t. qi_full (jobqueue_if q) (os_mem (fst s)) = Some (b, t) \<and> shows_view (jq_ok q) (jq_view q) u t \<Longrightarrow>
      \<exists>t. qi_full (ipc_jobqueue_if rnds i) s = Some (b, t) \<and> shows_view (ipc_ok rnds i) (ipc_view i) u t"
    and "\<exists>t. qi_enq (jobqueue_if q) (os_mem (fst s)) p = Some t \<and> shows_view (jq_ok q) (jq_view q) u t \<Longrightarrow>
      \<exists>t. qi_enq (ipc_jobqueue_if rnds i) s p = Some t \<and> shows_view (ipc_ok rnds i) (ipc_view i) u t"
    and "\<exists>t. qi_deq (jobqueue_if q) (os_mem (fst s)) d = Some (r, t) \<and> shows_view (jq_ok q) (jq_view q) u t \<Longrightarrow>
      \<exists>t. qi_deq (ipc_jobqueue_if rnds i) s d = Some (r, t) \<and> shows_view (ipc_ok rnds i) (ipc_view i) u t"
    and "\<exists>t. qi_peekhead (jobqueue_if q) (os_mem (fst s)) d = Some (r, t) \<and> shows_view (jq_ok q) (jq_view q) u t \<Longrightarrow>
      \<exists>t. qi_peekhead (ipc_jobqueue_if rnds i) s d = Some (r, t) \<and> shows_view (ipc_ok rnds i) (ipc_view i) u t"
    and "\<exists>t. qi_peektail (jobqueue_if q) (os_mem (fst s)) d = Some (r, t) \<and> shows_view (jq_ok q) (jq_view q) u t \<Longrightarrow>
      \<exists>t. qi_peektail (ipc_jobqueue_if rnds i) s d = Some (r, t) \<and> shows_view (ipc_ok rnds i) (ipc_view i) u t"
proof -
  obtain z where z: "works (rnds (snd s)) i z" using ok by (rule ipc_okE)
  note defs = ipc_jobqueue_if_def jobqueue_if_def numbered_def pure_obs_def q worksD [OF z]
    ipc_jobqueue_is_empty_def ipc_jobqueue_is_full_def ipc_jobqueue_enqueue_def ipc_jobqueue_dequeue_def
    ipc_jobqueue_peekhead_def ipc_jobqueue_peektail_def
  show "\<exists>t. qi_empty (jobqueue_if q) (os_mem (fst s)) = Some (b, t) \<and> shows_view (jq_ok q) (jq_view q) u t \<Longrightarrow>
      \<exists>t. qi_empty (ipc_jobqueue_if rnds i) s = Some (b, t) \<and> shows_view (ipc_ok rnds i) (ipc_view i) u t"
    "\<exists>t. qi_full (jobqueue_if q) (os_mem (fst s)) = Some (b, t) \<and> shows_view (jq_ok q) (jq_view q) u t \<Longrightarrow>
      \<exists>t. qi_full (ipc_jobqueue_if rnds i) s = Some (b, t) \<and> shows_view (ipc_ok rnds i) (ipc_view i) u t"
    "\<exists>t. qi_enq (jobqueue_if q) (os_mem (fst s)) p = Some t \<and> shows_view (jq_ok q) (jq_view q) u t \<Longrightarrow>
      \<exists>t. qi_enq (ipc_jobqueue_if rnds i) s p = Some t \<and> shows_view (ipc_ok rnds i) (ipc_view i) u t"
    "\<exists>t. qi_deq (jobqueue_if q) (os_mem (fst s)) d = Some (r, t) \<and> shows_view (jq_ok q) (jq_view q) u t \<Longrightarrow>
      \<exists>t. qi_deq (ipc_jobqueue_if rnds i) s d = Some (r, t) \<and> shows_view (ipc_ok rnds i) (ipc_view i) u t"
    "\<exists>t. qi_peekhead (jobqueue_if q) (os_mem (fst s)) d = Some (r, t) \<and> shows_view (jq_ok q) (jq_view q) u t \<Longrightarrow>
      \<exists>t. qi_peekhead (ipc_jobqueue_if rnds i) s d = Some (r, t) \<and> shows_view (ipc_ok rnds i) (ipc_view i) u t"
    "\<exists>t. qi_peektail (jobqueue_if q) (os_mem (fst s)) d = Some (r, t) \<and> shows_view (jq_ok q) (jq_view q) u t \<Longrightarrow>
      \<exists>t. qi_peektail (ipc_jobqueue_if rnds i) s d = Some (r, t) \<and> shows_view (ipc_ok rnds i) (ipc_view i) u t"
    by (auto simp: defs intro!: ipc_shows [OF ok q])
qed

interpretation ijqi: queue_interface "ipc_ok rnds i" "ipc_view i" "QUEUE_SIZE - 1" NULL terminated copied
  "ipc_jobqueue_if rnds i" for rnds i
proof (unfold_locales, goal_cases)
  case (1 s g new xs)
  from 1(1) show ?case by (rule ipc_okE) (use 1 jqi.within in \<open>metis\<close>)
next
  case (2 s g new xs)
  from 2(1) show ?case by (rule ipc_okE) (rule ipc_wraps(1), use 2 in \<open>auto intro!: jqi.tests_empty\<close>)
next
  case (3 s g new xs)
  from 3(1) show ?case by (rule ipc_okE) (rule ipc_wraps(2), use 3 in \<open>auto intro!: jqi.tests_full\<close>)
next
  case (4 s g new xs p)
  from 4(1) show ?case by (rule ipc_okE) (rule ipc_wraps(3), use 4 in \<open>auto intro!: jqi.ignores\<close>)
next
  case (5 s g new xs p a)
  from 5(1) show ?case by (rule ipc_okE) (rule ipc_wraps(3), use 5 in \<open>auto intro!: jqi.accepts\<close>)
next
  case (6 s g new d)
  from 6(1) show ?case by (rule ipc_okE) (rule ipc_wraps(4), use 6 in \<open>auto intro!: jqi.hands_none\<close>)
next
  case (7 s g new d)
  from 7(1) show ?case by (rule ipc_okE) (rule ipc_wraps(5), use 7 in \<open>auto intro!: jqi.hands_none\<close>)
next
  case (8 s g new d)
  from 8(1) show ?case by (rule ipc_okE) (rule ipc_wraps(6), use 8 in \<open>auto intro!: jqi.hands_none\<close>)
next
  case (9 s g new a as d r g' new')
  from 9(1) show ?case by (rule ipc_okE) (rule ipc_wraps(4), use 9 in \<open>auto intro!: jqi.takes\<close>)
next
  case (10 s g new xs d r g' new')
  from 10(1) show ?case by (rule ipc_okE) (rule ipc_wraps(5), use 10 in \<open>auto intro!: jqi.peeks\<close>)
next
  case (11 s g new xs d r g' new')
  from 11(1) show ?case by (rule ipc_okE) (rule ipc_wraps(6), use 11 in \<open>auto intro!: jqi.peeks\<close>)
qed

section \<open>Creation\<close>

lemma jq_typ_zero: "jq_typ jq_zero"
  by (simp add: jq_typ_def jq_zero_def list_all_iff)

lemma ipc_jobq_label: "label_text (Ptr (''ipc_jobq'' @ [NUL])) = Some ''ipc_jobq''"
  by (simp add: label_text_def NUL_def)

lemma SIZEOF_JOBQUEUE_pos: "SIZEOF_JOBQUEUE \<noteq> 0"
  by (simp add: SIZEOF_JOBQUEUE_def)

text \<open>The init process leaves an empty queue in a new shared object of the right name.\<close>

lemma ipc_jobqueue_new_init:
  assumes "wf_mem (os_mem os)" "user_ok (os_user os)" "no_fault fz" "pr_is_init p"
  shows "\<exists>i os1 q. ipc_jobqueue_new fz (Ptr p) os = Some (Ptr i, os1) \<and> ip_proc i = p \<and> ip_addr i = Ptr q \<and>
    q = m_next (os_mem os) \<and> os_shm os1 (shm_name os1 (Ptr (''ipc_jobq'' @ [NUL]))) = Some q \<and>
    jq_ok q (os_mem os1) \<and> jq_list q (os_mem os1) = [] \<and> m_queues (os_mem os1) q = Some jq_empty \<and> m_jobs (os_mem os1) = m_jobs (os_mem os) \<and>
    os_user os1 = os_user os \<and> os_blocks os1 = Suc (os_blocks os) \<and> m_avail (os_mem os1) = m_avail (os_mem os) \<and>
    os_size os1 q = SIZEOF_JOBQUEUE"
proof -
  let ?q = "m_next (os_mem os)"
  let ?s = "(os_mem os)\<lparr>m_next := Suc ?q, m_queues := (m_queues (os_mem os))(?q \<mapsto> jq_zero)\<rparr>"
  have new: "ob_new queue_ops (os_mem os) = (?q, ?s)" by (simp add: queue_ops_def)
  have "label_text (Ptr (''ipc_jobq'' @ [NUL])) \<noteq> None" unfolding ipc_jobq_label by simp
  from ipc_new_init [OF this assms(2,3,4) SIZEOF_JOBQUEUE_pos new]
  obtain name os1 where 1: "ipc_new queue_ops fz (Ptr p) (Ptr (''ipc_jobq'' @ [NUL])) SIZEOF_JOBQUEUE os
      = Some (Ptr \<lparr>ip_proc = p, ip_name = name, ip_addr = Ptr ?q\<rparr>, os1)"
    "os_shm os1 = (os_shm os)(shm_name os (Ptr (''ipc_jobq'' @ [NUL])) \<mapsto> ?q)"
    "os_mem os1 = ob_zero queue_ops ?q ?s" "os_user os1 = os_user os" "os_blocks os1 = Suc (os_blocks os)"
    "os_size os1 ?q = SIZEOF_JOBQUEUE" by auto
  have mem: "os_mem os1 = put_jq ?s ?q jq_zero" using 1(3) by (simp add: queue_ops_def)
  have "wf_mem ?s" using assms(1) jq_typ_zero by (auto simp: wf_mem_def)
  then have wf: "wf_mem (os_mem os1)" unfolding mem by (rule wf_put_jq) (simp_all add: jq_typ_zero)
  have q: "m_queues (os_mem os1) ?q = Some jq_zero" by (simp add: mem mem_simps)
  let ?m = "put_jq (os_mem os1) ?q jq_empty"
  have "jq_typ jq_empty" using jq_inv_empty by (simp add: jq_inv_def)
  then have "jq_at ?m ?q jq_empty" using wf_put_jq [OF wf q] jq_inv_empty by (simp add: jq_at_def mem_simps)
  then have ok: "jq_ok ?q ?m" "jq_list ?q ?m = []" using jq_okI jq_inv_empty by fastforce+
  have nm: "shm_name (os1\<lparr>os_mem := ?m\<rparr>) l = shm_name os l" for l
    using 1(4) by (simp add: shm_name_def cong: option.case_cong)
  have jobs: "m_jobs ?m = m_jobs (os_mem os)" "m_avail ?m = m_avail (os_mem os)" by (simp_all add: mem mem_simps)
  have init: "jobqueue_init (os_mem os1) (Ptr ?q) = Some ?m" by (rule jobqueue_init_ok [OF wf q])
  show ?thesis
    by (intro exI [of _ "\<lparr>ip_proc = p, ip_name = name, ip_addr = Ptr ?q\<rparr>"] exI [of _ "os1\<lparr>os_mem := ?m\<rparr>"] exI [of _ ?q])
      (use 1(1,2,4,5,6) ok nm init assms(4) jobs in \<open>simp add: ipc_jobqueue_new_def put_jq_sel\<close>)
qed

lemma ipc_jobqueue_new_attach:
  assumes "user_ok (os_user os)" "no_fault fz" "\<not> pr_is_init p"
    and "os_shm os (shm_name os (Ptr (''ipc_jobq'' @ [NUL]))) = Some q"
  shows "\<exists>i os1. ipc_jobqueue_new fz (Ptr p) os = Some (Ptr i, os1) \<and> ip_proc i = p \<and> ip_addr i = Ptr q \<and>
    os_mem os1 = os_mem os \<and> os_user os1 = os_user os \<and> os_size os1 = os_size os"
proof -
  have "label_text (Ptr (''ipc_jobq'' @ [NUL])) \<noteq> None" unfolding ipc_jobq_label by simp
  from ipc_new_attach [OF this assms(1,2,3) SIZEOF_JOBQUEUE_pos assms(4), of queue_ops] show ?thesis
    using assms(3) by (auto simp: ipc_jobqueue_new_def)
qed

section \<open>Properties\<close>

text \<open>
  C27: the queue the init process creates is empty, another process's handle is on
  the same queue, and what the one puts the other takes: for any calls by the
  first process followed by any calls by the second, the jobs accepted are, in
  order, the jobs handed out and those still queued; no call is undefined.
\<close>

theorem ipc_jobqueue_shared:
  assumes "wf_mem (os_mem os)" "user_ok (os_user os)" "no_fault fz" "no_fault fz'"
    and "pr_is_init p" "\<not> pr_is_init p'" "work_ok rnd p" "work_ok rnd' p'"
  shows "\<exists>i os1 j os2. ipc_jobqueue_new fz (Ptr p) os = Some (Ptr i, os1) \<and>
    ipc_jobqueue_new fz' (Ptr p') os1 = Some (Ptr j, os2) \<and> ijq_list j os2 = [] \<and>
    (\<forall>ops ops'. (\<forall>op \<in> set (ops @ ops'). fifo_op_ok os_var os_item os2 op) \<longrightarrow>
      (\<exists>ins outs t ins' outs' t'.
        fifo_run NULL os_item (ipc_jobqueue_is_full rnd (Ptr i)) (ipc_jobqueue_enqueue rnd (Ptr i))
          (ipc_jobqueue_dequeue rnd (Ptr i)) os2 ops = Some (ins, outs, t) \<and>
        fifo_run NULL os_item (ipc_jobqueue_is_full rnd' (Ptr j)) (ipc_jobqueue_enqueue rnd' (Ptr j))
          (ipc_jobqueue_dequeue rnd' (Ptr j)) t ops' = Some (ins', outs', t') \<and>
        ins @ ins' = outs @ outs' @ ijq_list j t'))"
proof -
  obtain i os1 q where 1: "ipc_jobqueue_new fz (Ptr p) os = Some (Ptr i, os1)" "ip_proc i = p" "ip_addr i = Ptr q"
    "os_shm os1 (shm_name os1 (Ptr (''ipc_jobq'' @ [NUL]))) = Some q" "jq_ok q (os_mem os1)"
    "jq_list q (os_mem os1) = []" "os_user os1 = os_user os"
    using ipc_jobqueue_new_init [OF assms(1,2,3,5)] by metis
  have "user_ok (os_user os1)" using 1(7) assms(2) by simp
  from ipc_jobqueue_new_attach [OF this assms(4,6) 1(4)] obtain j os2 where
    2: "ipc_jobqueue_new fz' (Ptr p') os1 = Some (Ptr j, os2)" "ip_proc j = p'" "ip_addr j = Ptr q"
      "os_mem os2 = os_mem os1" by blast
  have i: "ijq_ok rnd i os2" using 1 2 assms(7) by (simp add: ijq_ok_def)
  have lists: "ijq_list i t = ijq_list j t" for t using 1(3) 2(3) by (simp add: ijq_list_def)
  have empty: "ijq_list j os2 = []" using 1 2 by (simp add: ijq_list_def)
  have "\<exists>ins outs t ins' outs' t'.
        fifo_run NULL os_item (ipc_jobqueue_is_full rnd (Ptr i)) (ipc_jobqueue_enqueue rnd (Ptr i))
          (ipc_jobqueue_dequeue rnd (Ptr i)) os2 ops = Some (ins, outs, t) \<and>
        fifo_run NULL os_item (ipc_jobqueue_is_full rnd' (Ptr j)) (ipc_jobqueue_enqueue rnd' (Ptr j))
          (ipc_jobqueue_dequeue rnd' (Ptr j)) t ops' = Some (ins', outs', t') \<and>
        ins @ ins' = outs @ outs' @ ijq_list j t'"
    if ops: "\<forall>op \<in> set (ops @ ops'). fifo_op_ok os_var os_item os2 op" for ops ops'
  proof -
    obtain ins outs t where t: "fifo_run NULL os_item (ipc_jobqueue_is_full rnd (Ptr i))
        (ipc_jobqueue_enqueue rnd (Ptr i)) (ipc_jobqueue_dequeue rnd (Ptr i)) os2 ops = Some (ins, outs, t)"
      "ijq_ok rnd i t" "ijq_list i os2 @ ins = outs @ ijq_list i t"
      "\<forall>op. fifo_op_ok os_var os_item os2 op \<longrightarrow> fifo_op_ok os_var os_item t op"
      using ijq.run_fifo [OF i, of ops] ops by auto
    have j: "ijq_ok rnd' j t" using t(2) 1(3) 2(2,3) assms(8) by (simp add: ijq_ok_def)
    obtain ins' outs' t' where "fifo_run NULL os_item (ipc_jobqueue_is_full rnd' (Ptr j))
        (ipc_jobqueue_enqueue rnd' (Ptr j)) (ipc_jobqueue_dequeue rnd' (Ptr j)) t ops' = Some (ins', outs', t')"
      "ijq_list j t @ ins' = outs' @ ijq_list j t'"
      using ijq.run_fifo [OF j, of ops'] ops t(4) by auto
    moreover have "ins @ ins' = outs @ outs' @ ijq_list j t'"
      using t(3) calculation(2) empty lists by (metis append.left_neutral append_assoc)
    ultimately show ?thesis using t(1) by blast
  qed
  then show ?thesis using 1(1) 2(1) empty by blast
qed

lemma ipc_jobqueue_shared_witness:
  "\<exists>i os1 j os2. ipc_jobqueue_new all_ok
      (Ptr (proc_of SEM_PROD_PROC 1 True \<lparr>w_min = 20, w_max = 40\<rparr> \<lparr>w_min = 0, w_max = 0\<rparr>)) (os_start (mem_of [] [] True)) = Some (Ptr i, os1) \<and>
    ipc_jobqueue_new all_ok
      (Ptr (proc_of SEM_CONS_PROC 2 False \<lparr>w_min = 20, w_max = 40\<rparr> \<lparr>w_min = 0, w_max = 0\<rparr>)) os1 = Some (Ptr j, os2) \<and>
    ijq_list j os2 = []"
proof -
  have "wf_mem (os_mem (os_start (mem_of [] [] True)))" by (simp add: os_start_def wf_mem_of)
  moreover have "user_ok (os_user (os_start (mem_of [] [] True)))" by (simp add: os_start_def user_ok_def)
  ultimately show ?thesis
    using ipc_jobqueue_shared [of "os_start (mem_of [] [] True)" all_ok all_ok
        "proc_of SEM_PROD_PROC 1 True \<lparr>w_min = 20, w_max = 40\<rparr> \<lparr>w_min = 0, w_max = 0\<rparr>"
        "proc_of SEM_CONS_PROC 2 False \<lparr>w_min = 20, w_max = 40\<rparr> \<lparr>w_min = 0, w_max = 0\<rparr>" 5 5]
    by (force simp: proc_of_def work_ok_def RANDOM_MAX_def LONG_MAX_def)
qed

text \<open>
  C29: the wrappers behave like the functions they wrap: any sequence of calls through a
  handle on a queue that satisfies the invariant gives the results, the queued jobs and the
  variables that the documented effects give (C3: NULL jobs, NULL destinations and
  failing allocations included, the queued job being the padded copy), whatever numbers
  \<^verbatim>\<open>random()\<close> gives the calls, a new one for each; with a NULL handle they answer as for
  a NULL queue and simulate no work. Assumed: the numbers are between 0 and the
  \<^verbatim>\<open>RAND_MAX\<close> of \<^verbatim>\<open>random()\<close>, the longest simulated work of the process fits a \<^verbatim>\<open>long\<close>, and
  the caller sees to what C3 says of jobs and destinations.
\<close>

theorem ipc_jobqueue_refines:
  assumes "ipc_ok rnds i (os, n)" "calls_ok 127 terminated copied NULL cs (ipc_view i (os, n))"
  shows "(\<exists>rs t. queue_run (ipc_jobqueue_if rnds i) NULL ipc_vars cs (os, n) = Some (rs, t) \<and> ipc_ok rnds i t \<and>
      spec_run 127 copied NULL cs (ipc_view i (os, n)) = (rs, ipc_view i t)) \<and>
    ipc_jobqueue_is_empty rnd NULL os = Some (True, os) \<and> ipc_jobqueue_is_full rnd NULL os = Some (True, os) \<and>
    ipc_jobqueue_enqueue rnd NULL os p = Some os \<and> ipc_jobqueue_dequeue rnd NULL os d = Some (NULL, os) \<and>
    ipc_jobqueue_peekhead rnd NULL os d = Some (NULL, os) \<and> ipc_jobqueue_peektail rnd NULL os d = Some (NULL, os)"
proof -
  have "calls_ok (QUEUE_SIZE - 1) terminated copied NULL cs (ipc_view i (os, n))" using assms(2) by (simp add: QUEUE_SIZE_def)
  moreover have "(\<lambda>s. fst (ipc_view i s)) = ipc_vars" by (simp add: fun_eq_iff ipc_view_def ipc_vars_def jq_view_def split: ptr.split)
  ultimately have "\<exists>rs t. queue_run (ipc_jobqueue_if rnds i) NULL ipc_vars cs (os, n) = Some (rs, t) \<and> ipc_ok rnds i t \<and>
      spec_run 127 copied NULL cs (ipc_view i (os, n)) = (rs, ipc_view i t)"
    using ijqi.run_refines [OF assms(1), of cs] by (simp add: QUEUE_SIZE_def)
  then show ?thesis
    by (simp add: ipc_jobqueue_is_empty_def ipc_jobqueue_is_full_def ipc_jobqueue_enqueue_def ipc_jobqueue_dequeue_def
        ipc_jobqueue_peekhead_def ipc_jobqueue_peektail_def)
qed

lemma ipc_jobqueue_refines_witness:
  "\<exists>t. queue_run (ipc_jobqueue_if (\<lambda>n. int n mod 1000) \<lparr>ip_proc = proc_of SEM_PROD_PROC 1 True \<lparr>w_min = 20, w_max = 40\<rparr> \<lparr>w_min = 20, w_max = 40\<rparr>,
      ip_name = [], ip_addr = Ptr 0\<rparr>) NULL ipc_vars [Q_is_full, Q_enqueue (Ptr (Obj 0)), Q_dequeue NULL, Q_is_empty]
      (os_start (mem_of [job_zero] [jq_empty] True), 0) =
    Some ([QR_bool False, QR_void, QR_job (Ptr (Obj 2)) (Some (copied job_zero)), QR_bool True], t)"
proof -
  let ?i = "\<lparr>ip_proc = proc_of SEM_PROD_PROC 1 True \<lparr>w_min = 20, w_max = 40\<rparr> \<lparr>w_min = 20, w_max = 40\<rparr>,
      ip_name = [], ip_addr = Ptr 0\<rparr>" and ?os = "os_start (mem_of [job_zero] [jq_empty] True)"
    and ?rnds = "\<lambda>n. int n mod 1000" and ?cs = "[Q_is_full, Q_enqueue (Ptr (Obj 0)), Q_dequeue NULL, Q_is_empty]"
  have jq: "jq_ok 0 (os_mem ?os)" "jq_list 0 (os_mem ?os) = []"
    using jq_ok_mem_of [of "[job_zero]" jq_empty True] jq_inv_empty by (simp_all add: os_start_def)
  then have i: "ipc_ok ?rnds ?i (?os, 0)"
    by (simp add: ipc_ok_def proc_of_def work_ok_def RANDOM_MAX_def LONG_MAX_def order_less_imp_le [OF less_trans [OF pos_mod_bound]])
  have v: "jq_vars (os_mem ?os) (Ptr (Obj 0)) = Some job_zero" "jq_new (os_mem ?os) 0 = Ptr (Obj 2)" "terminated job_zero"
    by (simp_all add: os_start_def mem_simps jq_new_def terminated_def job_zero_def MAX_NAME_SIZE_def)
  note specs = is_empty_spec_def is_full_spec_def enqueue_spec_def dequeue_spec_def job_call_def hand_out_def Let_def
  have "calls_ok 127 terminated copied NULL ?cs (ipc_view ?i (?os, 0))"
    using jq(2) v by (simp add: ipc_view_def jq_view_def specs)
  from conjunct1 [OF ipc_jobqueue_refines [OF i this]] obtain rs t where
    "queue_run (ipc_jobqueue_if ?rnds ?i) NULL ipc_vars ?cs (?os, 0) = Some (rs, t)"
    "spec_run 127 copied NULL ?cs (ipc_view ?i (?os, 0)) = (rs, ipc_view ?i t)" by blast
  then show ?thesis using jq(2) v by (simp add: ipc_view_def jq_view_def specs)
qed

text \<open>
  Deleting a handle gives back the handle only: the shared object keeps its
  name, so a process that creates its handle afterwards gets the old queue with
  the jobs that were left in it.
\<close>

theorem ipc_jobqueue_delete_keeps:
  assumes "user_ok (os_user os)" "no_fault fz" "\<not> pr_is_init p" "0 < os_blocks os"
    and "os_shm os (shm_name os (Ptr (''ipc_jobq'' @ [NUL]))) = Some q"
  shows "\<exists>os1 j os2. ipc_jobqueue_delete (Ptr i) os = Some os1 \<and> Suc (os_blocks os1) = os_blocks os \<and>
    ipc_jobqueue_new fz (Ptr p) os1 = Some (Ptr j, os2) \<and> ip_addr j = Ptr q \<and>
    ijq_list j os2 = jq_list q (os_mem os)"
proof -
  obtain os1 where 1: "ipc_jobqueue_delete (Ptr i) os = Some os1" "os1 = os\<lparr>os_blocks := os_blocks os - 1\<rparr>"
    using assms(4) by (simp add: ipc_jobqueue_delete_def free_block_def)
  have "shm_name os1 l = shm_name os l" for l by (simp add: 1(2) shm_name_def cong: option.case_cong)
  then have "os_shm os1 (shm_name os1 (Ptr (''ipc_jobq'' @ [NUL]))) = Some q" "user_ok (os_user os1)"
    using assms(1,5) by (simp_all add: 1(2))
  from ipc_jobqueue_new_attach [OF this(2) assms(2,3) this(1)] show ?thesis
    using 1 assms(4) by (auto simp: ijq_list_def)
qed

lemma ipc_jobqueue_delete_keeps_witness:
  "\<exists>os1 j os2. ipc_jobqueue_delete (Ptr \<lparr>ip_proc = proc_of SEM_PROD_PROC 1 True \<lparr>w_min = 0, w_max = 0\<rparr> \<lparr>w_min = 0, w_max = 0\<rparr>,
        ip_name = [], ip_addr = Ptr 0\<rparr>)
      ((os_start (mem_of [] [jq_empty] True))\<lparr>os_blocks := 1, os_shm := (\<lambda>_. Some 0)\<rparr>) = Some os1 \<and>
    ipc_jobqueue_new all_ok (Ptr (proc_of SEM_CONS_PROC 2 False \<lparr>w_min = 0, w_max = 0\<rparr> \<lparr>w_min = 0, w_max = 0\<rparr>)) os1
      = Some (Ptr j, os2) \<and> ip_addr j = Ptr 0"
  using ipc_jobqueue_delete_keeps [of "(os_start (mem_of [] [jq_empty] True))\<lparr>os_blocks := 1, os_shm := (\<lambda>_. Some 0)\<rparr>" all_ok
      "proc_of SEM_CONS_PROC 2 False \<lparr>w_min = 0, w_max = 0\<rparr> \<lparr>w_min = 0, w_max = 0\<rparr>" 0
      "\<lparr>ip_proc = proc_of SEM_PROD_PROC 1 True \<lparr>w_min = 0, w_max = 0\<rparr> \<lparr>w_min = 0, w_max = 0\<rparr>, ip_name = [], ip_addr = Ptr 0\<rparr>"]
  by (simp add: os_start_def user_ok_def) (fastforce simp: proc_of_def)

end
