(* ===== verification/Sem_Setup.thy ===== *)
theory Sem_Setup
  imports Ipc_Jobqueue Sem_Jobqueue
begin

text \<open>
  Creating and deleting the queue of \<^verbatim>\<open>sem_jobqueue.c\<close>: the named semaphores, what
  a failing \<^verbatim>\<open>sem_open\<close> does, and what deletion leaves behind. The semaphores are
  the system's: a name that exists keeps its semaphore and its value when it is
  opened again, as \<^verbatim>\<open>sem_open\<close> with \<^verbatim>\<open>O_CREAT\<close> has it.
\<close>

unbundle bit_operations_syntax

section \<open>State\<close>

text \<open>
  The names and values of the semaphores, those the process has open, and its
  live blocks of type \<^verbatim>\<open>sem_jobqueue_t\<close>, beside the shared memory of \<open>Ipc\<close>.
\<close>

record sem_world =
  sw_os :: "mem os"
  sw_names :: "string \<Rightarrow> nat option"
  sw_vals :: "nat \<Rightarrow> nat"
  sw_next :: nat
  sw_open :: "nat list"
  sw_blocks :: nat

text \<open>A field that was never assigned is \<open>None\<close>.\<close>

record sem_jobqueue_t =
  sj_mutex :: "nat option"
  sj_full :: "nat option"
  sj_empty :: "nat option"
  sj_ijq :: "ipc_t ptr"

text \<open>Which calls succeed: \<^verbatim>\<open>malloc\<close>, those of \<^verbatim>\<open>ipc_new\<close>, each \<^verbatim>\<open>sem_open\<close>, and \<^verbatim>\<open>sem_wait\<close>.\<close>

record sem_faults =
  g_malloc :: bool
  g_ipc :: ipc_faults
  g_mutex :: bool
  g_full :: bool
  g_empty :: bool
  g_wait :: bool
  g_err :: int

text \<open>A call that waits for a semaphore may not return.\<close>

datatype 'a outcome = Blocks | Returns 'a

definition SEM_NEW_FAIL :: int where "SEM_NEW_FAIL = 0"
definition MUTEX_SEM_SUCCESS :: int where "MUTEX_SEM_SUCCESS = 1"
definition FULL_SEM_SUCCESS :: int where "FULL_SEM_SUCCESS = 2"
definition EMPTY_SEM_SUCCESS :: int where "EMPTY_SEM_SUCCESS = 4"
definition ALL_SEM_SUCCESS :: int where "ALL_SEM_SUCCESS = 7"

definition sem_mutex_label :: string where "sem_mutex_label = ''sjq.mutex''"
definition sem_full_label :: string where "sem_full_label = ''sjq.full''"
definition sem_empty_label :: string where "sem_empty_label = ''sjq.empty''"

section \<open>System calls\<close>

definition set_errno :: "int \<Rightarrow> sem_world \<Rightarrow> sem_world" where
  "set_errno e w = w\<lparr>sw_os := (sw_os w)\<lparr>os_errno := e\<rparr>\<rparr>"

text \<open>A new semaphore cannot start above \<^verbatim>\<open>SEM_VALUE_MAX\<close>, the largest \<^verbatim>\<open>int\<close> on Linux.\<close>

definition SEM_VALUE_MAX :: nat where "SEM_VALUE_MAX = 2147483647"

definition sem_open :: "bool \<Rightarrow> int \<Rightarrow> string \<Rightarrow> uint \<Rightarrow> sem_world \<Rightarrow> nat option \<times> sem_world" where
  "sem_open ok err nm value w =
     (if \<not> ok then (None, set_errno err w)
      else case sw_names w nm of
        Some n \<Rightarrow> (Some n, w\<lparr>sw_open := sw_open w @ [n]\<rparr>)
      | None \<Rightarrow> (let n = sw_next w; v = unat value in
          if SEM_VALUE_MAX < v then (None, set_errno EINVAL w) else
          (Some n, w\<lparr>sw_names := (sw_names w)(nm \<mapsto> n), sw_vals := (sw_vals w)(n := v),
             sw_next := Suc n, sw_open := sw_open w @ [n]\<rparr>)))"

definition sem_post :: "nat \<Rightarrow> sem_world \<Rightarrow> sem_world" where
  "sem_post n w = w\<lparr>sw_vals := (sw_vals w)(n := Suc (sw_vals w n))\<rparr>"

definition sem_wait :: "bool \<Rightarrow> nat \<Rightarrow> sem_world \<Rightarrow> sem_world outcome" where
  "sem_wait ok n w =
     (if \<not> ok then Returns w
      else if sw_vals w n = 0 then Blocks
      else Returns (w\<lparr>sw_vals := (sw_vals w)(n := sw_vals w n - 1)\<rparr>))"

definition sem_close :: "nat \<Rightarrow> sem_world \<Rightarrow> sem_world option" where
  "sem_close n w = do { require (n \<in> set (sw_open w)); Some (w\<lparr>sw_open := remove1 n (sw_open w)\<rparr>) }"

definition sem_unlink :: "string \<Rightarrow> sem_world \<Rightarrow> sem_world" where
  "sem_unlink nm w = (case sw_names w nm of
     None \<Rightarrow> set_errno ENOENT w
   | Some _ \<Rightarrow> w\<lparr>sw_names := (sw_names w)(nm := None)\<rparr>)"

section \<open>Operations\<close>

definition sem_name :: "ipc_faults \<Rightarrow> string \<Rightarrow> sem_world \<Rightarrow> string option" where
  "sem_name fz label w = do {
     b \<leftarrow> shobject_name True (os_user (sw_os w)) (Ptr (f_buf fz)) (Ptr (label @ [NUL]));
     c_str b }"

text \<open>
  The result, and what \<^verbatim>\<open>*sem\<close> is afterwards (it was indeterminate). The \<^verbatim>\<open>int\<close>
  \<open>v\<close> becomes the unsigned value of the new semaphore.
\<close>

definition sem_new ::
  "ipc_faults \<Rightarrow> bool \<Rightarrow> int \<Rightarrow> string \<Rightarrow> int \<Rightarrow> int \<Rightarrow> sem_world \<Rightarrow> (int \<times> nat option \<times> sem_world) option" where
  "sem_new fz ok err label v success w = do {
     nm \<leftarrow> sem_name fz label w;
     Some (case sem_open ok err nm (word_of_int v) w of
        (None, w1) \<Rightarrow> (SEM_NEW_FAIL, None, w1)
      | (Some n, w1) \<Rightarrow> (success, Some n, w1)) }"

text \<open>Closing an indeterminate pointer is undefined.\<close>

definition sem_delete :: "ipc_faults \<Rightarrow> nat option \<Rightarrow> string \<Rightarrow> sem_world \<Rightarrow> sem_world option" where
  "sem_delete fz sem label w = do {
     n \<leftarrow> sem;
     w1 \<leftarrow> sem_close n w;
     nm \<leftarrow> sem_name fz label w1;
     Some (sem_unlink nm w1) }"

definition free_sjq :: "sem_world \<Rightarrow> sem_world option" where
  "free_sjq w = do { require (0 < sw_blocks w); Some (w\<lparr>sw_blocks := sw_blocks w - 1\<rparr>) }"

definition delete_ijq :: "ipc_t ptr \<Rightarrow> sem_world \<Rightarrow> sem_world option" where
  "delete_ijq ijq w = do { os \<leftarrow> ipc_jobqueue_delete ijq (sw_os w); Some (w\<lparr>sw_os := os\<rparr>) }"

text \<open>A \<^verbatim>\<open>size_t\<close> passed as an \<^verbatim>\<open>int\<close>: its low 32 bits, read as a signed number.\<close>

definition capacity_int :: "64 word \<Rightarrow> int" where
  "capacity_int c = sint (ucast c :: 32 word)"

text \<open>The end of \<^verbatim>\<open>sem_jobqueue_new\<close>, from the test of \<^verbatim>\<open>r\<close> on.\<close>

definition sem_jobqueue_verdict ::
  "ipc_faults \<Rightarrow> ipc_t ptr \<Rightarrow> int \<Rightarrow> nat \<Rightarrow> nat option \<Rightarrow> nat option \<Rightarrow> sem_world \<Rightarrow> (sem_jobqueue_t ptr \<times> sem_world) option" where
  "sem_jobqueue_verdict fz ijq r mutex full emp w =
     (if r AND ALL_SEM_SUCCESS \<noteq> 0 then
        Some (Ptr \<lparr>sj_mutex = Some mutex, sj_full = full, sj_empty = emp, sj_ijq = ijq\<rparr>, sem_post mutex w)
      else do {
        w1 \<leftarrow> (if r AND FULL_SEM_SUCCESS \<noteq> 0 then sem_delete fz full sem_full_label w else Some w);
        w2 \<leftarrow> (if r AND EMPTY_SEM_SUCCESS \<noteq> 0 then sem_delete fz emp sem_empty_label w1 else Some w1);
        w3 \<leftarrow> sem_delete fz (Some mutex) sem_mutex_label (sem_post mutex w2);
        w4 \<leftarrow> delete_ijq ijq w3;
        w5 \<leftarrow> free_sjq w4;
        Some (NULL, w5) })"

text \<open>
  The code from \<^verbatim>\<open>sem_wait(sjq->mutex)\<close> on; \<open>r1\<close> is \<^verbatim>\<open>MUTEX_SEM_SUCCESS\<close>. C leaves
  the order of the two operands of \<^verbatim>\<open>|\<close> open; they are evaluated from the left here
  (only the numbers of two new semaphores depend on it). The capacity is read from
  shared memory, which faults when the object is smaller than a queue.
\<close>

definition handle_capacity :: "ipc_t ptr \<Rightarrow> mem os \<Rightarrow> 64 word option" where
  "handle_capacity ijq os = (case ijq of
     NULL \<Rightarrow> Some 0
   | Ptr i \<Rightarrow> do { _ \<leftarrow> mapped_queue i os; ipc_jobqueue_capacity ijq os })"

definition sem_jobqueue_finish ::
  "sem_faults \<Rightarrow> ipc_t ptr \<Rightarrow> int \<Rightarrow> nat \<Rightarrow> sem_world \<Rightarrow> (sem_jobqueue_t ptr \<times> sem_world) outcome option" where
  "sem_jobqueue_finish fz ijq r1 mutex w = (case sem_wait (g_wait fz) mutex w of
     Blocks \<Rightarrow> Some Blocks
   | Returns w1 \<Rightarrow> do {
       (r2, full, w2) \<leftarrow> sem_new (g_ipc fz) (g_full fz) (g_err fz) sem_full_label 0 FULL_SEM_SUCCESS w1;
       cap \<leftarrow> handle_capacity ijq (sw_os w2);
       (r3, empty, w3) \<leftarrow> sem_new (g_ipc fz) (g_empty fz) (g_err fz) sem_empty_label (capacity_int cap) EMPTY_SEM_SUCCESS w2;
       out \<leftarrow> sem_jobqueue_verdict (g_ipc fz) ijq (r1 OR (r2 OR r3)) mutex full empty w3;
       Some (Returns out) })"

definition sem_jobqueue_new ::
  "sem_faults \<Rightarrow> proc_t ptr \<Rightarrow> sem_world \<Rightarrow> (sem_jobqueue_t ptr \<times> sem_world) outcome option" where
  "sem_jobqueue_new fz proc w =
     (if \<not> g_malloc fz then Some (Returns (NULL, set_errno (g_err fz) w))
      else do {
        (ijq, os) \<leftarrow> ipc_jobqueue_new (g_ipc fz) proc (sw_os w);
        let w1 = w\<lparr>sw_blocks := Suc (sw_blocks w), sw_os := os\<rparr>;
        if ijq = NULL then do { w2 \<leftarrow> free_sjq w1; Some (Returns (NULL, w2)) }
        else do {
          (r, mutex, w2) \<leftarrow> sem_new (g_ipc fz) (g_mutex fz) (g_err fz) sem_mutex_label 1 MUTEX_SEM_SUCCESS w1;
          if r \<noteq> MUTEX_SEM_SUCCESS then do {
            w3 \<leftarrow> delete_ijq ijq w2;
            w4 \<leftarrow> free_sjq w3;
            Some (Returns (NULL, w4)) }
          else do { n \<leftarrow> mutex; sem_jobqueue_finish fz ijq r n w2 } } })"

definition sem_jobqueue_capacity :: "sem_jobqueue_t ptr \<Rightarrow> sem_world \<Rightarrow> 64 word option" where
  "sem_jobqueue_capacity sjq w = (case sjq of
     NULL \<Rightarrow> Some 0
   | Ptr s \<Rightarrow> handle_capacity (sj_ijq s) (sw_os w))"

definition sem_jobqueue_delete :: "ipc_faults \<Rightarrow> sem_jobqueue_t ptr \<Rightarrow> sem_world \<Rightarrow> sem_world option" where
  "sem_jobqueue_delete fz sjq w = (case sjq of
     NULL \<Rightarrow> Some w
   | Ptr s \<Rightarrow> do {
       w1 \<leftarrow> sem_delete fz (sj_mutex s) sem_mutex_label w;
       delete_ijq (sj_ijq s) w1 })"

section \<open>Facts\<close>

definition sjq_name :: "string option \<Rightarrow> string \<Rightarrow> string" where
  "sjq_name user label = shobj_format (user_or_anon user) label"

text \<open>The three names are different, for every user.\<close>

lemma sjq_names_distinct [simp]:
  "sjq_name u sem_mutex_label \<noteq> sjq_name u sem_full_label" "sjq_name u sem_full_label \<noteq> sjq_name u sem_mutex_label"
  "sjq_name u sem_mutex_label \<noteq> sjq_name u sem_empty_label" "sjq_name u sem_empty_label \<noteq> sjq_name u sem_mutex_label"
  "sjq_name u sem_full_label \<noteq> sjq_name u sem_empty_label" "sjq_name u sem_empty_label \<noteq> sjq_name u sem_full_label"
  by (simp_all add: sjq_name_def shobj_format_inject sem_mutex_label_def sem_full_label_def sem_empty_label_def)

lemma sem_label_text:
  "label_text (Ptr (sem_mutex_label @ [NUL])) = Some sem_mutex_label"
  "label_text (Ptr (sem_full_label @ [NUL])) = Some sem_full_label"
  "label_text (Ptr (sem_empty_label @ [NUL])) = Some sem_empty_label"
  by (simp_all add: label_text_def NUL_def sem_mutex_label_def sem_full_label_def sem_empty_label_def)

lemma sem_name_ok:
  assumes "user_ok (os_user (sw_os w))" "faults_ok fz"
    and "l \<in> {sem_mutex_label, sem_full_label, sem_empty_label}"
  shows "sem_name fz l w = Some (sjq_name (os_user (sw_os w)) l)"
proof -
  have "label_text (Ptr (l @ [NUL])) = Some l" using assms(3) sem_label_text by auto
  from shobject_name_buf [OF this assms(1), of "f_buf fz" True] show ?thesis
    using assms(2) by (auto simp: sem_name_def sjq_name_def faults_ok_def)
qed

text \<open>Opening a semaphore under a name of the queue.\<close>

lemma sem_new_ok:
  assumes "user_ok (os_user (sw_os w))" "faults_ok fz"
    and "l \<in> {sem_mutex_label, sem_full_label, sem_empty_label}"
  shows "sem_new fz ok err l v success w = Some (case sem_open ok err (sjq_name (os_user (sw_os w)) l) (word_of_int v) w of
      (None, w1) \<Rightarrow> (SEM_NEW_FAIL, None, w1) | (Some n, w1) \<Rightarrow> (success, Some n, w1))"
  using sem_name_ok [OF assms] by (simp add: sem_new_def)

lemma ijq_capacity:
  assumes "jq_ok q (os_mem os)" "ip_addr i = Ptr q" "SIZEOF_JOBQUEUE \<le> os_size os q"
  shows "handle_capacity (Ptr i) os = Some 127"
proof -
  obtain jq where "jq_at (os_mem os) q jq" using assms(1) by (rule jq_okD)
  then show ?thesis
    using assms(2,3) jobqueue_capacity_ok [of "os_mem os" q jq]
    by (simp add: handle_capacity_def mapped_queue_def ipc_jobqueue_capacity_def QUEUE_SIZE_def)
qed

lemmas sem_success_defs = SEM_NEW_FAIL_def MUTEX_SEM_SUCCESS_def FULL_SEM_SUCCESS_def EMPTY_SEM_SUCCESS_def
  ALL_SEM_SUCCESS_def

lemma set_errno_sel [simp]:
  "os_user (sw_os (set_errno e w)) = os_user (sw_os w)" "os_mem (sw_os (set_errno e w)) = os_mem (sw_os w)"
  "sw_names (set_errno e w) = sw_names w" "sw_vals (set_errno e w) = sw_vals w" "sw_next (set_errno e w) = sw_next w"
  "sw_open (set_errno e w) = sw_open w" "sw_blocks (set_errno e w) = sw_blocks w"
  by (simp_all add: set_errno_def)

text \<open>
  Once the mutex is there, whatever becomes of the other two semaphores, the test
  of \<^verbatim>\<open>r\<close> succeeds: the bit of the mutex is enough.
\<close>

lemma sem_mask: "r2 \<in> {0, 2} \<Longrightarrow> r3 \<in> {0, 4} \<Longrightarrow>
    (MUTEX_SEM_SUCCESS OR (r2 OR r3)) AND ALL_SEM_SUCCESS \<noteq> 0"
  by (auto simp: sem_success_defs)

lemma start_values [simp]: "1 \<le> SEM_VALUE_MAX" "Suc 0 \<le> SEM_VALUE_MAX" "127 \<le> SEM_VALUE_MAX"
  by (simp_all add: SEM_VALUE_MAX_def)

lemma capacity_int_127 [simp]: "capacity_int 127 = 127"
  by (simp add: capacity_int_def)

lemma sem_open_sel:
  assumes "sem_open ok err nm value w = (r, w')" "unat value \<le> SEM_VALUE_MAX"
  shows "sw_os w' = (if ok then sw_os w else (sw_os w)\<lparr>os_errno := err\<rparr>)" "sw_blocks w' = sw_blocks w"
    "r = None \<longleftrightarrow> \<not> ok" "\<And>n. n < sw_next w \<Longrightarrow> sw_vals w' n = sw_vals w n"
    "\<And>k. k \<noteq> nm \<Longrightarrow> sw_names w' k = sw_names w k" "sw_next w \<le> sw_next w'"
    "sw_names w nm = Some n \<Longrightarrow> ok \<Longrightarrow> r = Some n \<and> sw_names w' nm = Some n \<and> sw_vals w' = sw_vals w \<and> sw_next w' = sw_next w"
    "sw_names w nm = None \<Longrightarrow> ok \<Longrightarrow> r = Some (sw_next w) \<and> sw_vals w' = (sw_vals w)(sw_next w := unat value) \<and>
      sw_names w' nm = Some (sw_next w) \<and> sw_next w' = Suc (sw_next w)"
    "r = Some n \<Longrightarrow> n \<in> set (sw_open w')" "set (sw_open w) \<subseteq> set (sw_open w')"
  using assms
  by (auto simp: sem_open_def set_errno_def Let_def not_less [symmetric] dest: sym [of "Some _"] split: if_splits option.splits)

text \<open>The whole creation, for a mutex that is available.\<close>

lemma sem_jobqueue_new_run:
  assumes malloc: "g_malloc fz" and usr: "user_ok (os_user (sw_os w))" and fz: "faults_ok (g_ipc fz)"
    and ijq: "ipc_jobqueue_new (g_ipc fz) proc (sw_os w) = Some (Ptr i, os)" "os_user os = os_user (sw_os w)"
      "ip_addr i = Ptr q" "jq_ok q (os_mem os)" "SIZEOF_JOBQUEUE \<le> os_size os q"
    and mutex: "sem_open (g_mutex fz) (g_err fz) (sjq_name (os_user (sw_os w)) sem_mutex_label) 1
      (w\<lparr>sw_blocks := Suc (sw_blocks w), sw_os := os\<rparr>) = (Some m, w1)"
    and wait: "g_wait fz" "sw_vals w1 m \<noteq> 0"
    and full: "sem_open (g_full fz) (g_err fz) (sjq_name (os_user (sw_os w)) sem_full_label) 0
      (w1\<lparr>sw_vals := (sw_vals w1)(m := sw_vals w1 m - 1)\<rparr>) = (f, w2)"
    and empty: "sem_open (g_empty fz) (g_err fz) (sjq_name (os_user (sw_os w)) sem_empty_label) 127 w2 = (e, w3)"
  shows "sem_jobqueue_new fz proc w = Some (Returns
    (Ptr \<lparr>sj_mutex = Some m, sj_full = f, sj_empty = e, sj_ijq = Ptr i\<rparr>, sem_post m w3))"
proof -
  let ?u = "os_user (sw_os w)"
  have gm: "g_mutex fz" using sem_open_sel(3) [OF mutex] by simp
  then have os1: "sw_os w1 = os" using sem_open_sel(1) [OF mutex] by simp
  have u1: "os_user (sw_os w1) = ?u" using os1 ijq(2) by simp
  have os2: "os_user (sw_os w2) = ?u" "os_mem (sw_os w2) = os_mem os" "os_size (sw_os w2) = os_size os"
    using sem_open_sel(1) [OF full] os1 ijq(2) by simp_all
  define r2 where "r2 = (if f = None then SEM_NEW_FAIL else FULL_SEM_SUCCESS)"
  define r3 where "r3 = (if e = None then SEM_NEW_FAIL else EMPTY_SEM_SUCCESS)"
  have n1: "sem_new (g_ipc fz) (g_mutex fz) (g_err fz) sem_mutex_label 1 MUTEX_SEM_SUCCESS
      (w\<lparr>sw_blocks := Suc (sw_blocks w), sw_os := os\<rparr>) = Some (MUTEX_SEM_SUCCESS, Some m, w1)"
    using usr fz ijq(2) mutex by (simp add: sem_new_ok)
  have n2: "sem_new (g_ipc fz) (g_full fz) (g_err fz) sem_full_label 0 FULL_SEM_SUCCESS
      (w1\<lparr>sw_vals := (sw_vals w1)(m := sw_vals w1 m - 1)\<rparr>) = Some (r2, f, w2)"
    using usr fz u1 full by (simp add: sem_new_ok r2_def split: option.split)
  have cap: "handle_capacity (Ptr i) (sw_os w2) = Some 127"
    by (rule ijq_capacity [OF _ ijq(3)]) (use ijq(4,5) os2 in simp_all)
  have n3: "sem_new (g_ipc fz) (g_empty fz) (g_err fz) sem_empty_label 127 EMPTY_SEM_SUCCESS w2 = Some (r3, e, w3)"
    using usr fz os2 empty by (simp add: sem_new_ok r3_def split: option.split)
  have "(MUTEX_SEM_SUCCESS OR (r2 OR r3)) AND ALL_SEM_SUCCESS \<noteq> 0"
    by (rule sem_mask) (simp_all add: r2_def r3_def sem_success_defs)
  then show ?thesis
    using malloc ijq(1) n1 n2 n3 cap wait
    by (simp add: sem_jobqueue_new_def sem_jobqueue_finish_def sem_jobqueue_verdict_def sem_wait_def Let_def)
qed

text \<open>
  Creation by the init process when no name exists: what each semaphore is, with
  the two later ones created or not.
\<close>

lemma sem_jobqueue_new_fresh:
  assumes wf: "wf_mem (os_mem (sw_os w))" and usr: "user_ok (os_user (sw_os w))" and p: "pr_is_init p"
    and fz: "g_malloc fz" "no_fault (g_ipc fz)" "g_mutex fz" "g_wait fz"
    and fresh: "\<And>l. l \<in> {sem_mutex_label, sem_full_label, sem_empty_label} \<Longrightarrow>
      sw_names w (sjq_name (os_user (sw_os w)) l) = None"
  shows "\<exists>s w' i q m. sem_jobqueue_new fz (Ptr p) w = Some (Returns (Ptr s, w')) \<and>
    sj_mutex s = Some m \<and> sw_vals w' m = 1 \<and> sj_ijq s = Ptr i \<and> ip_addr i = Ptr q \<and>
    m_queues (os_mem (sw_os w')) q = Some jq_empty \<and>
    (if g_full fz then \<exists>f. sj_full s = Some f \<and> sw_vals w' f = 0 \<and> f \<noteq> m \<and> sj_empty s \<noteq> Some f else sj_full s = None) \<and>
    (if g_empty fz then \<exists>e. sj_empty s = Some e \<and> sw_vals w' e = 127 \<and> e \<noteq> m else sj_empty s = None)"
proof -
  let ?u = "os_user (sw_os w)"
  obtain i os q where 1: "ipc_jobqueue_new (g_ipc fz) (Ptr p) (sw_os w) = Some (Ptr i, os)"
    "ip_addr i = Ptr q" "jq_ok q (os_mem os)" "m_queues (os_mem os) q = Some jq_empty" "os_user os = ?u"
    "os_size os q = SIZEOF_JOBQUEUE"
    using ipc_jobqueue_new_init [OF wf usr fz(2) p] by metis
  let ?w = "w\<lparr>sw_blocks := Suc (sw_blocks w), sw_os := os\<rparr>" and ?m = "sw_next w"
  obtain r w1 where o1: "sem_open (g_mutex fz) (g_err fz) (sjq_name ?u sem_mutex_label) 1 ?w = (r, w1)" by force
  have m: "r = Some ?m" "sw_vals w1 = (sw_vals w)(?m := 1)" "sw_next w1 = Suc ?m" "sw_os w1 = os"
    "sw_names w1 (sjq_name ?u sem_full_label) = None" "sw_names w1 (sjq_name ?u sem_empty_label) = None"
    using sem_open_sel(1,5,8) [OF o1] fz(3) fresh by simp_all
  let ?w1 = "w1\<lparr>sw_vals := (sw_vals w1)(?m := sw_vals w1 ?m - 1)\<rparr>"
  obtain f w2 where o2: "sem_open (g_full fz) (g_err fz) (sjq_name ?u sem_full_label) 0 ?w1 = (f, w2)" by force
  obtain e w3 where o3: "sem_open (g_empty fz) (g_err fz) (sjq_name ?u sem_empty_label) 127 w2 = (e, w3)" by force
  have run: "sem_jobqueue_new fz (Ptr p) w = Some (Returns
      (Ptr \<lparr>sj_mutex = Some ?m, sj_full = f, sj_empty = e, sj_ijq = Ptr i\<rparr>, sem_post ?m w3))"
    by (rule sem_jobqueue_new_run [OF fz(1) usr _ 1(1,5,2,3) _ o1 [unfolded m(1)] fz(4) _ o2 o3])
      (use fz(2) m 1(6) in \<open>simp_all add: no_fault_def\<close>)
  have w2: "sw_next w1 \<le> sw_next w2" "\<And>n. n < sw_next w1 \<Longrightarrow> sw_vals w2 n = sw_vals ?w1 n"
    "os_mem (sw_os w2) = os_mem os" "sw_names w2 (sjq_name ?u sem_empty_label) = None"
    using sem_open_sel(1,4,5,6) [OF o2] m by simp_all
  have full: "if g_full fz then f = Some (sw_next w1) \<and> sw_vals w2 (sw_next w1) = 0 \<and> sw_next w2 = Suc (sw_next w1) else f = None"
    using sem_open_sel(3,8) [OF o2] m by simp
  have empty: "if g_empty fz then e = Some (sw_next w2) \<and> sw_vals w3 (sw_next w2) = 127 else e = None"
    using sem_open_sel(3,8) [OF o3] w2(4) by simp
  have w3: "\<And>n. n < sw_next w2 \<Longrightarrow> sw_vals w3 n = sw_vals w2 n" "os_mem (sw_os w3) = os_mem os"
    using sem_open_sel(1,4) [OF o3] w2(3) by simp_all
  let ?s = "\<lparr>sj_mutex = Some ?m, sj_full = f, sj_empty = e, sj_ijq = Ptr i\<rparr>"
  have lt: "?m < sw_next w1" "sw_next w1 \<le> sw_next w2" using w2(1) m(3) by simp_all
  have post: "sw_vals (sem_post ?m w3) = (sw_vals w3)(?m := Suc (sw_vals w3 ?m))" by (simp add: sem_post_def)
  have "sw_vals w3 ?m = 0" using w2(1,2) w3(1) m by simp
  then have "sw_vals (sem_post ?m w3) ?m = 1" using post by simp
  moreover have "if g_full fz then \<exists>k. sj_full ?s = Some k \<and> sw_vals (sem_post ?m w3) k = 0 \<and> k \<noteq> ?m \<and> sj_empty ?s \<noteq> Some k
      else sj_full ?s = None"
    using full empty w3(1) lt by (cases "g_full fz"; cases "g_empty fz") (auto simp: post)
  moreover have "if g_empty fz then \<exists>k. sj_empty ?s = Some k \<and> sw_vals (sem_post ?m w3) k = 127 \<and> k \<noteq> ?m
      else sj_empty ?s = None"
    using empty lt by (cases "g_empty fz") (auto simp: post)
  moreover have "m_queues (os_mem (sw_os (sem_post ?m w3))) q = Some jq_empty"
    using 1(4) w3(2) by (simp add: sem_post_def)
  ultimately show ?thesis
    using run 1(2) by (intro exI [of _ ?s] exI [of _ "sem_post ?m w3"] exI [of _ i] exI [of _ q] exI [of _ ?m]) simp
qed

text \<open>The handle \<open>s\<close> is open on three semaphores that have their names.\<close>

definition sem_named :: "sem_jobqueue_t \<Rightarrow> nat \<Rightarrow> nat \<Rightarrow> nat \<Rightarrow> sem_world \<Rightarrow> bool" where
  "sem_named s m f e w \<longleftrightarrow> sj_mutex s = Some m \<and> sj_full s = Some f \<and> sj_empty s = Some e \<and>
     distinct [m, f, e] \<and> m < sw_next w \<and> f < sw_next w \<and> e < sw_next w \<and> m \<in> set (sw_open w) \<and>
     (let u = os_user (sw_os w) in
       sw_names w (sjq_name u sem_mutex_label) = Some m \<and> sw_names w (sjq_name u sem_full_label) = Some f \<and>
       sw_names w (sjq_name u sem_empty_label) = Some e)"

text \<open>Deletion closes and unlinks the mutex only, and gives back the inner handle only.\<close>

lemma sem_jobqueue_delete_ok:
  assumes named: "sem_named s m f e w" and usr: "user_ok (os_user (sw_os w))" and fz: "faults_ok fz"
    and ijq: "sj_ijq s = Ptr i" "os_blocks (sw_os w) = Suc k"
  shows "sem_jobqueue_delete fz (Ptr s) w = Some (w\<lparr>sw_open := remove1 m (sw_open w),
      sw_names := (sw_names w)(sjq_name (os_user (sw_os w)) sem_mutex_label := None),
      sw_os := (sw_os w)\<lparr>os_blocks := k\<rparr>\<rparr>)"
  using named usr fz ijq sem_name_ok [of "w\<lparr>sw_open := remove1 m (sw_open w)\<rparr>" fz sem_mutex_label]
  by (simp add: sem_named_def Let_def sem_jobqueue_delete_def sem_delete_def sem_close_def sem_unlink_def
      delete_ijq_def ipc_jobqueue_delete_def)

text \<open>Creation when the names of \<^verbatim>\<open>full\<close> and \<^verbatim>\<open>empty\<close> exist: their values stay.\<close>

lemma sem_jobqueue_new_stale:
  assumes wf: "wf_mem (os_mem (sw_os w))" and usr: "user_ok (os_user (sw_os w))" and p: "pr_is_init p"
    and fz: "g_malloc fz" "no_fault (g_ipc fz)" "g_mutex fz" "g_full fz" "g_empty fz" "g_wait fz"
    and names: "sw_names w (sjq_name (os_user (sw_os w)) sem_mutex_label) = None"
      "sw_names w (sjq_name (os_user (sw_os w)) sem_full_label) = Some f"
      "sw_names w (sjq_name (os_user (sw_os w)) sem_empty_label) = Some e" "f < sw_next w" "e < sw_next w"
  shows "\<exists>t w' i q. sem_jobqueue_new fz (Ptr p) w = Some (Returns (Ptr t, w')) \<and>
    sj_mutex t = Some (sw_next w) \<and> sw_vals w' (sw_next w) = 1 \<and>
    sj_full t = Some f \<and> sj_empty t = Some e \<and> sw_vals w' f = sw_vals w f \<and> sw_vals w' e = sw_vals w e \<and>
    sj_ijq t = Ptr i \<and> ip_addr i = Ptr q \<and> m_queues (os_mem (sw_os w')) q = Some jq_empty"
proof -
  let ?u = "os_user (sw_os w)" and ?m = "sw_next w"
  obtain i os q where 1: "ipc_jobqueue_new (g_ipc fz) (Ptr p) (sw_os w) = Some (Ptr i, os)"
    "ip_addr i = Ptr q" "jq_ok q (os_mem os)" "m_queues (os_mem os) q = Some jq_empty" "os_user os = ?u"
    "os_size os q = SIZEOF_JOBQUEUE"
    using ipc_jobqueue_new_init [OF wf usr fz(2) p] by metis
  let ?w = "w\<lparr>sw_blocks := Suc (sw_blocks w), sw_os := os\<rparr>"
  obtain r w1 where o1: "sem_open (g_mutex fz) (g_err fz) (sjq_name ?u sem_mutex_label) 1 ?w = (r, w1)" by force
  have m: "r = Some ?m" "sw_vals w1 = (sw_vals w)(?m := 1)" "sw_os w1 = os"
    "sw_names w1 (sjq_name ?u sem_full_label) = Some f" "sw_names w1 (sjq_name ?u sem_empty_label) = Some e"
    using sem_open_sel(1,5,8) [OF o1] fz(3) names by simp_all
  let ?w1 = "w1\<lparr>sw_vals := (sw_vals w1)(?m := sw_vals w1 ?m - 1)\<rparr>"
  obtain r2 w2 where o2: "sem_open (g_full fz) (g_err fz) (sjq_name ?u sem_full_label) 0 ?w1 = (r2, w2)" by force
  have f: "r2 = Some f" "sw_vals w2 = sw_vals ?w1" "sw_os w2 = os" "sw_names w2 (sjq_name ?u sem_empty_label) = Some e"
    using sem_open_sel(1,5,7) [OF o2] fz(4) m by simp_all
  obtain r3 w3 where o3: "sem_open (g_empty fz) (g_err fz) (sjq_name ?u sem_empty_label) 127 w2 = (r3, w3)" by force
  have e: "r3 = Some e" "sw_vals w3 = sw_vals w2" "sw_os w3 = os"
    using sem_open_sel(1,7) [OF o3] fz(5) f by simp_all
  have run: "sem_jobqueue_new fz (Ptr p) w = Some (Returns
      (Ptr \<lparr>sj_mutex = Some ?m, sj_full = r2, sj_empty = r3, sj_ijq = Ptr i\<rparr>, sem_post ?m w3))"
    by (rule sem_jobqueue_new_run [OF fz(1) usr _ 1(1,5,2,3) _ o1 [unfolded m(1)] fz(6) _ o2 o3])
      (use fz(2) m 1(6) in \<open>simp_all add: no_fault_def\<close>)
  show ?thesis
    using run f e m names(4,5) 1(2,4) by (simp add: sem_post_def)
qed

section \<open>Properties\<close>

definition all_sem_ok :: sem_faults where
  "all_sem_ok = \<lparr>g_malloc = True, g_ipc = all_ok, g_mutex = True, g_full = True, g_empty = True, g_wait = True, g_err = 12\<rparr>"

definition sem_start :: sem_world where
  "sem_start = \<lparr>sw_os = os_start (mem_of [] [] True), sw_names = (\<lambda>_. None), sw_vals = (\<lambda>_. 0), sw_next = 0,
     sw_open = [], sw_blocks = 0\<rparr>"

lemma sem_start_ok: "wf_mem (os_mem (sw_os sem_start))" "user_ok (os_user (sw_os sem_start))" "sw_names sem_start k = None"
  by (simp_all add: sem_start_def os_start_def wf_mem_of user_ok_def)

text \<open>
  When no semaphore of these names exists and nothing fails, the init process
  creates the state from which the concurrent runs start: mutex 1, \<^verbatim>\<open>full\<close> 0,
  \<^verbatim>\<open>empty\<close> 127, three different semaphores, and the empty queue in shared memory.
\<close>

theorem sem_setup_initial:
  assumes "wf_mem (os_mem (sw_os w))" "user_ok (os_user (sw_os w))" "pr_is_init p"
    and "g_malloc fz" "no_fault (g_ipc fz)" "g_mutex fz" "g_full fz" "g_empty fz" "g_wait fz"
    and "\<And>k. sw_names w k = None"
  shows "\<exists>s w' m f e i q. sem_jobqueue_new fz (Ptr p) w = Some (Returns (Ptr s, w')) \<and>
    sj_mutex s = Some m \<and> sj_full s = Some f \<and> sj_empty s = Some e \<and> distinct [m, f, e] \<and>
    sj_ijq s = Ptr i \<and> ip_addr i = Ptr q \<and>
    sw_vals w' m = ss_mutex (sem_init n) \<and> sw_vals w' f = ss_full (sem_init n) \<and>
    sw_vals w' e = ss_empty (sem_init n) \<and> m_queues (os_mem (sw_os w')) q = Some (ss_queue (sem_init n))"
  using sem_jobqueue_new_fresh [OF assms(1,2,3,4,5,6,9)] assms(7,8,10)
  by (fastforce simp: sem_init_def QUEUE_SIZE_def)

lemma sem_setup_initial_witness:
  "\<exists>s w'. sem_jobqueue_new all_sem_ok
      (Ptr (proc_of SEM_PROD_PROC 1 True \<lparr>w_min = 20, w_max = 40\<rparr> \<lparr>w_min = 0, w_max = 0\<rparr>)) sem_start = Some (Returns (Ptr s, w')) \<and>
    (\<exists>f. sj_full s = Some f \<and> sw_vals w' f = 0)"
  using sem_setup_initial [OF sem_start_ok(1,2) _ _ _ _ _ _ _ sem_start_ok(3),
      of "proc_of SEM_PROD_PROC 1 True \<lparr>w_min = 20, w_max = 40\<rparr> \<lparr>w_min = 0, w_max = 0\<rparr>" all_sem_ok 2]
  by (force simp: proc_of_def all_sem_ok_def sem_init_def)

text \<open>
  C30: a semaphore that cannot be created goes unnoticed: as soon as the mutex is
  there, \<^verbatim>\<open>sem_jobqueue_new\<close> returns a queue, in which the pointer to \<^verbatim>\<open>full\<close> or
  \<^verbatim>\<open>empty\<close> whose creation failed was never set; the test
  \<^verbatim>\<open>r & ALL_SEM_SUCCESS\<close> is true with any one bit, so the clean-up after it never
  runs.
\<close>

theorem sem_setup_failure_unnoticed:
  assumes "wf_mem (os_mem (sw_os w))" "user_ok (os_user (sw_os w))" "pr_is_init p"
    and "g_malloc fz" "no_fault (g_ipc fz)" "g_mutex fz" "g_wait fz" "\<not> g_full fz \<or> \<not> g_empty fz"
    and "\<And>k. sw_names w k = None"
  shows "\<exists>s w'. sem_jobqueue_new fz (Ptr p) w = Some (Returns (Ptr s, w')) \<and>
    (sj_full s = None \<longleftrightarrow> \<not> g_full fz) \<and> (sj_empty s = None \<longleftrightarrow> \<not> g_empty fz)"
  using sem_jobqueue_new_fresh [OF assms(1,2,3,4,5,6,7)] assms(9) by (force split: if_splits)

lemma sem_setup_failure_unnoticed_witness:
  "\<exists>s w'. sem_jobqueue_new (all_sem_ok\<lparr>g_full := False\<rparr>)
      (Ptr (proc_of SEM_PROD_PROC 1 True \<lparr>w_min = 20, w_max = 40\<rparr> \<lparr>w_min = 0, w_max = 0\<rparr>)) sem_start = Some (Returns (Ptr s, w')) \<and>
    sj_full s = None"
  using sem_setup_failure_unnoticed [OF sem_start_ok(1,2) _ _ _ _ _ _ sem_start_ok(3),
      of "proc_of SEM_PROD_PROC 1 True \<lparr>w_min = 20, w_max = 40\<rparr> \<lparr>w_min = 0, w_max = 0\<rparr>" "all_sem_ok\<lparr>g_full := False\<rparr>"]
  by (simp add: proc_of_def all_sem_ok_def) blast

text \<open>
  Deleting a queue unlinks its mutex only. When the init process creates the
  queue again, the job queue is new and empty but \<^verbatim>\<open>full\<close> and \<^verbatim>\<open>empty\<close> are the old
  semaphores with the counts the deleted queue left in them; the block of the old
  handle is never freed.
\<close>

theorem sem_delete_stale:
  assumes "sem_named s m f e w" "sj_ijq s = Ptr i" "0 < os_blocks (sw_os w)"
    and "wf_mem (os_mem (sw_os w))" "user_ok (os_user (sw_os w))" "pr_is_init p"
    and "faults_ok fd" "g_malloc fz" "no_fault (g_ipc fz)" "g_mutex fz" "g_full fz" "g_empty fz" "g_wait fz"
  shows "\<exists>w1 t w2 j q. sem_jobqueue_delete fd (Ptr s) w = Some w1 \<and> sw_blocks w1 = sw_blocks w \<and>
    sem_jobqueue_new fz (Ptr p) w1 = Some (Returns (Ptr t, w2)) \<and>
    sj_full t = sj_full s \<and> sj_empty t = sj_empty s \<and>
    sw_vals w2 f = sw_vals w f \<and> sw_vals w2 e = sw_vals w e \<and>
    sj_ijq t = Ptr j \<and> ip_addr j = Ptr q \<and> m_queues (os_mem (sw_os w2)) q = Some jq_empty"
proof -
  obtain k where k: "os_blocks (sw_os w) = Suc k" using assms(3) gr0_implies_Suc by blast
  let ?w = "w\<lparr>sw_open := remove1 m (sw_open w),
      sw_names := (sw_names w)(sjq_name (os_user (sw_os w)) sem_mutex_label := None),
      sw_os := (sw_os w)\<lparr>os_blocks := k\<rparr>\<rparr>"
  have "sem_jobqueue_delete fd (Ptr s) w = Some ?w" by (rule sem_jobqueue_delete_ok [OF assms(1,5,7,2) k])
  moreover have "\<exists>t w' i q. sem_jobqueue_new fz (Ptr p) ?w = Some (Returns (Ptr t, w')) \<and>
    sj_mutex t = Some (sw_next ?w) \<and> sw_vals w' (sw_next ?w) = 1 \<and>
    sj_full t = Some f \<and> sj_empty t = Some e \<and> sw_vals w' f = sw_vals ?w f \<and> sw_vals w' e = sw_vals ?w e \<and>
    sj_ijq t = Ptr i \<and> ip_addr i = Ptr q \<and> m_queues (os_mem (sw_os w')) q = Some jq_empty"
    by (rule sem_jobqueue_new_stale) (use assms in \<open>simp_all add: sem_named_def Let_def\<close>)
  ultimately show ?thesis using assms(1) by (auto simp: sem_named_def)
qed

text \<open>A queue in which one job was left.\<close>

definition sem_used :: sem_world where
  "sem_used = sem_start\<lparr>sw_os := (os_start (mem_of [] [] True))\<lparr>os_blocks := 1\<rparr>,
     sw_names := (\<lambda>_. None)(sjq_name None sem_mutex_label \<mapsto> 0, sjq_name None sem_full_label \<mapsto> 1, sjq_name None sem_empty_label \<mapsto> 2),
     sw_vals := (\<lambda>n. if n = 1 then 1 else if n = 2 then 126 else 1), sw_next := 3, sw_open := [0, 1, 2], sw_blocks := 1\<rparr>"

lemma sem_delete_stale_witness:
  "\<exists>w1 t w2. sem_jobqueue_delete all_ok (Ptr \<lparr>sj_mutex = Some 0, sj_full = Some 1, sj_empty = Some 2,
       sj_ijq = Ptr \<lparr>ip_proc = proc_of SEM_PROD_PROC 1 True \<lparr>w_min = 20, w_max = 40\<rparr> \<lparr>w_min = 0, w_max = 0\<rparr>, ip_name = [], ip_addr = NULL\<rparr>\<rparr>)
       sem_used = Some w1 \<and>
     sem_jobqueue_new all_sem_ok (Ptr (proc_of SEM_PROD_PROC 1 True \<lparr>w_min = 20, w_max = 40\<rparr> \<lparr>w_min = 0, w_max = 0\<rparr>)) w1 = Some (Returns (Ptr t, w2)) \<and>
     sj_full t = Some 1 \<and> sw_vals w2 1 = 1"
proof -
  let ?s = "\<lparr>sj_mutex = Some 0, sj_full = Some 1, sj_empty = Some 2,
       sj_ijq = Ptr \<lparr>ip_proc = proc_of SEM_PROD_PROC 1 True \<lparr>w_min = 20, w_max = 40\<rparr> \<lparr>w_min = 0, w_max = 0\<rparr>, ip_name = [], ip_addr = NULL\<rparr>\<rparr>"
  have "sem_named ?s 0 1 2 sem_used" by (simp add: sem_named_def sem_used_def os_start_def)
  moreover have "wf_mem (os_mem (sw_os sem_used))" "user_ok (os_user (sw_os sem_used))" "os_blocks (sw_os sem_used) = 1"
    by (simp_all add: sem_used_def os_start_def wf_mem_of user_ok_def)
  moreover have "sw_vals sem_used 1 = 1" by (simp add: sem_used_def)
  moreover have "faults_ok all_ok" by (simp add: faults_ok_def all_ok_def)
  ultimately show ?thesis
    using sem_delete_stale [of ?s 0 1 2 sem_used _ "proc_of SEM_PROD_PROC 1 True \<lparr>w_min = 20, w_max = 40\<rparr> \<lparr>w_min = 0, w_max = 0\<rparr>"
        all_ok all_sem_ok]
    by (simp add: proc_of_def all_sem_ok_def) blast
qed

end
