(* ===== verification/Simulation.thy ===== *)
theory Simulation
  imports Sem_Contract Sem_Setup Joblog "HOL-Library.Sublist" "HOL-Library.Multiset"
begin

text \<open>
  The parts together: what \<^verbatim>\<open>sem_jobqueue_new\<close> creates is a state of the concurrent
  model, for the process that creates the queue and for those that join it; what a
  stale queue does and how \<^verbatim>\<open>rmsho\<close> repairs it; and what the consumers of a
  shared queue write to their logs.
\<close>

section \<open>From the created objects to the concurrent model\<close>

text \<open>The state of \<open>n\<close> processes on a queue, read from the semaphores and the shared memory of a handle.\<close>

definition sem_sys_of :: "nat \<Rightarrow> sem_jobqueue_t \<Rightarrow> sem_world \<Rightarrow> sem_sys option" where
  "sem_sys_of n s w = do {
     m \<leftarrow> sj_mutex s;
     f \<leftarrow> sj_full s;
     e \<leftarrow> sj_empty s;
     q \<leftarrow> (case sj_ijq s of NULL \<Rightarrow> None | Ptr i \<Rightarrow> (case ip_addr i of NULL \<Rightarrow> None | Ptr q \<Rightarrow> Some q));
     jq \<leftarrow> m_queues (os_mem (sw_os w)) q;
     Some \<lparr>ss_mutex = sw_vals w m, ss_full = sw_vals w f, ss_empty = sw_vals w e, ss_queue = jq,
       ss_loc = replicate n (Idle R_void), ss_in = [], ss_out = [], ss_lost_empty = 0, ss_lost_full = 0, ss_null = 0\<rparr> }"

lemma created_initial:
  assumes "wf_mem (os_mem (sw_os w))" "user_ok (os_user (sw_os w))" "pr_is_init p"
    and "g_malloc fz" "no_fault (g_ipc fz)" "g_mutex fz" "g_wait fz" "g_full fz" "g_empty fz"
    and "\<And>l. l \<in> {sem_mutex_label, sem_full_label, sem_empty_label} \<Longrightarrow>
      sw_names w (sjq_name (os_user (sw_os w)) l) = None"
  shows "\<exists>s w'. sem_jobqueue_new fz (Ptr p) w = Some (Returns (Ptr s, w')) \<and> sem_sys_of n s w' = Some (sem_init n)"
proof -
  obtain s w' i q m where s: "sem_jobqueue_new fz (Ptr p) w = Some (Returns (Ptr s, w'))"
    "sj_mutex s = Some m" "sw_vals w' m = 1" "sj_ijq s = Ptr i" "ip_addr i = Ptr q"
    "m_queues (os_mem (sw_os w')) q = Some jq_empty"
    "if g_full fz then \<exists>f. sj_full s = Some f \<and> sw_vals w' f = 0 \<and> f \<noteq> m \<and> sj_empty s \<noteq> Some f else sj_full s = None"
    "if g_empty fz then \<exists>e. sj_empty s = Some e \<and> sw_vals w' e = 127 \<and> e \<noteq> m else sj_empty s = None"
    using sem_jobqueue_new_fresh [OF assms(1-7) assms(10)] by blast
  then have "sem_sys_of n s w' = Some (sem_init n)"
    using assms(8,9) by (auto simp: sem_sys_of_def sem_init_def QUEUE_SIZE_def)
  with s(1) show ?thesis by blast
qed

section \<open>\<^verbatim>\<open>rmsho\<close> on the system\<close>

fun do_unlink :: "unlink_call \<Rightarrow> sem_world \<Rightarrow> sem_world" where
  "do_unlink (Sem_unlink nm) w = sem_unlink nm w"
| "do_unlink (Shm_unlink nm) w = w\<lparr>sw_os := shm_unlink nm (sw_os w)\<rparr>"

text \<open>Invocations of the tool, one after the other, each with its arguments.\<close>

fun run_rmsho :: "char list list list \<Rightarrow> sem_world \<Rightarrow> sem_world option" where
  "run_rmsho [] w = Some w"
| "run_rmsho (argv # rest) w = do {
     (status, out, calls) \<leftarrow> rmsho_main True (os_user (sw_os w)) argv;
     run_rmsho rest (fold do_unlink calls w) }"

text \<open>What the functions \<^verbatim>\<open>rmshm\<close> and \<^verbatim>\<open>rmsem\<close> of \<^verbatim>\<open>runrmsho.sh\<close> invoke.\<close>

definition rmshm_labels :: "string list" where
  "rmshm_labels = [''none'', ''ipc_jobq'', ''mux_lockvar'', ''mux_peters'', ''test_ipc'']"

definition rmsem_labels :: "string list" where
  "rmsem_labels = [''sjq.mutex'', ''sjq.full'', ''sjq.empty'']"

definition rmshm_args :: "char list list list" where
  "rmshm_args = map (\<lambda>i. [''./rmsho'' @ [NUL], i @ [NUL]]) rmshm_labels"

definition rmsem_args :: "char list list list" where
  "rmsem_args = map (\<lambda>i. [''./rmsho'' @ [NUL], ''-s'' @ [NUL], i @ [NUL]]) rmsem_labels"

text \<open>
  The script itself, for arguments of one word each (the shell would split others
  in its tests).
\<close>

definition runrmsho :: "string list \<Rightarrow> char list list list" where
  "runrmsho args =
     (if length args \<noteq> 1 then rmshm_args @ rmsem_args
      else if hd args = ''-s'' then rmsem_args
      else if hd args = ''-m'' then rmshm_args
      else rmshm_args @ rmsem_args)"

lemma runrmsho_cases:
  "runrmsho args = (if args = [''-s''] then [] else rmshm_args) @ (if args = [''-m''] then [] else rmsem_args)"
  by (cases args; cases "tl args") (auto simp: runrmsho_def)

lemma rm_labels:
  "\<forall>l \<in> set rmshm_labels. l \<noteq> [] \<and> NUL \<notin> set l" "\<forall>l \<in> set rmsem_labels. l \<noteq> [] \<and> NUL \<notin> set l"
  by (simp_all add: rmshm_labels_def rmsem_labels_def NUL_def)

lemma label_text_lit: "lab \<noteq> [] \<Longrightarrow> NUL \<notin> set lab \<Longrightarrow> label_text (Ptr (lab @ [NUL])) = Some lab"
  by (simp add: label_text_def c_str_NUL)

lemma prog_text: "c_str (''./rmsho'' @ [NUL]) = Some ''./rmsho''"
  by (rule c_str_NUL) (simp add: NUL_def)

lemma sem_unlink_sel [simp]:
  "os_user (sw_os (sem_unlink nm w)) = os_user (sw_os w)" "os_mem (sw_os (sem_unlink nm w)) = os_mem (sw_os w)"
  "os_shm (sw_os (sem_unlink nm w)) = os_shm (sw_os w)" "sw_vals (sem_unlink nm w) = sw_vals w"
  "sw_names (sem_unlink nm w) = (sw_names w)(nm := None)"
  by (simp_all add: sem_unlink_def set_errno_def fun_upd_idem split: option.splits)

text \<open>Removing semaphores, and shared memory objects, by label.\<close>

lemma run_rmsho_sems:
  assumes "\<forall>l \<in> set ls. l \<noteq> [] \<and> NUL \<notin> set l" "user_ok (os_user (sw_os w))"
  shows "\<exists>w'. run_rmsho (map (\<lambda>i. [''./rmsho'' @ [NUL], ''-s'' @ [NUL], i @ [NUL]]) ls) w = Some w' \<and>
    os_user (sw_os w') = os_user (sw_os w) \<and> os_mem (sw_os w') = os_mem (sw_os w) \<and>
    os_shm (sw_os w') = os_shm (sw_os w) \<and> sw_vals w' = sw_vals w \<and>
    sw_names w' = (\<lambda>k. if k \<in> sjq_name (os_user (sw_os w)) ` set ls then None else sw_names w k)"
  using assms
proof (induction ls arbitrary: w)
  case Nil
  then show ?case by simp
next
  case (Cons l ls)
  let ?w = "sem_unlink (sjq_name (os_user (sw_os w)) l) w"
  obtain out where "rmsho_main True (os_user (sw_os w)) [''./rmsho'' @ [NUL], ''-s'' @ [NUL], l @ [NUL]] =
      Some (0, out, [Sem_unlink (sjq_name (os_user (sw_os w)) l)])"
    using rmsho_unlinks(2) [OF label_text_lit [of l] Cons.prems(2) prog_text] Cons.prems(1)
    by (auto simp: sjq_name_def)
  then have "run_rmsho (map (\<lambda>i. [''./rmsho'' @ [NUL], ''-s'' @ [NUL], i @ [NUL]]) (l # ls)) w =
      run_rmsho (map (\<lambda>i. [''./rmsho'' @ [NUL], ''-s'' @ [NUL], i @ [NUL]]) ls) ?w"
    by simp
  then show ?case using Cons.IH [of ?w] Cons.prems by (auto simp: fun_eq_iff)
qed

lemma run_rmsho_shms:
  assumes "\<forall>l \<in> set ls. l \<noteq> [] \<and> NUL \<notin> set l" "user_ok (os_user (sw_os w))"
  shows "\<exists>w'. run_rmsho (map (\<lambda>i. [''./rmsho'' @ [NUL], i @ [NUL]]) ls) w = Some w' \<and>
    os_user (sw_os w') = os_user (sw_os w) \<and> os_mem (sw_os w') = os_mem (sw_os w) \<and>
    sw_names w' = sw_names w \<and> sw_vals w' = sw_vals w \<and>
    os_shm (sw_os w') = (\<lambda>k. if k \<in> sjq_name (os_user (sw_os w)) ` set ls then None else os_shm (sw_os w) k)"
  using assms
proof (induction ls arbitrary: w)
  case Nil
  then show ?case by simp
next
  case (Cons l ls)
  let ?w = "w\<lparr>sw_os := shm_unlink (sjq_name (os_user (sw_os w)) l) (sw_os w)\<rparr>"
  obtain out where "rmsho_main True (os_user (sw_os w)) [''./rmsho'' @ [NUL], l @ [NUL]] =
      Some (0, out, [Shm_unlink (sjq_name (os_user (sw_os w)) l)])"
    using rmsho_unlinks(1) [OF label_text_lit [of l] Cons.prems(2) prog_text] Cons.prems(1)
    by (auto simp: sjq_name_def)
  then have "run_rmsho (map (\<lambda>i. [''./rmsho'' @ [NUL], i @ [NUL]]) (l # ls)) w =
      run_rmsho (map (\<lambda>i. [''./rmsho'' @ [NUL], i @ [NUL]]) ls) ?w"
    by simp
  then show ?case using Cons.IH [of ?w] Cons.prems by (auto simp: fun_eq_iff)
qed

lemma run_rmsho_append:
  "run_rmsho (xs @ ys) w = do { w1 \<leftarrow> run_rmsho xs w; run_rmsho ys w1 }"
  by (induction xs arbitrary: w) (simp, force split: bind_splits)

section \<open>Joining a queue\<close>

text \<open>The names a handle's objects have, the shared memory included.\<close>

definition queue_named :: "sem_jobqueue_t \<Rightarrow> nat \<Rightarrow> nat \<Rightarrow> nat \<Rightarrow> nat \<Rightarrow> sem_world \<Rightarrow> bool" where
  "queue_named s m f e q w \<longleftrightarrow> sem_named s m f e w \<and>
     (\<exists>i. sj_ijq s = Ptr i \<and> ip_addr i = Ptr q) \<and> jq_ok q (os_mem (sw_os w)) \<and>
     SIZEOF_JOBQUEUE \<le> os_size (sw_os w) q \<and>
     os_shm (sw_os w) (shm_name (sw_os w) (Ptr (''ipc_jobq'' @ [NUL]))) = Some q"

lemma sem_join_run:
  assumes named: "queue_named s m f e q w" and usr: "user_ok (os_user (sw_os w))" and p: "\<not> pr_is_init p"
    and fz: "g_malloc fz" "no_fault (g_ipc fz)" "g_mutex fz" "g_full fz" "g_empty fz" "g_wait fz"
    and free: "sw_vals w m \<noteq> 0"
  shows "\<exists>i w'. sem_jobqueue_new fz (Ptr p) w =
      Some (Returns (Ptr \<lparr>sj_mutex = Some m, sj_full = Some f, sj_empty = Some e, sj_ijq = Ptr i\<rparr>, w')) \<and>
    ip_addr i = Ptr q \<and> sw_vals w' = sw_vals w \<and> os_mem (sw_os w') = os_mem (sw_os w)"
proof -
  let ?u = "os_user (sw_os w)"
  have at: "os_shm (sw_os w) (shm_name (sw_os w) (Ptr (''ipc_jobq'' @ [NUL]))) = Some q"
    and jq: "jq_ok q (os_mem (sw_os w))" "SIZEOF_JOBQUEUE \<le> os_size (sw_os w) q"
    and sem: "sw_names w (sjq_name ?u sem_mutex_label) = Some m" "sw_names w (sjq_name ?u sem_full_label) = Some f"
      "sw_names w (sjq_name ?u sem_empty_label) = Some e" "m \<noteq> f" "m \<noteq> e"
    using named by (simp_all add: queue_named_def sem_named_def Let_def)
  obtain i os where 1: "ipc_jobqueue_new (g_ipc fz) (Ptr p) (sw_os w) = Some (Ptr i, os)" "ip_addr i = Ptr q"
    "os_mem os = os_mem (sw_os w)" "os_user os = ?u" "os_size os = os_size (sw_os w)"
    using ipc_jobqueue_new_attach [OF usr fz(2) p at] by blast
  let ?w = "w\<lparr>sw_blocks := Suc (sw_blocks w), sw_os := os\<rparr>"
  obtain r w1 where o1: "sem_open (g_mutex fz) (g_err fz) (sjq_name ?u sem_mutex_label) 1 ?w = (r, w1)" by force
  have m: "r = Some m" "sw_vals w1 = sw_vals w" "sw_os w1 = os"
    "sw_names w1 (sjq_name ?u sem_full_label) = Some f" "sw_names w1 (sjq_name ?u sem_empty_label) = Some e"
    using sem_open_sel(1,5,7) [OF o1] fz(3) sem by simp_all
  let ?w1 = "w1\<lparr>sw_vals := (sw_vals w1)(m := sw_vals w1 m - 1)\<rparr>"
  obtain r2 w2 where o2: "sem_open (g_full fz) (g_err fz) (sjq_name ?u sem_full_label) 0 ?w1 = (r2, w2)" by force
  have f: "r2 = Some f" "sw_vals w2 = sw_vals ?w1" "sw_os w2 = os" "sw_names w2 (sjq_name ?u sem_empty_label) = Some e"
    using sem_open_sel(1,5,7) [OF o2] fz(4) m by simp_all
  obtain r3 w3 where o3: "sem_open (g_empty fz) (g_err fz) (sjq_name ?u sem_empty_label) 127 w2 = (r3, w3)" by force
  have e: "r3 = Some e" "sw_vals w3 = sw_vals w2" "sw_os w3 = os"
    using sem_open_sel(1,7) [OF o3] fz(5) f by simp_all
  have "sem_jobqueue_new fz (Ptr p) w = Some (Returns
      (Ptr \<lparr>sj_mutex = Some m, sj_full = r2, sj_empty = r3, sj_ijq = Ptr i\<rparr>, sem_post m w3))"
    by (rule sem_jobqueue_new_run [OF fz(1) usr _ 1(1,4,2) _ _ o1 [unfolded m(1)] fz(6) _ o2 o3])
      (use fz(2) m free jq 1(3,5) in \<open>simp_all add: no_fault_def\<close>)
  moreover have "sw_vals (sem_post m w3) = sw_vals w" using e f m free by (simp add: sem_post_def fun_eq_iff)
  ultimately show ?thesis using e f 1 by (auto simp: sem_post_def)
qed

text \<open>A process that joins while another is inside waits for the mutex.\<close>

lemma sem_join_blocks:
  assumes named: "queue_named s m f e q w" and usr: "user_ok (os_user (sw_os w))" and p: "\<not> pr_is_init p"
    and fz: "g_malloc fz" "no_fault (g_ipc fz)" "g_mutex fz" "g_wait fz"
    and taken: "sw_vals w m = 0"
  shows "sem_jobqueue_new fz (Ptr p) w = Some Blocks"
proof -
  let ?u = "os_user (sw_os w)"
  have at: "os_shm (sw_os w) (shm_name (sw_os w) (Ptr (''ipc_jobq'' @ [NUL]))) = Some q"
    and sem: "sw_names w (sjq_name ?u sem_mutex_label) = Some m"
    using named by (simp_all add: queue_named_def sem_named_def Let_def)
  obtain i os where 1: "ipc_jobqueue_new (g_ipc fz) (Ptr p) (sw_os w) = Some (Ptr i, os)" "os_user os = ?u"
    using ipc_jobqueue_new_attach [OF usr fz(2) p at] by blast
  have "sem_new (g_ipc fz) (g_mutex fz) (g_err fz) sem_mutex_label 1 MUTEX_SEM_SUCCESS
      (w\<lparr>sw_blocks := Suc (sw_blocks w), sw_os := os\<rparr>) =
    Some (MUTEX_SEM_SUCCESS, Some m, w\<lparr>sw_blocks := Suc (sw_blocks w), sw_os := os, sw_open := sw_open w @ [m]\<rparr>)"
    using sem_new_ok [of "w\<lparr>sw_blocks := Suc (sw_blocks w), sw_os := os\<rparr>" "g_ipc fz" sem_mutex_label] usr fz 1(2) sem
    by (simp add: sem_open_def no_fault_def)
  then show ?thesis
    using fz 1(1) taken by (simp add: sem_jobqueue_new_def sem_jobqueue_finish_def sem_wait_def)
qed

section \<open>Properties\<close>

text \<open>The names of the semaphores, and those of the shared memory, for a user.\<close>

definition sem_names :: "string option \<Rightarrow> string set" where
  "sem_names u = sjq_name u ` set rmsem_labels"

definition shm_names :: "string option \<Rightarrow> string set" where
  "shm_names u = sjq_name u ` set rmshm_labels"

text \<open>What the script does to the system, with any arguments.\<close>

lemma runrmsho_names:
  assumes "user_ok (os_user (sw_os w))"
  obtains w1 where "run_rmsho (runrmsho args) w = Some w1" "os_user (sw_os w1) = os_user (sw_os w)"
    "os_mem (sw_os w1) = os_mem (sw_os w)"
    "sw_names w1 = (\<lambda>k. if args \<noteq> [''-m''] \<and> k \<in> sem_names (os_user (sw_os w)) then None else sw_names w k)"
    "os_shm (sw_os w1) = (\<lambda>k. if args \<noteq> [''-s''] \<and> k \<in> shm_names (os_user (sw_os w)) then None else os_shm (sw_os w) k)"
proof -
  let ?u = "os_user (sw_os w)"
  let ?ms = "if args = [''-s''] then [] else rmshm_args" and ?ss = "if args = [''-m''] then [] else rmsem_args"
  obtain v where v: "run_rmsho ?ms w = Some v" "os_user (sw_os v) = ?u" "os_mem (sw_os v) = os_mem (sw_os w)"
      "sw_names v = sw_names w"
      "os_shm (sw_os v) = (\<lambda>k. if args \<noteq> [''-s''] \<and> k \<in> shm_names ?u then None else os_shm (sw_os w) k)"
    using run_rmsho_shms [OF rm_labels(1) assms, folded rmshm_args_def shm_names_def] by (cases "args = [''-s'']") auto
  have "user_ok (os_user (sw_os v))" using assms v(2) by simp
  from run_rmsho_sems [OF rm_labels(2) this, folded rmsem_args_def sem_names_def] obtain w1 where
    w1: "run_rmsho ?ss v = Some w1" "os_user (sw_os w1) = ?u" "os_mem (sw_os w1) = os_mem (sw_os w)"
      "os_shm (sw_os w1) = os_shm (sw_os v)"
      "sw_names w1 = (\<lambda>k. if args \<noteq> [''-m''] \<and> k \<in> sem_names ?u then None else sw_names w k)"
    unfolding v(2,3,4) using v(2,3,4) by (cases "args = [''-m'']") auto
  then show thesis using that v(1,5) by (simp add: runrmsho_cases run_rmsho_append)
qed

text \<open>
  C17: after \<^verbatim>\<open>runrmsho.sh\<close>, in whatever state earlier runs left the system, the
  names of the program's shared memory (unless its argument is \<^verbatim>\<open>-s\<close>) and of its
  semaphores (unless it is \<^verbatim>\<open>-m\<close>), and no others, are gone. Without \<^verbatim>\<open>-m\<close>, the
  queue the init process then creates is in the initial state of the concurrent
  model: mutex 1, \<^verbatim>\<open>full\<close> 0, \<^verbatim>\<open>empty\<close> 127, the queue empty.
\<close>

theorem runrmsho_repairs:
  assumes "wf_mem (os_mem (sw_os w))" "user_ok (os_user (sw_os w))" "pr_is_init p"
    and "g_malloc fz" "no_fault (g_ipc fz)" "g_mutex fz" "g_full fz" "g_empty fz" "g_wait fz"
  shows "\<exists>w1. run_rmsho (runrmsho args) w = Some w1 \<and>
    sw_names w1 = (\<lambda>k. if args \<noteq> [''-m''] \<and> k \<in> sem_names (os_user (sw_os w)) then None else sw_names w k) \<and>
    os_shm (sw_os w1) = (\<lambda>k. if args \<noteq> [''-s''] \<and> k \<in> shm_names (os_user (sw_os w)) then None else os_shm (sw_os w) k) \<and>
    (args \<noteq> [''-m''] \<longrightarrow> (\<exists>s w2. sem_jobqueue_new fz (Ptr p) w1 = Some (Returns (Ptr s, w2)) \<and> sem_sys_of n s w2 = Some (sem_init n)))"
proof -
  obtain w1 where w1: "run_rmsho (runrmsho args) w = Some w1" "os_user (sw_os w1) = os_user (sw_os w)"
    "os_mem (sw_os w1) = os_mem (sw_os w)"
    "sw_names w1 = (\<lambda>k. if args \<noteq> [''-m''] \<and> k \<in> sem_names (os_user (sw_os w)) then None else sw_names w k)"
    "os_shm (sw_os w1) = (\<lambda>k. if args \<noteq> [''-s''] \<and> k \<in> shm_names (os_user (sw_os w)) then None else os_shm (sw_os w) k)"
    by (rule runrmsho_names [OF assms(2)])
  have "sw_names w1 (sjq_name (os_user (sw_os w1)) l) = None"
    if "l \<in> {sem_mutex_label, sem_full_label, sem_empty_label}" "args \<noteq> [''-m'']" for l
    using that unfolding w1(2,4) sem_names_def rmsem_labels_def sem_mutex_label_def sem_full_label_def sem_empty_label_def
    by auto
  with created_initial [of w1 p fz n] assms w1(2,3)
  have "\<exists>s w2. sem_jobqueue_new fz (Ptr p) w1 = Some (Returns (Ptr s, w2)) \<and> sem_sys_of n s w2 = Some (sem_init n)"
    if "args \<noteq> [''-m'']" using that by auto
  then show ?thesis using w1(1,4,5) by blast
qed

abbreviation sim_proc :: "bool \<Rightarrow> proc_t" where
  "sim_proc init \<equiv> proc_of SEM_PROD_PROC 1 init \<lparr>w_min = 20, w_max = 40\<rparr> \<lparr>w_min = 0, w_max = 0\<rparr>"

lemma runrmsho_repairs_witness:
  "\<exists>w1 s w2. sw_names sem_used (sjq_name None sem_full_label) = Some 1 \<and>
    run_rmsho (runrmsho [''-s'']) sem_used = Some w1 \<and>
    sem_jobqueue_new all_sem_ok (Ptr (sim_proc True)) w1 = Some (Returns (Ptr s, w2)) \<and>
    sem_sys_of 2 s w2 = Some (sem_init 2)"
proof -
  have "wf_mem (os_mem (sw_os sem_used))" "user_ok (os_user (sw_os sem_used))" "pr_is_init (sim_proc True)"
    "sw_names sem_used (sjq_name None sem_full_label) = Some 1"
    by (simp_all add: sem_used_def os_start_def wf_mem_of user_ok_def proc_of_def)
  with runrmsho_repairs [OF this(1-3), of all_sem_ok "[''-s'']" 2] show ?thesis
    by (auto simp: all_sem_ok_def)
qed

text \<open>
  C24: a process that joins a queue that another one made, whatever its state by
  then, waits while some process holds the mutex, and otherwise gets a handle on the
  same queue and the same three semaphores, without changing their values.
\<close>

theorem sem_join:
  assumes "queue_named s m f e q w" "user_ok (os_user (sw_os w))" "\<not> pr_is_init p"
    and "g_malloc fz" "no_fault (g_ipc fz)" "g_mutex fz" "g_full fz" "g_empty fz" "g_wait fz"
  shows "(sw_vals w m = 0 \<longrightarrow> sem_jobqueue_new fz (Ptr p) w = Some Blocks) \<and>
    (sw_vals w m \<noteq> 0 \<longrightarrow> (\<exists>t w'. sem_jobqueue_new fz (Ptr p) w = Some (Returns (Ptr t, w')) \<and>
      sj_mutex t = sj_mutex s \<and> sj_full t = sj_full s \<and> sj_empty t = sj_empty s \<and>
      sem_sys_of n t w' = sem_sys_of n s w))"
proof (intro conjI impI)
  assume "sw_vals w m = 0"
  then show "sem_jobqueue_new fz (Ptr p) w = Some Blocks" by (rule sem_join_blocks [OF assms(1-6,9)])
next
  assume "sw_vals w m \<noteq> 0"
  from sem_join_run [OF assms this] obtain i w' where "sem_jobqueue_new fz (Ptr p) w =
      Some (Returns (Ptr \<lparr>sj_mutex = Some m, sj_full = Some f, sj_empty = Some e, sj_ijq = Ptr i\<rparr>, w'))"
    "ip_addr i = Ptr q" "sw_vals w' = sw_vals w" "os_mem (sw_os w') = os_mem (sw_os w)" by blast
  then show "\<exists>t w'. sem_jobqueue_new fz (Ptr p) w = Some (Returns (Ptr t, w')) \<and>
      sj_mutex t = sj_mutex s \<and> sj_full t = sj_full s \<and> sj_empty t = sj_empty s \<and>
      sem_sys_of n t w' = sem_sys_of n s w"
    using assms(1) by (auto simp: queue_named_def sem_named_def sem_sys_of_def)
qed

text \<open>A queue with one job left, its shared memory included.\<close>

definition joinable :: "sem_world" where
  "joinable = sem_used\<lparr>sw_os := (os_start (mem_of [] [jq_one (mk_job 5 10 ''newjob'')] True))\<lparr>os_blocks := 1,
     os_shm := (\<lambda>_. Some 0), os_size := (\<lambda>_. SIZEOF_JOBQUEUE)\<rparr>\<rparr>"

definition joinable_handle :: sem_jobqueue_t where
  "joinable_handle = \<lparr>sj_mutex = Some 0, sj_full = Some 1, sj_empty = Some 2,
     sj_ijq = Ptr \<lparr>ip_proc = sim_proc True, ip_name = [], ip_addr = Ptr 0\<rparr>\<rparr>"

lemma joinable_named: "queue_named joinable_handle 0 1 2 0 joinable"
proof -
  have "job_ok (mk_job 5 10 ''newjob'')" by (rule job_ok_mk_job) (simp add: NUL_def)
  then have "jq_ok 0 (mem_of [] [jq_one (mk_job 5 10 ''newjob'')] True)"
    by (intro jq_ok_mem_of) (simp_all add: jq_one)
  then show ?thesis
    by (simp add: queue_named_def sem_named_def joinable_def joinable_handle_def sem_used_def os_start_def)
qed

lemma sem_join_witness:
  "\<exists>t w'. sem_jobqueue_new all_sem_ok (Ptr (sim_proc False)) joinable = Some (Returns (Ptr t, w')) \<and>
    sem_sys_of 2 t w' = sem_sys_of 2 joinable_handle joinable"
proof -
  have "user_ok (os_user (sw_os joinable))" "sw_vals joinable 0 \<noteq> 0"
    by (simp_all add: joinable_def sem_used_def os_start_def user_ok_def)
  with sem_join [OF joinable_named, of "sim_proc False" all_sem_ok 2] show ?thesis
    by (auto simp: all_sem_ok_def proc_of_def)
qed

text \<open>
  C20: what the semaphores that \<^verbatim>\<open>sem_jobqueue_delete\<close> leaves behind do: after a
  queue was deleted with jobs in it and created again, a consumer of the new, empty
  queue does not wait for a job, as \<^verbatim>\<open>sem_jobqueue.h\<close> has it; its dequeue returns
  NULL.
\<close>

theorem stale_dequeue_returns_null:
  assumes "sem_named s m f e w" "sj_ijq s = Ptr i" "0 < os_blocks (sw_os w)"
    and "wf_mem (os_mem (sw_os w))" "user_ok (os_user (sw_os w))" "pr_is_init p"
    and "faults_ok fd" "g_malloc fz" "no_fault (g_ipc fz)" "g_mutex fz" "g_full fz" "g_empty fz" "g_wait fz"
    and "0 < sw_vals w f" "c < n"
  shows "\<exists>w1 t w2 u v. sem_jobqueue_delete fd (Ptr s) w = Some w1 \<and>
    sem_jobqueue_new fz (Ptr p) w1 = Some (Returns (Ptr t, w2)) \<and> sem_sys_of n t w2 = Some u \<and>
    ss_queue u = jq_empty \<and> ss_full u = sw_vals w f \<and>
    sched_run sem_step sem_may u ((c, Call (Ptr ()) (Dequeue d)) # replicate 6 (c, Go)) = Some v \<and>
    ss_loc v ! c = Idle (R_job None)"
proof -
  obtain k where k: "os_blocks (sw_os w) = Suc k" using assms(3) gr0_implies_Suc by blast
  let ?w = "w\<lparr>sw_open := remove1 m (sw_open w),
      sw_names := (sw_names w)(sjq_name (os_user (sw_os w)) sem_mutex_label := None),
      sw_os := (sw_os w)\<lparr>os_blocks := k\<rparr>\<rparr>"
  have del: "sem_jobqueue_delete fd (Ptr s) w = Some ?w" by (rule sem_jobqueue_delete_ok [OF assms(1,5,7,2) k])
  have "\<exists>t w' i q. sem_jobqueue_new fz (Ptr p) ?w = Some (Returns (Ptr t, w')) \<and>
    sj_mutex t = Some (sw_next ?w) \<and> sw_vals w' (sw_next ?w) = 1 \<and>
    sj_full t = Some f \<and> sj_empty t = Some e \<and> sw_vals w' f = sw_vals ?w f \<and> sw_vals w' e = sw_vals ?w e \<and>
    sj_ijq t = Ptr i \<and> ip_addr i = Ptr q \<and> m_queues (os_mem (sw_os w')) q = Some jq_empty"
    by (rule sem_jobqueue_new_stale) (use assms in \<open>simp_all add: sem_named_def Let_def\<close>)
  then obtain t w2 where new: "sem_jobqueue_new fz (Ptr p) ?w = Some (Returns (Ptr t, w2))"
    and sys: "sem_sys_of n t w2 = Some \<lparr>ss_mutex = 1, ss_full = sw_vals w f, ss_empty = sw_vals w e, ss_queue = jq_empty,
       ss_loc = replicate n (Idle R_void), ss_in = [], ss_out = [], ss_lost_empty = 0, ss_lost_full = 0, ss_null = 0\<rparr>"
    (is "_ = Some ?u")
    by (auto simp: sem_sys_of_def)
  have "\<exists>v. sched_run sem_step sem_may ?u ((c, Call (Ptr ()) (Dequeue d)) # replicate 6 (c, Go)) = Some v \<and>
    ss_loc v ! c = Idle (R_job None)"
    using assms(14,15) by (simp add: run_simps)
  then obtain v where "sched_run sem_step sem_may ?u ((c, Call (Ptr ()) (Dequeue d)) # replicate 6 (c, Go)) = Some v"
    "ss_loc v ! c = Idle (R_job None)" by (elim exE conjE)
  with del new sys show ?thesis
    by (intro exI [of _ ?w] exI [of _ t] exI [of _ w2] exI [of _ ?u] exI [of _ v]) simp
qed

lemma stale_dequeue_returns_null_witness:
  "\<exists>w1 t w2 u v. sem_jobqueue_delete all_ok (Ptr joinable_handle) joinable = Some w1 \<and>
    sem_jobqueue_new all_sem_ok (Ptr (sim_proc True)) w1 = Some (Returns (Ptr t, w2)) \<and>
    sem_sys_of 2 t w2 = Some u \<and> ss_full u = 1 \<and>
    sched_run sem_step sem_may u ((1, Call (Ptr ()) (Dequeue (Ptr ()))) # replicate 6 (1, Go)) = Some v \<and>
    ss_loc v ! 1 = Idle (R_job None)"
proof -
  have named: "sem_named joinable_handle 0 1 2 joinable"
    using joinable_named by (simp add: queue_named_def)
  have w: "sj_ijq joinable_handle = Ptr \<lparr>ip_proc = sim_proc True, ip_name = [], ip_addr = Ptr 0\<rparr>"
    "0 < os_blocks (sw_os joinable)" "user_ok (os_user (sw_os joinable))" "pr_is_init (sim_proc True)" "faults_ok all_ok"
    "sw_vals joinable 1 = 1"
    by (simp_all add: joinable_handle_def joinable_def sem_used_def os_start_def user_ok_def proc_of_def faults_ok_def all_ok_def)
  have "wf_mem (os_mem (sw_os joinable))"
    using joinable_named by (auto simp: queue_named_def jq_at_def elim: jq_okD)
  note stale = stale_dequeue_returns_null [OF named w(1,2) this w(3,4,5), where fz = all_sem_ok and c = 1 and n = 2]
  have "g_malloc all_sem_ok" "no_fault (g_ipc all_sem_ok)" "g_mutex all_sem_ok" "g_full all_sem_ok"
    "g_empty all_sem_ok" "g_wait all_sem_ok" "0 < sw_vals joinable 1" "(1 :: nat) < 2"
    using w(6) by (simp_all add: all_sem_ok_def)
  from stale [OF this] show ?thesis unfolding w(6) by blast
qed

section \<open>What the consumers log\<close>

text \<open>The jobs that the dequeues of process \<open>c\<close> return in a run, in the order of the returns.\<close>

fun returned_job :: "sem_loc \<Rightarrow> sem_loc \<Rightarrow> job_t list" where
  "returned_job (Deq_post_empty r) (Idle (R_job (Some x))) = [x]"
| "returned_job l l' = []"

fun dequeued :: "nat \<Rightarrow> sem_sys \<Rightarrow> (nat \<times> sem_event) list \<Rightarrow> job_t list" where
  "dequeued c s [] = []"
| "dequeued c s (pe # evs) =
     (if sem_legal s pe then
        (case sem_step pe s of
           None \<Rightarrow> []
         | Some t \<Rightarrow> returned_job (ss_loc s ! c) (ss_loc t ! c) @ dequeued c t evs)
      else dequeued c s evs)"

text \<open>A dequeue into a variable of the caller, and where it is.\<close>

definition own_event :: "nat \<times> sem_event \<Rightarrow> bool" where
  "own_event pe \<longleftrightarrow> (case snd pe of Call _ (Dequeue d) \<Rightarrow> d \<noteq> NULL | _ \<Rightarrow> True)"

definition own_loc :: "sem_loc \<Rightarrow> bool" where
  "own_loc l \<longleftrightarrow> (case l of Deq_wait_full d \<Rightarrow> d \<noteq> NULL | Deq_wait_mutex d \<Rightarrow> d \<noteq> NULL | Deq_test d \<Rightarrow> d \<noteq> NULL
     | Deq_copy d \<Rightarrow> d \<noteq> NULL | Deq_init d _ ok \<Rightarrow> d \<noteq> NULL \<and> ok | Deq_head d _ ok \<Rightarrow> d \<noteq> NULL \<and> ok | _ \<Rightarrow> True)"

definition on_its_way :: "sem_loc \<Rightarrow> job_t list" where
  "on_its_way l = (case returning l of None \<Rightarrow> [] | Some x \<Rightarrow> [x])"

text \<open>One step of process \<open>p\<close> from \<open>s\<close> to \<open>t\<close>: its job, if it takes one, is on its way to it.\<close>

definition delivers :: "nat \<Rightarrow> sem_sys \<Rightarrow> sem_sys \<Rightarrow> bool" where
  "delivers p s t \<longleftrightarrow> length (ss_loc t) = length (ss_loc s) \<and> (\<forall>i. i \<noteq> p \<longrightarrow> ss_loc t ! i = ss_loc s ! i) \<and>
     own_loc (ss_loc t ! p) \<and>
     (\<exists>xs. ss_out t = ss_out s @ map (Pair p) xs \<and>
       on_its_way (ss_loc s ! p) @ xs = returned_job (ss_loc s ! p) (ss_loc t ! p) @ on_its_way (ss_loc t ! p))"

lemmas delivers_simps = delivers_def on_its_way_def own_loc_def

lemma call_delivers:
  assumes "p < length (ss_loc s)" "is_idle (ss_loc s ! p)" "own_event (p, Call q c)"
  shows "delivers p s (set_loc p (call_loc q c) s)"
  using assms by (cases c; cases "ss_loc s ! p") (simp_all add: call_loc_def delivers_simps own_event_def is_idle_def)

lemma fail_delivers:
  assumes "p < length (ss_loc s)" "own_loc (ss_loc s ! p)" "call_fails p s (ss_loc s ! p) = Some t"
    "is_wait (ss_loc s ! p) \<or> is_alloc (ss_loc s ! p)"
  shows "delivers p s t"
  using assms
  by (cases "ss_loc s ! p") (auto simp: call_fails_def delivers_simps is_wait_def is_alloc_def bind_eq_Some_conv)

lemma enq_go_delivers:
  assumes "p < length (ss_loc s)" "is_enq (ss_loc s ! p)" "enq_go p s (ss_loc s ! p) = Some t"
  shows "delivers p s t"
  using assms
  by (cases "ss_loc s ! p")
    (auto simp: enq_go_def is_enq_def delivers_simps bind_eq_Some_conv Let_def split: option.splits if_splits)

lemma obs_go_delivers:
  assumes "p < length (ss_loc s)" "is_obs (ss_loc s ! p)" "obs_go p s (ss_loc s ! p) = Some t"
  shows "delivers p s t"
  using assms by (cases "ss_loc s ! p") (auto simp: obs_go_def is_obs_def delivers_simps bind_eq_Some_conv)

lemma deq_go_delivers:
  assumes "p < length (ss_loc s)" "own_loc (ss_loc s ! p)" "deq_go p s (ss_loc s ! p) = Some t"
    "\<not> is_enq (ss_loc s ! p)" "\<not> is_obs (ss_loc s ! p)" "\<not> is_idle (ss_loc s ! p)"
  shows "delivers p s t"
  using assms
  by (cases "ss_loc s ! p")
    (auto simp: deq_go_def delivers_simps is_enq_def is_obs_def is_idle_def bind_eq_Some_conv Let_def
      split: if_splits option.splits)

lemma step_delivers:
  assumes "sem_legal s (p, e)" "own_event (p, e)" "own_loc (ss_loc s ! p)" "sem_step (p, e) s = Some t"
  shows "delivers p s t"
proof (cases e)
  case (Call q c)
  then show ?thesis using assms call_delivers [of p s q c] by (simp add: sem_legal_def)
next
  case Go
  then show ?thesis
    using assms enq_go_delivers [of p s t] obs_go_delivers [of p s t] deq_go_delivers [of p s t]
    by (auto simp: sem_legal_def Let_def split: if_splits)
next
  case Fail
  then show ?thesis using assms fail_delivers [of p s t] by (auto simp: sem_legal_def)
qed

lemma returned_same: "returned_job l l = []"
  by (cases "(l, l)" rule: returned_job.cases) auto

text \<open>
  What the processes took is what their dequeues returned and what is on its way; \<open>R\<close>
  is what they returned before.
\<close>

definition accounted :: "(nat \<Rightarrow> job_t list) \<Rightarrow> sem_sys \<Rightarrow> bool" where
  "accounted R s \<longleftrightarrow> (\<forall>l \<in> set (ss_loc s). own_loc l) \<and> fst ` set (ss_out s) \<subseteq> {..<length (ss_loc s)} \<and>
     (\<forall>c < length (ss_loc s). taken c s = R c @ on_its_way (ss_loc s ! c))"

lemma delivers_accounted:
  assumes acc: "accounted R s" and d: "delivers p s t" and p: "p < length (ss_loc s)"
  shows "accounted (\<lambda>c. R c @ returned_job (ss_loc s ! c) (ss_loc t ! c)) t"
proof -
  obtain xs where t: "length (ss_loc t) = length (ss_loc s)" "\<And>i. i \<noteq> p \<Longrightarrow> ss_loc t ! i = ss_loc s ! i"
    "own_loc (ss_loc t ! p)" "ss_out t = ss_out s @ map (Pair p) xs"
    "on_its_way (ss_loc s ! p) @ xs = returned_job (ss_loc s ! p) (ss_loc t ! p) @ on_its_way (ss_loc t ! p)"
    using d by (auto simp: delivers_def)
  have own: "own_loc (ss_loc s ! i)" if "i < length (ss_loc s)" for i using acc that by (simp add: accounted_def)
  have "own_loc (ss_loc t ! i)" if "i < length (ss_loc t)" for i using own [of i] t(1,2,3) that by (cases "i = p") auto
  then have "\<forall>l \<in> set (ss_loc t). own_loc l" by (auto simp: in_set_conv_nth)
  moreover have "fst ` set (ss_out t) \<subseteq> {..<length (ss_loc t)}" using acc p by (auto simp: accounted_def t(1,4))
  moreover have "taken c t = (R c @ returned_job (ss_loc s ! c) (ss_loc t ! c)) @ on_its_way (ss_loc t ! c)"
    if c: "c < length (ss_loc t)" for c
  proof -
    have old: "taken c s = R c @ on_its_way (ss_loc s ! c)" using acc c t(1) by (simp add: accounted_def)
    show ?thesis
    proof (cases "c = p")
      case True
      have "filter (\<lambda>e. fst e = p) (map (Pair p) xs) = map (Pair p) xs" by (simp add: filter_map o_def)
      then show ?thesis using old t(4,5) True by (simp add: taken_def o_def)
    next
      case False
      then have "filter (\<lambda>e. fst e = c) (map (Pair p) xs) = []" by (simp add: filter_map o_def)
      then show ?thesis using old t(2,4) False by (simp add: taken_def returned_same)
    qed
  qed
  ultimately show ?thesis by (simp add: accounted_def)
qed

lemma dequeued_run:
  assumes "accounted R s" "sched_run sem_step sem_legal s evs = Some t" "\<forall>e \<in> set evs. own_event e"
  shows "accounted (\<lambda>c. R c @ dequeued c s evs) t \<and> length (ss_loc t) = length (ss_loc s)"
  using assms
proof (induction evs arbitrary: R s)
  case Nil
  then show ?case by simp
next
  case (Cons pe evs)
  obtain p e where pe: "pe = (p, e)" by (cases pe)
  show ?case
  proof (cases "sem_legal s pe")
    case False
    then show ?thesis using Cons.IH [OF Cons.prems(1)] Cons.prems by simp
  next
    case True
    then obtain u where u: "sem_step pe s = Some u" "sched_run sem_step sem_legal u evs = Some t"
      using Cons.prems(2) by (auto simp: bind_eq_Some_conv)
    have p: "p < length (ss_loc s)" using True pe by (cases e) (auto simp: sem_legal_def)
    have "own_loc (ss_loc s ! p)" using Cons.prems(1) p by (simp add: accounted_def)
    then have d: "delivers p s u" using step_delivers [of s p e u] True u(1) Cons.prems(3) pe by simp
    from Cons.IH [OF delivers_accounted [OF Cons.prems(1) d p] u(2)] Cons.prems(3) show ?thesis
      using True u(1) d by (simp add: delivers_def)
  qed
qed

lemma dequeued_all:
  assumes "sched_run sem_step sem_legal (sem_init n) evs = Some t" "\<forall>e \<in> set evs. own_event e"
  shows "length (ss_loc t) = n" "fst ` set (ss_out t) \<subseteq> {..<n}"
    "\<And>c. c < n \<Longrightarrow> taken c t = dequeued c (sem_init n) evs @ on_its_way (ss_loc t ! c)"
proof -
  have "accounted (\<lambda>c. []) (sem_init n)"
    by (simp add: accounted_def sem_init_def own_loc_def on_its_way_def taken_def)
  from dequeued_run [OF this assms] have d: "accounted (\<lambda>c. dequeued c (sem_init n) evs) t"
    "length (ss_loc t) = length (ss_loc (sem_init n))" by simp_all
  show len: "length (ss_loc t) = n" using d(2) by (simp add: sem_init_def)
  show "fst ` set (ss_out t) \<subseteq> {..<n}" "\<And>c. c < n \<Longrightarrow> taken c t = dequeued c (sem_init n) evs @ on_its_way (ss_loc t ! c)"
    using d(1) len unfolding accounted_def by blast+
qed

text \<open>Each job on its way has its unit of \<^verbatim>\<open>empty\<close>.\<close>

lemma on_its_way_bound: "sum_list (map (\<lambda>l. length (on_its_way l)) ls) \<le> cnt deq_done ls"
proof (induction ls)
  case (Cons l ls)
  have "length (on_its_way l) \<le> of_bool (deq_done l)"
    by (cases l) (simp_all add: on_its_way_def split: option.split)
  with Cons show ?case by (cases "deq_done l") (simp_all add: cnt_def)
qed simp

lemma sum_mset_size: "size (\<Sum>k<(n::nat). mset (f k)) = (\<Sum>k<n. length (f k))"
  by (induction n) simp_all

lemma subseq_set_subset: "subseq xs ys \<Longrightarrow> x \<in> set xs \<Longrightarrow> x \<in> set ys"
  by (induction rule: list_emb.induct) auto

text \<open>Every element has one key.\<close>

lemma mset_by_key:
  fixes xs :: "('k \<times> 'a) list"
  assumes "finite K" "fst ` set xs \<subseteq> K"
  shows "mset (map snd xs) = (\<Sum>k\<in>K. mset (map snd (filter (\<lambda>x. fst x = k) xs)))"
  using assms(2)
proof (induction xs)
  case Nil
  then show ?case by simp
next
  case (Cons x xs)
  have "(\<Sum>k\<in>K. mset (map snd (filter (\<lambda>x. fst x = k) (x # xs)))) =
    (\<Sum>k\<in>K. (if k = fst x then {#snd x#} else {#}) + mset (map snd (filter (\<lambda>x. fst x = k) xs)))"
    by (rule sum.cong) auto
  also have "\<dots> = {#snd x#} + (\<Sum>k\<in>K. mset (map snd (filter (\<lambda>x. fst x = k) xs)))"
    using assms(1) Cons.prems by (simp add: sum.distrib sum.delta)
  finally show ?case using Cons by simp
qed

text \<open>The jobs put, by where they are.\<close>

lemma jobs_put:
  assumes "sched_run sem_step sem_legal (sem_init n) evs = Some t" "\<forall>e \<in> set evs. own_event e"
  shows "\<exists>rest. mset (ss_in t) = (\<Sum>k<n. mset (dequeued k (sem_init n) evs)) + mset rest \<and> length rest \<le> 127"
    and "c < n \<Longrightarrow> subseq (dequeued c (sem_init n) evs) (ss_in t)"
proof -
  note d = dequeued_all [OF assms]
  obtain t' where "sched_run sem_step sem_legal (sem_init n) evs = Some t'" "sem_inv t'" by (rule sem_run)
  then obtain jq where rel: "sem_rel jq t" using assms(1) by (auto simp: sem_inv_def)
  let ?way = "\<Sum>k<n. mset (on_its_way (ss_loc t ! k))"
  have "mset (map snd (ss_out t)) = (\<Sum>k<n. mset (taken k t))"
    using mset_by_key [of "{..<n}" "ss_out t"] d(2) by (simp add: taken_def)
  also have "\<dots> = (\<Sum>k<n. mset (dequeued k (sem_init n) evs) + mset (on_its_way (ss_loc t ! k)))"
    by (rule sum.cong) (simp_all add: d(3))
  finally have out: "mset (map snd (ss_out t)) = (\<Sum>k<n. mset (dequeued k (sem_init n) evs)) + ?way"
    by (simp add: sum.distrib)
  obtain way where way: "mset way = ?way" using ex_mset by blast
  have "length way = (\<Sum>k<n. length (on_its_way (ss_loc t ! k)))"
    using sum_mset_size [of "\<lambda>k. on_its_way (ss_loc t ! k)" n] way by (metis size_mset)
  also have "\<dots> = sum_list (map (\<lambda>l. length (on_its_way l)) (ss_loc t))"
    using d(1) by (simp add: sum_list_sum_nth atLeast0LessThan)
  also have "\<dots> \<le> cnt deq_done (ss_loc t)" by (rule on_its_way_bound)
  finally have "length way + length (jq_contents jq) \<le> 127"
    using rel by (simp add: sem_rel_def sem_counts_def QUEUE_SIZE_def)
  moreover have "mset (ss_in t) = (\<Sum>k<n. mset (dequeued k (sem_init n) evs)) + mset (way @ jq_contents jq)"
    using sem_rel_log [OF rel] out way by simp
  ultimately show "\<exists>rest. mset (ss_in t) = (\<Sum>k<n. mset (dequeued k (sem_init n) evs)) + mset rest \<and> length rest \<le> 127"
    by (intro exI [of _ "way @ jq_contents jq"]) simp
  assume c: "c < n"
  have "subseq (taken c t) (map snd (ss_out t))" unfolding taken_def by (rule subseq_map [OF subseq_filter_left])
  moreover have "prefix (map snd (ss_out t)) (ss_in t)" using sem_rel_log [OF rel] by simp
  moreover have "prefix (dequeued c (sem_init n) evs) (taken c t)" using d(3) [OF c] by simp
  ultimately show "subseq (dequeued c (sem_init n) evs) (ss_in t)"
    by (meson prefix_imp_subseq subseq_order.order_trans)
qed

text \<open>
  C14: from the queue to the logs. In any run of the shared queue, when a process writes
  each job that its dequeues return to its new log, reading the log gives the lines of
  those jobs, which were put in that order; and the jobs that the dequeues of all
  processes returned, together with at most 127 that are still queued or on their way to
  a process, are exactly the jobs put, none twice and none lost. Assumed: the queue is
  fresh; every dequeue has a variable of the caller to copy to (with a NULL destination
  a failing \<^verbatim>\<open>malloc\<close> loses the job); what is enqueued is NULL or has a label that ends;
  the directory of the logs is there and the log is new, and no library call of the
  logging functions fails; the jobs put have a pid that is not negative and has at most
  7 digits, an id of at most 5 digits and no newline in the label; and the log gets no
  more entries than \<^verbatim>\<open>int\<close> offsets reach.
\<close>

theorem consumers_log:
  assumes "log_calls_ok fz" "log_named p nm" "fs_out fs = Directory" "fs_files fs nm = None"
    and "sched_run sem_step sem_legal (sem_init n) evs = Some t" "\<forall>e \<in> set evs. own_event e" "c < n"
    and "\<forall>j \<in> set (ss_in t). loggable j" "length (dequeued c (sem_init n) evs) \<le> log_limit"
  shows "(\<exists>fs1 fs2. write_log (write_job fz p) (dequeued c (sem_init n) evs) fs = Some fs1 \<and>
      read_log (next_entry fz p) 0 fs1 = Some (map job_line (dequeued c (sem_init n) evs), fs2)) \<and>
    subseq (dequeued c (sem_init n) evs) (ss_in t) \<and>
    (\<exists>rest. mset (ss_in t) = (\<Sum>k<n. mset (dequeued k (sem_init n) evs)) + mset rest \<and> length rest \<le> 127)"
proof -
  have sub: "subseq (dequeued c (sem_init n) evs) (ss_in t)" by (rule jobs_put(2) [OF assms(5,6,7)])
  then have "list_all loggable (dequeued c (sem_init n) evs)"
    using assms(8) subseq_set_subset by (fastforce simp: list_all_iff)
  from log_pass [OF assms(1-4) this assms(9)] sub jobs_put(1) [OF assms(5,6)] show ?thesis by blast
qed

lemma consumers_log_witness:
  "\<exists>fs1 fs2. write_log (write_job log_all_ok log_proc) [mk_job 5 10 ''newjob''] fs_start = Some fs1 \<and>
    read_log (next_entry log_all_ok log_proc) 0 fs1 = Some ([job_line (mk_job 5 10 ''newjob'')], fs2)"
proof -
  let ?j = "mk_job 5 10 ''newjob''"
  let ?evs = "(put_events 0 (Some ?j) @ (1, Call (Ptr ()) (Dequeue (Ptr ()))) # replicate 8 (1, Go)) @ [(1, Go)]"
  have "job_ok ?j" by (rule job_ok_mk_job) (simp add: NUL_def)
  from one_taken [OF this] obtain u where u: "sched_run sem_step sem_legal (sem_init 2)
      (put_events 0 (Some ?j) @ (1, Call (Ptr ()) (Dequeue (Ptr ()))) # replicate 8 (1, Go)) = Some u"
    "ss_loc u ! 1 = Deq_post_empty (Some ?j)" "length (ss_loc u) = 2" "ss_in u = [?j]" "ss_out u = [(1, ?j)]"
    by (elim exE conjE)
  let ?t = "set_loc 1 (Idle (R_job (Some ?j))) (u\<lparr>ss_empty := Suc (ss_empty u)\<rparr>)"
  have run: "sched_run sem_step sem_legal (sem_init 2) ?evs = Some ?t"
    unfolding sched_run_append [of _ _ _ "put_events 0 (Some ?j) @ _"] u(1) using u(2,3) by (simp add: sem_legal_def loc_simps)
  have own: "\<forall>e \<in> set ?evs. own_event e" by (simp add: own_event_def put_events_def)
  have "taken 1 ?t = [?j]" "on_its_way (ss_loc ?t ! 1) = []"
    using u(3,5) by (simp_all add: taken_def on_its_way_def)
  then have deq: "dequeued 1 (sem_init 2) ?evs = [?j]" using dequeued_all(3) [OF run own, of 1] by simp
  have "loggable ?j" by (rule loggable_mk_job; simp add: NUL_def newline_def)
  then have js: "\<forall>j \<in> set (ss_in ?t). loggable j" "length (dequeued 1 (sem_init 2) ?evs) \<le> log_limit"
    unfolding deq using u(4) by (simp_all add: log_limit_def)
  have start: "fs_out fs_start = Directory" "fs_files fs_start nm = None" for nm by (simp_all add: fs_start_def)
  from consumers_log [OF log_calls_ok_all log_named_proc start run own _ js] show ?thesis
    unfolding deq by simp
qed

end
