(* ===== verification/Startup.thy ===== *)
theory Startup
  imports Simulation
begin

text \<open>
  Several processes create the queue of \<^verbatim>\<open>sem_jobqueue.c\<close> at the same time: the init
  process makes the shared memory, the others attach to it, and all of them make or open
  the semaphores. \<^verbatim>\<open>sem_jobqueue_new\<close>, with \<^verbatim>\<open>ipc_jobqueue_new\<close> and \<^verbatim>\<open>ipc_new\<close> inside it,
  is cut at every system call and at every access of shared memory; any call can fail.
  The theorems on many processes are about calls that succeed. The counts of blocks,
  descriptors and open semaphores in the state are those of all processes together.
\<close>

section \<open>The steps\<close>

text \<open>What a process does next, with the values of its variables.\<close>

datatype new_loc =
    N_start
  | N_open "char list"
  | N_trunc "char list" nat
  | N_map "char list" nat
  | N_zero ipc_t
  | N_init ipc_t
  | N_mutex ipc_t
  | N_wait ipc_t nat
  | N_full ipc_t nat
  | N_capacity ipc_t nat int "nat option"
  | N_empty ipc_t nat int "nat option" int
  | N_end ipc_t nat int "nat option" "nat option"
  | N_ret "sem_jobqueue_t ptr"

definition new_go :: "sem_faults \<Rightarrow> proc_t \<Rightarrow> sem_world \<Rightarrow> new_loc \<Rightarrow> (sem_world \<times> new_loc) option" where
  "new_go fz p w l = (let os = sw_os w in case l of
     N_start \<Rightarrow>
       if \<not> g_malloc fz then Some (set_errno (g_err fz) w, N_ret NULL)
       else if \<not> f_malloc (g_ipc fz) then Some (w\<lparr>sw_os := os\<lparr>os_errno := f_err (g_ipc fz)\<rparr>\<rparr>, N_ret NULL)
       else do {
         name \<leftarrow> shobject_name True (os_user os) (Ptr (f_buf (g_ipc fz))) (Ptr (''ipc_jobq'' @ [NUL]));
         nm \<leftarrow> c_str name;
         os1 \<leftarrow> ipc_prepare p nm (os\<lparr>os_blocks := Suc (os_blocks os)\<rparr>);
         Some (w\<lparr>sw_blocks := Suc (sw_blocks w), sw_os := os1\<rparr>, N_open name) }
   | N_open name \<Rightarrow> do {
       nm \<leftarrow> c_str name;
       (case shm_open queue_ops (g_ipc fz) (pr_is_init p) nm os of
          (None, os1) \<Rightarrow> do { os2 \<leftarrow> free_block os1; w2 \<leftarrow> free_sjq (w\<lparr>sw_os := os2\<rparr>); Some (w2, N_ret NULL) }
        | (Some n, os1) \<Rightarrow> Some (w\<lparr>sw_os := os1\<rparr>, if pr_is_init p then N_trunc name n else N_map name n)) }
   | N_trunc name n \<Rightarrow> Some (w\<lparr>sw_os := ftruncate (g_ipc fz) n SIZEOF_JOBQUEUE os\<rparr>, N_map name n)
   | N_map name n \<Rightarrow>
       let (mapped, os1) = mmap (g_ipc fz) n os; os2 = close_fd os1; i = \<lparr>ip_proc = p, ip_name = name, ip_addr = Ptr n\<rparr>
       in if \<not> mapped
          then do { os3 \<leftarrow> free_block os2; w2 \<leftarrow> free_sjq (w\<lparr>sw_os := os3\<rparr>); Some (w2, N_ret NULL) }
          else Some (w\<lparr>sw_os := os2\<rparr>, if pr_is_init p then N_zero i else N_mutex i)
   | N_zero i \<Rightarrow> do {
       n \<leftarrow> mapped_queue i os;
       Some (w\<lparr>sw_os := os\<lparr>os_mem := ob_zero queue_ops n (os_mem os)\<rparr>\<rparr>, N_init i) }
   | N_init i \<Rightarrow> do {
       n \<leftarrow> mapped_queue i os;
       m \<leftarrow> jobqueue_init (os_mem os) (Ptr n);
       Some (w\<lparr>sw_os := os\<lparr>os_mem := m\<rparr>\<rparr>, N_mutex i) }
   | N_mutex i \<Rightarrow> do {
       (r, mutex, w1) \<leftarrow> sem_new (g_ipc fz) (g_mutex fz) (g_err fz) sem_mutex_label 1 MUTEX_SEM_SUCCESS w;
       if r \<noteq> MUTEX_SEM_SUCCESS then do {
         w2 \<leftarrow> delete_ijq (Ptr i) w1; w3 \<leftarrow> free_sjq w2; Some (w3, N_ret NULL) }
       else do { n \<leftarrow> mutex; Some (w1, N_wait i n) } }
   | N_wait i m \<Rightarrow> Some (case sem_wait (g_wait fz) m w of
       Blocks \<Rightarrow> (w, N_wait i m) | Returns w1 \<Rightarrow> (w1, N_full i m))
   | N_full i m \<Rightarrow> do {
       (r, full, w1) \<leftarrow> sem_new (g_ipc fz) (g_full fz) (g_err fz) sem_full_label 0 FULL_SEM_SUCCESS w;
       Some (w1, N_capacity i m r full) }
   | N_capacity i m r full \<Rightarrow> do {
       cap \<leftarrow> handle_capacity (Ptr i) os;
       Some (w, N_empty i m r full (capacity_int cap)) }
   | N_empty i m r full cap \<Rightarrow> do {
       (r3, e, w1) \<leftarrow> sem_new (g_ipc fz) (g_empty fz) (g_err fz) sem_empty_label cap EMPTY_SEM_SUCCESS w;
       Some (w1, N_end i m (MUTEX_SEM_SUCCESS OR (r OR r3)) full e) }
   | N_end i m r full e \<Rightarrow> do {
       (s, w1) \<leftarrow> sem_jobqueue_verdict (g_ipc fz) (Ptr i) r m full e w;
       Some (w1, N_ret s) }
   | N_ret s \<Rightarrow> Some (w, N_ret s))"

text \<open>Which of the calls of a process succeed may differ from process to process.\<close>

definition new_step ::
  "('p \<Rightarrow> sem_faults) \<Rightarrow> ('p \<Rightarrow> proc_t) \<Rightarrow> 'p \<Rightarrow> sem_world \<times> ('p \<Rightarrow> new_loc) \<Rightarrow> (sem_world \<times> ('p \<Rightarrow> new_loc)) option" where
  "new_step fzs who p u = (case u of (w, locs) \<Rightarrow> do {
     (w1, l) \<leftarrow> new_go (fzs p) (who p) w (locs p);
     Some (w1, locs(p := l)) })"

text \<open>
  A process cannot be picked while it waits for the mutex, unless its \<^verbatim>\<open>sem_wait\<close> fails,
  and after it has returned.
\<close>

definition new_may :: "('p \<Rightarrow> sem_faults) \<Rightarrow> sem_world \<times> ('p \<Rightarrow> new_loc) \<Rightarrow> 'p \<Rightarrow> bool" where
  "new_may fzs u p = (case snd u p of
     N_wait i m \<Rightarrow> g_wait (fzs p) \<longrightarrow> sw_vals (fst u) m \<noteq> 0
   | N_ret _ \<Rightarrow> False
   | _ \<Rightarrow> True)"

abbreviation calls_succeed :: "'p \<Rightarrow> sem_faults" where
  "calls_succeed \<equiv> \<lambda>_. all_sem_ok"

text \<open>The steps when all calls succeed that can.\<close>

lemma sem_new_err: "sem_new fz True e l v s w = sem_new fz True 0 l v s w"
  by (simp add: sem_new_def sem_open_def)

lemma all_sem_ok_sel [simp]:
  "g_malloc all_sem_ok" "g_ipc all_sem_ok = all_ok" "g_mutex all_sem_ok" "g_full all_sem_ok" "g_empty all_sem_ok"
  "g_wait all_sem_ok"
  by (simp_all add: all_sem_ok_def)

lemma new_go_ok:
  "new_go all_sem_ok p w l = (let os = sw_os w in case l of
     N_start \<Rightarrow> do {
       name \<leftarrow> shobject_name True (os_user os) (Ptr (f_buf all_ok)) (Ptr (''ipc_jobq'' @ [NUL]));
       nm \<leftarrow> c_str name;
       os1 \<leftarrow> ipc_prepare p nm (os\<lparr>os_blocks := Suc (os_blocks os)\<rparr>);
       Some (w\<lparr>sw_blocks := Suc (sw_blocks w), sw_os := os1\<rparr>, N_open name) }
   | N_open name \<Rightarrow> do {
       nm \<leftarrow> c_str name;
       (case shm_open queue_ops all_ok (pr_is_init p) nm os of
          (None, os1) \<Rightarrow> do { os2 \<leftarrow> free_block os1; w2 \<leftarrow> free_sjq (w\<lparr>sw_os := os2\<rparr>); Some (w2, N_ret NULL) }
        | (Some n, os1) \<Rightarrow> Some (w\<lparr>sw_os := os1\<rparr>, if pr_is_init p then N_trunc name n else N_map name n)) }
   | N_trunc name n \<Rightarrow> Some (w\<lparr>sw_os := ftruncate all_ok n SIZEOF_JOBQUEUE os\<rparr>, N_map name n)
   | N_map name n \<Rightarrow>
       let (_, os1) = mmap all_ok n os; i = \<lparr>ip_proc = p, ip_name = name, ip_addr = Ptr n\<rparr>
       in Some (w\<lparr>sw_os := close_fd os1\<rparr>, if pr_is_init p then N_zero i else N_mutex i)
   | N_zero i \<Rightarrow> do {
       n \<leftarrow> mapped_queue i os;
       Some (w\<lparr>sw_os := os\<lparr>os_mem := ob_zero queue_ops n (os_mem os)\<rparr>\<rparr>, N_init i) }
   | N_init i \<Rightarrow> do {
       n \<leftarrow> mapped_queue i os;
       m \<leftarrow> jobqueue_init (os_mem os) (Ptr n);
       Some (w\<lparr>sw_os := os\<lparr>os_mem := m\<rparr>\<rparr>, N_mutex i) }
   | N_mutex i \<Rightarrow> do {
       (r, mutex, w1) \<leftarrow> sem_new all_ok True 0 sem_mutex_label 1 MUTEX_SEM_SUCCESS w;
       if r \<noteq> MUTEX_SEM_SUCCESS then do {
         w2 \<leftarrow> delete_ijq (Ptr i) w1; w3 \<leftarrow> free_sjq w2; Some (w3, N_ret NULL) }
       else do { n \<leftarrow> mutex; Some (w1, N_wait i n) } }
   | N_wait i m \<Rightarrow> Some (case sem_wait True m w of
       Blocks \<Rightarrow> (w, N_wait i m) | Returns w1 \<Rightarrow> (w1, N_full i m))
   | N_full i m \<Rightarrow> do {
       (r, full, w1) \<leftarrow> sem_new all_ok True 0 sem_full_label 0 FULL_SEM_SUCCESS w;
       Some (w1, N_capacity i m r full) }
   | N_capacity i m r full \<Rightarrow> do {
       cap \<leftarrow> handle_capacity (Ptr i) os;
       Some (w, N_empty i m r full (capacity_int cap)) }
   | N_empty i m r full cap \<Rightarrow> do {
       (r3, e, w1) \<leftarrow> sem_new all_ok True 0 sem_empty_label cap EMPTY_SEM_SUCCESS w;
       Some (w1, N_end i m (MUTEX_SEM_SUCCESS OR (r OR r3)) full e) }
   | N_end i m r full e \<Rightarrow> do {
       (s, w1) \<leftarrow> sem_jobqueue_verdict all_ok (Ptr i) r m full e w;
       Some (w1, N_ret s) }
   | N_ret s \<Rightarrow> Some (w, N_ret s))"
  by (cases l) (simp_all add: new_go_def sem_new_err [of _ "g_err all_sem_ok"] all_ok_def mmap_def Let_def)

section \<open>Names and semaphores\<close>

abbreviation queue_label :: "char list ptr" where
  "queue_label \<equiv> Ptr (''ipc_jobq'' @ [NUL])"

definition name_ok :: "sem_world \<Rightarrow> char list \<Rightarrow> bool" where
  "name_ok w name \<longleftrightarrow> c_str name = Some (shm_name (sw_os w) queue_label)"

lemma queue_name:
  assumes "user_ok (os_user os)"
  shows "\<exists>name. shobject_name True (os_user os) (Ptr (f_buf all_ok)) queue_label = Some name \<and>
    c_str name = Some (shm_name os queue_label)"
  using shm_name_buf [of queue_label os all_ok] assms no_fault_all_ok
  by (auto simp: ipc_jobq_label [simplified] no_fault_def)

text \<open>The object and the semaphores that have the names of the queue.\<close>

definition queue_at :: "sem_world \<Rightarrow> nat option" where
  "queue_at w = os_shm (sw_os w) (shm_name (sw_os w) queue_label)"

definition sem_at :: "sem_world \<Rightarrow> string \<Rightarrow> nat option" where
  "sem_at w label = sw_names w (sjq_name (os_user (sw_os w)) label)"

text \<open>The value of the mutex, which starts at 1 once it is made.\<close>

definition mutex_val :: "sem_world \<Rightarrow> nat" where
  "mutex_val w = (case sem_at w sem_mutex_label of None \<Rightarrow> 1 | Some m \<Rightarrow> sw_vals w m)"

text \<open>
  What else is shared: the values of \<^verbatim>\<open>full\<close> and \<^verbatim>\<open>empty\<close>, or those with which
  they will be made, and the queue.
\<close>

definition shared_vals :: "sem_world \<Rightarrow> nat \<times> nat \<times> jobqueue_t option" where
  "shared_vals w =
     ((case sem_at w sem_full_label of None \<Rightarrow> 0 | Some f \<Rightarrow> sw_vals w f),
      (case sem_at w sem_empty_label of None \<Rightarrow> 127 | Some e \<Rightarrow> sw_vals w e),
      (case queue_at w of None \<Rightarrow> None | Some q \<Rightarrow> m_queues (os_mem (sw_os w)) q))"

text \<open>
  The shared part once the init process has set up the memory: a queue of the right
  size, and those semaphores that have been made.
\<close>

definition set_up :: "sem_world \<Rightarrow> bool" where
  "set_up w \<longleftrightarrow> user_ok (os_user (sw_os w)) \<and>
     (\<exists>q jq. queue_at w = Some q \<and> m_queues (os_mem (sw_os w)) q = Some jq \<and> q_buf_size jq = int QUEUE_SIZE \<and>
        SIZEOF_JOBQUEUE \<le> os_size (sw_os w) q) \<and>
     (sem_at w sem_mutex_label = None \<longrightarrow> sem_at w sem_full_label = None) \<and>
     (sem_at w sem_full_label = None \<longrightarrow> sem_at w sem_empty_label = None) \<and>
     (\<forall>m. sem_at w sem_mutex_label = Some m \<longrightarrow> m < sw_next w) \<and>
     (\<forall>f. sem_at w sem_full_label = Some f \<longrightarrow> f < sw_next w \<and> sem_at w sem_mutex_label \<noteq> Some f) \<and>
     (\<forall>e. sem_at w sem_empty_label = Some e \<longrightarrow> e < sw_next w \<and>
        sem_at w sem_mutex_label \<noteq> Some e \<and> sem_at w sem_full_label \<noteq> Some e)"

text \<open>Where a process can be then, and what its variables hold.\<close>

definition on_queue :: "sem_world \<Rightarrow> ipc_t \<Rightarrow> bool" where
  "on_queue w i \<longleftrightarrow> (\<exists>q. ip_addr i = Ptr q \<and> queue_at w = Some q)"

definition handle_on :: "sem_world \<Rightarrow> sem_jobqueue_t \<Rightarrow> bool" where
  "handle_on w s \<longleftrightarrow> sj_mutex s = sem_at w sem_mutex_label \<and> sj_full s = sem_at w sem_full_label \<and>
     sj_empty s = sem_at w sem_empty_label \<and> sj_mutex s \<noteq> None \<and> sj_full s \<noteq> None \<and> sj_empty s \<noteq> None \<and>
     (\<exists>i. sj_ijq s = Ptr i \<and> on_queue w i)"

text \<open>Where the memory of a handle is mapped.\<close>

definition handle_queue :: "sem_jobqueue_t \<Rightarrow> nat ptr option" where
  "handle_queue s = (case sj_ijq s of NULL \<Rightarrow> None | Ptr i \<Rightarrow> Some (ip_addr i))"

fun local_ok :: "sem_world \<Rightarrow> new_loc \<Rightarrow> bool" where
  "local_ok w N_start = True"
| "local_ok w (N_open name) = name_ok w name"
| "local_ok w (N_map name n) = (queue_at w = Some n)"
| "local_ok w (N_mutex i) = on_queue w i"
| "local_ok w (N_wait i m) = (on_queue w i \<and> sem_at w sem_mutex_label = Some m)"
| "local_ok w (N_full i m) = (on_queue w i \<and> sem_at w sem_mutex_label = Some m)"
| "local_ok w (N_capacity i m r full) = (on_queue w i \<and> sem_at w sem_mutex_label = Some m \<and>
     r = FULL_SEM_SUCCESS \<and> full \<noteq> None \<and> sem_at w sem_full_label = full)"
| "local_ok w (N_empty i m r full cap) = (on_queue w i \<and> sem_at w sem_mutex_label = Some m \<and>
     r = FULL_SEM_SUCCESS \<and> full \<noteq> None \<and> sem_at w sem_full_label = full \<and> cap = 127)"
| "local_ok w (N_end i m r full e) = (on_queue w i \<and> sem_at w sem_mutex_label = Some m \<and>
     r = MUTEX_SEM_SUCCESS OR (FULL_SEM_SUCCESS OR EMPTY_SEM_SUCCESS) \<and>
     full \<noteq> None \<and> sem_at w sem_full_label = full \<and> e \<noteq> None \<and> sem_at w sem_empty_label = e)"
| "local_ok w (N_ret s) = (case s of NULL \<Rightarrow> False | Ptr h \<Rightarrow> handle_on w h)"
| "local_ok w _ = False"

fun holding :: "new_loc \<Rightarrow> bool" where
  "holding (N_full i m) = True"
| "holding (N_capacity i m r full) = True"
| "holding (N_empty i m r full cap) = True"
| "holding (N_end i m r full e) = True"
| "holding _ = False"

text \<open>A step never takes a name away from the queue or a semaphore.\<close>

definition extends :: "sem_world \<Rightarrow> sem_world \<Rightarrow> bool" where
  "extends w w' \<longleftrightarrow> os_user (sw_os w') = os_user (sw_os w) \<and> queue_at w' = queue_at w \<and>
     (\<forall>l k. sem_at w l = Some k \<longrightarrow> sem_at w' l = Some k)"

lemma shm_name_user: "os_user os' = os_user os \<Longrightarrow> shm_name os' l = shm_name os l"
  by (simp only: shm_name_def)

lemma local_ok_extends:
  assumes "extends w w'" "local_ok w l"
  shows "local_ok w' l"
proof -
  have e: "os_user (sw_os w') = os_user (sw_os w)" "queue_at w' = queue_at w"
    "\<And>l k. sem_at w l = Some k \<Longrightarrow> sem_at w' l = Some k"
    using assms(1) by (simp_all add: extends_def)
  have name: "name_ok w' name = name_ok w name" for name
    using shm_name_user [OF e(1)] by (simp add: name_ok_def)
  have on: "on_queue w' i = on_queue w i" for i by (simp add: on_queue_def e(2))
  show ?thesis
    using assms(2)
    by (cases l) (auto simp: name on e(2) handle_on_def e(3) split: ptr.splits dest: sym)
qed

section \<open>Once the memory is set up\<close>

text \<open>Making or opening the semaphore of one of the three names.\<close>

lemma sem_new_named:
  assumes "user_ok (os_user (sw_os w))" "l \<in> {sem_mutex_label, sem_full_label, sem_empty_label}"
    and "unat (word_of_int v :: 32 word) = n" "n \<le> SEM_VALUE_MAX"
  obtains k w' where "sem_new all_ok True 0 l v success w = Some (success, Some k, w')"
    "sw_os w' = sw_os w" "extends w w'" "sem_at w' l = Some k"
    "\<And>l'. l' \<in> {sem_mutex_label, sem_full_label, sem_empty_label} \<Longrightarrow> l' \<noteq> l \<Longrightarrow> sem_at w' l' = sem_at w l'"
    "case sem_at w l of
       Some n \<Rightarrow> k = n \<and> sw_vals w' = sw_vals w \<and> sw_next w' = sw_next w
     | None \<Rightarrow> k = sw_next w \<and> sw_vals w' = (sw_vals w)(k := n) \<and> sw_next w' = Suc k"
proof -
  let ?u = "os_user (sw_os w)"
  obtain k w' where n: "sem_new all_ok True 0 l v success w = Some (success, Some k, w')" "sw_os w' = sw_os w"
    "sw_names w' = (sw_names w)(sjq_name ?u l \<mapsto> k)"
    and c: "case sem_at w l of
       Some n \<Rightarrow> k = n \<and> sw_vals w' = sw_vals w \<and> sw_next w' = sw_next w
     | None \<Rightarrow> k = sw_next w \<and> sw_vals w' = (sw_vals w)(k := n) \<and> sw_next w' = Suc k"
    using assms(3,4) sem_new_ok [OF assms(1) _ assms(2), of all_ok True 0 v success] no_fault_all_ok
    by (auto simp: no_fault_def sem_open_def sem_at_def Let_def fun_upd_idem split: option.splits)
  have at: "sem_at w' l' = (if sjq_name ?u l' = sjq_name ?u l then Some k else sem_at w l')" for l'
    using n(2,3) by (simp add: sem_at_def)
  have "sem_at w l' = Some j \<Longrightarrow> sem_at w' l' = Some j" for l' j
    using c by (auto simp: at) (auto simp: sem_at_def)
  then have "extends w w'" using n(2) by (simp add: extends_def queue_at_def)
  moreover have "sem_at w' l' = sem_at w l'" if "l' \<in> {sem_mutex_label, sem_full_label, sem_empty_label}" "l' \<noteq> l" for l'
    using that assms(2) by (auto simp: at)
  ultimately show thesis using that n(1,2) c at [of l] by simp
qed

text \<open>What a step keeps and does, when the process is past the set-up of the memory.\<close>

definition step_ok :: "sem_world \<Rightarrow> new_loc \<Rightarrow> sem_world \<Rightarrow> new_loc \<Rightarrow> bool" where
  "step_ok w l w' l' \<longleftrightarrow> extends w w' \<and> set_up w' \<and> local_ok w' l' \<and> shared_vals w' = shared_vals w \<and>
     mutex_val w' + of_bool (holding l') = mutex_val w + of_bool (holding l)"

lemma extends_queue: "extends w w' \<Longrightarrow> on_queue w i \<Longrightarrow> on_queue w' i"
  by (simp add: extends_def on_queue_def)

lemma set_up_user: "set_up w \<Longrightarrow> user_ok (os_user (sw_os w))"
  by (simp add: set_up_def)

lemma go_mutex:
  assumes "set_up w" "local_ok w (N_mutex i)"
  shows "\<exists>w' l. new_go all_sem_ok p w (N_mutex i) = Some (w', l) \<and> step_ok w (N_mutex i) w' l"
proof -
  obtain k w' where n: "sem_new all_ok True 0 sem_mutex_label 1 MUTEX_SEM_SUCCESS w = Some (MUTEX_SEM_SUCCESS, Some k, w')"
    "sw_os w' = sw_os w" "extends w w'" "sem_at w' sem_mutex_label = Some k"
    and c: "case sem_at w sem_mutex_label of
       Some n \<Rightarrow> k = n \<and> sw_vals w' = sw_vals w \<and> sw_next w' = sw_next w
     | None \<Rightarrow> k = sw_next w \<and> sw_vals w' = (sw_vals w)(k := 1) \<and> sw_next w' = Suc k"
    and o: "\<And>l. l \<in> {sem_full_label, sem_empty_label} \<Longrightarrow> sem_at w' l = sem_at w l"
    by (rule sem_new_named [OF set_up_user [OF assms(1)], of sem_mutex_label 1 1 MUTEX_SEM_SUCCESS])
      (auto simp: sem_mutex_label_def sem_full_label_def sem_empty_label_def)
  have "set_up w'"
    using assms(1) c n(2,4) n(3) [unfolded extends_def] o
    by (cases "sem_at w sem_mutex_label") (auto simp: set_up_def less_Suc_eq)
  moreover have "mutex_val w' = mutex_val w"
    using c n(4) by (auto simp: mutex_val_def split: option.splits)
  moreover have "shared_vals w' = shared_vals w"
    using assms(1) c n(2) n(3) [unfolded extends_def] o
    by (cases "sem_at w sem_mutex_label") (auto simp: shared_vals_def set_up_def split: option.splits)
  ultimately show ?thesis
    using n(1,3,4) assms(2) extends_queue [OF n(3)] by (simp add: new_go_ok step_ok_def)
qed

lemma go_full:
  assumes "set_up w" "local_ok w (N_full i m)"
  shows "\<exists>w' l. new_go all_sem_ok p w (N_full i m) = Some (w', l) \<and> step_ok w (N_full i m) w' l"
proof -
  have m: "sem_at w sem_mutex_label = Some m" using assms(2) by simp
  obtain k w' where n: "sem_new all_ok True 0 sem_full_label 0 FULL_SEM_SUCCESS w = Some (FULL_SEM_SUCCESS, Some k, w')"
    "sw_os w' = sw_os w" "extends w w'" "sem_at w' sem_full_label = Some k"
    and c: "case sem_at w sem_full_label of
       Some n \<Rightarrow> k = n \<and> sw_vals w' = sw_vals w \<and> sw_next w' = sw_next w
     | None \<Rightarrow> k = sw_next w \<and> sw_vals w' = (sw_vals w)(k := 0) \<and> sw_next w' = Suc k"
    and o: "\<And>l. l \<in> {sem_mutex_label, sem_empty_label} \<Longrightarrow> sem_at w' l = sem_at w l"
    by (rule sem_new_named [OF set_up_user [OF assms(1)], of sem_full_label 0 0 FULL_SEM_SUCCESS])
      (auto simp: sem_mutex_label_def sem_full_label_def sem_empty_label_def)
  have "set_up w'"
    using assms(1) m c n(2,4) n(3) [unfolded extends_def] o
    by (cases "sem_at w sem_full_label") (auto simp: set_up_def less_Suc_eq)
  moreover have "m < sw_next w" using assms(1) m by (simp add: set_up_def)
  then have "mutex_val w' = mutex_val w"
    using c m o by (auto simp: mutex_val_def split: option.splits)
  moreover have "shared_vals w' = shared_vals w"
    using assms(1) c n(2,4) n(3) [unfolded extends_def] o
    by (cases "sem_at w sem_full_label") (auto simp: shared_vals_def set_up_def split: option.splits)
  ultimately show ?thesis
    using n(1,3,4) m o assms(2) extends_queue [OF n(3)] by (simp add: new_go_ok step_ok_def)
qed

lemma go_empty:
  assumes "set_up w" "local_ok w (N_empty i m r full cap)"
  shows "\<exists>w' l. new_go all_sem_ok p w (N_empty i m r full cap) = Some (w', l) \<and> step_ok w (N_empty i m r full cap) w' l"
proof -
  obtain f where m: "sem_at w sem_mutex_label = Some m" and f: "full = Some f" "sem_at w sem_full_label = Some f"
    and r: "r = FULL_SEM_SUCCESS" "cap = 127"
    using assms(2) by auto
  obtain k w' where n: "sem_new all_ok True 0 sem_empty_label 127 EMPTY_SEM_SUCCESS w = Some (EMPTY_SEM_SUCCESS, Some k, w')"
    "sw_os w' = sw_os w" "extends w w'" "sem_at w' sem_empty_label = Some k"
    and c: "case sem_at w sem_empty_label of
       Some n \<Rightarrow> k = n \<and> sw_vals w' = sw_vals w \<and> sw_next w' = sw_next w
     | None \<Rightarrow> k = sw_next w \<and> sw_vals w' = (sw_vals w)(k := 127) \<and> sw_next w' = Suc k"
    and o: "\<And>l. l \<in> {sem_mutex_label, sem_full_label} \<Longrightarrow> sem_at w' l = sem_at w l"
    by (rule sem_new_named [OF set_up_user [OF assms(1)], of sem_empty_label 127 127 EMPTY_SEM_SUCCESS])
      (auto simp: sem_mutex_label_def sem_full_label_def sem_empty_label_def)
  have lt: "m < sw_next w" "f < sw_next w" using assms(1) m f by (auto simp: set_up_def)
  then have "set_up w'"
    using assms(1) m f c n(2,4) n(3) [unfolded extends_def] o
    by (cases "sem_at w sem_empty_label") (auto simp: set_up_def less_Suc_eq)
  moreover have "mutex_val w' = mutex_val w"
    using c m o lt by (auto simp: mutex_val_def split: option.splits)
  moreover have "shared_vals w' = shared_vals w"
    using f lt c n(2,4) n(3) [unfolded extends_def] o
    by (cases "sem_at w sem_empty_label") (auto simp: shared_vals_def split: option.splits)
  ultimately show ?thesis
    using n(1,3,4) m f r o assms(2) extends_queue [OF n(3)] by (simp add: new_go_ok step_ok_def)
qed

lemma sw_vals_upd [simp]:
  "sem_at (w\<lparr>sw_vals := v\<rparr>) l = sem_at w l" "queue_at (w\<lparr>sw_vals := v\<rparr>) = queue_at w"
  "on_queue (w\<lparr>sw_vals := v\<rparr>) i = on_queue w i" "extends w (w\<lparr>sw_vals := v\<rparr>)"
  by (simp_all add: sem_at_def queue_at_def on_queue_def extends_def)

text \<open>The value of the mutex is no part of what must stay.\<close>

lemma set_up_mutex:
  assumes "set_up w" "sem_at w sem_mutex_label = Some m"
  shows "set_up (w\<lparr>sw_vals := (sw_vals w)(m := v)\<rparr>)" "mutex_val (w\<lparr>sw_vals := (sw_vals w)(m := v)\<rparr>) = v"
    "shared_vals (w\<lparr>sw_vals := (sw_vals w)(m := v)\<rparr>) = shared_vals w"
proof -
  let ?w = "w\<lparr>sw_vals := (sw_vals w)(m := v)\<rparr>"
  show "set_up ?w" "mutex_val ?w = v" using assms by (auto simp: set_up_def mutex_val_def)
  have "sem_at w sem_full_label \<noteq> Some m" "sem_at w sem_empty_label \<noteq> Some m"
    using assms by (auto simp: set_up_def)
  then show "shared_vals ?w = shared_vals w"
    by (cases "sem_at w sem_full_label"; cases "sem_at w sem_empty_label") (simp_all add: shared_vals_def cong: option.case_cong)
qed

lemma go_wait:
  assumes "set_up w" "local_ok w (N_wait i m)" "sw_vals w m \<noteq> 0"
  shows "\<exists>w' l. new_go all_sem_ok p w (N_wait i m) = Some (w', l) \<and> step_ok w (N_wait i m) w' l"
proof -
  have m: "sem_at w sem_mutex_label = Some m" using assms(2) by simp
  then have "mutex_val w = sw_vals w m" by (simp add: mutex_val_def)
  then show ?thesis
    using assms(2,3) set_up_mutex [OF assms(1) m, of "sw_vals w m - 1"]
    by (simp add: new_go_ok sem_wait_def step_ok_def)
qed

lemma capacity_full_size: "m_queues (os_mem os) n = Some jq \<Longrightarrow> q_buf_size jq = int QUEUE_SIZE \<Longrightarrow> ip_addr i = Ptr n \<Longrightarrow>
    SIZEOF_JOBQUEUE \<le> os_size os n \<Longrightarrow> handle_capacity (Ptr i) os = Some 127"
  by (simp add: handle_capacity_def mapped_queue_def ipc_jobqueue_capacity_def jobqueue_capacity_def QUEUE_SIZE_def as_int_Some INT_MIN_def INT_MAX_def)

lemma jq_empty_size: "q_buf_size jq_empty = int QUEUE_SIZE"
  by (simp add: jq_empty_def)

lemma go_capacity:
  assumes "set_up w" "local_ok w (N_capacity i m r full)"
  shows "\<exists>w' l. new_go all_sem_ok p w (N_capacity i m r full) = Some (w', l) \<and> step_ok w (N_capacity i m r full) w' l"
proof -
  obtain q jq where q: "ip_addr i = Ptr q" "m_queues (os_mem (sw_os w)) q = Some jq" "q_buf_size jq = int QUEUE_SIZE"
    "SIZEOF_JOBQUEUE \<le> os_size (sw_os w) q"
    using assms by (auto simp: set_up_def on_queue_def)
  have "handle_capacity (Ptr i) (sw_os w) = Some 127" using capacity_full_size q by blast
  then show ?thesis
    using q assms by (simp add: new_go_ok mapped_queue_def step_ok_def extends_def)
qed

lemma go_end:
  assumes "set_up w" "local_ok w (N_end i m r full e)"
  shows "\<exists>w' l. new_go all_sem_ok p w (N_end i m r full e) = Some (w', l) \<and> step_ok w (N_end i m r full e) w' l"
proof -
  have m: "sem_at w sem_mutex_label = Some m" using assms(2) by simp
  then have "mutex_val w = sw_vals w m" by (simp add: mutex_val_def)
  moreover have "r AND ALL_SEM_SUCCESS \<noteq> 0"
    using assms(2) sem_mask [of 2 4] by (simp add: FULL_SEM_SUCCESS_def EMPTY_SEM_SUCCESS_def)
  ultimately show ?thesis
    using assms(2) m set_up_mutex [OF assms(1) m, of "Suc (sw_vals w m)"]
    by (simp add: new_go_ok sem_jobqueue_verdict_def sem_post_def step_ok_def handle_on_def)
qed

text \<open>A process that joins: its calls before the semaphores leave what is shared alone.\<close>

lemma shared_same:
  assumes "os_user (sw_os w') = os_user (sw_os w)" "os_shm (sw_os w') = os_shm (sw_os w)"
    "os_size (sw_os w') = os_size (sw_os w)" "os_mem (sw_os w') = os_mem (sw_os w)"
    "sw_names w' = sw_names w" "sw_vals w' = sw_vals w" "sw_next w' = sw_next w"
  shows "extends w w'" "set_up w' = set_up w" "mutex_val w' = mutex_val w" "queue_at w' = queue_at w"
    "sem_at w' l = sem_at w l" "name_ok w' name = name_ok w name" "shared_vals w' = shared_vals w"
proof -
  have n: "shm_name (sw_os w') l = shm_name (sw_os w) l" for l by (rule shm_name_user [OF assms(1)])
  show q: "queue_at w' = queue_at w" by (simp add: queue_at_def n assms)
  have s: "sem_at w' l = sem_at w l" for l by (simp add: sem_at_def assms)
  then show "sem_at w' l = sem_at w l" .
  show "extends w w'" by (simp add: extends_def q s assms)
  show "set_up w' = set_up w" by (simp add: set_up_def q s assms)
  show "mutex_val w' = mutex_val w" by (simp only: mutex_val_def s assms(6))
  show "shared_vals w' = shared_vals w" by (simp only: shared_vals_def s q assms(4,6))
  show "name_ok w' name = name_ok w name" by (simp add: name_ok_def n)
qed

lemma go_start_join:
  assumes "user_ok (os_user (sw_os w))" "\<not> pr_is_init p"
  shows "\<exists>w' name. new_go all_sem_ok p w N_start = Some (w', N_open name) \<and> name_ok w' name \<and>
    os_user (sw_os w') = os_user (sw_os w) \<and> os_shm (sw_os w') = os_shm (sw_os w) \<and>
    os_size (sw_os w') = os_size (sw_os w) \<and> os_mem (sw_os w') = os_mem (sw_os w) \<and>
    sw_names w' = sw_names w \<and> sw_vals w' = sw_vals w \<and> sw_next w' = sw_next w"
proof -
  obtain name where name: "shobject_name True (os_user (sw_os w)) (Ptr (f_buf all_ok)) queue_label = Some name"
    "c_str name = Some (shm_name (sw_os w) queue_label)"
    using queue_name [OF assms(1)] by blast
  let ?os = "(sw_os w)\<lparr>os_blocks := Suc (os_blocks (sw_os w)), os_sleeps := os_sleeps (sw_os w) @ [\<lparr>tv_sec = 1, tv_nsec = 0\<rparr>]\<rparr>"
  let ?w = "w\<lparr>sw_blocks := Suc (sw_blocks w), sw_os := ?os\<rparr>"
  have "shm_name ?os queue_label = shm_name (sw_os w) queue_label" by (rule shm_name_user) simp
  then have "name_ok ?w name" using name(2) by (simp add: name_ok_def)
  moreover have "new_go all_sem_ok p w N_start = Some (?w, N_open name)"
    using name assms(2) by (simp add: new_go_ok ipc_prepare_def Let_def)
  ultimately show ?thesis by (intro exI [of _ ?w] exI [of _ name]) simp
qed

lemma go_join:
  assumes up: "set_up w" and p: "\<not> pr_is_init p"
  shows "\<exists>w' l. new_go all_sem_ok p w N_start = Some (w', l) \<and> step_ok w N_start w' l"
    and "local_ok w (N_open name) \<Longrightarrow> \<exists>w' l. new_go all_sem_ok p w (N_open name) = Some (w', l) \<and> step_ok w (N_open name) w' l"
    and "local_ok w (N_map name n) \<Longrightarrow> \<exists>w' l. new_go all_sem_ok p w (N_map name n) = Some (w', l) \<and> step_ok w (N_map name n) w' l"
proof -
  obtain w1 name1 where w1: "new_go all_sem_ok p w N_start = Some (w1, N_open name1)" "name_ok w1 name1"
    and same: "os_user (sw_os w1) = os_user (sw_os w)" "os_shm (sw_os w1) = os_shm (sw_os w)"
      "os_size (sw_os w1) = os_size (sw_os w)" "os_mem (sw_os w1) = os_mem (sw_os w)"
      "sw_names w1 = sw_names w" "sw_vals w1 = sw_vals w" "sw_next w1 = sw_next w"
    using go_start_join [OF set_up_user [OF up] p] by blast
  show "\<exists>w' l. new_go all_sem_ok p w N_start = Some (w', l) \<and> step_ok w N_start w' l"
    using w1 shared_same [OF same] up by (intro exI [of _ w1] exI [of _ "N_open name1"]) (simp add: step_ok_def)
  obtain q where q: "queue_at w = Some q" using up by (auto simp: set_up_def)
  show "\<exists>w' l. new_go all_sem_ok p w (N_open name) = Some (w', l) \<and> step_ok w (N_open name) w' l" if "local_ok w (N_open name)"
  proof -
    let ?w = "w\<lparr>sw_os := (sw_os w)\<lparr>os_fds := Suc (os_fds (sw_os w))\<rparr>\<rparr>"
    have "new_go all_sem_ok p w (N_open name) = Some (?w, N_map name q)"
      using that q p by (simp add: new_go_ok name_ok_def queue_at_def shm_open_def all_ok_def Let_def)
    then show ?thesis
      using shared_same [of ?w w] up q by (intro exI [of _ ?w] exI [of _ "N_map name q"]) (simp add: step_ok_def)
  qed
  show "\<exists>w' l. new_go all_sem_ok p w (N_map name n) = Some (w', l) \<and> step_ok w (N_map name n) w' l" if "local_ok w (N_map name n)"
  proof -
    let ?w = "w\<lparr>sw_os := (sw_os w)\<lparr>os_maps := os_maps (sw_os w) @ [n], os_fds := os_fds (sw_os w) - 1\<rparr>\<rparr>"
    let ?i = "\<lparr>ip_proc = p, ip_name = name, ip_addr = Ptr n\<rparr>"
    have "new_go all_sem_ok p w (N_map name n) = Some (?w, N_mutex ?i)"
      using p by (simp add: new_go_ok mmap_def close_fd_def all_ok_def Let_def)
    then show ?thesis
      using shared_same [of ?w w] up that
      by (intro exI [of _ ?w] exI [of _ "N_mutex ?i"]) (simp add: step_ok_def on_queue_def)
  qed
qed

text \<open>All steps of a process that is past the set-up of the memory, or joins.\<close>

fun past_setup :: "new_loc \<Rightarrow> bool" where
  "past_setup N_start = False"
| "past_setup (N_open name) = False"
| "past_setup (N_trunc name n) = False"
| "past_setup (N_map name n) = False"
| "past_setup (N_zero i) = False"
| "past_setup (N_init i) = False"
| "past_setup _ = True"

lemma go_ready:
  assumes "set_up w" "local_ok w l" "past_setup l \<or> \<not> pr_is_init p"
    and "\<And>s. l \<noteq> N_ret s" "\<And>i m. l = N_wait i m \<Longrightarrow> sw_vals w m \<noteq> 0"
  shows "\<exists>w' l'. new_go all_sem_ok p w l = Some (w', l') \<and> step_ok w l w' l'"
proof (cases l)
  case N_start
  then show ?thesis using assms go_join(1) by simp
next
  case (N_open name)
  then show ?thesis using assms go_join(2) by simp
next
  case (N_map name n)
  then show ?thesis using assms go_join(3) by simp
next
  case (N_mutex i)
  then show ?thesis using assms go_mutex by blast
next
  case (N_wait i m)
  then show ?thesis using assms go_wait by blast
next
  case (N_full i m)
  then show ?thesis using assms go_full by blast
next
  case (N_capacity i m r full)
  then show ?thesis using assms go_capacity by blast
next
  case (N_empty i m r full cap)
  then show ?thesis using assms go_empty by blast
next
  case (N_end i m r full e)
  then show ?thesis using assms go_end by blast
qed (use assms in simp_all)

section \<open>The init process on its own\<close>

text \<open>What the init process has done to the memory when it is at a location.\<close>

fun init_ok :: "sem_world \<Rightarrow> new_loc \<Rightarrow> bool" where
  "init_ok w N_start = True"
| "init_ok w (N_open name) = (name_ok w name \<and> queue_at w = None)"
| "init_ok w (N_trunc name n) = (queue_at w = Some n \<and> m_queues (os_mem (sw_os w)) n = Some jq_zero)"
| "init_ok w (N_map name n) = (queue_at w = Some n \<and> m_queues (os_mem (sw_os w)) n = Some jq_zero \<and>
     SIZEOF_JOBQUEUE \<le> os_size (sw_os w) n)"
| "init_ok w (N_zero i) = (\<exists>n. ip_addr i = Ptr n \<and> queue_at w = Some n \<and>
     m_queues (os_mem (sw_os w)) n = Some jq_zero \<and> SIZEOF_JOBQUEUE \<le> os_size (sw_os w) n)"
| "init_ok w (N_init i) = (\<exists>n. ip_addr i = Ptr n \<and> queue_at w = Some n \<and>
     m_queues (os_mem (sw_os w)) n = Some jq_zero \<and> SIZEOF_JOBQUEUE \<le> os_size (sw_os w) n)"
| "init_ok w _ = False"

text \<open>Before the memory is set up no semaphore is made.\<close>

definition fresh :: "sem_world \<Rightarrow> bool" where
  "fresh w \<longleftrightarrow> wf_mem (os_mem (sw_os w)) \<and> user_ok (os_user (sw_os w)) \<and>
     sem_at w sem_mutex_label = None \<and> sem_at w sem_full_label = None \<and> sem_at w sem_empty_label = None"

definition init_step_ok :: "sem_world \<Rightarrow> sem_world \<Rightarrow> new_loc \<Rightarrow> bool" where
  "init_step_ok w w' l' \<longleftrightarrow> os_user (sw_os w') = os_user (sw_os w) \<and>
     (fresh w' \<and> init_ok w' l' \<or>
      set_up w' \<and> local_ok w' l' \<and> past_setup l' \<and> \<not> holding l' \<and> mutex_val w' = 1 \<and> shared_vals w' = (0, 127, Some jq_empty))"

lemma fresh_os:
  "fresh w \<Longrightarrow> wf_mem (os_mem os) \<Longrightarrow> os_user os = os_user (sw_os w) \<Longrightarrow> fresh (w\<lparr>sw_os := os\<rparr>)"
  "fresh w \<Longrightarrow> fresh (w\<lparr>sw_blocks := b\<rparr>)"
  by (simp_all add: fresh_def sem_at_def)

lemma jq_zero_wf:
  assumes "wf_mem m" "m_queues m n = Some jq_zero"
  shows "wf_mem (put_jq m n jq_zero)" "m_queues (put_jq m n jq_zero) n = Some jq_zero"
    "jobqueue_init m (Ptr n) = Some (put_jq m n jq_empty)" "m_queues (put_jq m n jq_empty) n = Some jq_empty"
  using wf_put_jq [OF assms] jq_typ_zero jobqueue_init_ok [OF assms] by (simp_all add: mem_simps)

lemma go_init:
  assumes fr: "fresh w" and l: "init_ok w l" and p: "pr_is_init p"
  shows "\<exists>w' l'. new_go all_sem_ok p w l = Some (w', l') \<and> init_step_ok w w' l'"
proof -
  let ?os = "sw_os w" and ?u = "os_user (sw_os w)"
  have usr: "user_ok ?u" and wf: "wf_mem (os_mem ?os)" using fr by (simp_all add: fresh_def)
  have ok: "init_step_ok w w' l'" if "fresh w'" "init_ok w' l'" "os_user (sw_os w') = ?u" for w' l'
    using that by (simp add: init_step_ok_def)
  have at: "queue_at (w\<lparr>sw_os := os\<rparr>) = os_shm os (shm_name ?os queue_label)" if "os_user os = ?u" for os
    using shm_name_user [OF that] by (simp add: queue_at_def)
  show ?thesis
  proof (cases l)
    case N_start
    obtain name where name: "shobject_name True ?u (Ptr (f_buf all_ok)) queue_label = Some name"
      "c_str name = Some (shm_name ?os queue_label)"
      using queue_name [OF usr] by blast
    let ?w = "w\<lparr>sw_blocks := Suc (sw_blocks w), sw_os := shm_unlink (shm_name ?os queue_label) (?os\<lparr>os_blocks := Suc (os_blocks ?os)\<rparr>)\<rparr>"
    have go: "new_go all_sem_ok p w l = Some (?w, N_open name)"
      using name p N_start by (simp add: new_go_ok ipc_prepare_def Let_def)
    have n: "shm_name (sw_os ?w) queue_label = shm_name ?os queue_label" by (rule shm_name_user) simp
    have "fresh ?w" using fr by (simp add: fresh_def sem_at_def)
    moreover have "init_ok ?w (N_open name)"
      unfolding init_ok.simps name_ok_def queue_at_def n using name(2) by simp
    ultimately show ?thesis using go ok [of ?w] by simp
  next
    case (N_open name)
    let ?n = "m_next (os_mem ?os)" and ?nm = "shm_name ?os queue_label"
    let ?m = "(os_mem ?os)\<lparr>m_next := Suc ?n, m_queues := (m_queues (os_mem ?os))(?n \<mapsto> jq_zero)\<rparr>"
    let ?os1 = "?os\<lparr>os_shm := (os_shm ?os)(?nm \<mapsto> ?n), os_size := (os_size ?os)(?n := 0), os_mem := ?m, os_fds := Suc (os_fds ?os)\<rparr>"
    let ?w = "w\<lparr>sw_os := ?os1\<rparr>"
    have go: "new_go all_sem_ok p w l = Some (?w, N_trunc name ?n)"
      using N_open l p by (simp add: new_go_ok name_ok_def queue_at_def shm_open_def all_ok_def queue_ops_def Let_def)
    have "wf_mem ?m" using wf jq_typ_zero by (auto simp: wf_mem_def)
    then have "fresh ?w" using fr by (intro fresh_os(1)) simp_all
    moreover have "init_ok ?w (N_trunc name ?n)" using at [of ?os1] by simp
    ultimately show ?thesis using go ok [of ?w] by simp
  next
    case (N_trunc name n)
    let ?w = "w\<lparr>sw_os := ftruncate all_ok n SIZEOF_JOBQUEUE ?os\<rparr>"
    have go: "new_go all_sem_ok p w l = Some (?w, N_map name n)" using N_trunc by (simp add: new_go_ok Let_def)
    have tr: "ftruncate all_ok n SIZEOF_JOBQUEUE ?os = ?os\<lparr>os_size := (os_size ?os)(n := SIZEOF_JOBQUEUE)\<rparr>"
      by (simp add: ftruncate_def all_ok_def)
    have "fresh ?w" using fr wf by (intro fresh_os(1)) (simp_all add: tr)
    moreover have "init_ok ?w (N_map name n)" using N_trunc l at [of ?os] at [of "?os\<lparr>os_size := (os_size ?os)(n := SIZEOF_JOBQUEUE)\<rparr>"]
      by (simp add: tr)
    ultimately show ?thesis using go ok [of ?w] by (simp add: tr)
  next
    case (N_map name n)
    let ?os1 = "?os\<lparr>os_maps := os_maps ?os @ [n], os_fds := os_fds ?os - 1\<rparr>"
    let ?w = "w\<lparr>sw_os := ?os1\<rparr>" and ?i = "\<lparr>ip_proc = p, ip_name = name, ip_addr = Ptr n\<rparr>"
    have go: "new_go all_sem_ok p w l = Some (?w, N_zero ?i)"
      using N_map p by (simp add: new_go_ok mmap_def close_fd_def all_ok_def Let_def)
    have "fresh ?w" using fr wf by (intro fresh_os(1)) simp_all
    moreover have "init_ok ?w (N_zero ?i)" using N_map l at [of ?os] at [of ?os1] by simp
    ultimately show ?thesis using go ok [of ?w] by simp
  next
    case (N_zero i)
    then obtain n where n: "ip_addr i = Ptr n" "queue_at w = Some n" "m_queues (os_mem ?os) n = Some jq_zero"
      "SIZEOF_JOBQUEUE \<le> os_size ?os n" using l by auto
    let ?w = "w\<lparr>sw_os := ?os\<lparr>os_mem := put_jq (os_mem ?os) n jq_zero\<rparr>\<rparr>"
    have go: "new_go all_sem_ok p w l = Some (?w, N_init i)"
      using N_zero n by (simp add: new_go_ok mapped_queue_def queue_ops_def Let_def)
    note z = jq_zero_wf [OF wf n(3)]
    have "fresh ?w" using fr z by (intro fresh_os(1)) simp_all
    moreover have "init_ok ?w (N_init i)" using n z(2) at [of ?os] at [of "?os\<lparr>os_mem := put_jq (os_mem ?os) n jq_zero\<rparr>"] by simp
    ultimately show ?thesis using go ok [of ?w] by simp
  next
    case (N_init i)
    then obtain n where n: "ip_addr i = Ptr n" "queue_at w = Some n" "m_queues (os_mem ?os) n = Some jq_zero"
      "SIZEOF_JOBQUEUE \<le> os_size ?os n" using l by auto
    let ?os1 = "?os\<lparr>os_mem := put_jq (os_mem ?os) n jq_empty\<rparr>"
    let ?w = "w\<lparr>sw_os := ?os1\<rparr>"
    note z = jq_zero_wf [OF wf n(3)]
    have go: "new_go all_sem_ok p w l = Some (?w, N_mutex i)"
      using N_init n z(3) by (simp add: new_go_ok mapped_queue_def Let_def)
    have q: "queue_at ?w = Some n" using n(2) at [of ?os] at [of ?os1] by simp
    have s: "sem_at ?w l = sem_at w l" for l by (simp add: sem_at_def)
    have "set_up ?w" using fr n(4) z(4) q jq_empty_size by (simp add: set_up_def fresh_def s)
    moreover have "shared_vals ?w = (0, 127, Some jq_empty)" using fr z(4) q by (simp add: shared_vals_def fresh_def s)
    moreover have "mutex_val ?w = 1" using fr by (simp add: mutex_val_def s fresh_def)
    ultimately show ?thesis using go n(1) q by (simp add: init_step_ok_def on_queue_def)
  qed (use l in simp_all)
qed

section \<open>All processes\<close>

text \<open>
  The runs for which \<^verbatim>\<open>NON_INIT_DELAY\<close> is long enough: nobody opens the shared
  memory before the init process \<open>c\<close> has set it up.
\<close>

definition orderly :: "'p \<Rightarrow> sem_world \<times> ('p \<Rightarrow> new_loc) \<Rightarrow> 'p \<Rightarrow> bool" where
  "orderly c u p \<longleftrightarrow> new_may calls_succeed u p \<and>
     (p \<noteq> c \<longrightarrow> (case snd u p of N_open _ \<Rightarrow> past_setup (snd u c) | _ \<Rightarrow> True))"

text \<open>One process at most is between the wait for the mutex and its release.\<close>

definition one_inside :: "sem_world \<Rightarrow> ('p \<Rightarrow> new_loc) \<Rightarrow> bool" where
  "one_inside w locs \<longleftrightarrow> mutex_val w = 1 \<and> (\<forall>p. \<not> holding (locs p)) \<or>
     mutex_val w = 0 \<and> (\<exists>h. \<forall>p. holding (locs p) \<longleftrightarrow> p = h)"

text \<open>While the init process sets up the memory, and after it.\<close>

definition early :: "'p \<Rightarrow> sem_world \<Rightarrow> ('p \<Rightarrow> new_loc) \<Rightarrow> bool" where
  "early c w locs \<longleftrightarrow> fresh w \<and> init_ok w (locs c) \<and>
     (\<forall>p. p \<noteq> c \<longrightarrow> locs p = N_start \<or> (\<exists>name. locs p = N_open name \<and> name_ok w name))"

definition late :: "'p \<Rightarrow> sem_world \<Rightarrow> ('p \<Rightarrow> new_loc) \<Rightarrow> bool" where
  "late c w locs \<longleftrightarrow> set_up w \<and> past_setup (locs c) \<and> (\<forall>p. local_ok w (locs p))"

definition startup_inv :: "('p \<Rightarrow> proc_t) \<Rightarrow> 'p \<Rightarrow> sem_world \<times> ('p \<Rightarrow> new_loc) \<Rightarrow> bool" where
  "startup_inv who c u \<longleftrightarrow> (case u of (w, locs) \<Rightarrow>
     (\<forall>p. pr_is_init (who p) \<longleftrightarrow> p = c) \<and>
     (early c w locs \<or> late c w locs \<and> one_inside w locs \<and> shared_vals w = (0, 127, Some jq_empty)))"

lemma one_inside_step:
  assumes "one_inside w locs" "mutex_val w' + of_bool (holding l') = mutex_val w + of_bool (holding (locs p))"
  shows "one_inside w' (locs(p := l'))"
proof (cases "holding (locs p)")
  case True
  then have h: "mutex_val w = 0" "\<And>q. holding (locs q) \<longleftrightarrow> q = p" using assms(1) unfolding one_inside_def by metis+
  then show ?thesis using assms(2) True by (cases "holding l'") (auto simp: one_inside_def)
next
  case False
  show ?thesis
  proof (cases "holding l'")
    case True
    then have "mutex_val w \<noteq> 0" using assms(2) False by simp
    then have "mutex_val w = 1" "\<And>q. \<not> holding (locs q)" using assms(1) unfolding one_inside_def by metis+
    then show ?thesis using assms(2) True False by (auto simp: one_inside_def)
  next
    case nl: False
    then have "mutex_val w' = mutex_val w" using assms(2) False by simp
    moreover have "holding ((locs(p := l')) q) = holding (locs q)" for q using nl False by simp
    ultimately show ?thesis using assms(1) by (simp only: one_inside_def)
  qed
qed

lemma name_ok_user: "os_user (sw_os w') = os_user (sw_os w) \<Longrightarrow> name_ok w' name = name_ok w name"
  using shm_name_user [of "sw_os w'" "sw_os w" queue_label] by (simp only: name_ok_def)

lemma past_setup_kept: "past_setup l \<Longrightarrow> new_go all_sem_ok p w l = Some (w', l') \<Longrightarrow> past_setup l'"
  by (cases l) (auto simp: new_go_ok Let_def bind_eq_Some_conv split: outcome.splits if_splits)

text \<open>A step in either phase.\<close>

lemma early_step:
  assumes early: "early c w locs" and roles: "\<And>p. pr_is_init (who p) \<longleftrightarrow> p = c" and may: "orderly c (w, locs) p"
  obtains w' l' where "new_go all_sem_ok (who p) w (locs p) = Some (w', l')"
    "early c w' (locs(p := l')) \<or> late c w' (locs(p := l')) \<and> (\<forall>q. \<not> holding ((locs(p := l')) q)) \<and>
       mutex_val w' = 1 \<and> shared_vals w' = (0, 127, Some jq_empty)"
proof (cases "p = c")
  case True
  obtain w' l' where g: "new_go all_sem_ok (who c) w (locs c) = Some (w', l')" "init_step_ok w w' l'"
    using go_init early roles by (metis early_def)
  have names: "name_ok w' name = name_ok w name" for name
    using g(2) by (intro name_ok_user) (simp add: init_step_ok_def)
  have "q \<noteq> c \<Longrightarrow> local_ok w' (locs q) \<and> \<not> holding (locs q) \<and>
      (locs q = N_start \<or> (\<exists>name. locs q = N_open name \<and> name_ok w' name))" for q
    using early names by (auto simp: early_def)
  then have "early c w' (locs(c := l')) \<or> late c w' (locs(c := l')) \<and> (\<forall>q. \<not> holding ((locs(c := l')) q)) \<and>
       mutex_val w' = 1 \<and> shared_vals w' = (0, 127, Some jq_empty)"
    using g(2) by (auto simp: early_def late_def init_step_ok_def)
  then show thesis using that g(1) True by blast
next
  case False
  have "init_ok w (locs c)" and others: "locs p = N_start \<or> (\<exists>name. locs p = N_open name)"
    using early False by (auto simp: early_def)
  then have start: "locs p = N_start" using False may by (cases "locs c") (auto simp: orderly_def)
  obtain w' name where g: "new_go all_sem_ok (who p) w N_start = Some (w', N_open name)" "name_ok w' name"
    and same: "os_user (sw_os w') = os_user (sw_os w)" "os_shm (sw_os w') = os_shm (sw_os w)"
      "os_size (sw_os w') = os_size (sw_os w)" "os_mem (sw_os w') = os_mem (sw_os w)"
      "sw_names w' = sw_names w" "sw_vals w' = sw_vals w" "sw_next w' = sw_next w"
    using go_start_join [of w "who p"] early roles False by (auto simp: early_def fresh_def)
  note sh = shared_same [OF same]
  have "fresh w'" using early sh same by (simp add: early_def fresh_def)
  moreover have "init_ok w' (locs c)" using early sh(4,6) same by (cases "locs c") (simp_all add: early_def)
  ultimately have "early c w' (locs(p := N_open name))"
    using early g(2) sh(6) False by (auto simp: early_def)
  then show thesis using that [of w' "N_open name"] g(1) start by simp
qed

lemma late_step:
  assumes late: "late c w locs" and roles: "\<And>p. pr_is_init (who p) \<longleftrightarrow> p = c" and may: "new_may calls_succeed (w, locs) p"
  obtains w' l' where "new_go all_sem_ok (who p) w (locs p) = Some (w', l')" "step_ok w (locs p) w' l'" "late c w' (locs(p := l'))"
proof -
  have l: "set_up w" "past_setup (locs c)" "\<And>p. local_ok w (locs p)" using late by (simp_all add: late_def)
  have "past_setup (locs p) \<or> \<not> pr_is_init (who p)" using l(2) roles [of p] by (cases "p = c") auto
  moreover have "locs p \<noteq> N_ret s" "locs p = N_wait i m \<Longrightarrow> sw_vals w m \<noteq> 0" for s i m
    using may by (auto simp: new_may_def)
  ultimately obtain w' l' where g: "new_go all_sem_ok (who p) w (locs p) = Some (w', l')" "step_ok w (locs p) w' l'"
    using go_ready [OF l(1,3)] by blast
  then have ext: "extends w w'" "set_up w'" "local_ok w' l'" by (simp_all add: step_ok_def)
  have "past_setup ((locs(p := l')) c)"
    using past_setup_kept [OF l(2)] g(1) l(2) by auto
  moreover have "local_ok w' ((locs(p := l')) q)" for q using ext(3) local_ok_extends [OF ext(1) l(3)] by simp
  ultimately show thesis using that g ext(2) by (simp add: late_def)
qed

interpretation startup: invariant_system "new_step calls_succeed who" "orderly c" "startup_inv who c" for who c
proof (unfold_locales, goal_cases)
  case (1 u p)
  obtain w locs where u: "u = (w, locs)" by (cases u)
  have roles: "\<And>p. pr_is_init (who p) \<longleftrightarrow> p = c" using 1(1) by (simp add: u startup_inv_def)
  have go: "new_step calls_succeed who p u = Some (w', locs(p := l'))" if "new_go all_sem_ok (who p) w (locs p) = Some (w', l')" for w' l'
    using that by (simp add: u new_step_def)
  show ?case
  proof (cases "early c w locs")
    case True
    obtain w' l' where g: "new_go all_sem_ok (who p) w (locs p) = Some (w', l')"
      and next_phase: "early c w' (locs(p := l')) \<or> late c w' (locs(p := l')) \<and> (\<forall>q. \<not> holding ((locs(p := l')) q)) \<and>
       mutex_val w' = 1 \<and> shared_vals w' = (0, 127, Some jq_empty)"
      by (rule early_step [OF True roles]) (use 1(2) u in auto)
    have "startup_inv who c (w', locs(p := l'))"
      using next_phase roles unfolding startup_inv_def one_inside_def prod.case by blast
    then show ?thesis using go [OF g] by blast
  next
    case False
    then have late: "late c w locs" "one_inside w locs" "shared_vals w = (0, 127, Some jq_empty)"
      using 1(1) by (auto simp: u startup_inv_def)
    have "new_may calls_succeed (w, locs) p" using 1(2) by (simp add: u orderly_def)
    then obtain w' l' where g: "new_go all_sem_ok (who p) w (locs p) = Some (w', l')" "step_ok w (locs p) w' l'" "late c w' (locs(p := l'))"
      using late_step [where who = who, OF late(1) roles] by blast
    have "one_inside w' (locs(p := l'))"
      by (rule one_inside_step [OF late(2)]) (use g(2) in \<open>simp add: step_ok_def\<close>)
    then show ?thesis using go g late(3) roles by (auto simp: startup_inv_def step_ok_def)
  qed
qed

section \<open>Every schedule\<close>

lemma same_handles:
  assumes "handle_on w h" "handle_on w k"
  shows "sj_mutex h = sj_mutex k \<and> sj_full h = sj_full k \<and> sj_empty h = sj_empty k \<and> handle_queue h = handle_queue k"
  using assms by (auto simp: handle_on_def on_queue_def handle_queue_def)

lemma startup_inv_start:
  assumes "wf_mem (os_mem (sw_os w))" "user_ok (os_user (sw_os w))" "\<forall>p. pr_is_init (who p) \<longleftrightarrow> p = c"
    and "\<And>l. l \<in> {sem_mutex_label, sem_full_label, sem_empty_label} \<Longrightarrow> sem_at w l = None"
  shows "startup_inv who c (w, \<lambda>_. N_start)"
  using assms by (simp add: startup_inv_def early_def fresh_def)

text \<open>Nobody is inside \<^verbatim>\<open>mutex\<close> for ever: someone can always be picked until all have returned.\<close>

lemma startup_stuck:
  assumes "startup_inv who c (w, locs)" "\<And>p. \<not> orderly c (w, locs) p"
  shows "\<exists>h. locs p = N_ret (Ptr h)"
proof -
  consider (early) "init_ok w (locs c)"
    | (late) "past_setup (locs c)" "\<And>p. local_ok w (locs p)" "one_inside w locs"
    using assms(1) by (auto simp: startup_inv_def early_def late_def)
  then show ?thesis
  proof cases
    case early
    then have "orderly c (w, locs) c" by (cases "locs c") (simp_all add: orderly_def new_may_def)
    then show ?thesis using assms(2) by blast
  next
    case late
    have idle: "\<not> new_may calls_succeed (w, locs) q" for q using assms(2) [of q] late(1) by (auto simp: orderly_def split: new_loc.splits)
    have "\<not> holding (locs q)" for q using idle [of q] by (cases "locs q") (simp_all add: new_may_def)
    then have "mutex_val w = 1" using late(3) by (auto simp: one_inside_def)
    then show ?thesis
      using idle [of p] late(2) [of p] by (cases "locs p") (auto simp: new_may_def mutex_val_def split: ptr.splits)
  qed
qed

text \<open>What a process that has returned holds.\<close>

lemma startup_returned:
  assumes "startup_inv who c (w, locs)" "locs p = N_ret s"
  obtains h q where "s = Ptr h" "handle_on w h" "queue_at w = Some q" "set_up w" "one_inside w locs"
    "shared_vals w = (0, 127, Some jq_empty)"
proof -
  have late: "set_up w \<and> (\<forall>p. local_ok w (locs p)) \<and> one_inside w locs \<and> shared_vals w = (0, 127, Some jq_empty)"
    using assms by (cases "p = c") (auto simp: startup_inv_def early_def late_def)
  then have "local_ok w (N_ret s)" using assms(2) by metis
  then show thesis using late that by (auto simp: set_up_def split: ptr.splits)
qed

lemma startup_created:
  assumes "shared_vals w = (0, 127, Some jq_empty)" "handle_on w h" "mutex_val w = 1"
  shows "sem_sys_of n h w = Some (sem_init n)"
proof -
  obtain m f e i where h: "sj_mutex h = Some m" "sj_full h = Some f" "sj_empty h = Some e" "sj_ijq h = Ptr i" "on_queue w i"
    and at: "sem_at w sem_mutex_label = Some m" "sem_at w sem_full_label = Some f" "sem_at w sem_empty_label = Some e"
    using assms(2) unfolding handle_on_def by (metis option.exhaust)
  have "sw_vals w m = 1" "sw_vals w f = 0" "sw_vals w e = 127"
    using assms(1,3) at by (simp_all add: mutex_val_def shared_vals_def)
  moreover obtain q where "ip_addr i = Ptr q" "m_queues (os_mem (sw_os w)) q = Some jq_empty"
    using assms(1) h(5) by (auto simp: shared_vals_def on_queue_def)
  ultimately show ?thesis using h by (simp add: sem_sys_of_def sem_init_def QUEUE_SIZE_def)
qed

text \<open>
  C5: creation is safe when \<^verbatim>\<open>NON_INIT_DELAY\<close> is long enough, the system calls that can
  succeed do, the memory is well-formed, the name of the user can be part of that of an
  object, and none of the three semaphores has a name at the start, as after
  \<^verbatim>\<open>runrmsho.sh\<close> (\<^verbatim>\<open>sem_jobqueue_delete\<close> alone leaves two; the shared memory object may
  exist): for any number of processes of which one is the init process, and every
  schedule, no step is undefined; every process that returns has a queue; all have the
  same three semaphores and the same memory; in every state in which nobody is inside
  the mutex what they have is the empty queue from which the concurrent model starts;
  and as long as one process has not returned, one can go on.
\<close>

theorem startup_safe:
  assumes "wf_mem (os_mem (sw_os w))" "user_ok (os_user (sw_os w))" "\<forall>p. pr_is_init (who p) \<longleftrightarrow> p = c"
    and "\<And>l. l \<in> {sem_mutex_label, sem_full_label, sem_empty_label} \<Longrightarrow> sem_at w l = None"
  shows "\<exists>w' locs. sched_run (new_step calls_succeed who) (orderly c) (w, \<lambda>_. N_start) es = Some (w', locs) \<and>
    (\<forall>p s. locs p = N_ret s \<longrightarrow> (\<exists>h. s = Ptr h)) \<and>
    (\<forall>p q h k. locs p = N_ret (Ptr h) \<longrightarrow> locs q = N_ret (Ptr k) \<longrightarrow>
       sj_mutex h = sj_mutex k \<and> sj_full h = sj_full k \<and> sj_empty h = sj_empty k \<and> handle_queue h = handle_queue k) \<and>
    (\<forall>p h. locs p = N_ret (Ptr h) \<longrightarrow> (\<forall>q. \<not> holding (locs q)) \<longrightarrow> sem_sys_of n h w' = Some (sem_init n)) \<and>
    ((\<forall>p. \<not> orderly c (w', locs) p) \<longrightarrow> (\<forall>p. \<exists>h. locs p = N_ret (Ptr h)))"
proof -
  obtain w' locs where run: "sched_run (new_step calls_succeed who) (orderly c) (w, \<lambda>_. N_start) es = Some (w', locs)"
    and inv: "startup_inv who c (w', locs)"
    using startup.run_inv [OF startup_inv_start [OF assms], of es] by (metis surj_pair)
  have a: "\<exists>h. s = Ptr h" if "locs p = N_ret s" for p s
    using startup_returned [OF inv that] by metis
  have b: "sj_mutex h = sj_mutex k \<and> sj_full h = sj_full k \<and> sj_empty h = sj_empty k \<and> handle_queue h = handle_queue k"
    if "locs p = N_ret (Ptr h)" "locs q = N_ret (Ptr k)" for p q h k
    using startup_returned [OF inv that(1)] startup_returned [OF inv that(2)] same_handles [of w' h k] by auto
  have c: "sem_sys_of n h w' = Some (sem_init n)" if "locs p = N_ret (Ptr h)" "\<forall>q. \<not> holding (locs q)" for p h
  proof -
    have h: "handle_on w' h" "shared_vals w' = (0, 127, Some jq_empty)" "one_inside w' locs" using startup_returned [OF inv that(1)] by auto
    then have "mutex_val w' = 1" using that(2) by (auto simp: one_inside_def)
    then show ?thesis using startup_created [OF h(2,1)] by blast
  qed
  have d: "\<exists>h. locs p = N_ret (Ptr h)" if "\<forall>p. \<not> orderly c (w', locs) p" for p
    using startup_stuck [OF inv] that by blast
  show ?thesis
    by (rule exI [of _ w'], rule exI [of _ locs], intro conjI allI impI) (use run a b c d in \<open>blast+\<close>)
qed

lemma startup_safe_witness:
  "\<exists>w' locs. sched_run (new_step calls_succeed (\<lambda>p. sim_proc (p = (0::nat)))) (orderly 0) (sem_start, \<lambda>_. N_start) [1, 0, 2, 0, 0, 1, 0, 0, 0] = Some (w', locs) \<and>
    ((\<forall>p. \<not> orderly 0 (w', locs) p) \<longrightarrow> (\<forall>p. \<exists>h. locs p = N_ret (Ptr h)))"
proof -
  let ?who = "\<lambda>p. sim_proc (p = (0::nat))"
  have roles: "\<forall>p. pr_is_init (?who p) \<longleftrightarrow> p = 0" by (simp add: proc_of_def)
  have at: "sem_at sem_start l = None" for l by (simp add: sem_at_def sem_start_ok)
  show ?thesis
    using startup_safe [OF sem_start_ok(1,2) roles at, of "[1, 0, 2, 0, 0, 1, 0, 0, 0]" 2]
    by (elim exE conjE) (rule exI, rule exI, rule conjI)
qed

end
