(* ===== verification/Startup_Alone.thy ===== *)
theory Startup_Alone
  imports Startup
begin

text \<open>
  The steps of the creation and the function: one process that nobody interrupts does
  what \<^verbatim>\<open>sem_jobqueue_new\<close> does. And two schedules that only
  \<^verbatim>\<open>NON_INIT_DELAY\<close> keeps out.
\<close>

section \<open>One process alone\<close>

text \<open>The steps of a process that is picked \<open>n\<close> times in a row.\<close>

fun go_n :: "sem_faults \<Rightarrow> proc_t \<Rightarrow> nat \<Rightarrow> sem_world \<Rightarrow> new_loc \<Rightarrow> (sem_world \<times> new_loc) option" where
  "go_n fz p 0 w l = Some (w, l)"
| "go_n fz p (Suc n) w l = do { (w', l') \<leftarrow> new_go fz p w l; go_n fz p n w' l' }"

lemma go_stuck: "\<not> new_may fzs (w, locs) q \<Longrightarrow> new_go (fzs q) p w (locs q) = Some (w, locs q)"
  by (cases "locs q") (simp_all add: new_may_def new_go_def sem_wait_def)

lemma run_alone:
  "sched_run (new_step fzs who) (new_may fzs) (w, locs) (replicate n p @ es) =
    do { (w', l) \<leftarrow> go_n (fzs p) (who p) n w (locs p); sched_run (new_step fzs who) (new_may fzs) (w', locs(p := l)) es }"
proof (induction n arbitrary: w locs)
  case 0
  have "(\<lambda>q. if q = p then locs p else locs q) = locs" by auto
  then show ?case by (simp add: fun_upd_def)
next
  case (Suc n)
  show ?case
  proof (cases "new_may fzs (w, locs) p")
    case True
    show ?thesis
    proof (cases "new_go (fzs p) (who p) w (locs p)")
      case None
      then show ?thesis using True by (simp add: new_step_def)
    next
      case (Some u)
      obtain w1 l1 where u: "u = (w1, l1)" by (cases u)
      have step: "new_step fzs who p (w, locs) = Some (w1, locs(p := l1))" using Some u by (simp add: new_step_def)
      show ?thesis
        using Suc.IH [of w1 "locs(p := l1)"] True Some u by (simp only: replicate_Suc append_Cons sched_run.simps
          go_n.simps step if_True bind.bind_lunit prod.case fun_upd_upd fun_upd_same)
    qed
  next
    case False
    then show ?thesis using Suc.IH go_stuck [OF False, of "who p"] by simp
  qed
qed

lemma go_n_add: "go_n fz p (m + n) w l = do { (w', l') \<leftarrow> go_n fz p m w l; go_n fz p n w' l' }"
  by (induction m arbitrary: w l) (auto split: bind_splits)

lemma go_n_ret [simp]: "go_n fz p n w (N_ret s) = Some (w, N_ret s)"
  by (induction n) (simp_all add: new_go_def Let_def)

lemma go_n_blocked: "sw_vals w m = 0 \<Longrightarrow> g_wait fz \<Longrightarrow> go_n fz p n w (N_wait i m) = Some (w, N_wait i m)"
  by (induction n) (simp_all add: new_go_def sem_wait_def Let_def)

lemma ok_faults: "faults_ok (g_ipc all_sem_ok)"
  using no_fault_all_ok by (simp add: no_fault_def)

text \<open>From the semaphores on, and before them.\<close>

definition new_rest :: "sem_faults \<Rightarrow> ipc_t \<Rightarrow> sem_world \<Rightarrow> (sem_jobqueue_t ptr \<times> sem_world) outcome option" where
  "new_rest fz i w = do {
     (r, mutex, w1) \<leftarrow> sem_new (g_ipc fz) (g_mutex fz) (g_err fz) sem_mutex_label 1 MUTEX_SEM_SUCCESS w;
     if r \<noteq> MUTEX_SEM_SUCCESS then do {
       w2 \<leftarrow> delete_ijq (Ptr i) w1;
       w3 \<leftarrow> free_sjq w2;
       Some (Returns (NULL, w3)) }
     else do { n \<leftarrow> mutex; sem_jobqueue_finish fz (Ptr i) r n w1 } }"

lemma sem_new_result:
  assumes "user_ok (os_user (sw_os w))" "faults_ok fz" "l \<in> {sem_mutex_label, sem_full_label, sem_empty_label}"
  obtains r k w1 where "sem_new fz ok err l v s w = Some (r, k, w1)" "os_user (sw_os w1) = os_user (sw_os w)"
    "k = None \<longrightarrow> r = SEM_NEW_FAIL" "k \<noteq> None \<longrightarrow> r = s"
proof -
  obtain k w1 where o: "sem_open ok err (sjq_name (os_user (sw_os w)) l) (word_of_int v) w = (k, w1)" by force
  then have "os_user (sw_os w1) = os_user (sw_os w)"
    by (auto simp: sem_open_def set_errno_def Let_def split: option.splits if_splits)
  then show thesis
    using that sem_new_ok [OF assms(1,2,3), of ok err v s] o by (cases k) auto
qed

text \<open>The result of a function that may block, as a result of the steps.\<close>

definition same_result ::
  "(sem_jobqueue_t ptr \<times> sem_world) outcome option \<Rightarrow> (sem_world \<times> new_loc) option \<Rightarrow> bool" where
  "same_result r g \<longleftrightarrow> (case r of
     None \<Rightarrow> g = None
   | Some Blocks \<Rightarrow> (\<exists>w i m. g = Some (w, N_wait i m) \<and> sw_vals w m = 0)
   | Some (Returns (s, w)) \<Rightarrow> g = Some (w, N_ret s))"

lemma new_rest_alone:
  assumes usr: "user_ok (os_user (sw_os w))" and fz: "faults_ok (g_ipc fz)"
  shows "same_result (new_rest fz i w) (go_n fz p (6 + k) w (N_mutex i))"
proof -
  obtain r m w1 where n1: "sem_new (g_ipc fz) (g_mutex fz) (g_err fz) sem_mutex_label 1 MUTEX_SEM_SUCCESS w = Some (r, m, w1)"
    and w1: "os_user (sw_os w1) = os_user (sw_os w)"
    and r: "m = None \<longrightarrow> r = SEM_NEW_FAIL" "m \<noteq> None \<longrightarrow> r = MUTEX_SEM_SUCCESS"
    by (rule sem_new_result [OF usr fz, of sem_mutex_label "g_mutex fz" "g_err fz" 1 MUTEX_SEM_SUCCESS]) auto
  have six: "6 + k = Suc (Suc (Suc (Suc (Suc (Suc k)))))" by simp
  show ?thesis
  proof (cases m)
    case None
    then show ?thesis unfolding six
      using r n1 by (cases "delete_ijq (Ptr i) w1")
        (auto simp: new_rest_def new_go_def sem_success_defs same_result_def split: bind_splits)
  next
    case (Some m)
    then have r1: "r = MUTEX_SEM_SUCCESS" using r by simp
    have start: "go_n fz p (6 + k) w (N_mutex i) = go_n fz p (Suc (Suc (Suc (Suc (Suc k))))) w1 (N_wait i m)"
      unfolding six using n1 Some r1 by (simp add: new_go_def)
    have rest: "new_rest fz i w = sem_jobqueue_finish fz (Ptr i) MUTEX_SEM_SUCCESS m w1"
      using n1 Some r1 by (simp add: new_rest_def)
    show ?thesis
    proof (cases "sem_wait (g_wait fz) m w1")
      case Blocks
      then have b: "sw_vals w1 m = 0" "g_wait fz" by (auto simp: sem_wait_def split: if_splits)
      show ?thesis unfolding start rest go_n_blocked [OF b]
        using b by (simp add: sem_jobqueue_finish_def sem_wait_def same_result_def)
    next
      case (Returns v1)
      then have v1: "user_ok (os_user (sw_os v1))" using usr w1 by (auto simp: sem_wait_def split: if_splits)
      obtain r2 f w2 where
        n2: "sem_new (g_ipc fz) (g_full fz) (g_err fz) sem_full_label 0 FULL_SEM_SUCCESS v1 = Some (r2, f, w2)"
        and w2: "user_ok (os_user (sw_os w2))"
        by (rule sem_new_result [OF v1 fz, of sem_full_label "g_full fz" "g_err fz" 0 FULL_SEM_SUCCESS]) (use v1 in auto)
      show ?thesis
      proof (cases "handle_capacity (Ptr i) (sw_os w2)")
        case None
        then show ?thesis unfolding start rest
          using Returns n2 by (simp add: new_go_def sem_jobqueue_finish_def same_result_def)
      next
        case (Some cap)
        obtain r3 e w3 where
          n3: "sem_new (g_ipc fz) (g_empty fz) (g_err fz) sem_empty_label (capacity_int cap) EMPTY_SEM_SUCCESS w2 = Some (r3, e, w3)"
          by (rule sem_new_result [OF w2 fz, of sem_empty_label "g_empty fz" "g_err fz" "capacity_int cap" EMPTY_SEM_SUCCESS]) simp
        show ?thesis unfolding start rest
          using Returns n2 Some n3
          by (cases "sem_jobqueue_verdict (g_ipc fz) (Ptr i) (MUTEX_SEM_SUCCESS OR (r2 OR r3)) m f e w3")
            (simp_all add: new_go_def sem_jobqueue_finish_def same_result_def split_beta)
      qed
    qed
  qed
qed

text \<open>
  The calls of \<^verbatim>\<open>ipc_jobqueue_new\<close>: what the init process does in six steps, and one that
  joins in three.
\<close>

definition ipc_agrees :: "(ipc_t ptr \<times> mem os) option \<Rightarrow> (sem_world \<times> new_loc) option \<Rightarrow> sem_world \<Rightarrow> bool" where
  "ipc_agrees r g w \<longleftrightarrow> (case r of
     None \<Rightarrow> g = None
   | Some (NULL, os) \<Rightarrow> g = Some (w\<lparr>sw_os := os\<rparr>, N_ret NULL)
   | Some (Ptr i, os) \<Rightarrow> g = Some (w\<lparr>sw_blocks := Suc (sw_blocks w), sw_os := os\<rparr>, N_mutex i) \<and> os_user os = os_user (sw_os w))"

lemma new_ipc_no_memory:
  assumes "g_malloc fz" "\<not> f_malloc (g_ipc fz)"
  shows "ipc_agrees (ipc_jobqueue_new (g_ipc fz) (Ptr p) (sw_os w)) (go_n fz p (Suc n) w N_start) w"
  using assms SIZEOF_JOBQUEUE_pos
  by (simp add: ipc_agrees_def new_go_def ipc_jobqueue_new_def ipc_new_def Let_def)

lemma new_init_alone:
  assumes usr: "user_ok (os_user (sw_os w))" and fz: "faults_ok (g_ipc fz)" "g_malloc fz" "f_malloc (g_ipc fz)" and p: "pr_is_init p"
  shows "ipc_agrees (ipc_jobqueue_new (g_ipc fz) (Ptr p) (sw_os w)) (go_n fz p 6 w N_start) w"
proof -
  let ?f = "g_ipc fz" and ?os = "sw_os w" let ?nm = "shm_name ?os queue_label" and ?n = "m_next (os_mem ?os)"
  obtain name where name: "shobject_name True (os_user ?os) (Ptr (f_buf ?f)) queue_label = Some name"
    "c_str name = Some ?nm"
    using shm_name_buf [of queue_label ?os ?f] usr fz(1) by (auto simp: ipc_jobq_label [simplified])
  let ?i = "\<lparr>ip_proc = p, ip_name = name, ip_addr = Ptr ?n\<rparr>"
  let ?oa = "shm_unlink ?nm (?os\<lparr>os_blocks := Suc (os_blocks ?os)\<rparr>)"
  let ?ob = "?oa\<lparr>os_shm := (os_shm ?oa)(?nm \<mapsto> ?n), os_size := (os_size ?oa)(?n := 0),
      os_mem := (os_mem ?oa)\<lparr>m_next := Suc ?n, m_queues := (m_queues (os_mem ?oa))(?n \<mapsto> jq_zero)\<rparr>,
      os_fds := Suc (os_fds ?oa)\<rparr>"
  let ?oc = "ftruncate ?f ?n SIZEOF_JOBQUEUE ?ob"
  let ?od = "close_fd (?oc\<lparr>os_maps := os_maps ?oc @ [?n]\<rparr>)"
  let ?oe = "?od\<lparr>os_mem := put_jq (os_mem ?od) ?n jq_zero\<rparr>"
  note steps = new_go_def ipc_prepare_def mmap_def Let_def free_block_def free_sjq_def
  note whole = ipc_jobqueue_new_def ipc_new_def ipc_prepare_def ipc_map_def mmap_def Let_def free_block_def
  have six: "6 = Suc (Suc (Suc (Suc (Suc (Suc 0)))))" by simp
  show ?thesis
  proof (cases "f_open ?f")
    case False
    then have opn: "shm_open queue_ops ?f True ?nm ?oa = (None, ?oa\<lparr>os_errno := f_err ?f\<rparr>)" by (simp add: shm_open_def)
    show ?thesis unfolding six
      using name p opn fz SIZEOF_JOBQUEUE_pos by (simp add: ipc_agrees_def steps whole cong: ptr.case_cong)
  next
    case True
    then have opn: "shm_open queue_ops ?f True ?nm ?oa = (Some ?n, ?ob)" by (simp add: shm_open_def queue_ops_def)
    show ?thesis
    proof (cases "f_map ?f")
      case False
      have "os_blocks (close_fd (?oc\<lparr>os_errno := f_err ?f\<rparr>)) = Suc (os_blocks ?os)"
        by (simp add: close_fd_def ftruncate_def shm_unlink_def split: option.split)
      then show ?thesis unfolding six
        using name p opn fz False SIZEOF_JOBQUEUE_pos
        by (simp add: ipc_agrees_def steps whole cong: ptr.case_cong)
    next
      case map: True
      show ?thesis
      proof (cases "f_trunc ?f")
        case False
        have "os_size ?od ?n = 0" using False by (simp add: ftruncate_def close_fd_def)
        then show ?thesis unfolding six
          using name p opn fz map SIZEOF_JOBQUEUE_pos
          by (simp add: ipc_agrees_def steps whole mapped_queue_def cong: ptr.case_cong)
      next
        case True
        have size: "os_size ?od ?n = SIZEOF_JOBQUEUE" using True by (simp add: ftruncate_def close_fd_def)
        have usr4: "os_user ?oe = os_user ?os" by (simp add: ftruncate_def close_fd_def)
        show ?thesis unfolding six
          using name p opn fz map size usr4 SIZEOF_JOBQUEUE_pos
          by (cases "jobqueue_init (os_mem ?oe) (Ptr ?n)")
            (simp_all add: ipc_agrees_def steps whole mapped_queue_def queue_ops_def cong: ptr.case_cong)
      qed
    qed
  qed
qed

lemma new_join_alone:
  assumes usr: "user_ok (os_user (sw_os w))" and fz: "faults_ok (g_ipc fz)" "g_malloc fz" "f_malloc (g_ipc fz)" and p: "\<not> pr_is_init p"
  shows "ipc_agrees (ipc_jobqueue_new (g_ipc fz) (Ptr p) (sw_os w)) (go_n fz p 3 w N_start) w"
proof -
  let ?os = "sw_os w" and ?f = "g_ipc fz" let ?nm = "shm_name ?os queue_label"
  obtain name where name: "shobject_name True (os_user ?os) (Ptr (f_buf ?f)) queue_label = Some name"
    "c_str name = Some ?nm"
    using shm_name_buf [of queue_label ?os ?f] usr fz(1) by (auto simp: ipc_jobq_label [simplified])
  show ?thesis
    using name p fz(2,3) SIZEOF_JOBQUEUE_pos
    by (cases "f_open ?f"; cases "f_map ?f"; cases "os_shm ?os ?nm")
      (simp_all add: numeral_3_eq_3 ipc_agrees_def new_go_def ipc_prepare_def mmap_def mapped_queue_def Let_def close_fd_def
        free_sjq_def ipc_jobqueue_new_def ipc_new_def ipc_map_def shm_open_def free_block_def cong: ptr.case_cong)
qed

lemma new_as_rest:
  assumes "g_malloc fz" "ipc_jobqueue_new (g_ipc fz) (Ptr p) (sw_os w) = Some (Ptr i, os)"
  shows "sem_jobqueue_new fz (Ptr p) w = new_rest fz i (w\<lparr>sw_blocks := Suc (sw_blocks w), sw_os := os\<rparr>)"
  using assms by (simp add: sem_jobqueue_new_def new_rest_def)

text \<open>
  Twelve steps of a process that nobody interrupts are the function: the first \<open>k\<close> of
  them \<^verbatim>\<open>ipc_jobqueue_new\<close>, at least six the rest.
\<close>

lemma new_alone_from:
  assumes usr: "user_ok (os_user (sw_os w))" and fz: "faults_ok (g_ipc fz)" "g_malloc fz"
    and agree: "ipc_agrees (ipc_jobqueue_new (g_ipc fz) (Ptr p) (sw_os w)) (go_n fz p k w N_start) w" and k: "k \<le> 6"
  shows "same_result (sem_jobqueue_new fz (Ptr p) w) (go_n fz p 12 w N_start)"
proof -
  have steps: "go_n fz p 12 w N_start = do { (w', l') \<leftarrow> go_n fz p k w N_start; go_n fz p (6 + (6 - k)) w' l' }"
    using go_n_add [of fz p k "6 + (6 - k)" w N_start] k by simp
  consider (undefined) "ipc_jobqueue_new (g_ipc fz) (Ptr p) (sw_os w) = None"
    | (fails) os where "ipc_jobqueue_new (g_ipc fz) (Ptr p) (sw_os w) = Some (NULL, os)"
    | (works) i os where "ipc_jobqueue_new (g_ipc fz) (Ptr p) (sw_os w) = Some (Ptr i, os)"
    by (metis option.exhaust ptr.exhaust surj_pair)
  then show ?thesis
  proof cases
    case undefined
    then show ?thesis using agree fz(2) steps by (simp add: ipc_agrees_def sem_jobqueue_new_def same_result_def)
  next
    case fails
    then show ?thesis
      using agree fz(2) steps by (simp add: ipc_agrees_def sem_jobqueue_new_def free_sjq_def same_result_def)
  next
    case works
    then show ?thesis
      using agree usr new_rest_alone [of "w\<lparr>sw_blocks := Suc (sw_blocks w), sw_os := os\<rparr>" fz i p "6 - k", OF _ fz(1)]
      by (simp add: ipc_agrees_def steps new_as_rest [OF fz(2) works])
  qed
qed

lemma new_alone:
  assumes usr: "user_ok (os_user (sw_os w))" and fz: "faults_ok (g_ipc fz)"
  shows "same_result (sem_jobqueue_new fz (Ptr p) w) (go_n fz p 12 w N_start)"
proof (cases "g_malloc fz")
  case False
  have twelve: "12 = Suc 11" by simp
  show ?thesis unfolding twelve go_n.simps using False by (simp add: sem_jobqueue_new_def new_go_def same_result_def)
next
  case True
  show ?thesis
  proof (cases "f_malloc (g_ipc fz)")
    case False
    show ?thesis by (rule new_alone_from [OF usr fz True, of _ "Suc 0"]) (use new_ipc_no_memory [OF True False] in simp_all)
  next
    case m: True
    show ?thesis
    proof (cases "pr_is_init p")
      case True
      show ?thesis by (rule new_alone_from [OF usr fz \<open>g_malloc fz\<close> new_init_alone [OF usr fz \<open>g_malloc fz\<close> m True]]) simp
    next
      case False
      show ?thesis by (rule new_alone_from [OF usr fz \<open>g_malloc fz\<close> new_join_alone [OF usr fz \<open>g_malloc fz\<close> m False]]) simp
    qed
  qed
qed

text \<open>
  C28: the steps are the function, whichever of its calls fail: a process that is picked
  twelve times in a row ends with the result and the state of \<^verbatim>\<open>sem_jobqueue_new\<close>, waits
  for the mutex when that function blocks, and is undefined when it is, as for a process
  that attaches to an object smaller than a queue, or an init process whose \<^verbatim>\<open>ftruncate\<close>
  fails. The name of the user can be part of a name of an object, and the buffer for the
  name has the size of the field.
\<close>

theorem new_steps_agree:
  assumes "user_ok (os_user (sw_os w))" "faults_ok (g_ipc (fzs p))" "locs p = N_start"
  shows "case sem_jobqueue_new (fzs p) (Ptr (who p)) w of
      None \<Rightarrow> sched_run (new_step fzs who) (new_may fzs) (w, locs) (replicate 12 p) = None
    | Some Blocks \<Rightarrow> (\<exists>w' i m. sched_run (new_step fzs who) (new_may fzs) (w, locs) (replicate 12 p) = Some (w', locs(p := N_wait i m)) \<and>
        sw_vals w' m = 0)
    | Some (Returns (s, w')) \<Rightarrow>
        sched_run (new_step fzs who) (new_may fzs) (w, locs) (replicate 12 p) = Some (w', locs(p := N_ret s))"
proof -
  have run: "sched_run (new_step fzs who) (new_may fzs) (w, locs) (replicate 12 p) =
      do { (w', l) \<leftarrow> go_n (fzs p) (who p) 12 w N_start; Some (w', locs(p := l)) }"
    using run_alone [of fzs who w locs 12 p "[]"] assms(3) by simp
  have "same_result (sem_jobqueue_new (fzs p) (Ptr (who p)) w) (go_n (fzs p) (who p) 12 w N_start)"
    by (rule new_alone [OF assms(1,2)])
  then show ?thesis unfolding run same_result_def
    by (cases "sem_jobqueue_new (fzs p) (Ptr (who p)) w") (auto split: outcome.splits, blast)
qed

lemma new_steps_agree_witness:
  "\<exists>s w' locs. sem_jobqueue_new all_sem_ok (Ptr (sim_proc True)) sem_start = Some (Returns (Ptr s, w')) \<and>
    sched_run (new_step calls_succeed (\<lambda>_::nat. sim_proc True)) (new_may calls_succeed) (sem_start, \<lambda>_. N_start) (replicate 12 0) = Some (w', locs) \<and>
    locs 0 = N_ret (Ptr s)"
proof -
  have "pr_is_init (sim_proc True)" by (simp add: proc_of_def)
  moreover from this obtain s w' where s: "sem_jobqueue_new all_sem_ok (Ptr (sim_proc True)) sem_start = Some (Returns (Ptr s, w'))"
    using sem_jobqueue_new_fresh [OF sem_start_ok(1,2), of "sim_proc True" all_sem_ok] sem_start_ok(3) by auto
  ultimately show ?thesis
    using new_steps_agree [of sem_start calls_succeed 0 "\<lambda>_::nat. N_start" "\<lambda>_. sim_proc True"] sem_start_ok(2) ok_faults by auto
qed

section \<open>Without the delay\<close>

text \<open>The first steps of the init process, up to the call of \<^verbatim>\<open>jobqueue_init\<close>, and of one that joins.\<close>

lemma init_five:
  assumes usr: "user_ok (os_user (sw_os w))" and p: "pr_is_init p" and wf: "wf_mem (os_mem (sw_os w))"
  obtains i n os where "go_n all_sem_ok p 5 w N_start = Some (w\<lparr>sw_blocks := Suc (sw_blocks w), sw_os := os\<rparr>, N_init i)"
    "ip_addr i = Ptr n" "os_shm os (shm_name (sw_os w) queue_label) = Some n" "m_queues (os_mem os) n = Some jq_zero"
    "os_size os n = SIZEOF_JOBQUEUE" "os_user os = os_user (sw_os w)" "wf_mem (os_mem os)"
proof -
  let ?os = "sw_os w" let ?nm = "shm_name ?os queue_label" and ?n = "m_next (os_mem ?os)"
  obtain name where name: "shobject_name True (os_user ?os) (Ptr (f_buf all_ok)) queue_label = Some name"
    "c_str name = Some ?nm"
    using queue_name [OF usr] by blast
  let ?i = "\<lparr>ip_proc = p, ip_name = name, ip_addr = Ptr ?n\<rparr>"
  let ?oa = "shm_unlink ?nm (?os\<lparr>os_blocks := Suc (os_blocks ?os)\<rparr>)"
  let ?ob = "?oa\<lparr>os_shm := (os_shm ?oa)(?nm \<mapsto> ?n), os_size := (os_size ?oa)(?n := 0),
      os_mem := (os_mem ?oa)\<lparr>m_next := Suc ?n, m_queues := (m_queues (os_mem ?oa))(?n \<mapsto> jq_zero)\<rparr>,
      os_fds := Suc (os_fds ?oa)\<rparr>"
  let ?oc = "ftruncate all_ok ?n SIZEOF_JOBQUEUE ?ob"
  let ?od = "close_fd (?oc\<lparr>os_maps := os_maps ?oc @ [?n]\<rparr>)"
  let ?oe = "?od\<lparr>os_mem := put_jq (os_mem ?od) ?n jq_zero\<rparr>"
  have opn: "shm_open queue_ops all_ok True ?nm ?oa = (Some ?n, ?ob)"
    by (simp add: shm_open_def all_ok_def queue_ops_def)
  have size: "os_size ?od ?n = SIZEOF_JOBQUEUE" "os_user ?oe = os_user ?os" "os_shm ?oe ?nm = Some ?n"
    "m_queues (os_mem ?oe) ?n = Some jq_zero"
    by (simp_all add: ftruncate_def close_fd_def all_ok_def mem_simps)
  have "wf_mem (os_mem ?od)" "m_queues (os_mem ?od) ?n = Some jq_zero"
    using wf jq_typ_zero by (auto simp: wf_mem_def ftruncate_def close_fd_def all_ok_def)
  then have wf': "wf_mem (os_mem ?oe)" using jq_zero_wf(1) by simp
  have five: "5 = Suc (Suc (Suc (Suc (Suc 0))))" by simp
  have "go_n all_sem_ok p 5 w N_start = Some (w\<lparr>sw_blocks := Suc (sw_blocks w), sw_os := ?oe\<rparr>, N_init ?i)"
    unfolding five using name p opn size(1)
    by (simp add: new_go_ok ipc_prepare_def mmap_def mapped_queue_def Let_def queue_ops_def all_ok_def)
  then show thesis using that [of ?oe ?i ?n] size wf' by simp
qed

lemma init_two:
  assumes usr: "user_ok (os_user (sw_os w))" and p: "pr_is_init p"
  obtains name n os where "go_n all_sem_ok p 2 w N_start = Some (w\<lparr>sw_blocks := Suc (sw_blocks w), sw_os := os\<rparr>, N_trunc name n)"
    "os_shm os (shm_name (sw_os w) queue_label) = Some n" "os_size os n = 0" "os_user os = os_user (sw_os w)"
proof -
  let ?os = "sw_os w" let ?nm = "shm_name ?os queue_label" and ?n = "m_next (os_mem ?os)"
  obtain name where name: "shobject_name True (os_user ?os) (Ptr (f_buf all_ok)) queue_label = Some name"
    "c_str name = Some ?nm"
    using queue_name [OF usr] by blast
  let ?oa = "shm_unlink ?nm (?os\<lparr>os_blocks := Suc (os_blocks ?os)\<rparr>)"
  let ?ob = "?oa\<lparr>os_shm := (os_shm ?oa)(?nm \<mapsto> ?n), os_size := (os_size ?oa)(?n := 0),
      os_mem := (os_mem ?oa)\<lparr>m_next := Suc ?n, m_queues := (m_queues (os_mem ?oa))(?n \<mapsto> jq_zero)\<rparr>,
      os_fds := Suc (os_fds ?oa)\<rparr>"
  have opn: "shm_open queue_ops all_ok True ?nm ?oa = (Some ?n, ?ob)"
    by (simp add: shm_open_def all_ok_def queue_ops_def)
  have "go_n all_sem_ok p 2 w N_start = Some (w\<lparr>sw_blocks := Suc (sw_blocks w), sw_os := ?ob\<rparr>, N_trunc name ?n)"
    unfolding numeral_2_eq_2 using name p opn by (simp add: new_go_ok ipc_prepare_def Let_def)
  then show thesis using that [of ?ob name ?n] by simp
qed

lemma join_two:
  assumes "name_ok w name" "queue_at w = Some n" "\<not> pr_is_init p"
  obtains i os where "go_n all_sem_ok p 2 w (N_open name) = Some (w\<lparr>sw_os := os\<rparr>, N_mutex i)" "ip_addr i = Ptr n"
    "os_user os = os_user (sw_os w)" "os_mem os = os_mem (sw_os w)" "os_size os = os_size (sw_os w)" "os_shm os = os_shm (sw_os w)"
proof -
  let ?os = "(sw_os w)\<lparr>os_maps := os_maps (sw_os w) @ [n]\<rparr>" and ?i = "\<lparr>ip_proc = p, ip_name = name, ip_addr = Ptr n\<rparr>"
  have "go_n all_sem_ok p 2 w (N_open name) = Some (w\<lparr>sw_os := ?os\<rparr>, N_mutex ?i)"
    using assms by (simp add: numeral_2_eq_2 new_go_ok name_ok_def queue_at_def shm_open_def mmap_def close_fd_def all_ok_def Let_def)
  then show thesis using that [of ?os ?i] by simp
qed

text \<open>The semaphores, for a mutex that is available.\<close>

lemma new_rest_run:
  assumes usr: "user_ok (os_user (sw_os w))"
    and mutex: "sem_open True 0 (sjq_name (os_user (sw_os w)) sem_mutex_label) 1 w = (Some m, w1)"
    and wait: "sw_vals w1 m \<noteq> 0"
    and full: "sem_open True 0 (sjq_name (os_user (sw_os w)) sem_full_label) 0
      (w1\<lparr>sw_vals := (sw_vals w1)(m := sw_vals w1 m - 1)\<rparr>) = (f, w2)"
    and cap: "handle_capacity (Ptr i) (sw_os w) = Some cap"
    and empty: "sem_open True 0 (sjq_name (os_user (sw_os w)) sem_empty_label) (word_of_int (capacity_int cap)) w2 = (e, w3)"
  shows "new_rest all_sem_ok i w = Some (Returns (Ptr \<lparr>sj_mutex = Some m, sj_full = f, sj_empty = e, sj_ijq = Ptr i\<rparr>, sem_post m w3))"
proof -
  have fz: "faults_ok all_ok" using no_fault_all_ok by (simp add: no_fault_def)
  have os: "sw_os w1 = sw_os w" "sw_os w2 = sw_os w"
    using sem_open_sel(1) [OF mutex] sem_open_sel(1) [OF full] by simp_all
  define r2 where "r2 = (if f = None then SEM_NEW_FAIL else FULL_SEM_SUCCESS)"
  define r3 where "r3 = (if e = None then SEM_NEW_FAIL else EMPTY_SEM_SUCCESS)"
  have n1: "sem_new all_ok True 0 sem_mutex_label 1 MUTEX_SEM_SUCCESS w = Some (MUTEX_SEM_SUCCESS, Some m, w1)"
    using usr fz mutex by (simp add: sem_new_ok)
  have n2: "sem_new all_ok True 0 sem_full_label 0 FULL_SEM_SUCCESS
      (w1\<lparr>sw_vals := (sw_vals w1)(m := sw_vals w1 m - 1)\<rparr>) = Some (r2, f, w2)"
    using usr fz os full by (simp add: sem_new_ok r2_def split: option.split)
  have n3: "sem_new all_ok True 0 sem_empty_label (capacity_int cap) EMPTY_SEM_SUCCESS w2 = Some (r3, e, w3)"
    using usr fz os empty by (simp add: sem_new_ok r3_def split: option.split)
  have "(MUTEX_SEM_SUCCESS OR (r2 OR r3)) AND ALL_SEM_SUCCESS \<noteq> 0"
    by (rule sem_mask) (simp_all add: r2_def r3_def sem_success_defs)
  then show ?thesis
    using n1 n2 n3 cap wait os
    by (simp add: new_rest_def sem_jobqueue_finish_def sem_jobqueue_verdict_def sem_wait_def sem_new_err [of _ "g_err all_sem_ok"])
qed

text \<open>The capacity of a queue that was zeroed and not initialised is -1; it is none for a semaphore.\<close>

lemma capacity_zero: "m_queues (os_mem os) n = Some jq_zero \<Longrightarrow> ip_addr i = Ptr n \<Longrightarrow> SIZEOF_JOBQUEUE \<le> os_size os n \<Longrightarrow>
    handle_capacity (Ptr i) os = Some (word_of_int (- 1))"
  by (simp add: handle_capacity_def mapped_queue_def ipc_jobqueue_capacity_def jobqueue_capacity_def jq_zero_def as_int_Some INT_MIN_def INT_MAX_def)

lemma value_minus_1: "SEM_VALUE_MAX < unat (word_of_int (capacity_int (word_of_int (- 1))) :: uint)"
  by (simp add: capacity_int_def SEM_VALUE_MAX_def unsigned_minus_1_eq_mask mask_eq_exp_minus_1)

lemma rest_zeroed:
  assumes "user_ok (os_user (sw_os w))" "ip_addr i = Ptr n" "m_queues (os_mem (sw_os w)) n = Some jq_zero"
    and size: "SIZEOF_JOBQUEUE \<le> os_size (sw_os w) n" and none: "\<And>l. l \<in> {sem_mutex_label, sem_full_label, sem_empty_label} \<Longrightarrow> sem_at w l = None"
  obtains k w' where "new_rest all_sem_ok i w = Some (Returns (Ptr \<lparr>sj_mutex = Some (sw_next w), sj_full = Some k, sj_empty = None, sj_ijq = Ptr i\<rparr>, w'))"
    "os_user (sw_os w') = os_user (sw_os w)" "os_mem (sw_os w') = os_mem (sw_os w)" "os_size (sw_os w') = os_size (sw_os w)"
    "sem_at w' sem_mutex_label = Some (sw_next w)" "sem_at w' sem_full_label = Some k" "sem_at w' sem_empty_label = None"
    "sw_vals w' (sw_next w) = 1" "k \<noteq> sw_next w"
proof -
  let ?u = "os_user (sw_os w)" and ?m = "sw_next w"
  let ?w1 = "w\<lparr>sw_names := (sw_names w)(sjq_name ?u sem_mutex_label \<mapsto> ?m), sw_vals := (sw_vals w)(?m := 1),
      sw_next := Suc ?m, sw_open := sw_open w @ [?m]\<rparr>"
  let ?w2 = "?w1\<lparr>sw_names := (sw_names ?w1)(sjq_name ?u sem_full_label \<mapsto> Suc ?m), sw_vals := (sw_vals w)(?m := 0, Suc ?m := 0),
      sw_next := Suc (Suc ?m), sw_open := sw_open ?w1 @ [Suc ?m]\<rparr>"
  have none: "sw_names w (sjq_name ?u sem_mutex_label) = None" "sw_names w (sjq_name ?u sem_full_label) = None"
    "sw_names w (sjq_name ?u sem_empty_label) = None" using none by (simp_all add: sem_at_def)
  have "new_rest all_sem_ok i w = Some (Returns (Ptr \<lparr>sj_mutex = Some ?m, sj_full = Some (Suc ?m), sj_empty = None, sj_ijq = Ptr i\<rparr>,
      sem_post ?m (set_errno EINVAL ?w2)))"
    by (rule new_rest_run [OF assms(1), of ?m ?w1 _ ?w2, OF _ _ _ capacity_zero [OF assms(3,2) size]])
      (use none value_minus_1 in \<open>simp_all add: sem_open_def Let_def SEM_VALUE_MAX_def\<close>)
  then show thesis
    by (rule that) (use none in \<open>simp_all add: sem_post_def sem_at_def set_errno_def\<close>)
qed

lemma rest_named:
  assumes "user_ok (os_user (sw_os w))" "handle_capacity (Ptr i) (sw_os w) = Some 127"
    and "sem_at w sem_mutex_label = Some m" "sem_at w sem_full_label = Some f" "sem_at w sem_empty_label = None"
    and "sw_vals w m = 1" "f \<noteq> m"
  obtains w' where "new_rest all_sem_ok i w = Some (Returns (Ptr \<lparr>sj_mutex = Some m, sj_full = Some f, sj_empty = Some (sw_next w), sj_ijq = Ptr i\<rparr>, w'))"
proof -
  let ?u = "os_user (sw_os w)"
  let ?w1 = "w\<lparr>sw_open := sw_open w @ [m]\<rparr>"
  let ?w2 = "?w1\<lparr>sw_vals := (sw_vals w)(m := 0), sw_open := sw_open ?w1 @ [f]\<rparr>"
  let ?w3 = "?w2\<lparr>sw_names := (sw_names w)(sjq_name ?u sem_empty_label \<mapsto> sw_next w), sw_vals := (sw_vals ?w2)(sw_next w := 127),
      sw_next := Suc (sw_next w), sw_open := sw_open ?w2 @ [sw_next w]\<rparr>"
  have names: "sw_names w (sjq_name ?u sem_mutex_label) = Some m" "sw_names w (sjq_name ?u sem_full_label) = Some f"
    "sw_names w (sjq_name ?u sem_empty_label) = None" using assms(3-5) by (simp_all add: sem_at_def)
  have "new_rest all_sem_ok i w = Some (Returns (Ptr \<lparr>sj_mutex = Some m, sj_full = Some f, sj_empty = Some (sw_next w), sj_ijq = Ptr i\<rparr>, sem_post m ?w3))"
    by (rule new_rest_run [OF assms(1), of m ?w1 _ ?w2, OF _ _ _ assms(2)])
      (use names assms(6) in \<open>simp_all add: sem_open_def Let_def SEM_VALUE_MAX_def\<close>)
  then show thesis by (rule that)
qed

lemma rest_unsized:
  assumes "user_ok (os_user (sw_os w))" "ip_addr i = Ptr n" "os_size (sw_os w) n = 0"
    and "\<And>l. l \<in> {sem_mutex_label, sem_full_label, sem_empty_label} \<Longrightarrow> sem_at w l = None"
  shows "go_n all_sem_ok p 4 w (N_mutex i) = None"
proof -
  obtain k w1 where n1: "sem_new all_ok True 0 sem_mutex_label 1 MUTEX_SEM_SUCCESS w = Some (MUTEX_SEM_SUCCESS, Some k, w1)"
    "sw_os w1 = sw_os w" "sw_vals w1 k = 1"
    by (rule sem_new_named [OF assms(1), of sem_mutex_label 1 1 MUTEX_SEM_SUCCESS]) (use assms(4) in auto)
  let ?w1 = "w1\<lparr>sw_vals := (sw_vals w1)(k := 0)\<rparr>"
  obtain f w2 where n2: "sem_new all_ok True 0 sem_full_label 0 FULL_SEM_SUCCESS ?w1 = Some (FULL_SEM_SUCCESS, Some f, w2)"
    "sw_os w2 = sw_os w"
    by (rule sem_new_named [of ?w1 sem_full_label 0 0 FULL_SEM_SUCCESS]) (use assms(1) n1 in auto)
  have four: "4 = Suc (Suc (Suc (Suc 0)))" by simp
  show ?thesis
    unfolding four using n1 n2 assms(2,3) SIZEOF_JOBQUEUE_pos
    by (simp add: new_go_ok sem_wait_def handle_capacity_def mapped_queue_def)
qed

text \<open>A process that joins between \<^verbatim>\<open>memset\<close> and \<^verbatim>\<open>jobqueue_init\<close>, and then the init process.\<close>

lemma zeroed_join:
  assumes usr: "user_ok (os_user (sw_os w))" and wf: "wf_mem (os_mem (sw_os w))"
    and name: "name_ok w name" "queue_at w = Some n" and i: "ip_addr i = Ptr n" and p: "\<not> pr_is_init p"
    and q: "m_queues (os_mem (sw_os w)) n = Some jq_zero" "os_size (sw_os w) n = SIZEOF_JOBQUEUE"
    and none: "\<And>l. l \<in> {sem_mutex_label, sem_full_label, sem_empty_label} \<Longrightarrow> sem_at w l = None"
  obtains w1 w2 h k where "go_n all_sem_ok p 8 w (N_open name) = Some (w1, N_ret (Ptr k))" "go_n all_sem_ok c 7 w1 (N_init i) = Some (w2, N_ret (Ptr h))"
    "handle_queue k = handle_queue h" "sj_mutex k = sj_mutex h" "sj_empty k = None" "sj_empty h \<noteq> None"
proof -
  obtain i' os where j2: "go_n all_sem_ok p 2 w (N_open name) = Some (w\<lparr>sw_os := os\<rparr>, N_mutex i')"
    and os: "ip_addr i' = Ptr n" "os_user os = os_user (sw_os w)" "os_mem os = os_mem (sw_os w)" "os_size os = os_size (sw_os w)"
    by (rule join_two [OF name p]) simp
  let ?w = "w\<lparr>sw_os := os\<rparr>"
  have usr3: "user_ok (os_user (sw_os ?w))" and none3: "\<And>l. l \<in> {sem_mutex_label, sem_full_label, sem_empty_label} \<Longrightarrow> sem_at ?w l = None"
    using usr none os(2) by (auto simp: sem_at_def)
  obtain f w1 where rest: "new_rest all_sem_ok i' ?w = Some (Returns (Ptr \<lparr>sj_mutex = Some (sw_next ?w), sj_full = Some f,
      sj_empty = None, sj_ijq = Ptr i'\<rparr>, w1))"
    and w1: "os_user (sw_os w1) = os_user (sw_os ?w)" "os_mem (sw_os w1) = os_mem (sw_os ?w)" "os_size (sw_os w1) = os_size (sw_os ?w)"
      "sem_at w1 sem_mutex_label = Some (sw_next ?w)" "sem_at w1 sem_full_label = Some f" "sem_at w1 sem_empty_label = None"
      "sw_vals w1 (sw_next ?w) = 1" "f \<noteq> sw_next ?w"
    by (rule rest_zeroed [OF usr3 os(1) _ _ none3]) (use q os in simp_all)
  have "go_n all_sem_ok p 6 ?w (N_mutex i') = Some (w1, N_ret (Ptr \<lparr>sj_mutex = Some (sw_next ?w), sj_full = Some f, sj_empty = None, sj_ijq = Ptr i'\<rparr>))"
    using new_rest_alone [OF usr3 ok_faults, of i' p 0] rest by (simp add: same_result_def)
  then have j8: "go_n all_sem_ok p 8 w (N_open name) = Some (w1, N_ret (Ptr \<lparr>sj_mutex = Some (sw_next ?w), sj_full = Some f, sj_empty = None, sj_ijq = Ptr i'\<rparr>))"
    using go_n_add [of all_sem_ok p 2 6 w] j2 by simp
  let ?v = "w1\<lparr>sw_os := (sw_os w1)\<lparr>os_mem := put_jq (os_mem (sw_os w)) n jq_empty\<rparr>\<rparr>"
  note z = jq_zero_wf [OF wf q(1)]
  have c1: "new_go all_sem_ok c w1 (N_init i) = Some (?v, N_mutex i)"
    using i w1(2,3) os(3,4) q(2) z(3) by (simp add: new_go_ok mapped_queue_def Let_def)
  have usr5: "user_ok (os_user (sw_os ?v))" using usr3 w1(1) by simp
  have cap: "handle_capacity (Ptr i) (sw_os ?v) = Some 127"
    using capacity_full_size [of "sw_os ?v", OF _ jq_empty_size i] z(4) q(2) os(4) w1(3) by simp
  obtain w2 where rest5: "new_rest all_sem_ok i ?v = Some (Returns (Ptr \<lparr>sj_mutex = Some (sw_next ?w), sj_full = Some f,
      sj_empty = Some (sw_next ?v), sj_ijq = Ptr i\<rparr>, w2))"
    by (rule rest_named [OF usr5 cap, of "sw_next ?w" f]) (use w1(4-8) in \<open>simp_all add: sem_at_def\<close>)
  have "go_n all_sem_ok c 6 ?v (N_mutex i) = Some (w2, N_ret (Ptr \<lparr>sj_mutex = Some (sw_next ?w), sj_full = Some f, sj_empty = Some (sw_next ?v), sj_ijq = Ptr i\<rparr>))"
    using new_rest_alone [OF usr5 ok_faults, of i c 0] rest5 by (simp add: same_result_def)
  then have "go_n all_sem_ok c 7 w1 (N_init i) = Some (w2, N_ret (Ptr \<lparr>sj_mutex = Some (sw_next ?w), sj_full = Some f, sj_empty = Some (sw_next ?v), sj_ijq = Ptr i\<rparr>))"
    using go_n_add [of all_sem_ok c 1 6 w1] c1 by simp
  then show thesis by (rule that [OF j8]) (simp_all add: handle_queue_def i os(1))
qed

text \<open>One that maps the memory before \<^verbatim>\<open>ftruncate\<close>.\<close>

lemma unsized_join:
  assumes "user_ok (os_user (sw_os w))" "name_ok w name" "queue_at w = Some n" "\<not> pr_is_init p" "os_size (sw_os w) n = 0"
    and "\<And>l. l \<in> {sem_mutex_label, sem_full_label, sem_empty_label} \<Longrightarrow> sem_at w l = None"
  shows "go_n all_sem_ok p 6 w (N_open name) = None"
proof -
  obtain i os where j2: "go_n all_sem_ok p 2 w (N_open name) = Some (w\<lparr>sw_os := os\<rparr>, N_mutex i)"
    and os: "ip_addr i = Ptr n" "os_user os = os_user (sw_os w)" "os_size os = os_size (sw_os w)"
    by (rule join_two [OF assms(2-4)]) simp
  have "go_n all_sem_ok p 4 (w\<lparr>sw_os := os\<rparr>) (N_mutex i) = None"
    by (rule rest_unsized [of _ i n]) (use assms os in \<open>auto simp: sem_at_def\<close>)
  then show ?thesis using go_n_add [of all_sem_ok p 2 4 w] j2 by simp
qed

text \<open>
  C15: without \<^verbatim>\<open>NON_INIT_DELAY\<close> nothing orders the calls. When a process maps the
  memory after \<^verbatim>\<open>memset\<close> and before \<^verbatim>\<open>jobqueue_init\<close>, it reads the capacity -1,
  \<^verbatim>\<open>sem_open\<close> refuses \<^verbatim>\<open>empty\<close>, and \<^verbatim>\<open>sem_jobqueue_new\<close> returns a queue without
  it while the init process gets one; when it maps the memory before
  \<^verbatim>\<open>ftruncate\<close>, its access is past the end of the object.
\<close>

theorem startup_races:
  assumes "wf_mem (os_mem (sw_os w))" "user_ok (os_user (sw_os w))" "pr_is_init (who c)" "\<not> pr_is_init (who j)"
    and "\<And>l. l \<in> {sem_mutex_label, sem_full_label, sem_empty_label} \<Longrightarrow> sem_at w l = None"
  shows "(\<exists>w' locs h k. sched_run (new_step calls_succeed who) (new_may calls_succeed) (w, \<lambda>_. N_start)
      ([j] @ replicate 5 c @ replicate 8 j @ replicate 7 c) = Some (w', locs) \<and>
      locs c = N_ret (Ptr h) \<and> locs j = N_ret (Ptr k) \<and> handle_queue k = handle_queue h \<and> sj_mutex k = sj_mutex h \<and>
      sj_empty k = None \<and> sj_empty h \<noteq> None) \<and>
    sched_run (new_step calls_succeed who) (new_may calls_succeed) (w, \<lambda>_. N_start) ([j] @ replicate 2 c @ replicate 6 j) = None"
proof -
  have ne: "j \<noteq> c" using assms(3,4) by blast
  obtain w1 name where w1: "new_go all_sem_ok (who j) w N_start = Some (w1, N_open name)" "name_ok w1 name"
    and same: "os_user (sw_os w1) = os_user (sw_os w)" "os_shm (sw_os w1) = os_shm (sw_os w)"
      "os_size (sw_os w1) = os_size (sw_os w)" "os_mem (sw_os w1) = os_mem (sw_os w)"
      "sw_names w1 = sw_names w" "sw_vals w1 = sw_vals w" "sw_next w1 = sw_next w"
    using go_start_join [OF assms(2,4)] by blast
  have usr1: "user_ok (os_user (sw_os w1))" and wf1: "wf_mem (os_mem (sw_os w1))" using assms(1,2) same by simp_all
  have none1: "sem_at w1 l = None" if "l \<in> {sem_mutex_label, sem_full_label, sem_empty_label}" for l
    using assms(5) [OF that] shared_same(5) [OF same] by simp
  let ?locs = "\<lambda>l l'. (\<lambda>_. N_start)(j := N_open name, c := l, j := l')"
  have first: "sched_run (new_step calls_succeed who) (new_may calls_succeed) (w, \<lambda>_. N_start) ([j] @ rest) =
      sched_run (new_step calls_succeed who) (new_may calls_succeed) (w1, (\<lambda>_. N_start)(j := N_open name)) rest" for rest
    using run_alone [of calls_succeed who w "\<lambda>_. N_start" 1 j rest] w1(1) by simp
  have run: "sched_run (new_step calls_succeed who) (new_may calls_succeed) (w, \<lambda>_. N_start) ([j] @ replicate m c @ replicate n j @ es) =
      do { (w2, l) \<leftarrow> go_n all_sem_ok (who c) m w1 N_start;
        (w3, l') \<leftarrow> go_n all_sem_ok (who j) n w2 (N_open name);
        sched_run (new_step calls_succeed who) (new_may calls_succeed) (w3, ?locs l l') es }" for m n es
    using ne ne [symmetric] by (simp only: first run_alone fun_upd_same fun_upd_other not_False_eq_True)
  obtain i n os where c5: "go_n all_sem_ok (who c) 5 w1 N_start = Some (w1\<lparr>sw_blocks := Suc (sw_blocks w1), sw_os := os\<rparr>, N_init i)"
    and os: "ip_addr i = Ptr n" "os_shm os (shm_name (sw_os w1) queue_label) = Some n" "m_queues (os_mem os) n = Some jq_zero"
      "os_size os n = SIZEOF_JOBQUEUE" "os_user os = os_user (sw_os w1)" "wf_mem (os_mem os)"
    using init_five [OF usr1 assms(3) wf1] by blast
  let ?w2 = "w1\<lparr>sw_blocks := Suc (sw_blocks w1), sw_os := os\<rparr>"
  have named: "name_ok ?w2 name" "queue_at ?w2 = Some n"
    using w1(2) name_ok_user [of ?w2 w1 name] os(2) shm_name_user [OF os(5)] os(5) by (simp_all add: queue_at_def)
  obtain w4 w6 h k where j8: "go_n all_sem_ok (who j) 8 ?w2 (N_open name) = Some (w4, N_ret (Ptr k))"
    and c7: "go_n all_sem_ok (who c) 7 w4 (N_init i) = Some (w6, N_ret (Ptr h))"
    and hk: "handle_queue k = handle_queue h" "sj_mutex k = sj_mutex h" "sj_empty k = None" "sj_empty h \<noteq> None"
    by (rule zeroed_join [OF _ _ named os(1) assms(4)]) (use usr1 none1 os in \<open>auto simp: sem_at_def\<close>)
  have "sched_run (new_step calls_succeed who) (new_may calls_succeed) (w, \<lambda>_. N_start) ([j] @ replicate 5 c @ replicate 8 j @ replicate 7 c) =
      Some (w6, (?locs (N_init i) (N_ret (Ptr k)))(c := N_ret (Ptr h)))"
    using run [of 5 8 "replicate 7 c"] c5 j8 c7 ne run_alone [of calls_succeed who w4 "?locs (N_init i) (N_ret (Ptr k))" 7 c "[]"]
    by simp
  moreover obtain tname m os2 where c2: "go_n all_sem_ok (who c) 2 w1 N_start = Some (w1\<lparr>sw_blocks := Suc (sw_blocks w1), sw_os := os2\<rparr>, N_trunc tname m)"
    and os2: "os_shm os2 (shm_name (sw_os w1) queue_label) = Some m" "os_size os2 m = 0" "os_user os2 = os_user (sw_os w1)"
    using init_two [OF usr1 assms(3)] by blast
  let ?v2 = "w1\<lparr>sw_blocks := Suc (sw_blocks w1), sw_os := os2\<rparr>"
  have named2: "name_ok ?v2 name" "queue_at ?v2 = Some m"
    using w1(2) name_ok_user [of ?v2 w1 name] os2(1) shm_name_user [OF os2(3)] os2(3) by (simp_all add: queue_at_def)
  have "go_n all_sem_ok (who j) 6 ?v2 (N_open name) = None"
    by (rule unsized_join [OF _ named2 assms(4)]) (use usr1 none1 os2 in \<open>auto simp: sem_at_def\<close>)
  then have "sched_run (new_step calls_succeed who) (new_may calls_succeed) (w, \<lambda>_. N_start) ([j] @ replicate 2 c @ replicate 6 j) = None"
    using run [of 2 6 "[]"] c2 by simp
  ultimately show ?thesis
    using hk ne by (intro conjI exI [of _ w6] exI [of _ "(?locs (N_init i) (N_ret (Ptr k)))(c := N_ret (Ptr h))"]
        exI [of _ h] exI [of _ k]) simp_all
qed

lemma startup_races_witness:
  "sched_run (new_step calls_succeed (\<lambda>p. sim_proc (p = (0::nat)))) (new_may calls_succeed) (sem_start, \<lambda>_. N_start) ([1] @ replicate 2 0 @ replicate 6 1) = None"
proof -
  let ?who = "\<lambda>p. sim_proc (p = (0::nat))"
  have roles: "pr_is_init (?who 0)" "\<not> pr_is_init (?who 1)" by (simp_all add: proc_of_def)
  have at: "sem_at sem_start l = None" for l by (simp add: sem_at_def sem_start_ok)
  show ?thesis using startup_races [OF sem_start_ok(1,2), of ?who 0 1, OF roles at] by (elim conjE)
qed

end
