(* ===== verification/Live_Queue.thy ===== *)
theory Live_Queue
  imports Startup
begin

text \<open>
  Creation and use together: some processes still make or open the queue of
  \<^verbatim>\<open>sem_jobqueue.c\<close> while others, whose \<^verbatim>\<open>sem_jobqueue_new\<close> has returned, already
  put and take jobs. The semaphores and the queue are those of the system; each process
  reaches them through the handle it got.
\<close>

section \<open>The system\<close>

text \<open>
  The semaphores and the queue of \<open>lv_calls\<close> are what the last call saw; they are
  read again from the system before every step.
\<close>

record live_sys =
  lv_world :: sem_world
  lv_new :: "nat \<Rightarrow> new_loc"
  lv_calls :: sem_sys

definition sem_load :: "sem_jobqueue_t \<Rightarrow> sem_world \<Rightarrow> sem_sys \<Rightarrow> sem_sys option" where
  "sem_load h w s = do {
     m \<leftarrow> sj_mutex h;
     f \<leftarrow> sj_full h;
     e \<leftarrow> sj_empty h;
     q \<leftarrow> (case handle_queue h of Some (Ptr q) \<Rightarrow> Some q | _ \<Rightarrow> None);
     jq \<leftarrow> m_queues (os_mem (sw_os w)) q;
     Some (s\<lparr>ss_mutex := sw_vals w m, ss_full := sw_vals w f, ss_empty := sw_vals w e, ss_queue := jq\<rparr>) }"

definition sem_store :: "sem_jobqueue_t \<Rightarrow> sem_sys \<Rightarrow> sem_world \<Rightarrow> sem_world option" where
  "sem_store h s w = do {
     m \<leftarrow> sj_mutex h;
     f \<leftarrow> sj_full h;
     e \<leftarrow> sj_empty h;
     q \<leftarrow> (case handle_queue h of Some (Ptr q) \<Rightarrow> Some q | _ \<Rightarrow> None);
     Some (w\<lparr>sw_vals := (sw_vals w)(m := ss_mutex s, f := ss_full s, e := ss_empty s),
       sw_os := (sw_os w)\<lparr>os_mem := put_jq (os_mem (sw_os w)) q (ss_queue s)\<rparr>\<rparr>) }"

definition live_step :: "(nat \<Rightarrow> proc_t) \<Rightarrow> nat \<times> sem_event \<Rightarrow> live_sys \<Rightarrow> live_sys option" where
  "live_step who pe u = (let p = fst pe; w = lv_world u in case lv_new u p of
     N_ret (Ptr h) \<Rightarrow> do {
       s \<leftarrow> sem_load h w (lv_calls u);
       t \<leftarrow> sem_step pe s;
       w1 \<leftarrow> sem_store h t w;
       Some (u\<lparr>lv_world := w1, lv_calls := t\<rparr>) }
   | l \<Rightarrow> do {
       (w1, l') \<leftarrow> new_go all_sem_ok (who p) w l;
       Some (u\<lparr>lv_world := w1, lv_new := (lv_new u)(p := l')\<rparr>) })"

text \<open>
  A process that has its queue can start a call, go on with it or have a wait or a
  \<^verbatim>\<open>malloc\<close> fail; the others go on with the creation.
\<close>

definition live_may :: "nat \<Rightarrow> live_sys \<Rightarrow> nat \<times> sem_event \<Rightarrow> bool" where
  "live_may c u pe \<longleftrightarrow> fst pe < length (ss_loc (lv_calls u)) \<and>
     (case lv_new u (fst pe) of
        N_ret (Ptr h) \<Rightarrow> (case sem_load h (lv_world u) (lv_calls u) of None \<Rightarrow> True | Some s \<Rightarrow> sem_legal s pe)
      | _ \<Rightarrow> snd pe = Go \<and> orderly c (lv_world u, lv_new u) (fst pe))"

definition live_init :: "nat \<Rightarrow> sem_world \<Rightarrow> live_sys" where
  "live_init n w = \<lparr>lv_world = w, lv_new = (\<lambda>_. N_start), lv_calls = sem_init n\<rparr>"

section \<open>A step of one process and the locations of the others\<close>

lemma update_same: "xs ! i = v \<Longrightarrow> xs[i := v] = xs"
  by auto

lemma sem_step_loc:
  assumes "p < length (ss_loc a)" "sem_step (p, ev) a = Some t"
  shows "ss_loc t = (ss_loc a)[p := ss_loc t ! p]"
    and "length ls = length (ss_loc a) \<Longrightarrow> ls ! p = ss_loc a ! p \<Longrightarrow>
      sem_step (p, ev) (a\<lparr>ss_loc := ls\<rparr>) = Some (t\<lparr>ss_loc := ls[p := ss_loc t ! p]\<rparr>)"
proof -
  note defs = enq_go_def deq_go_def obs_go_def call_fails_def set_loc_def is_enq_def is_obs_def Let_def
  have "ss_loc t = (ss_loc a)[p := ss_loc t ! p] \<and>
    (length ls = length (ss_loc a) \<longrightarrow> ls ! p = ss_loc a ! p \<longrightarrow>
      sem_step (p, ev) (a\<lparr>ss_loc := ls\<rparr>) = Some (t\<lparr>ss_loc := ls[p := ss_loc t ! p]\<rparr>))"
  proof (cases ev)
    case (Call q c)
    then show ?thesis using assms by (auto simp: defs)
  next
    case Go
    then show ?thesis using assms
      by (cases "ss_loc a ! p") (auto simp: defs bind_eq_Some_conv update_same split: option.splits)
  next
    case Fail
    then show ?thesis using assms by (cases "ss_loc a ! p") (auto simp: defs bind_eq_Some_conv update_same)
  qed
  then show "ss_loc t = (ss_loc a)[p := ss_loc t ! p]"
    and "length ls = length (ss_loc a) \<Longrightarrow> ls ! p = ss_loc a ! p \<Longrightarrow>
      sem_step (p, ev) (a\<lparr>ss_loc := ls\<rparr>) = Some (t\<lparr>ss_loc := ls[p := ss_loc t ! p]\<rparr>)" by blast+
qed

section \<open>The invariant\<close>

text \<open>
  Towards the queue, a process that has the mutex while it creates is like one that
  is inside an observer; before and after it makes no call.
\<close>

definition live_loc :: "new_loc \<Rightarrow> sem_loc \<Rightarrow> sem_loc" where
  "live_loc l u = (if holding l then Obs_work Is_empty else u)"

definition live_abs :: "live_sys \<Rightarrow> sem_sys" where
  "live_abs u = (let s = lv_calls u; (f, e, jq) = shared_vals (lv_world u) in
     s\<lparr>ss_mutex := mutex_val (lv_world u), ss_full := f, ss_empty := e, ss_queue := the jq,
       ss_loc := map (\<lambda>p. live_loc (lv_new u p) (ss_loc s ! p)) [0..<length (ss_loc s)]\<rparr>)"

lemma live_abs_sel [simp]:
  "ss_mutex (live_abs u) = mutex_val (lv_world u)" "length (ss_loc (live_abs u)) = length (ss_loc (lv_calls u))"
  "p < length (ss_loc (lv_calls u)) \<Longrightarrow> ss_loc (live_abs u) ! p = live_loc (lv_new u p) (ss_loc (lv_calls u) ! p)"
  by (simp_all add: live_abs_def split_beta Let_def)

definition returned :: "new_loc \<Rightarrow> bool" where
  "returned l \<longleftrightarrow> (\<exists>s. l = N_ret s)"

definition live_inv :: "(nat \<Rightarrow> proc_t) \<Rightarrow> nat \<Rightarrow> live_sys \<Rightarrow> bool" where
  "live_inv who c u \<longleftrightarrow> (let w = lv_world u; locs = lv_new u; s = lv_calls u in
     (\<forall>p. pr_is_init (who p) \<longleftrightarrow> p = c) \<and>
     (early c w locs \<and> (\<exists>n. s = sem_init n) \<or>
      late c w locs \<and> sem_inv (live_abs u) \<and>
        (\<forall>p < length (ss_loc s). \<not> returned (locs p) \<longrightarrow> ss_loc s ! p = Idle R_void)))"

text \<open>Taking and releasing the mutex around a creation.\<close>

lemma sem_lock:
  assumes "sem_inv a" "p < length (ss_loc a)" "ss_loc a ! p = Idle v" "ss_mutex a \<noteq> 0"
  shows "sem_inv (set_loc p (Obs_work k) (a\<lparr>ss_mutex := ss_mutex a - 1\<rparr>))"
proof -
  obtain jq where rel: "sem_rel jq a" using assms(1) by (auto simp: sem_inv_def)
  have m: "ss_mutex a = 1 \<and> ss_queue a = jq" by (rule sem_rel_free [OF rel assms(4)])
  have "sem_rel jq (set_loc p (Obs_work k) (a\<lparr>ss_mutex := ss_mutex a - 1\<rparr>))"
    by (rule sem_rel_inside [OF rel assms(2)])
      (use assms(3) m sem_rel_inv [OF rel] sem_rel_log [OF rel] in \<open>auto simp: moves_def\<close>)
  then show ?thesis by (rule sem_invI)
qed

lemma sem_unlock:
  assumes "sem_inv a" "p < length (ss_loc a)" "ss_loc a ! p = Obs_work k"
  shows "sem_inv (set_loc p (Idle v) (a\<lparr>ss_mutex := Suc (ss_mutex a)\<rparr>))"
proof -
  obtain jq where rel: "sem_rel jq a" using assms(1) by (auto simp: sem_inv_def)
  have "ss_queue a = jq" using sem_rel_holder(1) [OF rel assms(2)] assms(3) by simp
  then have "sem_rel jq (set_loc p (Idle v) (a\<lparr>ss_mutex := Suc (ss_mutex a)\<rparr>))"
    by (intro sem_rel_inside [OF rel assms(2)])
      (use assms(3) sem_rel_inv [OF rel] sem_rel_log [OF rel] in \<open>auto simp: moves_def\<close>)
  then show ?thesis by (rule sem_invI)
qed

lemma sem_inv_size:
  assumes "sem_inv a"
  shows "q_buf_size (ss_queue a) = int QUEUE_SIZE"
proof -
  obtain jq where rel: "sem_rel jq a" using assms by (auto simp: sem_inv_def)
  have size: "q_buf_size jq = int QUEUE_SIZE" using jq_inv_ranges(5) [OF sem_rel_inv [OF rel]] .
  have phys: "q_buf_size (phys l jq) = q_buf_size jq" for l by (cases l) simp_all
  show ?thesis
  proof (cases "ss_mutex a = 0")
    case True
    then have "cnt holds (ss_loc a) = 1" using rel by (simp add: sem_rel_def sem_counts_def)
    then obtain p where "p < length (ss_loc a)" "holds (ss_loc a ! p)"
      by (metis cnt_zero_iff in_set_conv_nth one_neq_zero)
    then show ?thesis using sem_rel_holder(1) [OF rel] size phys by metis
  next
    case False
    then show ?thesis using sem_rel_free [OF rel] size by simp
  qed
qed

section \<open>A step of the creation\<close>

lemma live_new_step:
  assumes inv: "sem_inv (live_abs u)" and p: "p < length (ss_loc (lv_calls u))"
    and idle: "ss_loc (lv_calls u) ! p = Idle R_void"
    and ok: "step_ok (lv_world u) (lv_new u p) w' l'"
  shows "sem_inv (live_abs (u\<lparr>lv_world := w', lv_new := (lv_new u)(p := l')\<rparr>))"
proof -
  let ?v = "u\<lparr>lv_world := w', lv_new := (lv_new u)(p := l')\<rparr>"
  have m: "mutex_val w' + of_bool (holding l') = mutex_val (lv_world u) + of_bool (holding (lv_new u p))"
    and sh: "shared_vals w' = shared_vals (lv_world u)" using ok by (simp_all add: step_ok_def)
  have locs: "ss_loc (live_abs ?v) = (ss_loc (live_abs u))[p := live_loc l' (Idle R_void)]"
    using p idle by (auto intro!: nth_equalityI simp: nth_list_update)
  have abs: "live_abs ?v = set_loc p (live_loc l' (Idle R_void)) ((live_abs u)\<lparr>ss_mutex := mutex_val w'\<rparr>)"
    using locs by (simp add: live_abs_def sh set_loc_def split_beta Let_def)
  have old: "ss_loc (live_abs u) ! p = live_loc (lv_new u p) (Idle R_void)" using p idle by simp
  have len: "p < length (ss_loc (live_abs u))" using p by simp
  show ?thesis
  proof (cases "holding l' = holding (lv_new u p)")
    case True
    then have same: "live_loc l' (Idle R_void) = ss_loc (live_abs u) ! p" "mutex_val w' = ss_mutex (live_abs u)"
      using m old by (simp_all add: live_loc_def)
    have "set_loc p (ss_loc a ! p) (a\<lparr>ss_mutex := ss_mutex a\<rparr>) = a" for a by (simp add: set_loc_def)
    then show ?thesis unfolding abs same using inv by metis
  next
    case False
    show ?thesis
    proof (cases "holding l'")
      case True
      then have o: "ss_loc (live_abs u) ! p = Idle R_void" "mutex_val w' = ss_mutex (live_abs u) - 1" "ss_mutex (live_abs u) \<noteq> 0"
        using False m old by (simp_all add: live_loc_def)
      show ?thesis using sem_lock [OF inv len o(1,3), of Is_empty] True unfolding abs o(2) by (simp add: live_loc_def)
    next
      case nh: False
      then have o: "ss_loc (live_abs u) ! p = Obs_work Is_empty" "mutex_val w' = Suc (ss_mutex (live_abs u))"
        using False m old by (simp_all add: live_loc_def)
      show ?thesis using sem_unlock [OF inv len o(1), of R_void] nh unfolding abs o(2) by (simp add: live_loc_def)
    qed
  qed
qed

section \<open>A step of a call\<close>

text \<open>What a handle reaches.\<close>

lemma handle_reaches:
  assumes "set_up w" "handle_on w h"
  obtains m f e q jq where "sj_mutex h = Some m" "sj_full h = Some f" "sj_empty h = Some e" "handle_queue h = Some (Ptr q)"
    "sem_at w sem_mutex_label = Some m" "sem_at w sem_full_label = Some f" "sem_at w sem_empty_label = Some e"
    "queue_at w = Some q" "m_queues (os_mem (sw_os w)) q = Some jq" "m \<noteq> f" "m \<noteq> e" "f \<noteq> e"
proof -
  obtain m f e i where h: "sj_mutex h = Some m" "sj_full h = Some f" "sj_empty h = Some e" "sj_ijq h = Ptr i" "on_queue w i"
    and at: "sem_at w sem_mutex_label = Some m" "sem_at w sem_full_label = Some f" "sem_at w sem_empty_label = Some e"
    using assms(2) unfolding handle_on_def by (metis option.exhaust)
  moreover obtain q jq where "ip_addr i = Ptr q" "queue_at w = Some q" "m_queues (os_mem (sw_os w)) q = Some jq"
    using assms(1) h(5) by (auto simp: set_up_def on_queue_def)
  moreover have "m \<noteq> f" "m \<noteq> e" "f \<noteq> e" using assms(1) at by (auto simp: set_up_def)
  ultimately show thesis using that [of m f e q jq] by (simp add: handle_queue_def)
qed

text \<open>Reading the shared part through a handle, and writing it back.\<close>

lemma load_abs:
  assumes "set_up w" "handle_on w h" "w = lv_world u"
  obtains a where "sem_load h w (lv_calls u) = Some a" "ss_loc a = ss_loc (lv_calls u)"
    "live_abs u = a\<lparr>ss_loc := ss_loc (live_abs u)\<rparr>"
proof -
  obtain m f e q jq where h: "sj_mutex h = Some m" "sj_full h = Some f" "sj_empty h = Some e" "handle_queue h = Some (Ptr q)"
    "sem_at w sem_mutex_label = Some m" "sem_at w sem_full_label = Some f" "sem_at w sem_empty_label = Some e"
    "queue_at w = Some q" "m_queues (os_mem (sw_os w)) q = Some jq"
    using handle_reaches [OF assms(1,2)] by metis
  let ?a = "(lv_calls u)\<lparr>ss_mutex := sw_vals w m, ss_full := sw_vals w f, ss_empty := sw_vals w e, ss_queue := jq\<rparr>"
  have "sem_load h w (lv_calls u) = Some ?a" using h by (simp add: sem_load_def)
  moreover have "live_abs u = ?a\<lparr>ss_loc := ss_loc (live_abs u)\<rparr>"
    using h assms(3) by (simp add: live_abs_def mutex_val_def shared_vals_def Let_def)
  ultimately show thesis using that [of ?a] by simp
qed

lemma store_abs:
  assumes up: "set_up w" and on: "handle_on w h" and size: "q_buf_size (ss_queue t) = int QUEUE_SIZE"
  obtains w1 where "sem_store h t w = Some w1" "extends w w1" "set_up w1" "mutex_val w1 = ss_mutex t"
    "shared_vals w1 = (ss_full t, ss_empty t, Some (ss_queue t))"
proof -
  obtain m f e q jq where h: "sj_mutex h = Some m" "sj_full h = Some f" "sj_empty h = Some e" "handle_queue h = Some (Ptr q)"
    and at: "sem_at w sem_mutex_label = Some m" "sem_at w sem_full_label = Some f" "sem_at w sem_empty_label = Some e"
    and q: "queue_at w = Some q" "m_queues (os_mem (sw_os w)) q = Some jq" and ne: "m \<noteq> f" "m \<noteq> e" "f \<noteq> e"
    by (rule handle_reaches [OF up on])
  let ?os = "(sw_os w)\<lparr>os_mem := put_jq (os_mem (sw_os w)) q (ss_queue t)\<rparr>"
  let ?w = "w\<lparr>sw_vals := (sw_vals w)(m := ss_mutex t, f := ss_full t, e := ss_empty t), sw_os := ?os\<rparr>"
  have s: "sem_at ?w l = sem_at w l" for l by (simp add: sem_at_def)
  have "shm_name ?os queue_label = shm_name (sw_os w) queue_label" by (rule shm_name_user) simp
  then have qa: "queue_at ?w = queue_at w" by (simp add: queue_at_def)
  have "set_up ?w" using up at q size unfolding set_up_def s qa by (auto simp: mem_simps)
  moreover have "mutex_val ?w = ss_mutex t" using at ne by (simp add: mutex_val_def s)
  moreover have "shared_vals ?w = (ss_full t, ss_empty t, Some (ss_queue t))"
    using at ne q by (simp add: shared_vals_def s qa mem_simps)
  moreover have "extends w ?w" by (simp add: extends_def s qa)
  moreover have "sem_store h t w = Some ?w" using h by (simp add: sem_store_def)
  ultimately show thesis using that [of ?w] by blast
qed

lemma live_call_step:
  assumes up: "set_up (lv_world u)" and on: "handle_on (lv_world u) h" and new: "lv_new u (fst pe) = N_ret (Ptr h)"
    and inv: "sem_inv (live_abs u)" and may: "live_may c u pe"
  obtains w1 t where "live_step who pe u = Some (u\<lparr>lv_world := w1, lv_calls := t\<rparr>)" "extends (lv_world u) w1" "set_up w1"
    "sem_inv (live_abs (u\<lparr>lv_world := w1, lv_calls := t\<rparr>))" "length (ss_loc t) = length (ss_loc (lv_calls u))"
    "\<And>i. i \<noteq> fst pe \<Longrightarrow> ss_loc t ! i = ss_loc (lv_calls u) ! i"
proof -
  obtain p ev where pe: "pe = (p, ev)" by (cases pe)
  obtain a where a: "sem_load h (lv_world u) (lv_calls u) = Some a" "ss_loc a = ss_loc (lv_calls u)"
    "live_abs u = a\<lparr>ss_loc := ss_loc (live_abs u)\<rparr>"
    by (rule load_abs [OF up on refl])
  have p: "p < length (ss_loc (lv_calls u))" and may_a: "sem_legal a pe"
    using may new a(1) pe by (simp_all add: live_may_def)
  have at: "ss_loc (live_abs u) ! p = ss_loc a ! p" using p new a(2) pe by (simp add: live_loc_def)
  have blk: "blocked (live_abs u) l = blocked a l" for l by (subst a(3)) (simp add: blocked_def cong: sem_loc.case_cong)
  have "sem_legal (live_abs u) pe"
    using may_a pe at p a(2) blk by (cases ev) (auto simp: sem_legal_def)
  then obtain b where b: "sem_step pe (live_abs u) = Some b" "sem_inv b" using sem.step_inv [OF inv] by blast
  have len: "p < length (ss_loc (live_abs u))" using p by simp
  let ?t = "b\<lparr>ss_loc := (ss_loc a)[p := ss_loc b ! p]\<rparr>"
  have "sem_step pe ((live_abs u)\<lparr>ss_loc := ss_loc a\<rparr>) = Some ?t"
    using sem_step_loc(2) [OF len, of ev b "ss_loc a"] b(1) pe at a(2) by simp
  moreover have "(live_abs u)\<lparr>ss_loc := ss_loc a\<rparr> = a" by (subst a(3)) simp
  ultimately have step: "sem_step pe a = Some ?t" by simp
  obtain w1 where w1: "sem_store h ?t (lv_world u) = Some w1" "extends (lv_world u) w1" "set_up w1"
    "mutex_val w1 = ss_mutex ?t" "shared_vals w1 = (ss_full ?t, ss_empty ?t, Some (ss_queue ?t))"
    by (rule store_abs [OF up on, of ?t]) (use sem_inv_size [OF b(2)] in simp)
  let ?u = "u\<lparr>lv_world := w1, lv_calls := ?t\<rparr>"
  have "ss_loc (live_abs ?u) = ss_loc b"
  proof (rule nth_equalityI)
    have bl: "ss_loc b = (ss_loc (live_abs u))[p := ss_loc b ! p]"
      using sem_step_loc(1) [OF len, of ev b] b(1) pe by simp
    then have lb: "length (ss_loc b) = length (ss_loc (lv_calls u))" by (metis length_list_update live_abs_sel(2))
    then show "length (ss_loc (live_abs ?u)) = length (ss_loc b)" using a(2) by simp
    fix i assume "i < length (ss_loc (live_abs ?u))"
    then have i: "i < length (ss_loc (lv_calls u))" using a(2) by simp
    have "ss_loc b ! i = (if i = p then ss_loc b ! p else ss_loc (live_abs u) ! i)"
      using bl len by (metis nth_list_update_eq nth_list_update_neq)
    then show "ss_loc (live_abs ?u) ! i = ss_loc b ! i"
      using i a(2) new pe by (simp add: live_loc_def nth_list_update)
  qed
  then have "live_abs ?u = b" using w1(4,5) by (simp add: live_abs_def Let_def)
  then show thesis
    using that [of ?t w1] w1(1-3) a(1,2) step b(2) new pe by (simp add: live_step_def Let_def)
qed

section \<open>Every schedule\<close>

text \<open>A process that has not returned takes a step of the creation.\<close>

lemma live_step_new:
  assumes "\<not> returned (lv_new u p)"
  shows "live_step who (p, ev) u = do { (w1, l') \<leftarrow> new_go all_sem_ok (who p) (lv_world u) (lv_new u p);
      Some (u\<lparr>lv_world := w1, lv_new := (lv_new u)(p := l')\<rparr>) }"
    and "live_may c u (p, ev) \<Longrightarrow> p < length (ss_loc (lv_calls u)) \<and> orderly c (lv_world u, lv_new u) p"
  using assms by (cases "lv_new u p"; auto simp: returned_def live_step_def live_may_def Let_def)+

lemma live_start:
  assumes "lv_calls u = sem_init n" "\<And>q. \<not> holding (lv_new u q)" "mutex_val (lv_world u) = 1"
    and "shared_vals (lv_world u) = (0, 127, Some jq_empty)"
  shows "live_abs u = sem_init n"
proof -
  have "map (\<lambda>p. live_loc (lv_new u p) (replicate n (Idle R_void) ! p)) [0..<n] = replicate n (Idle R_void)"
    by (rule nth_equalityI) (simp_all add: live_loc_def assms(2))
  then show ?thesis using assms(1,3,4) by (simp add: live_abs_def sem_init_def QUEUE_SIZE_def)
qed

text \<open>The invariant after a step, in each phase and for each kind of step.\<close>

lemma live_early:
  assumes roles: "\<And>p. pr_is_init (who p) \<longleftrightarrow> p = c" and e: "early c (lv_world u) (lv_new u)" and s: "lv_calls u = sem_init n"
    and may: "live_may c u (p, ev)"
  shows "\<exists>v. live_step who (p, ev) u = Some v \<and> live_inv who c v"
proof -
  let ?locs = "lv_new u"
  have "\<not> returned (?locs p)"
    using e by (cases "p = c"; cases "?locs p") (auto simp: early_def returned_def)
  note step = live_step_new [OF this]
  have "orderly c (lv_world u, ?locs) p" using step(2) may by blast
  then obtain w' l' where g: "new_go all_sem_ok (who p) (lv_world u) (?locs p) = Some (w', l')"
    and d: "early c w' (?locs(p := l')) \<or> late c w' (?locs(p := l')) \<and> (\<forall>q. \<not> holding ((?locs(p := l')) q)) \<and>
      mutex_val w' = 1 \<and> shared_vals w' = (0, 127, Some jq_empty)"
    using early_step [where who = who, OF e roles] by metis
  let ?v = "u\<lparr>lv_world := w', lv_new := ?locs(p := l')\<rparr>"
  have "live_inv who c ?v"
    using d
  proof
    assume "early c w' (?locs(p := l'))"
    then show ?thesis using roles s by (auto simp: live_inv_def Let_def)
  next
    assume l: "late c w' (?locs(p := l')) \<and> (\<forall>q. \<not> holding ((?locs(p := l')) q)) \<and>
      mutex_val w' = 1 \<and> shared_vals w' = (0, 127, Some jq_empty)"
    then have "live_abs ?v = sem_init n" using s by (intro live_start) simp_all
    then show ?thesis using l roles s sem_inv_init by (simp add: live_inv_def Let_def) (simp add: sem_init_def)
  qed
  then show ?thesis using step(1) g by auto
qed

lemma live_late_call:
  assumes roles: "\<And>p. pr_is_init (who p) \<longleftrightarrow> p = c" and l: "late c (lv_world u) (lv_new u)" and inv: "sem_inv (live_abs u)"
    and idle: "\<And>p. p < length (ss_loc (lv_calls u)) \<Longrightarrow> \<not> returned (lv_new u p) \<Longrightarrow> ss_loc (lv_calls u) ! p = Idle R_void"
    and may: "live_may c u (p, ev)" and ret: "returned (lv_new u p)"
  shows "\<exists>v. live_step who (p, ev) u = Some v \<and> live_inv who c v"
proof -
  have up: "set_up (lv_world u)" and "local_ok (lv_world u) (lv_new u p)" using l by (simp_all add: late_def)
  then obtain h where h: "lv_new u (fst (p, ev)) = N_ret (Ptr h)" "handle_on (lv_world u) h"
    using ret by (auto simp: returned_def split: ptr.splits)
  obtain w1 t where t: "live_step who (p, ev) u = Some (u\<lparr>lv_world := w1, lv_calls := t\<rparr>)" "extends (lv_world u) w1" "set_up w1"
    "sem_inv (live_abs (u\<lparr>lv_world := w1, lv_calls := t\<rparr>))" "length (ss_loc t) = length (ss_loc (lv_calls u))"
    "\<And>i. i \<noteq> fst (p, ev) \<Longrightarrow> ss_loc t ! i = ss_loc (lv_calls u) ! i"
    by (rule live_call_step [where who = who, OF up h(2,1) inv may]) blast
  have "local_ok w1 (lv_new u q)" for q using l local_ok_extends [OF t(2)] by (simp add: late_def)
  moreover have "ss_loc t ! q = Idle R_void" if "q < length (ss_loc t)" "\<not> returned (lv_new u q)" for q
    using that t(5,6) idle ret by (metis fst_conv)
  ultimately show ?thesis
    using t(1,3,4) l roles by (auto simp: live_inv_def late_def Let_def)
qed

lemma live_late_new:
  assumes roles: "\<And>p. pr_is_init (who p) \<longleftrightarrow> p = c" and l: "late c (lv_world u) (lv_new u)" and inv: "sem_inv (live_abs u)"
    and idle: "\<And>p. p < length (ss_loc (lv_calls u)) \<Longrightarrow> \<not> returned (lv_new u p) \<Longrightarrow> ss_loc (lv_calls u) ! p = Idle R_void"
    and may: "live_may c u (p, ev)" and ret: "\<not> returned (lv_new u p)"
  shows "\<exists>v. live_step who (p, ev) u = Some v \<and> live_inv who c v"
proof -
  note step = live_step_new [OF ret]
  have p: "p < length (ss_loc (lv_calls u))" "new_may calls_succeed (lv_world u, lv_new u) p" using step(2) may by (auto simp: orderly_def)
  obtain w' l' where g: "new_go all_sem_ok (who p) (lv_world u) (lv_new u p) = Some (w', l')" "step_ok (lv_world u) (lv_new u p) w' l'"
    "late c w' ((lv_new u)(p := l'))"
    using late_step [where who = who, OF l roles p(2)] by blast
  have "sem_inv (live_abs (u\<lparr>lv_world := w', lv_new := (lv_new u)(p := l')\<rparr>))"
    by (rule live_new_step [OF inv p(1) idle [OF p(1) ret] g(2)])
  moreover have "ss_loc (lv_calls u) ! q = Idle R_void"
    if "q < length (ss_loc (lv_calls u))" "\<not> returned (((lv_new u)(p := l')) q)" for q
    using that idle ret by (cases "q = p") auto
  ultimately show ?thesis using step(1) g(1,3) roles by (auto simp: live_inv_def Let_def)
qed

interpretation live: invariant_system "live_step who" "live_may c" "live_inv who c" for who c
proof (unfold_locales, goal_cases)
  case (1 u pe)
  obtain p ev where pe: "pe = (p, ev)" by (cases pe)
  have roles: "\<And>p. pr_is_init (who p) \<longleftrightarrow> p = c" using 1(1) by (simp add: live_inv_def Let_def)
  consider n where "early c (lv_world u) (lv_new u)" "lv_calls u = sem_init n"
    | "late c (lv_world u) (lv_new u)" "sem_inv (live_abs u)"
      "\<And>p. p < length (ss_loc (lv_calls u)) \<Longrightarrow> \<not> returned (lv_new u p) \<Longrightarrow> ss_loc (lv_calls u) ! p = Idle R_void"
    using 1(1) by (auto simp: live_inv_def Let_def)
  then show ?case
    using 1(2) roles live_early [of who c u _ p ev] live_late_call [of who c u p ev] live_late_new [of who c u p ev]
    unfolding pe by cases blast+
qed

text \<open>What the invariant says of the jobs, and of a process that has returned.\<close>

lemma live_inv_jobs:
  assumes "live_inv who c u"
  obtains rest where "ss_in (lv_calls u) = map snd (ss_out (lv_calls u)) @ rest" "length rest \<le> 127"
    "\<forall>p s. lv_new u p = N_ret s \<longrightarrow> (\<exists>h. s = Ptr h \<and> (mutex_val (lv_world u) = 1 \<longrightarrow>
      (\<exists>q jq. handle_queue h = Some (Ptr q) \<and> m_queues (os_mem (sw_os (lv_world u))) q = Some jq \<and> jq_inv jq \<and> jq_contents jq = rest)))"
proof (cases "late c (lv_world u) (lv_new u) \<and> sem_inv (live_abs u)")
  case False
  then obtain n where e: "early c (lv_world u) (lv_new u)" "lv_calls u = sem_init n"
    using assms by (auto simp: live_inv_def Let_def)
  have "lv_new u p \<noteq> N_ret s" for p s using e(1) by (cases "p = c") (auto simp: early_def)
  then show thesis using that [of "[]"] e(2) by (simp add: sem_init_def)
next
  case True
  then obtain jq where rel: "sem_rel jq (live_abs u)" and up: "set_up (lv_world u)"
    and ok: "\<And>p. local_ok (lv_world u) (lv_new u p)"
    by (auto simp: sem_inv_def late_def)
  note inv = sem_rel_inv [OF rel]
  have "ss_in (lv_calls u) = map snd (ss_out (lv_calls u)) @ jq_contents jq"
    using sem_rel_log [OF rel] by (simp add: live_abs_def Let_def split_beta)
  moreover have "length (jq_contents jq) \<le> 127"
    using length_jq_contents [OF inv] jq_count_less [of jq] by (simp add: QUEUE_SIZE_def)
  moreover have "\<exists>h. s = Ptr h \<and> (mutex_val (lv_world u) = 1 \<longrightarrow>
      (\<exists>q jq'. handle_queue h = Some (Ptr q) \<and> m_queues (os_mem (sw_os (lv_world u))) q = Some jq' \<and> jq_inv jq' \<and>
        jq_contents jq' = jq_contents jq))" if s: "lv_new u p = N_ret s" for p s
  proof -
    obtain h where h: "s = Ptr h" "handle_on (lv_world u) h" using ok [of p] s by (auto split: ptr.splits)
    obtain q jq' where q: "handle_queue h = Some (Ptr q)" "queue_at (lv_world u) = Some q"
      "m_queues (os_mem (sw_os (lv_world u))) q = Some jq'"
      by (rule handle_reaches [OF up h(2)]) blast
    have "ss_queue (live_abs u) = jq'" using q by (simp add: live_abs_def Let_def shared_vals_def)
    then have "mutex_val (lv_world u) = 1 \<longrightarrow> jq' = jq"
      using sem_rel_free [OF rel, unfolded live_abs_sel(1)] by (metis one_neq_zero)
    then show ?thesis using h(1) q inv by auto
  qed
  ultimately show thesis by (intro that) blast+
qed

text \<open>
  Creation and use together: any number of processes of which one is the init
  process make or open the queue, and start to use it as soon as their
  \<^verbatim>\<open>sem_jobqueue_new\<close> has returned, while others are still at it. When
  \<^verbatim>\<open>NON_INIT_DELAY\<close> is long enough for the init process, every step of every schedule
  is defined, every process that returns has a queue, and the jobs put are in order the
  jobs taken followed by at most 127 queued ones; while nobody is inside the mutex they
  are what the shared memory holds.
\<close>

theorem live_fifo:
  assumes "wf_mem (os_mem (sw_os w))" "user_ok (os_user (sw_os w))" "\<forall>p. pr_is_init (who p) \<longleftrightarrow> p = c"
    and "\<And>l. l \<in> {sem_mutex_label, sem_full_label, sem_empty_label} \<Longrightarrow> sem_at w l = None"
  shows "\<exists>u rest. sched_run (live_step who) (live_may c) (live_init n w) evs = Some u \<and>
    (\<forall>p s. lv_new u p = N_ret s \<longrightarrow> (\<exists>h. s = Ptr h)) \<and>
    ss_in (lv_calls u) = map snd (ss_out (lv_calls u)) @ rest \<and> length rest \<le> 127 \<and>
    (\<forall>p h. lv_new u p = N_ret (Ptr h) \<longrightarrow> mutex_val (lv_world u) = 1 \<longrightarrow>
      (\<exists>q jq. handle_queue h = Some (Ptr q) \<and> m_queues (os_mem (sw_os (lv_world u))) q = Some jq \<and> jq_inv jq \<and> jq_contents jq = rest))"
proof -
  have "live_inv who c (live_init n w)"
    using assms by (auto simp: live_inv_def live_init_def early_def fresh_def Let_def)
  then obtain u where run: "sched_run (live_step who) (live_may c) (live_init n w) evs = Some u" and inv: "live_inv who c u"
    using live.run_inv by blast
  obtain rest where r: "ss_in (lv_calls u) = map snd (ss_out (lv_calls u)) @ rest" "length rest \<le> 127"
    "\<forall>p s. lv_new u p = N_ret s \<longrightarrow> (\<exists>h. s = Ptr h \<and> (mutex_val (lv_world u) = 1 \<longrightarrow>
      (\<exists>q jq. handle_queue h = Some (Ptr q) \<and> m_queues (os_mem (sw_os (lv_world u))) q = Some jq \<and> jq_inv jq \<and> jq_contents jq = rest)))"
    by (rule live_inv_jobs [OF inv])
  show ?thesis
    by (rule exI [of _ u], rule exI [of _ rest], intro conjI allI impI) (use run r in \<open>blast+\<close>)
qed

lemma live_fifo_witness:
  "\<exists>u rest. sched_run (live_step (\<lambda>p. sim_proc (p = 0))) (live_may 0) (live_init 2 sem_start)
      (replicate 12 (0, Go) @ [(1, Go), (0, Call (Ptr ()) (Enqueue (Some job_zero)))] @ replicate 8 (0, Go)) = Some u \<and>
    ss_in (lv_calls u) = map snd (ss_out (lv_calls u)) @ rest"
proof -
  let ?who = "\<lambda>p. sim_proc (p = 0)"
  have roles: "\<forall>p. pr_is_init (?who p) \<longleftrightarrow> p = 0" by (simp add: proc_of_def)
  have at: "sem_at sem_start l = None" for l by (simp add: sem_at_def sem_start_ok)
  show ?thesis
    using live_fifo [OF sem_start_ok(1,2) roles at,
        of 2 "replicate 12 (0, Go) @ [(1, Go), (0, Call (Ptr ()) (Enqueue (Some job_zero)))] @ replicate 8 (0, Go)"]
    by (elim exE conjE) (rule exI, rule exI, rule conjI)
qed

end
