(* ===== verification/Queue_Life.thy ===== *)
theory Queue_Life
  imports Live_Queue
begin

text \<open>
  The whole life of the queue of \<^verbatim>\<open>sem_jobqueue.c\<close>: creation, use and deletion, by
  any number of processes at the same time. \<^verbatim>\<open>sem_jobqueue_delete\<close> is cut at its
  system calls. It takes the name of \<^verbatim>\<open>mutex\<close> away, so that from then on the processes
  reach the semaphore through their handles only.
\<close>

section \<open>The system\<close>

text \<open>Where a process is in the deletion; its first call is \<^verbatim>\<open>sem_close\<close>.\<close>

datatype del_loc = D_none | D_unlink | D_free | D_done

definition del_go :: "sem_jobqueue_t \<Rightarrow> sem_world \<Rightarrow> del_loc \<Rightarrow> (sem_world \<times> del_loc) option" where
  "del_go h w d = (case d of
     D_none \<Rightarrow> do { n \<leftarrow> sj_mutex h; w1 \<leftarrow> sem_close n w; Some (w1, D_unlink) }
   | D_unlink \<Rightarrow> do { nm \<leftarrow> sem_name all_ok sem_mutex_label w; Some (sem_unlink nm w, D_free) }
   | D_free \<Rightarrow> do { w1 \<leftarrow> delete_ijq (sj_ijq h) w; Some (w1, D_done) }
   | D_done \<Rightarrow> Some (w, D_done))"

record life_sys =
  lf_live :: live_sys
  lf_del :: "nat \<Rightarrow> del_loc"

datatype life_event = Queue sem_event | Delete

text \<open>A step of the creation or of a call, or one of the deletion.\<close>

fun life_step :: "(nat \<Rightarrow> proc_t) \<Rightarrow> nat \<times> life_event \<Rightarrow> life_sys \<Rightarrow> life_sys option" where
  "life_step who (p, Queue ev) u = do {
     v \<leftarrow> live_step who (p, ev) (lf_live u);
     Some (u\<lparr>lf_live := v\<rparr>) }"
| "life_step who (p, Delete) u = (case lv_new (lf_live u) p of
     N_ret (Ptr h) \<Rightarrow> do {
       (w, d) \<leftarrow> del_go h (lv_world (lf_live u)) (lf_del u p);
       Some (u\<lparr>lf_live := (lf_live u)\<lparr>lv_world := w\<rparr>, lf_del := (lf_del u)(p := d)\<rparr>) }
   | _ \<Rightarrow> Some u)"

text \<open>
  A process deletes its queue when it is in no call, and does nothing with it
  afterwards.
\<close>

fun life_may :: "nat \<Rightarrow> life_sys \<Rightarrow> nat \<times> life_event \<Rightarrow> bool" where
  "life_may c u (p, Queue ev) \<longleftrightarrow> lf_del u p = D_none \<and> live_may c (lf_live u) (p, ev)"
| "life_may c u (p, Delete) \<longleftrightarrow> p < length (ss_loc (lv_calls (lf_live u))) \<and> lf_del u p \<noteq> D_done \<and>
     is_idle (ss_loc (lv_calls (lf_live u)) ! p) \<and>
     (case lv_new (lf_live u) p of N_ret (Ptr h) \<Rightarrow> True | _ \<Rightarrow> False)"

text \<open>A process that is past \<^verbatim>\<open>sem_open\<close> of the mutex.\<close>

fun opened :: "new_loc \<Rightarrow> bool" where
  "opened (N_wait i m) = True"
| "opened (N_full i m) = True"
| "opened (N_capacity i m r full) = True"
| "opened (N_empty i m r full cap) = True"
| "opened (N_end i m r full e) = True"
| "opened (N_ret s) = True"
| "opened _ = False"

text \<open>The name is only taken away when all processes have opened the mutex.\<close>

definition careful :: "nat \<Rightarrow> life_sys \<Rightarrow> nat \<times> life_event \<Rightarrow> bool" where
  "careful c u pe \<longleftrightarrow> life_may c u pe \<and>
     (snd pe = Delete \<and> lf_del u (fst pe) = D_unlink \<longrightarrow>
       (\<forall>q < length (ss_loc (lv_calls (lf_live u))). opened (lv_new (lf_live u) q)))"

definition life_init :: "nat \<Rightarrow> sem_world \<Rightarrow> life_sys" where
  "life_init n w = \<lparr>lf_live = live_init n w, lf_del = (\<lambda>_. D_none)\<rparr>"

text \<open>The three steps are the function.\<close>

lemma del_go_function:
  "sem_jobqueue_delete all_ok (Ptr h) w = do {
     (w1, d1) \<leftarrow> del_go h w D_none;
     (w2, d2) \<leftarrow> del_go h w1 d1;
     (w3, d3) \<leftarrow> del_go h w2 d2;
     Some w3 }"
  by (auto simp: sem_jobqueue_delete_def sem_delete_def del_go_def split: bind_splits)

section \<open>Counting\<close>

text \<open>The processes of the first \<open>n\<close> that have a property, when one of them moves.\<close>

definition num :: "nat \<Rightarrow> (nat \<Rightarrow> bool) \<Rightarrow> nat" where
  "num n P = cnt P [0..<n]"

lemma num_update:
  assumes "p < n" "\<And>q. q \<noteq> p \<Longrightarrow> Q q = P q"
  shows "num n Q + of_bool (P p) = num n P + of_bool (Q p)"
proof -
  have c: "cnt R [0..<n] = cnt id (map R [0..<n])" for R by (simp add: cnt_def filter_map)
  have "map Q [0..<n] = (map P [0..<n])[p := Q p]"
    using assms by (intro nth_equalityI) (auto simp: nth_list_update)
  then show ?thesis using cnt_update [of p "map P [0..<n]" id "Q p"] assms(1) by (simp add: num_def c)
qed

lemma num_cong: "(\<And>q. q < n \<Longrightarrow> Q q = P q) \<Longrightarrow> num n Q = num n P"
  unfolding num_def cnt_def by (rule arg_cong [of _ _ length]) (auto intro: filter_cong)

lemma num_pos: "0 < num n P \<Longrightarrow> \<exists>q < n. P q"
  using cnt_zero_iff [of P "[0..<n]"] by (auto simp: num_def)

lemma num_at: "q < n \<Longrightarrow> P q \<Longrightarrow> 0 < num n P"
  using cnt_zero_iff [of P "[0..<n]"] by (auto simp: num_def)

text \<open>What a step of the creation does to the open semaphores and the blocks.\<close>

lemma sem_open_counts:
  assumes "sem_open True 0 nm v w = (r, w')"
  shows "os_blocks (sw_os w') = os_blocks (sw_os w)" "os_user (sw_os w') = os_user (sw_os w)"
    "sw_open w' = sw_open w @ (case r of None \<Rightarrow> [] | Some k \<Rightarrow> [k])" "nm' \<noteq> nm \<Longrightarrow> sw_names w' nm' = sw_names w nm'"
  using assms by (auto simp: sem_open_def set_errno_def Let_def split: option.splits if_splits)

lemma sem_new_counts:
  assumes "sem_new fz True 0 l v s w = Some (r, k, w')"
  shows "os_blocks (sw_os w') = os_blocks (sw_os w)" "os_user (sw_os w') = os_user (sw_os w)"
    "sw_open w' = sw_open w @ (case k of None \<Rightarrow> [] | Some k \<Rightarrow> [k])"
proof -
  obtain nm where nm: "sem_name fz l w = Some nm" using assms by (auto simp: sem_new_def bind_eq_Some_conv)
  obtain r' w1 where o: "sem_open True 0 nm (word_of_int v) w = (r', w1)" by force
  then have "k = r'" "w1 = w'" using assms nm by (auto simp: sem_new_def split: option.splits)
  with o show "os_blocks (sw_os w') = os_blocks (sw_os w)" "os_user (sw_os w') = os_user (sw_os w)"
    "sw_open w' = sw_open w @ (case k of None \<Rightarrow> [] | Some k \<Rightarrow> [k])"
    using sem_open_counts(1-3) [of nm "word_of_int v" w r' w'] by auto
qed

lemma new_go_counts:
  assumes "new_go all_sem_ok p w l = Some (w', l')" "l' \<noteq> N_ret NULL"
  shows "os_blocks (sw_os w') = os_blocks (sw_os w) + of_bool (l = N_start)" "l' \<noteq> N_start" "os_user (sw_os w') = os_user (sw_os w)"
    "\<exists>ks. sw_open w' = sw_open w @ ks \<and> (opened l' \<longrightarrow> opened l \<or> (\<exists>i k. l' = N_wait i k \<and> ks = [k]))"
    "opened l \<Longrightarrow> opened l'"
proof -
  have "os_blocks (sw_os w') = os_blocks (sw_os w) + of_bool (l = N_start) \<and> l' \<noteq> N_start \<and> os_user (sw_os w') = os_user (sw_os w) \<and>
    (\<exists>ks. sw_open w' = sw_open w @ ks \<and> (opened l' \<longrightarrow> opened l \<or> (\<exists>i k. l' = N_wait i k \<and> ks = [k]))) \<and>
    (opened l \<longrightarrow> opened l')"
  proof (cases l)
    case N_start
    then show ?thesis using assms
      by (auto simp: new_go_ok Let_def bind_eq_Some_conv ipc_prepare_def shm_unlink_def split: if_splits option.split)
  next
    case (N_open name)
    then show ?thesis using assms
      by (auto simp: new_go_ok Let_def bind_eq_Some_conv shm_open_def all_ok_def queue_ops_def split: if_splits option.splits)
  next
    case (N_mutex i)
    obtain r' k w1 where n: "sem_new all_ok True 0 sem_mutex_label 1 MUTEX_SEM_SUCCESS w = Some (r', k, w1)"
      using assms N_mutex by (auto simp: new_go_ok Let_def bind_eq_Some_conv)
    then show ?thesis using assms N_mutex sem_new_counts [OF n]
      by (auto simp: new_go_ok Let_def bind_eq_Some_conv split: if_splits)
  next
    case (N_full i m)
    obtain r' k w1 where n: "sem_new all_ok True 0 sem_full_label 0 FULL_SEM_SUCCESS w = Some (r', k, w1)"
      using assms N_full by (auto simp: new_go_ok Let_def bind_eq_Some_conv)
    then show ?thesis using assms N_full sem_new_counts [OF n]
      by (auto simp: new_go_ok Let_def bind_eq_Some_conv split: if_splits)
  next
    case (N_empty i m r full cap)
    obtain r' k w1 where n: "sem_new all_ok True 0 sem_empty_label cap EMPTY_SEM_SUCCESS w = Some (r', k, w1)"
      using assms N_empty by (auto simp: new_go_ok Let_def bind_eq_Some_conv)
    then show ?thesis using assms N_empty sem_new_counts [OF n]
      by (auto simp: new_go_ok Let_def bind_eq_Some_conv split: if_splits)
  next
    case (N_end i m r full e)
    then show ?thesis using assms
      by (auto simp: new_go_ok Let_def bind_eq_Some_conv sem_jobqueue_verdict_def sem_post_def split: if_splits)
  next
    case (N_wait i m)
    then show ?thesis using assms by (auto simp: new_go_ok Let_def sem_wait_def split: if_splits)
  qed (use assms in \<open>auto simp: new_go_ok Let_def bind_eq_Some_conv mmap_def close_fd_def ftruncate_def all_ok_def split: if_splits\<close>)
  then show "os_blocks (sw_os w') = os_blocks (sw_os w) + of_bool (l = N_start)" "l' \<noteq> N_start" "os_user (sw_os w') = os_user (sw_os w)"
    "\<exists>ks. sw_open w' = sw_open w @ ks \<and> (opened l' \<longrightarrow> opened l \<or> (\<exists>i k. l' = N_wait i k \<and> ks = [k]))"
    "opened l \<Longrightarrow> opened l'" by blast+
qed

section \<open>With the name put back\<close>

text \<open>
  After the name of the mutex is gone, the system is like one in which it is still
  there, for all processes that have opened it.
\<close>

definition restore :: "string \<Rightarrow> nat \<Rightarrow> sem_world \<Rightarrow> sem_world" where
  "restore nm m w = w\<lparr>sw_names := (sw_names w)(nm \<mapsto> m)\<rparr>"

definition relabel :: "string \<Rightarrow> nat \<Rightarrow> live_sys \<Rightarrow> live_sys" where
  "relabel nm m u = u\<lparr>lv_world := restore nm m (lv_world u)\<rparr>"

lemma restore_sel [simp]:
  "sw_os (restore nm m w) = sw_os w" "sw_vals (restore nm m w) = sw_vals w" "sw_next (restore nm m w) = sw_next w"
  "sw_open (restore nm m w) = sw_open w" "sw_names (restore nm m w) = (sw_names w)(nm \<mapsto> m)"
  "lv_world (relabel nm m u) = restore nm m (lv_world u)" "lv_new (relabel nm m u) = lv_new u" "lv_calls (relabel nm m u) = lv_calls u"
  by (simp_all add: restore_def relabel_def)

lemma sem_new_restore:
  assumes "user_ok (os_user (sw_os w))" "l \<in> {sem_full_label, sem_empty_label}" "nm = sjq_name (os_user (sw_os w)) sem_mutex_label"
  shows "sem_new all_ok True 0 l v s (restore nm m w) =
    map_option (\<lambda>(r, k, w'). (r, k, restore nm m w')) (sem_new all_ok True 0 l v s w)"
proof -
  have ne: "sjq_name (os_user (sw_os w)) l \<noteq> nm" using assms(2,3) by auto
  have n: "sem_new all_ok True 0 l v s x = Some (case sem_open True 0 (sjq_name (os_user (sw_os x)) l) (word_of_int v) x of
      (None, w1) \<Rightarrow> (SEM_NEW_FAIL, None, w1) | (Some n, w1) \<Rightarrow> (s, Some n, w1))" if "sw_os x = sw_os w" for x
    using assms(1,2) that no_fault_all_ok by (intro sem_new_ok) (auto simp: no_fault_def)
  show ?thesis
    using ne by (simp add: n)
      (auto simp: sem_open_def set_errno_def restore_def Let_def fun_upd_twist split: option.splits)
qed

lemma new_go_restore:
  assumes "user_ok (os_user (sw_os w))" "nm = sjq_name (os_user (sw_os w)) sem_mutex_label"
    and "opened l" "local_ok (restore nm m w) l"
  shows "new_go all_sem_ok p (restore nm m w) l = map_option (\<lambda>(w', l'). (restore nm m w', l')) (new_go all_sem_ok p w l)"
proof (cases l)
  case (N_wait i k)
  then show ?thesis by (simp add: new_go_ok sem_wait_def restore_def)
next
  case (N_full i k)
  then show ?thesis
    using sem_new_restore [OF assms(1) _ assms(2), of sem_full_label 0 FULL_SEM_SUCCESS m]
    by (cases "sem_new all_ok True 0 sem_full_label 0 FULL_SEM_SUCCESS w") (auto simp: new_go_ok)
next
  case (N_capacity i k r full)
  then show ?thesis
    by (cases "handle_capacity (Ptr i) (sw_os w)") (auto simp: new_go_ok)
next
  case (N_empty i k r full cap)
  then show ?thesis
    using sem_new_restore [OF assms(1) _ assms(2), of sem_empty_label cap EMPTY_SEM_SUCCESS m]
    by (cases "sem_new all_ok True 0 sem_empty_label cap EMPTY_SEM_SUCCESS w") (auto simp: new_go_ok)
next
  case (N_end i k r full e)
  have "r AND ALL_SEM_SUCCESS \<noteq> 0"
    using assms(4) N_end sem_mask [of 2 4] by (simp add: FULL_SEM_SUCCESS_def EMPTY_SEM_SUCCESS_def)
  then show ?thesis using N_end by (simp add: new_go_ok sem_jobqueue_verdict_def sem_post_def restore_def)
next
  case (N_ret s)
  then show ?thesis by (simp add: new_go_ok)
qed (use assms(3) in simp_all)

lemma sem_load_restore: "sem_load h (restore nm m w) s = sem_load h w s"
  by (simp add: sem_load_def)

lemma sem_store_restore: "sem_store h s (restore nm m w) = map_option (restore nm m) (sem_store h s w)"
proof (cases "sj_mutex h = None \<or> sj_full h = None \<or> sj_empty h = None \<or>
    (case handle_queue h of Some (Ptr q) \<Rightarrow> Some q | _ \<Rightarrow> None) = None")
  case True
  then show ?thesis by (cases "sj_mutex h"; cases "sj_full h"; cases "sj_empty h") (auto simp: sem_store_def)
next
  case False
  then show ?thesis by (auto simp: sem_store_def restore_def)
qed

lemma live_step_restore:
  assumes "user_ok (os_user (sw_os (lv_world u)))" "nm = sjq_name (os_user (sw_os (lv_world u))) sem_mutex_label"
    and "opened (lv_new u p)" "local_ok (restore nm m (lv_world u)) (lv_new u p)"
  shows "live_step who (p, ev) (relabel nm m u) = map_option (relabel nm m) (live_step who (p, ev) u)"
proof (cases "returned (lv_new u p)")
  case True
  then obtain h where h: "lv_new u p = N_ret (Ptr h)" using assms(4) by (auto simp: returned_def split: ptr.splits)
  show ?thesis
  proof (cases "sem_load h (lv_world u) (lv_calls u)")
    case None
    then show ?thesis using h by (simp add: live_step_def sem_load_restore Let_def)
  next
    case (Some s)
    then show ?thesis
      using h by (cases "sem_step (p, ev) s")
        (auto simp: live_step_def sem_load_restore sem_store_restore Let_def map_option_case relabel_def split: option.split bind_split)
  qed
next
  case False
  have r: "\<not> returned (lv_new (relabel nm m u) p)" using False by simp
  show ?thesis
    unfolding live_step_new(1) [OF False] live_step_new(1) [OF r]
    using new_go_restore [OF assms, of "who p"]
    by (cases "new_go all_sem_ok (who p) (lv_world u) (lv_new u p)") (auto simp: relabel_def)
qed

lemma live_may_restore: "live_may c (relabel nm m u) pe = live_may c u pe"
  by (cases "lv_new u (fst pe)") (auto simp: live_may_def sem_load_restore orderly_def new_may_def split: ptr.split)

text \<open>The invariant of theory \<open>Live_Queue\<close> is not about counts, mappings and \<^verbatim>\<open>errno\<close>.\<close>

definition same_shared :: "sem_world \<Rightarrow> sem_world \<Rightarrow> bool" where
  "same_shared w w' \<longleftrightarrow> os_user (sw_os w') = os_user (sw_os w) \<and> os_shm (sw_os w') = os_shm (sw_os w) \<and>
     os_size (sw_os w') = os_size (sw_os w) \<and> os_mem (sw_os w') = os_mem (sw_os w) \<and>
     sw_names w' = sw_names w \<and> sw_vals w' = sw_vals w \<and> sw_next w' = sw_next w"

lemma live_inv_same:
  assumes inv: "live_inv who c (u\<lparr>lv_world := w\<rparr>)" and ret: "returned (lv_new u p)" and "same_shared w w'"
  shows "live_inv who c (u\<lparr>lv_world := w'\<rparr>)"
proof -
  have same: "os_user (sw_os w') = os_user (sw_os w)" "os_shm (sw_os w') = os_shm (sw_os w)"
    "os_size (sw_os w') = os_size (sw_os w)" "os_mem (sw_os w') = os_mem (sw_os w)"
    "sw_names w' = sw_names w" "sw_vals w' = sw_vals w" "sw_next w' = sw_next w"
    using assms(3) by (simp_all add: same_shared_def)
  note sh = shared_same [OF same]
  have "\<not> early c w' (lv_new u)" for w' using ret by (cases "p = c"; cases "lv_new u p") (auto simp: early_def returned_def)
  note ne = this
  then have l: "late c w (lv_new u)" "sem_inv (live_abs (u\<lparr>lv_world := w\<rparr>))" using inv by (auto simp: live_inv_def Let_def)
  have "late c w' (lv_new u)" using l(1) sh local_ok_extends [OF sh(1)] by (auto simp: late_def)
  moreover have "live_abs (u\<lparr>lv_world := w'\<rparr>) = live_abs (u\<lparr>lv_world := w\<rparr>)"
    by (simp add: live_abs_def sh(3,7) Let_def)
  ultimately show ?thesis using inv l ne by (auto simp: live_inv_def Let_def)
qed

lemma new_go_names:
  assumes "new_go all_sem_ok p w l = Some (w', l')" "l' \<noteq> N_ret NULL" "opened l" "user_ok (os_user (sw_os w))"
  shows "sw_names w' (sjq_name (os_user (sw_os w)) sem_mutex_label) = sw_names w (sjq_name (os_user (sw_os w)) sem_mutex_label)"
proof -
  have new: "sw_names w1 (sjq_name (os_user (sw_os w)) sem_mutex_label) = sw_names w (sjq_name (os_user (sw_os w)) sem_mutex_label)"
    if "sem_new all_ok True 0 lab v s w = Some (r, k, w1)" "lab \<in> {sem_full_label, sem_empty_label}" for lab v s r k w1
  proof -
    obtain r' w2 where o: "sem_open True 0 (sjq_name (os_user (sw_os w)) lab) (word_of_int v) w = (r', w2)" by force
    then have "w2 = w1"
      using that sem_new_ok [OF assms(4), of all_ok lab True 0 v s] no_fault_all_ok
      by (auto simp: no_fault_def split: option.splits)
    then show ?thesis using sem_open_counts(4) [OF o] that(2) by auto
  qed
  show ?thesis
    using assms(1-3)
    by (cases l) (auto simp: new_go_ok Let_def bind_eq_Some_conv sem_wait_def sem_jobqueue_verdict_def sem_post_def
        dest!: new split: if_splits)
qed

end
