(* ===== verification/Life_Fifo.thy ===== *)
theory Life_Fifo
  imports Queue_Life
begin

text \<open>
  The invariant of the system of theory \<open>Queue_Life\<close>: while some process creates, uses
  or deletes the queue, the state is one of theory \<open>Live_Queue\<close> up to what deletions
  change, which is the name of the mutex and what each process has open. From it, what
  a process can rely on under every schedule, and what is left when all have deleted.
\<close>

section \<open>The invariant\<close>

text \<open>The processes that have the mutex open, and those that have a block of type \<^verbatim>\<open>ipc_t\<close>.\<close>

definition users :: "life_sys \<Rightarrow> nat" where
  "users u = num (length (ss_loc (lv_calls (lf_live u)))) (\<lambda>p. opened (lv_new (lf_live u) p) \<and> lf_del u p = D_none)"

definition blocks :: "life_sys \<Rightarrow> nat" where
  "blocks u = num (length (ss_loc (lv_calls (lf_live u)))) (\<lambda>p. lv_new (lf_live u) p \<noteq> N_start \<and> lf_del u p \<noteq> D_done)"

text \<open>The mutex that a process has opened.\<close>

fun mux_of :: "new_loc \<Rightarrow> nat option" where
  "mux_of (N_wait i m) = Some m"
| "mux_of (N_full i m) = Some m"
| "mux_of (N_capacity i m r full) = Some m"
| "mux_of (N_empty i m r full cap) = Some m"
| "mux_of (N_end i m r full e) = Some m"
| "mux_of (N_ret s) = (case s of NULL \<Rightarrow> None | Ptr h \<Rightarrow> sj_mutex h)"
| "mux_of _ = None"

lemma mux_of_at:
  assumes "local_ok w l"
  shows "mux_of l = Some m \<Longrightarrow> sem_at w sem_mutex_label = Some m" "opened l \<Longrightarrow> mux_of l \<noteq> None"
proof -
  have h: "sj_mutex h = sem_at w sem_mutex_label" "sem_at w sem_mutex_label \<noteq> None" if "handle_on w h" for h
    using that unfolding handle_on_def by metis+
  show "mux_of l = Some m \<Longrightarrow> sem_at w sem_mutex_label = Some m"
    using assms h by (cases l) (simp_all split: ptr.splits)
  show "opened l \<Longrightarrow> mux_of l \<noteq> None"
    using assms h by (cases l) (auto split: ptr.splits)
qed

lemma mux_of_opened: "mux_of l = Some m \<Longrightarrow> opened l"
  by (cases l) simp_all

definition counted :: "life_sys \<Rightarrow> bool" where
  "counted u \<longleftrightarrow> blocks u \<le> os_blocks (sw_os (lv_world (lf_live u))) \<and>
     (\<forall>p m. mux_of (lv_new (lf_live u) p) = Some m \<longrightarrow> users u \<le> count_list (sw_open (lv_world (lf_live u))) m)"

text \<open>A process that deletes has returned and is in no call.\<close>

definition deleters_idle :: "life_sys \<Rightarrow> bool" where
  "deleters_idle u \<longleftrightarrow> (\<forall>p. lf_del u p \<noteq> D_none \<longrightarrow>
     p < length (ss_loc (lv_calls (lf_live u))) \<and> is_idle (ss_loc (lv_calls (lf_live u)) ! p) \<and>
     (\<exists>h. lv_new (lf_live u) p = N_ret (Ptr h)))"

definition mutex_name :: "life_sys \<Rightarrow> string" where
  "mutex_name u = sjq_name (os_user (sw_os (lv_world (lf_live u)))) sem_mutex_label"

text \<open>While the name is there, and after it is gone.\<close>

definition named :: "(nat \<Rightarrow> proc_t) \<Rightarrow> nat \<Rightarrow> life_sys \<Rightarrow> bool" where
  "named who c u \<longleftrightarrow> live_inv who c (lf_live u) \<and> (\<forall>p. lf_del u p = D_none \<or> lf_del u p = D_unlink)"

definition nameless :: "(nat \<Rightarrow> proc_t) \<Rightarrow> nat \<Rightarrow> life_sys \<Rightarrow> nat \<Rightarrow> bool" where
  "nameless who c u m \<longleftrightarrow> live_inv who c (relabel (mutex_name u) m (lf_live u)) \<and>
     sw_names (lv_world (lf_live u)) (mutex_name u) = None \<and>
     (\<forall>p < length (ss_loc (lv_calls (lf_live u))). opened (lv_new (lf_live u) p))"

definition life_inv :: "(nat \<Rightarrow> proc_t) \<Rightarrow> nat \<Rightarrow> life_sys \<Rightarrow> bool" where
  "life_inv who c u \<longleftrightarrow> (named who c u \<or> (\<exists>m. nameless who c u m)) \<and> counted u \<and> deleters_idle u"

text \<open>What a process that has opened the mutex knows of the system.\<close>

lemma opened_late:
  assumes "live_inv who c v" "opened (lv_new v p)"
  shows "late c (lv_world v) (lv_new v)" "local_ok (lv_world v) (lv_new v q)" "user_ok (os_user (sw_os (lv_world v)))"
proof -
  have "\<not> early c (lv_world v) (lv_new v)"
    using assms(2) by (cases "p = c"; cases "lv_new v p") (auto simp: early_def)
  then show l: "late c (lv_world v) (lv_new v)" using assms(1) by (auto simp: live_inv_def Let_def)
  then show "local_ok (lv_world v) (lv_new v q)" by (simp add: late_def)
  show "user_ok (os_user (sw_os (lv_world v)))" using l set_up_user by (auto simp: late_def)
qed

lemma returned_ptr:
  assumes "live_inv who c v" "returned (lv_new v p)"
  obtains h where "lv_new v p = N_ret (Ptr h)" "handle_on (lv_world v) h"
  using assms opened_late(2) [OF assms(1), of p p] by (auto simp: returned_def split: ptr.splits)

text \<open>What a step of the creation or of a call changes.\<close>

lemma live_frame:
  assumes "live_step who (p, ev) v = Some v'" "live_may c v (p, ev)" "live_inv who' c' x" "lv_new x = lv_new v'"
  shows "os_user (sw_os (lv_world v')) = os_user (sw_os (lv_world v))"
    "length (ss_loc (lv_calls v')) = length (ss_loc (lv_calls v))"
    "\<And>q. q \<noteq> p \<Longrightarrow> ss_loc (lv_calls v') ! q = ss_loc (lv_calls v) ! q"
    "\<And>q. q \<noteq> p \<Longrightarrow> lv_new v' q = lv_new v q"
    "returned (lv_new v p) \<Longrightarrow> lv_new v' = lv_new v \<and> sw_names (lv_world v') = sw_names (lv_world v) \<and>
       sw_open (lv_world v') = sw_open (lv_world v) \<and> os_blocks (sw_os (lv_world v')) = os_blocks (sw_os (lv_world v))"
    "\<not> returned (lv_new v p) \<Longrightarrow> new_go all_sem_ok (who p) (lv_world v) (lv_new v p) = Some (lv_world v', lv_new v' p) \<and> lv_new v' p \<noteq> N_ret NULL"
proof -
  have p: "p < length (ss_loc (lv_calls v))" using assms(2) by (simp add: live_may_def)
  have nn: "lv_new v' p \<noteq> N_ret NULL"
    using opened_late(2) [OF assms(3), of p p] assms(4) by (cases "lv_new v' p") (auto split: ptr.splits)
  have "os_user (sw_os (lv_world v')) = os_user (sw_os (lv_world v)) \<and>
    length (ss_loc (lv_calls v')) = length (ss_loc (lv_calls v)) \<and>
    (\<forall>q. q \<noteq> p \<longrightarrow> ss_loc (lv_calls v') ! q = ss_loc (lv_calls v) ! q \<and> lv_new v' q = lv_new v q) \<and>
    (returned (lv_new v p) \<longrightarrow> lv_new v' = lv_new v \<and> sw_names (lv_world v') = sw_names (lv_world v) \<and>
       sw_open (lv_world v') = sw_open (lv_world v) \<and> os_blocks (sw_os (lv_world v')) = os_blocks (sw_os (lv_world v))) \<and>
    (\<not> returned (lv_new v p) \<longrightarrow> new_go all_sem_ok (who p) (lv_world v) (lv_new v p) = Some (lv_world v', lv_new v' p))"
  proof (cases "returned (lv_new v p)")
    case True
    have "lv_new v p \<noteq> N_ret NULL"
    proof
      assume n: "lv_new v p = N_ret NULL"
      then have "lv_new v' p = N_ret NULL" using assms(1) by (auto simp: live_step_def new_go_ok Let_def bind_eq_Some_conv)
      then show False using nn by simp
    qed
    then obtain h where h: "lv_new v p = N_ret (Ptr h)" using True by (auto simp: returned_def) (metis ptr.exhaust)
    obtain s t w1 where s: "sem_load h (lv_world v) (lv_calls v) = Some s" "sem_step (p, ev) s = Some t"
      "sem_store h t (lv_world v) = Some w1" "v' = v\<lparr>lv_world := w1, lv_calls := t\<rparr>"
      using assms(1) h by (auto simp: live_step_def Let_def bind_eq_Some_conv)
    have "ss_loc s = ss_loc (lv_calls v)" using s(1) by (auto simp: sem_load_def bind_eq_Some_conv)
    then have "ss_loc t = (ss_loc (lv_calls v))[p := ss_loc t ! p]" using sem_step_loc(1) [of p s ev t] s(2) p by simp
    moreover from this have "length (ss_loc t) = length (ss_loc (lv_calls v))" by (metis length_list_update)
    moreover from calculation have "\<And>q. q \<noteq> p \<Longrightarrow> ss_loc t ! q = ss_loc (lv_calls v) ! q" by (metis nth_list_update_neq)
    moreover have "os_user (sw_os w1) = os_user (sw_os (lv_world v)) \<and> sw_names w1 = sw_names (lv_world v) \<and>
      sw_open w1 = sw_open (lv_world v) \<and> os_blocks (sw_os w1) = os_blocks (sw_os (lv_world v))"
      using s(3) by (auto simp: sem_store_def bind_eq_Some_conv)
    ultimately show ?thesis using s(4) True by simp
  next
    case False
    obtain w1 l where g: "new_go all_sem_ok (who p) (lv_world v) (lv_new v p) = Some (w1, l)"
      "v' = v\<lparr>lv_world := w1, lv_new := (lv_new v)(p := l)\<rparr>"
      using assms(1) unfolding live_step_new(1) [OF False] by (auto simp: bind_eq_Some_conv)
    then show ?thesis using new_go_counts(3) [OF g(1)] nn False by simp
  qed
  then show "os_user (sw_os (lv_world v')) = os_user (sw_os (lv_world v))"
    "length (ss_loc (lv_calls v')) = length (ss_loc (lv_calls v))"
    "\<And>q. q \<noteq> p \<Longrightarrow> ss_loc (lv_calls v') ! q = ss_loc (lv_calls v) ! q"
    "\<And>q. q \<noteq> p \<Longrightarrow> lv_new v' q = lv_new v q"
    "returned (lv_new v p) \<Longrightarrow> lv_new v' = lv_new v \<and> sw_names (lv_world v') = sw_names (lv_world v) \<and>
       sw_open (lv_world v') = sw_open (lv_world v) \<and> os_blocks (sw_os (lv_world v')) = os_blocks (sw_os (lv_world v))"
    "\<not> returned (lv_new v p) \<Longrightarrow> new_go all_sem_ok (who p) (lv_world v) (lv_new v p) = Some (lv_world v', lv_new v' p) \<and> lv_new v' p \<noteq> N_ret NULL"
    using nn by blast+
qed

lemma mux_of_kept:
  assumes "new_go all_sem_ok p w l = Some (w', l')" "l' \<noteq> N_ret NULL" "mux_of l = Some m"
  shows "mux_of l' = Some m"
  using assms
  by (cases l) (auto simp: new_go_ok Let_def bind_eq_Some_conv sem_wait_def sem_jobqueue_verdict_def split: if_splits ptr.splits)

section \<open>A step of the creation or of a call\<close>

text \<open>The mutex is the same for all, before the step and after it.\<close>

lemma counted_step:
  assumes step: "live_step who (p, ev) (lf_live u) = Some v" and may: "live_may c (lf_live u) (p, ev)" and del: "lf_del u p = D_none"
    and inv: "live_inv who c x" "lv_new x = lv_new v" "live_inv who c y" "lv_new y = lv_new (lf_live u)" and count: "counted u"
  shows "counted (u\<lparr>lf_live := v\<rparr>)"
proof -
  let ?u = "u\<lparr>lf_live := v\<rparr>" and ?L = "lf_live u"
  note frame = live_frame [OF step may inv(1,2)]
  let ?n = "length (ss_loc (lv_calls ?L))"
  have p: "p < ?n" using may by (simp add: live_may_def)
  have u: "users ?u + of_bool (opened (lv_new ?L p)) = users u + of_bool (opened (lv_new v p))"
    using num_update [OF p, of "\<lambda>q. opened (lv_new v q) \<and> lf_del u q = D_none" "\<lambda>q. opened (lv_new ?L q) \<and> lf_del u q = D_none"]
      frame(4) del by (simp add: users_def frame(2))
  have b: "blocks ?u + of_bool (lv_new ?L p \<noteq> N_start) = blocks u + of_bool (lv_new v p \<noteq> N_start)"
    using num_update [OF p, of "\<lambda>q. lv_new v q \<noteq> N_start \<and> lf_del u q \<noteq> D_done" "\<lambda>q. lv_new ?L q \<noteq> N_start \<and> lf_del u q \<noteq> D_done"]
      frame(4) del by (simp add: blocks_def frame(2))
  show ?thesis
  proof (cases "returned (lv_new ?L p)")
    case True
    then show ?thesis using frame(5) u b count by (simp add: counted_def)
  next
    case False
    note g = frame(6) [OF False]
    note c = new_go_counts [OF g [THEN conjunct1] g [THEN conjunct2]]
    obtain ks where ks: "sw_open (lv_world v) = sw_open (lv_world ?L) @ ks"
      "opened (lv_new v p) \<Longrightarrow> opened (lv_new ?L p) \<or> (\<exists>i k. lv_new v p = N_wait i k \<and> ks = [k])"
      using c(4) by blast
    have kept: "mux_of (lv_new v r) = Some k" if "mux_of (lv_new ?L r) = Some k" for r k
      using that frame(4) [of r] mux_of_kept [OF g [THEN conjunct1] g [THEN conjunct2]] by (cases "r = p") auto
    have one: "k = k'" if "mux_of (lv_new v r) = Some k" "mux_of (lv_new v q) = Some k'" for r q k k'
      using that mux_of_at(1) opened_late(2) [OF inv(1)] mux_of_opened inv(2) by (metis option.inject)
    have ex: "\<exists>r m. mux_of (lv_new ?L r) = Some m" if pos: "0 < users u"
    proof -
      obtain r where "opened (lv_new ?L r)" using num_pos pos unfolding users_def by blast
      then have "mux_of (lv_new ?L r) \<noteq> None"
        using opened_late(2) [OF inv(3), of r r] mux_of_at(2) inv(4) by metis
      then show ?thesis by blast
    qed
    have bound: "users u \<le> count_list (sw_open (lv_world ?L)) m" if m: "mux_of (lv_new v q) = Some m" for q m
    proof (cases "users u")
      case (Suc k)
      then obtain r m0 where r: "mux_of (lv_new ?L r) = Some m0" using ex by auto
      then have "m0 = m" using one [OF kept [OF r] m] by simp
      then show ?thesis using count r by (simp add: counted_def)
    qed simp
    have "users ?u \<le> count_list (sw_open (lv_world v)) m" if m: "mux_of (lv_new v q) = Some m" for q m
    proof (cases "opened (lv_new v p) \<and> \<not> opened (lv_new ?L p)")
      case True
      then obtain i k where k: "lv_new v p = N_wait i k" "ks = [k]" using ks(2) by blast
      then have "k = m" using one [of p k q m] m by simp
      then show ?thesis using u True bound [OF m] ks(1) k by simp
    next
      case False
      then show ?thesis using u c(5) bound [OF m] ks(1) by (cases "opened (lv_new v p)") auto
    qed
    moreover have "blocks ?u \<le> os_blocks (sw_os (lv_world v))"
      using b c(1,2) count by (cases "lv_new ?L p = N_start") (auto simp: counted_def)
    ultimately show ?thesis by (simp add: counted_def)
  qed
qed

lemma life_queue_step:
  assumes inv: "life_inv who c u" and may: "life_may c u (p, Queue ev)"
  shows "\<exists>v. life_step who (p, Queue ev) u = Some v \<and> life_inv who c v"
proof -
  let ?L = "lf_live u" and ?nm = "mutex_name u"
  have m: "live_may c ?L (p, ev)" "lf_del u p = D_none" using may by simp_all
  then have p: "p < length (ss_loc (lv_calls ?L))" by (simp add: live_may_def)
  have count: "counted u" and idle: "deleters_idle u" using inv by (simp_all add: life_inv_def)
  have rest: "deleters_idle (u\<lparr>lf_live := v\<rparr>)" if step: "live_step who (p, ev) ?L = Some v" and x: "live_inv who c x" "lv_new x = lv_new v" for v x
  proof -
    have "q \<noteq> p" if "lf_del u q \<noteq> D_none" for q using that m(2) by blast
    then show ?thesis using idle live_frame(2-4) [OF step m(1) x] by (simp add: deleters_idle_def)
  qed
  consider "named who c u" | k where "nameless who c u k" using inv by (auto simp: life_inv_def)
  then show ?thesis
  proof cases
    case 1
    then have li: "live_inv who c ?L" by (simp add: named_def)
    obtain v where v: "live_step who (p, ev) ?L = Some v" "live_inv who c v" using live.step_inv [OF li m(1)] by blast
    have "named who c (u\<lparr>lf_live := v\<rparr>)" using 1 v(2) by (simp add: named_def)
    then show ?thesis
      using v counted_step [OF v(1) m v(2) refl li refl count] rest [OF v(1) v(2)] by (simp add: life_inv_def)
  next
    case 2
    then have li: "live_inv who c (relabel ?nm k ?L)" and op: "\<And>q. q < length (ss_loc (lv_calls ?L)) \<Longrightarrow> opened (lv_new ?L q)"
      and none: "sw_names (lv_world ?L) ?nm = None" by (simp_all add: nameless_def)
    have late: "local_ok (restore ?nm k (lv_world ?L)) (lv_new ?L p)" "user_ok (os_user (sw_os (lv_world ?L)))"
      using opened_late(2) [OF li, of p p] opened_late(3) [OF li, of p] op [OF p] by simp_all
    obtain t where t: "live_step who (p, ev) (relabel ?nm k ?L) = Some t" "live_inv who c t"
      using live.step_inv [OF li] m(1) by (auto simp: live_may_restore)
    have "map_option (relabel ?nm k) (live_step who (p, ev) ?L) = Some t"
      using t(1) live_step_restore [OF late(2) _ op [OF p] late(1), of who ev] by (simp add: mutex_name_def)
    then obtain v where v: "live_step who (p, ev) ?L = Some v" "t = relabel ?nm k v" by auto
    have tv: "lv_new t = lv_new v" using v(2) by simp
    note frame = live_frame [OF v(1) m(1) t(2) tv]
    let ?u = "u\<lparr>lf_live := v\<rparr>"
    have nm: "mutex_name ?u = ?nm" using frame(1) by (simp add: mutex_name_def)
    have "opened (lv_new v q)" if "q < length (ss_loc (lv_calls v))" for q
      using that frame(2) frame(4) [of q] frame(5,6) op [of q] new_go_counts(5) [of "who p" "lv_world ?L" "lv_new ?L p"]
      by (cases "q = p"; cases "returned (lv_new ?L p)") auto
    moreover have "sw_names (lv_world v) ?nm = None"
      using none frame(5,6) new_go_names [of "who p" "lv_world ?L" "lv_new ?L p"] op [OF p] late(2)
      by (cases "returned (lv_new ?L p)") (auto simp: mutex_name_def)
    ultimately have "nameless who c ?u k" using t(2) v(2) nm by (simp add: nameless_def)
    moreover have "counted ?u" by (rule counted_step [OF v(1) m t(2) tv li _ count]) simp
    ultimately show ?thesis using v(1) rest [OF v(1) t(2) tv] by (auto simp: life_inv_def)
  qed
qed

section \<open>A step of the deletion\<close>

lemma num_leave:
  assumes "p < n" "P p" "\<And>q. Q q \<longleftrightarrow> P q \<and> q \<noteq> p"
  shows "num n P = Suc (num n Q)"
  using num_update [OF assms(1), of Q P] assms(2,3) by simp

text \<open>The world in which the invariant of \<open>Live_Queue\<close> holds.\<close>

definition life_world :: "life_sys \<Rightarrow> sem_world \<Rightarrow> bool" where
  "life_world u w0 \<longleftrightarrow> w0 = lv_world (lf_live u) \<or> (\<exists>m. w0 = restore (mutex_name u) m (lv_world (lf_live u)))"

lemma life_inv_world:
  assumes "life_inv who c u"
  obtains w0 where "life_world u w0" "live_inv who c ((lf_live u)\<lparr>lv_world := w0\<rparr>)"
proof -
  consider "named who c u" | m where "nameless who c u m" using assms by (auto simp: life_inv_def)
  then show thesis
  proof cases
    case 1
    then show thesis using that [of "lv_world (lf_live u)"] by (simp add: named_def life_world_def)
  next
    case (2 m)
    then show thesis
      using that [of "restore (mutex_name u) m (lv_world (lf_live u))"] by (auto simp: nameless_def life_world_def relabel_def)
  qed
qed

lemma life_world_sel:
  assumes "life_world u w0"
  shows "sw_os w0 = sw_os (lv_world (lf_live u))" "sw_vals w0 = sw_vals (lv_world (lf_live u))"
  using assms by (auto simp: life_world_def)

text \<open>The handle of a process that deletes.\<close>

lemma deleter_handle:
  assumes inv: "life_inv who c u" and ret: "lv_new (lf_live u) p = N_ret (Ptr h)"
  obtains m i where "sj_mutex h = Some m" "sj_ijq h = Ptr i" "user_ok (os_user (sw_os (lv_world (lf_live u))))"
    "users u \<le> count_list (sw_open (lv_world (lf_live u))) m"
    "\<And>k. nameless who c u k \<Longrightarrow> k = m" "named who c u \<Longrightarrow> sw_names (lv_world (lf_live u)) (mutex_name u) = Some m"
proof -
  let ?L = "lf_live u"
  have op: "opened (lv_new ?L p)" and r: "returned (lv_new ?L p)" using ret by (simp_all add: returned_def)
  have have_handle: "handle_on (lv_world v) h \<and> user_ok (os_user (sw_os (lv_world v)))"
    if "live_inv who c v" "lv_new v = lv_new ?L" for v
    using that opened_late(2) [OF that(1), of p p] opened_late(3) [OF that(1), of p] op ret by simp
  obtain w0 where w0: "life_world u w0" "live_inv who c (?L\<lparr>lv_world := w0\<rparr>)" by (rule life_inv_world [OF inv])
  have usr: "user_ok (os_user (sw_os (lv_world ?L)))" using have_handle [OF w0(2)] life_world_sel(1) [OF w0(1)] by simp
  have "handle_on w0 h" using have_handle [OF w0(2)] by simp
  then obtain m i where m: "sj_mutex h = Some m" "sj_ijq h = Ptr i" unfolding handle_on_def by blast
  have "mux_of (lv_new ?L p) = Some m" using ret m(1) by simp
  then have "users u \<le> count_list (sw_open (lv_world ?L)) m"
    using inv by (simp add: life_inv_def counted_def)
  moreover have "k = m" if k: "nameless who c u k" for k
  proof -
    have "handle_on (restore (mutex_name u) k (lv_world ?L)) h"
      using have_handle [of "relabel (mutex_name u) k ?L"] k by (simp add: nameless_def)
    then have "sj_mutex h = sem_at (restore (mutex_name u) k (lv_world ?L)) sem_mutex_label" unfolding handle_on_def by blast
    then show ?thesis using m(1) by (simp add: sem_at_def mutex_name_def)
  qed
  moreover have "sw_names (lv_world ?L) (mutex_name u) = Some m" if "named who c u"
  proof -
    have "handle_on (lv_world ?L) h" using have_handle [of ?L] that by (simp add: named_def)
    then have "sj_mutex h = sem_at (lv_world ?L) sem_mutex_label" unfolding handle_on_def by blast
    then show ?thesis using m(1) by (simp add: sem_at_def mutex_name_def)
  qed
  ultimately show thesis using that m usr by blast
qed

text \<open>The state after a step of the deletion by process \<open>p\<close>.\<close>

definition del_move :: "nat \<Rightarrow> sem_world \<Rightarrow> del_loc \<Rightarrow> life_sys \<Rightarrow> life_sys" where
  "del_move p w d u = u\<lparr>lf_live := (lf_live u)\<lparr>lv_world := w\<rparr>, lf_del := (lf_del u)(p := d)\<rparr>"

lemma del_move_sel [simp]:
  "lf_live (del_move p w d u) = (lf_live u)\<lparr>lv_world := w\<rparr>" "lf_del (del_move p w d u) = (lf_del u)(p := d)"
  by (simp_all add: del_move_def)

lemma del_move_name [simp]:
  "os_user (sw_os w) = os_user (sw_os (lv_world (lf_live u))) \<Longrightarrow> mutex_name (del_move p w d u) = mutex_name u"
  by (simp add: mutex_name_def)

lemma del_move_counts:
  assumes p: "p < length (ss_loc (lv_calls (lf_live u)))" and ret: "lv_new (lf_live u) p = N_ret s" and d: "d \<noteq> D_none" "lf_del u p \<noteq> D_done"
  shows "users u = users (del_move p w d u) + of_bool (lf_del u p = D_none)"
    "blocks u = blocks (del_move p w d u) + of_bool (d = D_done)"
proof -
  let ?n = "length (ss_loc (lv_calls (lf_live u)))" and ?l = "lv_new (lf_live u)" and ?d = "(lf_del u)(p := d)"
  define P where "P e q \<longleftrightarrow> opened (?l q) \<and> e q = D_none" for e q
  define Q where "Q e q \<longleftrightarrow> ?l q \<noteq> N_start \<and> e q \<noteq> D_done" for e q
  have "users u = num ?n (P (lf_del u))" "users (del_move p w d u) = num ?n (P ?d)"
    unfolding users_def P_def by simp_all
  moreover have "num ?n (P ?d) + of_bool (P (lf_del u) p) = num ?n (P (lf_del u)) + of_bool (P ?d p)"
    by (rule num_update [OF p]) (simp add: P_def)
  moreover have "P (lf_del u) p \<longleftrightarrow> lf_del u p = D_none" "\<not> P ?d p" using ret d by (simp_all add: P_def)
  ultimately show "users u = users (del_move p w d u) + of_bool (lf_del u p = D_none)" by simp
  have "blocks u = num ?n (Q (lf_del u))" "blocks (del_move p w d u) = num ?n (Q ?d)"
    unfolding blocks_def Q_def by simp_all
  moreover have "num ?n (Q ?d) + of_bool (Q (lf_del u) p) = num ?n (Q (lf_del u)) + of_bool (Q ?d p)"
    by (rule num_update [OF p]) (simp add: Q_def)
  moreover have "Q (lf_del u) p" "Q ?d p \<longleftrightarrow> d \<noteq> D_done" using ret d by (simp_all add: Q_def)
  ultimately show "blocks u = blocks (del_move p w d u) + of_bool (d = D_done)" by (cases "d = D_done") simp_all
qed

text \<open>What is the same for the three steps.\<close>

lemma del_move_inv:
  assumes inv: "life_inv who c u" and may: "life_may c u (p, Delete)" and h: "lv_new (lf_live u) p = N_ret (Ptr h)"
    and d: "d \<noteq> D_none" "lf_del u p = D_none \<longleftrightarrow> d = D_unlink"
    and n: "named who c (del_move p w d u) \<or> (\<exists>m. nameless who c (del_move p w d u) m)"
    and opn: "sw_open w = (if d = D_unlink then remove1 m (sw_open (lv_world (lf_live u))) else sw_open (lv_world (lf_live u)))"
    and blk: "os_blocks (sw_os w) + of_bool (d = D_done) = os_blocks (sw_os (lv_world (lf_live u)))"
  shows "life_inv who c (del_move p w d u)"
proof -
  have p: "p < length (ss_loc (lv_calls (lf_live u)))" "lf_del u p \<noteq> D_done" using may by simp_all
  note c = del_move_counts [OF p(1) h d(1) p(2), of w]
  have "users (del_move p w d u) \<le> count_list (sw_open w) k" if k: "mux_of (lv_new (lf_live u) q) = Some k" for q k
  proof -
    have "users u \<le> count_list (sw_open (lv_world (lf_live u))) k" using inv k by (auto simp: life_inv_def counted_def)
    then show ?thesis using c(1) opn d(2) by (cases "k = m") auto
  qed
  moreover have "blocks (del_move p w d u) \<le> os_blocks (sw_os w)"
  proof -
    have "blocks u \<le> os_blocks (sw_os (lv_world (lf_live u)))" using inv by (simp add: life_inv_def counted_def)
    then show ?thesis using c(2) blk by simp
  qed
  moreover have "deleters_idle (del_move p w d u)"
    using inv h may by (simp add: life_inv_def deleters_idle_def)
  ultimately show ?thesis using n by (simp add: life_inv_def counted_def)
qed

text \<open>Each of them.\<close>

lemma life_close:
  assumes inv: "life_inv who c u" and may: "life_may c u (p, Delete)" and d: "lf_del u p = D_none"
    and h: "lv_new (lf_live u) p = N_ret (Ptr h)"
  shows "\<exists>v. life_step who (p, Delete) u = Some v \<and> life_inv who c v"
proof -
  let ?L = "lf_live u" let ?w = "lv_world ?L"
  have r: "returned (lv_new ?L p)" using h by (simp add: returned_def)
  obtain m where m: "sj_mutex h = Some m" "users u \<le> count_list (sw_open ?w) m" by (rule deleter_handle [OF inv h])
  let ?w' = "?w\<lparr>sw_open := remove1 m (sw_open ?w)\<rparr>" let ?v = "del_move p ?w' D_unlink u"
  have same: "same_shared ?w ?w'" "same_shared (restore nm k ?w) (restore nm k ?w')" for nm k
    by (simp_all add: same_shared_def)
  have "named who c ?v" if "named who c u"
    using that live_inv_same [where u = ?L and who = who and c = c, OF _ r same(1)] by (simp add: named_def)
  moreover have "nameless who c ?v k" if "nameless who c u k" for k
    using that live_inv_same [where u = ?L and who = who and c = c, OF _ r same(2)]
    by (simp add: nameless_def relabel_def)
  ultimately have "named who c ?v \<or> (\<exists>k. nameless who c ?v k)" using inv by (auto simp: life_inv_def)
  then have "life_inv who c ?v" by (rule del_move_inv [OF inv may h, rotated 2]) (simp_all add: d)
  moreover have "m \<in> set (sw_open ?w)"
  proof -
    have "0 < users u" unfolding users_def by (rule num_at [of p]) (use may h d in auto)
    then show ?thesis using m(2) count_list_0_iff [of "sw_open ?w" m] by fastforce
  qed
  ultimately show ?thesis using h d m(1) by (simp add: del_go_def sem_close_def del_move_def)
qed

lemma life_unlink:
  assumes inv: "life_inv who c u" and may: "careful c u (p, Delete)" and d: "lf_del u p = D_unlink"
    and h: "lv_new (lf_live u) p = N_ret (Ptr h)"
  shows "\<exists>v. life_step who (p, Delete) u = Some v \<and> life_inv who c v"
proof -
  let ?L = "lf_live u" let ?w = "lv_world ?L" and ?nm = "mutex_name u"
  have r: "returned (lv_new ?L p)" using h by (simp add: returned_def)
  have op: "\<forall>q < length (ss_loc (lv_calls ?L)). opened (lv_new ?L q)" and may': "life_may c u (p, Delete)"
    using may d by (simp_all add: careful_def)
  obtain m where m: "user_ok (os_user (sw_os ?w))" "\<And>k. nameless who c u k \<Longrightarrow> k = m" "named who c u \<Longrightarrow> sw_names ?w ?nm = Some m"
    by (rule deleter_handle [OF inv h], rule that) blast+
  let ?w' = "sem_unlink ?nm ?w" let ?v = "del_move p ?w' D_free u"
  have "live_inv who c (relabel ?nm m (?L\<lparr>lv_world := ?w'\<rparr>))"
  proof -
    consider "named who c u" | "nameless who c u m" using inv m(2) by (auto simp: life_inv_def)
    then show ?thesis
    proof cases
      case 1
      then have "restore ?nm m ?w' = ?w" using m(3) by (simp add: restore_def sem_unlink_def fun_upd_idem)
      then show ?thesis using 1 by (simp add: named_def relabel_def)
    next
      case 2
      then have same: "same_shared (restore ?nm m ?w) (restore ?nm m ?w')"
        by (simp add: nameless_def same_shared_def sem_unlink_def set_errno_def)
      then show ?thesis
        using 2 live_inv_same [where u = ?L and who = who and c = c, OF _ r same] by (simp add: nameless_def relabel_def)
    qed
  qed
  then have "nameless who c ?v m" using op by (simp add: nameless_def)
  then have "life_inv who c ?v"
    by (intro del_move_inv [OF inv may' h]) (auto simp: d sem_unlink_def set_errno_def split: option.split)
  moreover have "sem_name all_ok sem_mutex_label ?w = Some ?nm"
    using sem_name_ok [OF m(1), of all_ok sem_mutex_label] no_fault_all_ok by (simp add: no_fault_def mutex_name_def)
  ultimately show ?thesis using h d by (simp add: del_go_def del_move_def)
qed

lemma life_free:
  assumes inv: "life_inv who c u" and may: "life_may c u (p, Delete)" and d: "lf_del u p = D_free"
    and h: "lv_new (lf_live u) p = N_ret (Ptr h)"
  shows "\<exists>v. life_step who (p, Delete) u = Some v \<and> life_inv who c v"
proof -
  let ?L = "lf_live u" let ?w = "lv_world ?L" and ?nm = "mutex_name u"
  have r: "returned (lv_new ?L p)" using h by (simp add: returned_def)
  obtain i where i: "sj_ijq h = Ptr i" by (rule deleter_handle [OF inv h])
  have "0 < blocks u" unfolding blocks_def by (rule num_at [of p]) (use may h d in auto)
  then have blk: "0 < os_blocks (sw_os ?w)" using inv by (simp add: life_inv_def counted_def)
  let ?w' = "?w\<lparr>sw_os := (sw_os ?w)\<lparr>os_blocks := os_blocks (sw_os ?w) - 1\<rparr>\<rparr>" let ?v = "del_move p ?w' D_done u"
  have "\<not> named who c u" using d by (auto simp: named_def intro!: exI [of _ p])
  then obtain k where k: "nameless who c u k" using inv by (auto simp: life_inv_def)
  have same: "same_shared (restore ?nm k ?w) (restore ?nm k ?w')" by (simp add: same_shared_def)
  have "nameless who c ?v k"
    using k live_inv_same [where u = ?L and who = who and c = c, OF _ r same] by (simp add: nameless_def relabel_def)
  then have "life_inv who c ?v"
    by (intro del_move_inv [OF inv may h]) (use blk in \<open>auto simp: d\<close>)
  then show ?thesis using h d i blk by (simp add: del_go_def delete_ijq_def ipc_jobqueue_delete_def free_block_def del_move_def)
qed

lemma life_step_size:
  assumes "life_step who (p, e) u = Some v" "life_may c u (p, e)" "life_inv who c v"
  shows "length (ss_loc (lv_calls (lf_live v))) = length (ss_loc (lv_calls (lf_live u)))"
proof (cases e)
  case (Queue ev)
  then obtain x where x: "live_step who (p, ev) (lf_live u) = Some x" "lf_live v = x"
    using assms(1) by (auto simp: bind_eq_Some_conv)
  obtain w0 where "live_inv who c ((lf_live v)\<lparr>lv_world := w0\<rparr>)" by (rule life_inv_world [OF assms(3)])
  then show ?thesis using live_frame(2) [OF x(1), of c] assms(2) Queue x(2) by simp
next
  case Delete
  then show ?thesis using assms(1) by (auto simp: bind_eq_Some_conv split: new_loc.splits ptr.splits)
qed

interpretation life: invariant_system "life_step who" "careful c"
  "\<lambda>u. life_inv who c u \<and> length (ss_loc (lv_calls (lf_live u))) = n" for who c n
proof (unfold_locales, goal_cases)
  case (1 u pe)
  obtain p e where pe: "pe = (p, e)" by (cases pe)
  have inv: "life_inv who c u" using 1(1) by simp
  have may: "life_may c u (p, e)" using 1(2) pe by (simp add: careful_def)
  have "\<exists>v. life_step who (p, e) u = Some v \<and> life_inv who c v"
  proof (cases e)
    case (Queue ev)
    then show ?thesis using life_queue_step [OF inv] may by simp
  next
    case Delete
    then obtain h where h: "lv_new (lf_live u) p = N_ret (Ptr h)" using may by (auto split: new_loc.splits ptr.splits)
    have "lf_del u p \<noteq> D_done" using may Delete by simp
    then show ?thesis
      using life_close [OF inv _ _ h] life_unlink [OF inv _ _ h] life_free [OF inv _ _ h] may 1(2) Delete pe
      by (cases "lf_del u p") simp_all
  qed
  then show ?case using life_step_size [OF _ may] 1(1) pe by metis
qed

section \<open>Every schedule\<close>

text \<open>What a handle reaches when nobody is inside, and what is left when all have deleted.\<close>

lemma life_inv_jobs:
  assumes inv: "life_inv who c u"
  obtains rest where "ss_in (lv_calls (lf_live u)) = map snd (ss_out (lv_calls (lf_live u))) @ rest" "length rest \<le> 127"
    "\<And>p h m. lv_new (lf_live u) p = N_ret (Ptr h) \<Longrightarrow> sj_mutex h = Some m \<Longrightarrow> sw_vals (lv_world (lf_live u)) m = 1 \<Longrightarrow>
      (\<exists>q jq. handle_queue h = Some (Ptr q) \<and> m_queues (os_mem (sw_os (lv_world (lf_live u)))) q = Some jq \<and> jq_inv jq \<and> jq_contents jq = rest)"
proof -
  let ?L = "lf_live u"
  obtain w0 where w0: "life_world u w0" and li: "live_inv who c (?L\<lparr>lv_world := w0\<rparr>)" by (rule life_inv_world [OF inv])
  obtain rest where r: "ss_in (lv_calls ?L) = map snd (ss_out (lv_calls ?L)) @ rest" "length rest \<le> 127"
    "\<forall>p s. lv_new ?L p = N_ret s \<longrightarrow> (\<exists>h. s = Ptr h \<and> (mutex_val w0 = 1 \<longrightarrow>
      (\<exists>q jq. handle_queue h = Some (Ptr q) \<and> m_queues (os_mem (sw_os w0)) q = Some jq \<and> jq_inv jq \<and> jq_contents jq = rest)))"
    by (rule live_inv_jobs [OF li]) simp
  show thesis
  proof (rule that [OF r(1,2)])
    fix p h m assume h: "lv_new ?L p = N_ret (Ptr h)" "sj_mutex h = Some m" "sw_vals (lv_world ?L) m = 1"
    have "local_ok w0 (lv_new ?L p)" using opened_late(2) [OF li, of p p] h(1) by simp
    then have "sem_at w0 sem_mutex_label = Some m" by (rule mux_of_at(1)) (use h in simp)
    then have "mutex_val w0 = 1" using h(3) life_world_sel(2) [OF w0] by (simp add: mutex_val_def)
    then show "\<exists>q jq. handle_queue h = Some (Ptr q) \<and> m_queues (os_mem (sw_os (lv_world ?L))) q = Some jq \<and> jq_inv jq \<and> jq_contents jq = rest"
      using r(3) h(1) life_world_sel(1) [OF w0] by auto
  qed
qed

lemma life_left:
  assumes inv: "life_inv who c u" and p: "0 < length (ss_loc (lv_calls (lf_live u)))"
    and gone: "\<And>p. p < length (ss_loc (lv_calls (lf_live u))) \<Longrightarrow> lf_del u p = D_done"
    and log: "ss_in (lv_calls (lf_live u)) = map snd (ss_out (lv_calls (lf_live u))) @ rest"
  shows "sem_at (lv_world (lf_live u)) sem_mutex_label = None \<and> (\<exists>f e q jq. sem_at (lv_world (lf_live u)) sem_full_label = Some f \<and>
      sem_at (lv_world (lf_live u)) sem_empty_label = Some e \<and> queue_at (lv_world (lf_live u)) = Some q \<and>
      m_queues (os_mem (sw_os (lv_world (lf_live u)))) q = Some jq \<and> jq_contents jq = rest \<and>
      sw_vals (lv_world (lf_live u)) f + ss_lost_full (lv_calls (lf_live u)) = length rest + ss_null (lv_calls (lf_live u)) \<and>
      sw_vals (lv_world (lf_live u)) e + ss_lost_empty (lv_calls (lf_live u)) + length rest + ss_null (lv_calls (lf_live u)) = 127)"
proof -
  let ?L = "lf_live u" let ?w = "lv_world ?L" and ?s = "lv_calls ?L"
  have "\<not> named who c u" using gone [OF p] by (auto simp: named_def intro!: exI [of _ 0])
  then obtain k where k: "nameless who c u k" using inv by (auto simp: life_inv_def)
  let ?R = "relabel (mutex_name u) k ?L" let ?v = "lv_world ?R"
  have li: "live_inv who c ?R" using k by (simp add: nameless_def)
  have ret: "\<exists>h. lv_new ?L q = N_ret (Ptr h)" "is_idle (ss_loc ?s ! q)" if "q < length (ss_loc ?s)" for q
    using inv gone [OF that] by (auto simp: life_inv_def deleters_idle_def)
  obtain h where h: "lv_new ?L 0 = N_ret (Ptr h)" using ret(1) [OF p] by blast
  have late: "late c ?v (lv_new ?L)" "local_ok ?v (lv_new ?L 0)"
    using opened_late(1) [OF li, of 0] opened_late(2) [OF li, of 0 0] h by simp_all
  have on: "handle_on ?v h" and up: "set_up ?v" using late h by (simp_all add: late_def del: restore_sel)
  obtain m f e q jq where r: "sem_at ?v sem_full_label = Some f" "sem_at ?v sem_empty_label = Some e"
    "queue_at ?v = Some q" "m_queues (os_mem (sw_os ?v)) q = Some jq"
    by (rule handle_reaches [OF up on])
  have "\<not> early c ?v (lv_new ?L)" using h by (cases "c = 0") (auto simp: early_def)
  then have "sem_inv (live_abs ?R)" using li by (auto simp: live_inv_def Let_def)
  then obtain jq' where rel: "sem_rel jq' (live_abs ?R)" by (auto simp: sem_inv_def)
  have locs: "\<not> holds l \<and> \<not> enq_tok l \<and> \<not> deq_done l \<and> \<not> deq_tok l \<and> \<not> enq_done l" if l: "l \<in> set (ss_loc (live_abs ?R))" for l
  proof -
    obtain i where i: "i < length (ss_loc ?s)" "l = live_loc (lv_new ?L i) (ss_loc ?s ! i)"
      using l by (auto simp: in_set_conv_nth)
    moreover obtain h' where "lv_new ?L i = N_ret (Ptr h')" using ret(1) [OF i(1)] by blast
    ultimately have "is_idle l" using ret(2) [OF i(1)] by (simp add: live_loc_def)
    then show ?thesis by (cases l) (simp_all add: is_idle_def)
  qed
  then have zero: "cnt holds (ss_loc (live_abs ?R)) = 0" "cnt enq_tok (ss_loc (live_abs ?R)) = 0" "cnt deq_done (ss_loc (live_abs ?R)) = 0"
    "cnt deq_tok (ss_loc (live_abs ?R)) = 0" "cnt enq_done (ss_loc (live_abs ?R)) = 0" by (simp_all add: cnt_zero_iff)
  have vals: "ss_full (live_abs ?R) = sw_vals ?w f" "ss_empty (live_abs ?R) = sw_vals ?w e" "ss_queue (live_abs ?R) = jq"
    "ss_lost_full (live_abs ?R) = ss_lost_full ?s" "ss_lost_empty (live_abs ?R) = ss_lost_empty ?s"
    "ss_null (live_abs ?R) = ss_null ?s" "ss_in (live_abs ?R) = ss_in ?s" "ss_out (live_abs ?R) = ss_out ?s"
    using r by (simp_all add: live_abs_def shared_vals_def Let_def)
  have counts: "ss_mutex (live_abs ?R) = 1" "sw_vals ?w e + length (jq_contents jq') + ss_null ?s + ss_lost_empty ?s = QUEUE_SIZE - 1"
    "sw_vals ?w f + ss_lost_full ?s = length (jq_contents jq') + ss_null ?s"
    using rel zero vals by (simp_all add: sem_rel_def sem_counts_def)
  have "ss_queue (live_abs ?R) = jq'" by (rule sem_rel_free [OF rel, THEN conjunct2]) (use counts(1) in simp)
  then have "jq = jq'" using vals(3) by simp
  moreover have "jq_contents jq' = rest"
    using log [symmetric] unfolding sem_rel_log [OF rel, unfolded vals(7,8)] same_append_eq by (rule sym)
  moreover have "sem_at ?w l = sem_at ?v l" if "l \<in> {sem_full_label, sem_empty_label}" for l
    using that by (auto simp: sem_at_def mutex_name_def)
  moreover have "sem_at ?w sem_mutex_label = None" using k by (simp add: nameless_def sem_at_def mutex_name_def)
  moreover have "queue_at ?w = queue_at ?v" by (simp add: queue_at_def)
  ultimately show ?thesis using r counts by (auto simp: QUEUE_SIZE_def)
qed

lemma life_inv_init:
  assumes "wf_mem (os_mem (sw_os w))" "user_ok (os_user (sw_os w))" "\<forall>p. pr_is_init (who p) \<longleftrightarrow> p = c"
    and "\<And>l. l \<in> {sem_mutex_label, sem_full_label, sem_empty_label} \<Longrightarrow> sem_at w l = None"
  shows "life_inv who c (life_init n w)" "length (ss_loc (lv_calls (lf_live (life_init n w)))) = n"
proof -
  have "live_inv who c (live_init n w)"
    using assms by (auto simp: live_inv_def live_init_def early_def fresh_def Let_def)
  moreover have "blocks (life_init n w) = 0"
    by (simp add: blocks_def life_init_def live_init_def num_def cnt_def)
  ultimately show "life_inv who c (life_init n w)"
    by (simp add: life_inv_def named_def counted_def deleters_idle_def life_init_def live_init_def)
  show "length (ss_loc (lv_calls (lf_live (life_init n w)))) = n"
    by (simp add: life_init_def live_init_def sem_init_def)
qed

text \<open>
  C4: the whole life of the queue: any number of processes create or open it, use it as
  soon as they have it, and delete it when they are done, at the same time. The
  schedules are those of processes of which one is the init process, with a well-formed
  memory and a user whose name can be part of that of an object, that start where none
  of the three semaphores has a name, in which the system calls of creation and deletion
  succeed (waits and mallocs of the calls on the queue may fail, jobs and destinations
  may be NULL, labels end), in which \<^verbatim>\<open>NON_INIT_DELAY\<close> is long enough and no process
  takes the name of the mutex away before all have opened it. Then every step is defined
  and a deletion does not disturb the others: the jobs put are in order the jobs taken
  followed by at most 127 queued ones, and every process that has a queue reaches them
  through its handle while nobody is inside. When all have deleted, the name of the
  mutex is gone; the other two semaphores and the shared memory are left: \<^verbatim>\<open>full\<close> with as
  many units as jobs are queued, plus those of NULL enqueues and less those that failed
  waits lost, \<^verbatim>\<open>empty\<close> with the rest of the 127, less those that failed waits lost.
\<close>

theorem life_fifo:
  assumes "wf_mem (os_mem (sw_os w))" "user_ok (os_user (sw_os w))" "\<forall>p. pr_is_init (who p) \<longleftrightarrow> p = c"
    and "\<And>l. l \<in> {sem_mutex_label, sem_full_label, sem_empty_label} \<Longrightarrow> sem_at w l = None"
  shows "\<exists>u rest. sched_run (life_step who) (careful c) (life_init n w) es = Some u \<and>
    ss_in (lv_calls (lf_live u)) = map snd (ss_out (lv_calls (lf_live u))) @ rest \<and> length rest \<le> 127 \<and>
    (\<forall>p h m. lv_new (lf_live u) p = N_ret (Ptr h) \<longrightarrow> sj_mutex h = Some m \<longrightarrow> sw_vals (lv_world (lf_live u)) m = 1 \<longrightarrow>
      (\<exists>q jq. handle_queue h = Some (Ptr q) \<and> m_queues (os_mem (sw_os (lv_world (lf_live u)))) q = Some jq \<and> jq_inv jq \<and> jq_contents jq = rest)) \<and>
    (0 < n \<longrightarrow> (\<forall>p < n. lf_del u p = D_done) \<longrightarrow>
      sem_at (lv_world (lf_live u)) sem_mutex_label = None \<and> (\<exists>f e q jq. sem_at (lv_world (lf_live u)) sem_full_label = Some f \<and>
      sem_at (lv_world (lf_live u)) sem_empty_label = Some e \<and> queue_at (lv_world (lf_live u)) = Some q \<and>
      m_queues (os_mem (sw_os (lv_world (lf_live u)))) q = Some jq \<and> jq_contents jq = rest \<and>
      sw_vals (lv_world (lf_live u)) f + ss_lost_full (lv_calls (lf_live u)) = length rest + ss_null (lv_calls (lf_live u)) \<and>
      sw_vals (lv_world (lf_live u)) e + ss_lost_empty (lv_calls (lf_live u)) + length rest + ss_null (lv_calls (lf_live u)) = 127))"
proof -
  obtain u where run: "sched_run (life_step who) (careful c) (life_init n w) es = Some u" and inv: "life_inv who c u"
    and n: "length (ss_loc (lv_calls (lf_live u))) = n"
    using life.run_inv [of who c "life_init n w" n es] life_inv_init [OF assms, of n] by blast
  obtain rest where r: "ss_in (lv_calls (lf_live u)) = map snd (ss_out (lv_calls (lf_live u))) @ rest" "length rest \<le> 127"
    "\<And>p h m. lv_new (lf_live u) p = N_ret (Ptr h) \<Longrightarrow> sj_mutex h = Some m \<Longrightarrow> sw_vals (lv_world (lf_live u)) m = 1 \<Longrightarrow>
      (\<exists>q jq. handle_queue h = Some (Ptr q) \<and> m_queues (os_mem (sw_os (lv_world (lf_live u)))) q = Some jq \<and> jq_inv jq \<and> jq_contents jq = rest)"
    by (rule life_inv_jobs [OF inv]) blast
  note left = life_left [OF inv _ _ r(1), unfolded n]
  show ?thesis
    by (rule exI [of _ u], rule exI [of _ rest], intro conjI allI impI) (use run r left in \<open>blast+\<close>)
qed

lemma life_fifo_witness:
  "\<exists>u rest. sched_run (life_step (\<lambda>p. sim_proc (p = 0))) (careful 0) (life_init 2 sem_start)
      (replicate 12 (0, Queue Go) @ replicate 9 (1, Queue Go) @ [(0, Queue (Call (Ptr ()) (Enqueue (Some job_zero))))] @
       replicate 8 (0, Queue Go) @ replicate 3 (0, Delete) @ [(1, Queue (Call (Ptr ()) (Dequeue (Ptr ()))))] @ replicate 9 (1, Queue Go)) = Some u \<and>
    ss_in (lv_calls (lf_live u)) = map snd (ss_out (lv_calls (lf_live u))) @ rest"
proof -
  let ?who = "\<lambda>p. sim_proc (p = 0)"
  have roles: "\<forall>p. pr_is_init (?who p) \<longleftrightarrow> p = 0" by (simp add: proc_of_def)
  have at: "sem_at sem_start l = None" for l by (simp add: sem_at_def sem_start_ok)
  show ?thesis
    using life_fifo [OF sem_start_ok(1,2) roles at, of 2
        "replicate 12 (0, Queue Go) @ replicate 9 (1, Queue Go) @ [(0, Queue (Call (Ptr ()) (Enqueue (Some job_zero))))] @
         replicate 8 (0, Queue Go) @ replicate 3 (0, Delete) @ [(1, Queue (Call (Ptr ()) (Dequeue (Ptr ()))))] @ replicate 9 (1, Queue Go)"]
    by (elim exE conjE) (rule exI, rule exI, rule conjI)
qed

end
