(* ===== verification/Late_Join.thy ===== *)
theory Late_Join
  imports Live_Queue
begin

text \<open>
  What happens when one process deletes the queue of \<^verbatim>\<open>sem_jobqueue.c\<close> while another
  has yet to open it: the name of the mutex is gone, the latecomer makes a new one, and
  nothing excludes it from the processes that still use the old one.
\<close>

section \<open>The handle of the latecomer\<close>

lemma late_handle:
  assumes named: "queue_named s m f e q w" and usr: "user_ok (os_user (sw_os w))" and p: "\<not> pr_is_init p"
    and none: "sw_names w' (sjq_name (os_user (sw_os w)) sem_mutex_label) = None"
    and kept: "\<And>l. l \<in> {sem_full_label, sem_empty_label} \<Longrightarrow> sw_names w' (sjq_name (os_user (sw_os w)) l) = sw_names w (sjq_name (os_user (sw_os w)) l)"
    and same: "os_user (sw_os w') = os_user (sw_os w)" "os_shm (sw_os w') = os_shm (sw_os w)" "os_mem (sw_os w') = os_mem (sw_os w)"
      "os_size (sw_os w') = os_size (sw_os w)" "sw_vals w' = sw_vals w" "sw_next w' = sw_next w"
  obtains i w2 where "sem_jobqueue_new all_sem_ok (Ptr p) w' = Some (Returns
      (Ptr \<lparr>sj_mutex = Some (sw_next w), sj_full = Some f, sj_empty = Some e, sj_ijq = Ptr i\<rparr>, w2))"
    "ip_addr i = Ptr q" "sw_vals w2 = (sw_vals w)(sw_next w := 1)" "os_mem (sw_os w2) = os_mem (sw_os w)"
proof -
  let ?u = "os_user (sw_os w)" and ?k = "sw_next w"
  have fz: "g_malloc all_sem_ok" "no_fault (g_ipc all_sem_ok)" "g_mutex all_sem_ok" "g_full all_sem_ok" "g_empty all_sem_ok" "g_wait all_sem_ok"
    by (simp_all add: all_sem_ok_def)
  have usr': "user_ok (os_user (sw_os w'))" using usr same by simp
  have "shm_name (sw_os w') queue_label = shm_name (sw_os w) queue_label" by (rule shm_name_user) (rule same)
  then have at: "os_shm (sw_os w') (shm_name (sw_os w') queue_label) = Some q" and jq: "jq_ok q (os_mem (sw_os w'))"
    and sz: "SIZEOF_JOBQUEUE \<le> os_size (sw_os w') q"
    using named same by (simp_all add: queue_named_def)
  have sem: "sw_names w' (sjq_name ?u sem_full_label) = Some f" "sw_names w' (sjq_name ?u sem_empty_label) = Some e" "f < ?k" "e < ?k"
    using named kept by (simp_all add: queue_named_def sem_named_def Let_def)
  obtain i os where 1: "ipc_jobqueue_new (g_ipc all_sem_ok) (Ptr p) (sw_os w') = Some (Ptr i, os)" "ip_addr i = Ptr q"
    "os_mem os = os_mem (sw_os w')" "os_user os = os_user (sw_os w')" "os_size os = os_size (sw_os w')"
    using ipc_jobqueue_new_attach [OF usr' fz(2) p at] by blast
  let ?w = "w'\<lparr>sw_blocks := Suc (sw_blocks w'), sw_os := os\<rparr>"
  obtain r w1 where o1: "sem_open (g_mutex all_sem_ok) (g_err all_sem_ok) (sjq_name ?u sem_mutex_label) 1 ?w = (r, w1)" by force
  have m: "r = Some ?k" "sw_vals w1 = (sw_vals w)(?k := 1)" "sw_os w1 = os"
    "sw_names w1 (sjq_name ?u sem_full_label) = Some f" "sw_names w1 (sjq_name ?u sem_empty_label) = Some e"
    using sem_open_sel(1,5,8) [OF o1] fz(3) none sem same by simp_all
  let ?w1 = "w1\<lparr>sw_vals := (sw_vals w1)(?k := sw_vals w1 ?k - 1)\<rparr>"
  obtain r2 w2 where o2: "sem_open (g_full all_sem_ok) (g_err all_sem_ok) (sjq_name ?u sem_full_label) 0 ?w1 = (r2, w2)" by force
  have f: "r2 = Some f" "sw_vals w2 = sw_vals ?w1" "sw_os w2 = os" "sw_names w2 (sjq_name ?u sem_empty_label) = Some e"
    using sem_open_sel(1,5,7) [OF o2] fz(4) m by simp_all
  obtain r3 w3 where o3: "sem_open (g_empty all_sem_ok) (g_err all_sem_ok) (sjq_name ?u sem_empty_label) 127 w2 = (r3, w3)" by force
  have e: "r3 = Some e" "sw_vals w3 = sw_vals w2" "sw_os w3 = os"
    using sem_open_sel(1,7) [OF o3] fz(5) f by simp_all
  have run: "sem_jobqueue_new all_sem_ok (Ptr p) w' = Some (Returns
      (Ptr \<lparr>sj_mutex = Some ?k, sj_full = r2, sj_empty = r3, sj_ijq = Ptr i\<rparr>, sem_post ?k w3))"
    by (rule sem_jobqueue_new_run [OF fz(1) usr' _ 1(1,4,2) _ _ o1 [unfolded m(1), folded same(1)] fz(6) _ o2 [folded same(1)] o3 [folded same(1)]])
      (use fz(2) m jq sz 1(3,5) in \<open>simp_all add: no_fault_def\<close>)
  show thesis
    by (rule that [OF run [unfolded f(1) e(1)] 1(2)]) (use e f m 1(3) same in \<open>simp_all add: sem_post_def fun_eq_iff\<close>)
qed

section \<open>Two processes with different mutexes\<close>

text \<open>The world with given values of the four semaphores and a given queue.\<close>

definition two_mux :: "nat \<Rightarrow> nat \<Rightarrow> nat \<Rightarrow> nat \<Rightarrow> nat \<Rightarrow> sem_world \<Rightarrow> nat \<Rightarrow> nat \<Rightarrow> nat \<Rightarrow> nat \<Rightarrow> jobqueue_t \<Rightarrow> sem_world" where
  "two_mux m k f e q w a b fv ev jq = w\<lparr>sw_vals := (sw_vals w)(m := a, k := b, f := fv, e := ev),
     sw_os := (sw_os w)\<lparr>os_mem := put_jq (os_mem (sw_os w)) q jq\<rparr>\<rparr>"

text \<open>A step of a process with either mutex.\<close>

lemma two_mux_step:
  assumes d: "distinct [m, k, f, e]" and h: "sj_full h = Some f" "sj_empty h = Some e" "handle_queue h = Some (Ptr q)"
    and n: "N p = N_ret (Ptr h)"
  shows "sj_mutex h = Some m \<Longrightarrow> live_step who (p, ev) \<lparr>lv_world = two_mux m k f e q w a b fv ev' jq, lv_new = N, lv_calls = S\<rparr> =
      do { t \<leftarrow> sem_step (p, ev) (S\<lparr>ss_mutex := a, ss_full := fv, ss_empty := ev', ss_queue := jq\<rparr>);
        Some \<lparr>lv_world = two_mux m k f e q w (ss_mutex t) b (ss_full t) (ss_empty t) (ss_queue t), lv_new = N, lv_calls = t\<rparr> }"
    and "sj_mutex h = Some k \<Longrightarrow> live_step who (p, ev) \<lparr>lv_world = two_mux m k f e q w a b fv ev' jq, lv_new = N, lv_calls = S\<rparr> =
      do { t \<leftarrow> sem_step (p, ev) (S\<lparr>ss_mutex := b, ss_full := fv, ss_empty := ev', ss_queue := jq\<rparr>);
        Some \<lparr>lv_world = two_mux m k f e q w a (ss_mutex t) (ss_full t) (ss_empty t) (ss_queue t), lv_new = N, lv_calls = t\<rparr> }"
    and "sj_mutex h = Some m \<Longrightarrow> live_may c \<lparr>lv_world = two_mux m k f e q w a b fv ev' jq, lv_new = N, lv_calls = S\<rparr> (p, ev) \<longleftrightarrow>
      p < length (ss_loc S) \<and> sem_legal (S\<lparr>ss_mutex := a, ss_full := fv, ss_empty := ev', ss_queue := jq\<rparr>) (p, ev)"
    and "sj_mutex h = Some k \<Longrightarrow> live_may c \<lparr>lv_world = two_mux m k f e q w a b fv ev' jq, lv_new = N, lv_calls = S\<rparr> (p, ev) \<longleftrightarrow>
      p < length (ss_loc S) \<and> sem_legal (S\<lparr>ss_mutex := b, ss_full := fv, ss_empty := ev', ss_queue := jq\<rparr>) (p, ev)"
proof -
  let ?W = "two_mux m k f e q w a b fv ev' jq"
  have load: "sj_mutex h = Some m \<Longrightarrow> sem_load h ?W S = Some (S\<lparr>ss_mutex := a, ss_full := fv, ss_empty := ev', ss_queue := jq\<rparr>)"
    "sj_mutex h = Some k \<Longrightarrow> sem_load h ?W S = Some (S\<lparr>ss_mutex := b, ss_full := fv, ss_empty := ev', ss_queue := jq\<rparr>)"
    using d h by (simp_all add: sem_load_def two_mux_def mem_simps)
  have store: "sj_mutex h = Some m \<Longrightarrow> sem_store h t ?W = Some (two_mux m k f e q w (ss_mutex t) b (ss_full t) (ss_empty t) (ss_queue t))"
    "sj_mutex h = Some k \<Longrightarrow> sem_store h t ?W = Some (two_mux m k f e q w a (ss_mutex t) (ss_full t) (ss_empty t) (ss_queue t))" for t
    using d h by (auto simp: sem_store_def two_mux_def mem_simps fun_eq_iff)
  show "sj_mutex h = Some m \<Longrightarrow> live_step who (p, ev) \<lparr>lv_world = ?W, lv_new = N, lv_calls = S\<rparr> =
      do { t \<leftarrow> sem_step (p, ev) (S\<lparr>ss_mutex := a, ss_full := fv, ss_empty := ev', ss_queue := jq\<rparr>);
        Some \<lparr>lv_world = two_mux m k f e q w (ss_mutex t) b (ss_full t) (ss_empty t) (ss_queue t), lv_new = N, lv_calls = t\<rparr> }"
    "sj_mutex h = Some k \<Longrightarrow> live_step who (p, ev) \<lparr>lv_world = ?W, lv_new = N, lv_calls = S\<rparr> =
      do { t \<leftarrow> sem_step (p, ev) (S\<lparr>ss_mutex := b, ss_full := fv, ss_empty := ev', ss_queue := jq\<rparr>);
        Some \<lparr>lv_world = two_mux m k f e q w a (ss_mutex t) (ss_full t) (ss_empty t) (ss_queue t), lv_new = N, lv_calls = t\<rparr> }"
    using load store n by (simp_all add: live_step_def)
  show "sj_mutex h = Some m \<Longrightarrow> live_may c \<lparr>lv_world = ?W, lv_new = N, lv_calls = S\<rparr> (p, ev) \<longleftrightarrow>
      p < length (ss_loc S) \<and> sem_legal (S\<lparr>ss_mutex := a, ss_full := fv, ss_empty := ev', ss_queue := jq\<rparr>) (p, ev)"
    "sj_mutex h = Some k \<Longrightarrow> live_may c \<lparr>lv_world = ?W, lv_new = N, lv_calls = S\<rparr> (p, ev) \<longleftrightarrow>
      p < length (ss_loc S) \<and> sem_legal (S\<lparr>ss_mutex := b, ss_full := fv, ss_empty := ev', ss_queue := jq\<rparr>) (p, ev)"
    using load n by (simp_all add: live_may_def)
qed

lemma two_mux_queue: "m_queues (os_mem (sw_os (two_mux m k f e q w a b fv ev jq))) q = Some jq"
  by (simp add: two_mux_def mem_simps)

text \<open>Both enqueue a job, one statement after the other.\<close>

definition both_enqueue :: "job_t \<Rightarrow> job_t \<Rightarrow> (nat \<times> sem_event) list" where
  "both_enqueue x y = (0, Call (Ptr ()) (Enqueue (Some x))) # replicate 4 (0, Go) @
     (1, Call (Ptr ()) (Enqueue (Some y))) # replicate 4 (1, Go) @ [(0, Go), (1, Go), (0, Go), (1, Go)]"

lemma two_mux_race:
  assumes d: "distinct [m, k, f, e]"
    and s: "sj_mutex s = Some m" "sj_full s = Some f" "sj_empty s = Some e" "handle_queue s = Some (Ptr q)"
    and t: "sj_mutex t = Some k" "sj_full t = Some f" "sj_empty t = Some e" "handle_queue t = Some (Ptr q)"
    and N: "N 0 = N_ret (Ptr s)" "N 1 = N_ret (Ptr t)"
    and xy: "NUL \<in> set (j_label x)" "NUL \<in> set (j_label y)"
  shows "\<exists>u jq. sched_run (live_step who) (live_may c)
      \<lparr>lv_world = two_mux m k f e q w 1 1 0 127 jq_empty, lv_new = N, lv_calls = sem_init 2\<rparr> (both_enqueue x y) = Some u \<and>
    ss_in (lv_calls u) = [copied x, copied y] \<and> m_queues (os_mem (sw_os (lv_world u))) q = Some jq \<and> jq_contents jq = [copied y, job_zero]"
proof -
  note step0 = two_mux_step [where N = N and p = 0 and h = s, OF d s(2-4) N(1)]
    and step1 = two_mux_step [where N = N and p = "Suc 0" and h = t, OF d t(2-4) N(2) [unfolded One_nat_def]]
  have n: "q_buf_size jq = int QUEUE_SIZE \<Longrightarrow> next_index jq 1 = Some 2" for jq
    by (simp add: next_index_ok QUEUE_SIZE_def)
  have r: "replicate 4 z = [z, z, z, z]" for z :: "nat \<times> sem_event" by (simp add: numeral_eq_Suc)
  have "q_jobs jq_empty = job_zero # job_zero # replicate 126 job_zero"
    by (simp add: jq_empty_def QUEUE_SIZE_def numeral_eq_Suc)
  then have c: "jq_contents (jq_empty\<lparr>q_jobs := (q_jobs jq_empty)[0 := copied y], q_tail := 2\<rparr>) = [copied y, job_zero]"
    by (simp add: jq_contents_def jq_count_def jq_ring_def QUEUE_SIZE_def)
  show ?thesis
    by (simp add: both_enqueue_def r step0 step1 s(1) t(1) n c xy run_simps two_mux_queue) (simp add: c two_mux_queue QUEUE_SIZE_def)
qed

section \<open>The property\<close>

text \<open>
  C19: a deletion while a process has yet to open the queue: the latecomer gets another
  mutex, available at once, with the same \<^verbatim>\<open>full\<close>, \<^verbatim>\<open>empty\<close> and shared queue as
  those who are still using it; both are inside the queue at the same time, and of two
  jobs enqueued (any whose labels end) one is lost: both are put, and the queue holds the second one and a job
  nobody put.
\<close>

theorem late_join_loses_job:
  assumes s: "queue_named s m f e q w" and d: "queue_named d m f e q w" and sys: "sem_sys_of 2 s w = Some (sem_init 2)"
    and usr: "user_ok (os_user (sw_os w))" and blk: "0 < os_blocks (sw_os w)" and p: "\<not> pr_is_init (who 1)"
    and xy: "NUL \<in> set (j_label x)" "NUL \<in> set (j_label y)"
  shows "\<exists>w1 t w2 u jq. sem_jobqueue_delete all_ok (Ptr d) w = Some w1 \<and>
    sem_jobqueue_new all_sem_ok (Ptr (who 1)) w1 = Some (Returns (Ptr t, w2)) \<and>
    sj_mutex t \<noteq> sj_mutex s \<and> sj_full t = sj_full s \<and> sj_empty t = sj_empty s \<and> handle_queue t = handle_queue s \<and>
    sched_run (live_step who) (live_may c)
      \<lparr>lv_world = w2, lv_new = (\<lambda>_. N_start)(0 := N_ret (Ptr s), 1 := N_ret (Ptr t)), lv_calls = sem_init 2\<rparr>
      (both_enqueue x y) = Some u \<and>
    ss_in (lv_calls u) = [copied x, copied y] \<and> m_queues (os_mem (sw_os (lv_world u))) q = Some jq \<and> jq_contents jq = [copied y, job_zero]"
proof -
  let ?u = "os_user (sw_os w)" and ?k = "sw_next w"
  have names: "sj_mutex s = Some m" "sj_full s = Some f" "sj_empty s = Some e" "distinct [m, ?k, f, e]"
    and named_d: "sem_named d m f e w" and at: "\<exists>i. sj_ijq s = Ptr i \<and> ip_addr i = Ptr q" "\<exists>i. sj_ijq d = Ptr i"
    using s d by (auto simp: queue_named_def sem_named_def)
  then have hq: "handle_queue s = Some (Ptr q)" by (auto simp: handle_queue_def)
  have vals: "sw_vals w m = 1" "sw_vals w f = 0" "sw_vals w e = 127" "m_queues (os_mem (sw_os w)) q = Some jq_empty"
    using sys names(1-3) at(1) by (auto simp: sem_sys_of_def sem_init_def QUEUE_SIZE_def bind_eq_Some_conv)
  obtain b i where b: "os_blocks (sw_os w) = Suc b" "sj_ijq d = Ptr i" using blk at(2) gr0_implies_Suc by blast
  let ?w1 = "w\<lparr>sw_open := remove1 m (sw_open w), sw_names := (sw_names w)(sjq_name ?u sem_mutex_label := None),
      sw_os := (sw_os w)\<lparr>os_blocks := b\<rparr>\<rparr>"
  have del: "sem_jobqueue_delete all_ok (Ptr d) w = Some ?w1"
    by (rule sem_jobqueue_delete_ok [OF named_d usr _ b(2,1)]) (use no_fault_all_ok in \<open>simp add: no_fault_def\<close>)
  obtain j w2 where new: "sem_jobqueue_new all_sem_ok (Ptr (who 1)) ?w1 = Some (Returns
      (Ptr \<lparr>sj_mutex = Some ?k, sj_full = Some f, sj_empty = Some e, sj_ijq = Ptr j\<rparr>, w2))"
    and w2: "ip_addr j = Ptr q" "sw_vals w2 = (sw_vals w)(?k := 1)" "os_mem (sw_os w2) = os_mem (sw_os w)"
    by (rule late_handle [OF s usr p, of ?w1]) auto
  let ?t = "\<lparr>sj_mutex = Some ?k, sj_full = Some f, sj_empty = Some e, sj_ijq = Ptr j\<rparr>"
  have ht: "handle_queue ?t = Some (Ptr q)" using w2(1) by (simp add: handle_queue_def)
  have "two_mux m ?k f e q w2 1 1 0 127 jq_empty = w2"
    using vals names(4) w2(2,3) by (simp add: two_mux_def put_jq_def fun_upd_idem fun_upd_twist)
  then obtain u jq where "sched_run (live_step who) (live_may c)
      \<lparr>lv_world = w2, lv_new = (\<lambda>_. N_start)(0 := N_ret (Ptr s), 1 := N_ret (Ptr ?t)), lv_calls = sem_init 2\<rparr> (both_enqueue x y) = Some u"
    "ss_in (lv_calls u) = [copied x, copied y]" "m_queues (os_mem (sw_os (lv_world u))) q = Some jq" "jq_contents jq = [copied y, job_zero]"
    using two_mux_race [OF names(4,1-3) hq, of ?t "(\<lambda>_. N_start)(0 := N_ret (Ptr s), 1 := N_ret (Ptr ?t))" x y who c w2] ht xy by auto
  then show ?thesis using del new names hq ht
    by (intro exI [of _ ?w1] exI [of _ ?t] exI [of _ w2] exI [of _ u] exI [of _ jq]) auto
qed

text \<open>The handle of theory \<open>Simulation\<close>, on an empty queue.\<close>

definition unused :: "sem_world" where
  "unused = joinable\<lparr>sw_os := (sw_os joinable)\<lparr>os_mem := mem_of [] [jq_empty] True\<rparr>,
     sw_vals := (\<lambda>n. if n = 1 then 0 else if n = 2 then 127 else 1)\<rparr>"

lemma unused_ok: "queue_named joinable_handle 0 1 2 0 unused" "sem_sys_of 2 joinable_handle unused = Some (sem_init 2)"
  "user_ok (os_user (sw_os unused))" "0 < os_blocks (sw_os unused)"
proof -
  have "jq_ok 0 (mem_of [] [jq_empty] True)" using jq_inv_empty by (intro jq_ok_mem_of) simp_all
  moreover have "os_shm (sw_os unused) k = Some 0" for k by (simp add: unused_def joinable_def)
  ultimately show "queue_named joinable_handle 0 1 2 0 unused"
    using joinable_named by (simp add: unused_def queue_named_def sem_named_def Let_def)
  show "sem_sys_of 2 joinable_handle unused = Some (sem_init 2)"
    by (simp add: unused_def joinable_handle_def sem_sys_of_def sem_init_def mem_simps QUEUE_SIZE_def)
  show "user_ok (os_user (sw_os unused))" "0 < os_blocks (sw_os unused)"
    by (simp_all add: unused_def joinable_def os_start_def user_ok_def)
qed

lemma late_join_loses_job_witness:
  "\<exists>w1 t w2 u jq. sem_jobqueue_delete all_ok (Ptr joinable_handle) unused = Some w1 \<and>
    sem_jobqueue_new all_sem_ok (Ptr (sim_proc False)) w1 = Some (Returns (Ptr t, w2)) \<and>
    sched_run (live_step (\<lambda>_. sim_proc False)) (live_may 0)
      \<lparr>lv_world = w2, lv_new = (\<lambda>_. N_start)(0 := N_ret (Ptr joinable_handle), 1 := N_ret (Ptr t)), lv_calls = sem_init 2\<rparr>
      (both_enqueue job_zero job_zero) = Some u \<and>
    ss_in (lv_calls u) = [copied job_zero, copied job_zero] \<and> m_queues (os_mem (sw_os (lv_world u))) 0 = Some jq \<and>
    jq_contents jq = [copied job_zero, job_zero]"
proof -
  have "\<not> pr_is_init ((\<lambda>_. sim_proc False) (1 :: nat))" by (simp add: proc_of_def)
  from late_join_loses_job [OF unused_ok(1,1,2,3,4) this job_zero_NUL job_zero_NUL, of 0] show ?thesis
    by (elim exE conjE) (intro exI conjI)
qed

end
