(* ===== verification/Queue_Usage.thy ===== *)
theory Queue_Usage
  imports Jobqueue
begin

text \<open>
  The loops that \<^verbatim>\<open>jobqueue.h\<close> gives as the usage of its functions: fill a queue
  until it is full, and empty it, each with a variable of the caller or with jobs
  from \<^verbatim>\<open>malloc\<close> that are deleted after use. The loops are \<open>partial_function\<close>s;
  that they end is proved, and so is the one case in which they do not.
\<close>

section \<open>The loops\<close>

text \<open>\<^verbatim>\<open>while (!jobqueue_is_empty(jq)) { job_t* j = jobqueue_dequeue(jq, &dst); ... }\<close>\<close>

partial_function (option) drain_to :: "mem \<Rightarrow> nat ptr \<Rightarrow> job_loc ptr \<Rightarrow> (job_t list \<times> mem) option" where
  "drain_to m jq dst = do {
     e \<leftarrow> jobqueue_is_empty m jq;
     if e then Some ([], m)
     else do {
       (r, m1) \<leftarrow> jobqueue_dequeue m jq dst;
       j \<leftarrow> (case r of NULL \<Rightarrow> None | Ptr l \<Rightarrow> load_job m1 l);
       (js, m2) \<leftarrow> drain_to m1 jq dst;
       Some (j # js, m2) } }"

text \<open>The alternative with a new job for each, deleted at the end of the body.\<close>

partial_function (option) drain_new :: "mem \<Rightarrow> nat ptr \<Rightarrow> (job_t list \<times> mem) option" where
  "drain_new m jq = do {
     e \<leftarrow> jobqueue_is_empty m jq;
     if e then Some ([], m)
     else do {
       (r, m1) \<leftarrow> jobqueue_dequeue m jq NULL;
       j \<leftarrow> (case r of NULL \<Rightarrow> None | Ptr l \<Rightarrow> load_job m1 l);
       m2 \<leftarrow> job_delete m1 r;
       (js, m3) \<leftarrow> drain_new m2 jq;
       Some (j # js, m3) } }"

text \<open>
  \<^verbatim>\<open>while (!jobqueue_is_full(jq)) { job_t* j = job_set(&job, ...); jobqueue_enqueue(jq, j); }\<close>,
  the fields of the \<open>n\<close>-th job being \<open>f n\<close>.
\<close>

partial_function (option) fill_set ::
  "(nat \<Rightarrow> pid_t \<times> uint \<times> char list ptr) \<Rightarrow> mem \<Rightarrow> nat ptr \<Rightarrow> job_loc ptr \<Rightarrow> nat \<Rightarrow> mem option" where
  "fill_set f m jq job n = do {
     full \<leftarrow> jobqueue_is_full m jq;
     if full then Some m
     else do {
       (j, m1) \<leftarrow> (case f n of (p, i, s) \<Rightarrow> job_set m job p i s);
       m2 \<leftarrow> jobqueue_enqueue m1 jq j;
       fill_set f m2 jq job (Suc n) } }"

text \<open>The alternative with \<^verbatim>\<open>job_new\<close>; the job is deleted after the enqueue.\<close>

partial_function (option) fill_new ::
  "(nat \<Rightarrow> pid_t \<times> uint \<times> char list ptr) \<Rightarrow> mem \<Rightarrow> nat ptr \<Rightarrow> nat \<Rightarrow> mem option" where
  "fill_new f m jq n = do {
     full \<leftarrow> jobqueue_is_full m jq;
     if full then Some m
     else do {
       (j, m1) \<leftarrow> (case f n of (p, i, s) \<Rightarrow> job_new m p i s);
       m2 \<leftarrow> jobqueue_enqueue m1 jq j;
       m3 \<leftarrow> job_delete m2 j;
       fill_new f m3 jq (Suc n) } }"

section \<open>They end\<close>

lemma drain_to_ends:
  assumes "jq_at m q jq" "m_jobs m a = Some j0"
  shows "\<exists>m' jq'. drain_to m (Ptr q) (Ptr (Obj a)) = Some (jq_contents jq, m') \<and> jq_at m' q jq' \<and> jq_contents jq' = []"
  using assms
proof (induction "jq_contents jq" arbitrary: m jq j0)
  case Nil
  then show ?case by (subst drain_to.simps) (auto simp: jobqueue_is_empty_ok)
next
  case (Cons x xs)
  have ne: "jq_contents jq \<noteq> []" and x: "hd (jq_contents jq) = x" using Cons.hyps(2) by (metis list.distinct(1), metis list.sel(1))
  note deq = jq_deq_val [OF jq_atD(3) [OF Cons.prems(1)] ne]
  let ?m = "put_jq (put_job m (Obj a) x) q (deq_val jq)"
  have at: "jq_at ?m q (deq_val jq)"
    using jq_at_put_jq [OF jq_at_put_Obj [OF Cons.prems(1,2) job_ok_typ]] load_head(2) [OF Cons.prems(1) ne] deq x by blast
  have xs: "xs = jq_contents (deq_val jq)" using deq Cons.hyps(2) by (metis list.sel(3))
  have var: "m_jobs ?m a = Some x" by (simp add: mem_simps)
  obtain m' jq' where ih: "drain_to ?m (Ptr q) (Ptr (Obj a)) = Some (xs, m')" "jq_at m' q jq'" "jq_contents jq' = []"
    using Cons.hyps(1) [OF xs at var] xs by auto
  have "drain_to m (Ptr q) (Ptr (Obj a)) = Some (x # xs, m')"
    using ne x ih(1) jobqueue_dequeue_to [OF Cons.prems(1) ne Cons.prems(2)] var
    by (subst drain_to.simps) (simp add: jobqueue_is_empty_ok [OF Cons.prems(1)])
  then show ?case using ih(2,3) Cons.hyps(2) by auto
qed

text \<open>With \<^verbatim>\<open>malloc\<close> succeeding, every job made is freed again.\<close>

lemma alloc_then_free:
  assumes at: "jq_at m q jq" and ty: "job_typ x" and inv: "jq_inv jq'"
  shows "\<exists>m'. job_delete (put_jq (alloc_job m x) q jq') (Ptr (Obj (m_next m))) = Some m' \<and>
    jq_at m' q jq' \<and> m_jobs m' = m_jobs m \<and> m_avail m' = m_avail m"
proof -
  let ?m1 = "put_jq (alloc_job m x) q jq'"
  let ?m2 = "?m1\<lparr>m_jobs := (m_jobs ?m1)(m_next m := None), m_dyn := (m_dyn ?m1)(m_next m := False)\<rparr>"
  have new: "m_jobs m (m_next m) = None" using jq_atD(1) [OF at] by (simp add: wf_mem_def)
  have at1: "jq_at ?m1 q jq'" by (rule jq_at_put_jq [OF jq_at_alloc [OF at ty] inv])
  have "m_dyn ?m1 (m_next m)" by (simp add: mem_simps) (simp add: alloc_job_def)
  then have "job_delete ?m1 (Ptr (Obj (m_next m))) = Some ?m2" by (simp add: job_delete_def mem_simps)
  moreover have "wf_mem ?m2"
    using jq_atD(1) [OF at1] by (auto simp: wf_mem_def split: if_splits)
  then have "jq_at ?m2 q jq'" using at1 by (simp add: jq_at_def)
  moreover have "m_jobs ?m2 = m_jobs m" using new by (simp add: mem_simps fun_upd_idem)
  ultimately show ?thesis by (intro exI [of _ ?m2]) (simp add: mem_simps)
qed

lemma drain_new_ends:
  assumes "jq_at m q jq" "\<forall>n. m_avail m n"
  shows "\<exists>m' jq'. drain_new m (Ptr q) = Some (jq_contents jq, m') \<and> jq_at m' q jq' \<and> jq_contents jq' = [] \<and>
    m_jobs m' = m_jobs m"
  using assms
proof (induction "jq_contents jq" arbitrary: m jq)
  case Nil
  then show ?case by (subst drain_new.simps) (auto simp: jobqueue_is_empty_ok)
next
  case (Cons x xs)
  have ne: "jq_contents jq \<noteq> []" and x: "hd (jq_contents jq) = x" using Cons.hyps(2) by (metis list.distinct(1), metis list.sel(1))
  note deq = jq_deq_val [OF jq_atD(3) [OF Cons.prems(1)] ne]
  let ?m = "put_jq (alloc_job m x) q (deq_val jq)"
  have av: "m_avail m (m_next m)" using Cons.prems(2) by simp
  have xs: "xs = jq_contents (deq_val jq)" using deq Cons.hyps(2) by (metis list.sel(3))
  have "job_typ x" using load_head(2) [OF Cons.prems(1) ne] x job_ok_typ by blast
  from alloc_then_free [OF Cons.prems(1) this, of "deq_val jq"] deq obtain m2 where
    m2: "job_delete ?m (Ptr (Obj (m_next m))) = Some m2" "jq_at m2 q (deq_val jq)" "m_jobs m2 = m_jobs m"
      "m_avail m2 = m_avail m" by blast
  have "\<forall>n. m_avail m2 n" using Cons.prems(2) m2(4) by simp
  then obtain m' jq' where ih: "drain_new m2 (Ptr q) = Some (xs, m')" "jq_at m' q jq'" "jq_contents jq' = []"
    "m_jobs m' = m_jobs m2"
    using Cons.hyps(1) [OF xs m2(2)] xs by auto
  have "drain_new m (Ptr q) = Some (x # xs, m')"
    using ne x ih(1) m2(1) jobqueue_dequeue_new [OF Cons.prems(1) ne av]
    by (subst drain_new.simps) (simp add: jobqueue_is_empty_ok [OF Cons.prems(1)] mem_simps)
  then show ?case using ih(2,3,4) m2(3) Cons.hyps(2) by auto
qed

text \<open>The jobs that a filling loop sets, one after the other.\<close>

definition set_jobs :: "(nat \<Rightarrow> pid_t \<times> uint \<times> char list ptr) \<Rightarrow> nat list \<Rightarrow> job_t list" where
  "set_jobs f ns = map (\<lambda>n. case f n of (p, i, s) \<Rightarrow> mk_job p i (the (label_arg s))) ns"

lemma set_jobs_next:
  "set_jobs f [n..<n + Suc k] = (case f n of (p, i, s) \<Rightarrow> mk_job p i (the (label_arg s))) # set_jobs f [Suc n..<Suc n + k]"
proof -
  have "[n..<n + Suc k] = n # [Suc n..<Suc n + k]" by (simp add: upt_rec)
  then show ?thesis by (simp add: set_jobs_def)
qed

lemma fill_set_ends:
  assumes "jq_at m q jq" "m_jobs m a = Some j0" "\<forall>n. label_arg (snd (snd (f n))) \<noteq> None"
    and "length (jq_contents jq) + k = QUEUE_SIZE - 1"
  shows "\<exists>m' jq'. fill_set f m (Ptr q) (Ptr (Obj a)) n = Some m' \<and> jq_at m' q jq' \<and>
    jq_contents jq' = jq_contents jq @ set_jobs f [n..<n + k]"
  using assms(1,2,4)
proof (induction k arbitrary: m jq j0 n)
  case 0
  then show ?case by (subst fill_set.simps) (auto simp: jobqueue_is_full_ok set_jobs_def)
next
  case (Suc k)
  obtain p i s where f: "f n = (p, i, s)" by (metis prod_cases3)
  obtain t where t: "label_arg s = Some t" using assms(3) f by (metis option.exhaust snd_conv)
  let ?j = "mk_job p i t"
  have ok: "job_ok ?j" using job_ok_mk_job label_arg_NUL [OF t] by simp
  let ?m1 = "put_job m (Obj a) ?j"
  have set: "job_set m (Ptr (Obj a)) p i s = Some (Ptr (Obj a), ?m1)"
    by (rule job_set_ok [OF jq_atD(1) [OF Suc.prems(1)] _ t]) (simp add: Suc.prems(2))
  have at1: "jq_at ?m1 q jq" by (rule jq_at_put_Obj [OF Suc.prems(1,2)]) simp
  have room: "length (jq_contents jq) < QUEUE_SIZE - 1" "length (jq_contents jq) \<noteq> QUEUE_SIZE - 1"
    using Suc.prems(3) by simp_all
  have var: "m_jobs ?m1 a = Some ?j" by simp
  note enq = jq_enq_val [OF jq_atD(3) [OF Suc.prems(1)] room(1), of ?j]
  have at2: "jq_at (put_jq ?m1 q (enq_val jq ?j)) q (enq_val jq ?j)" using jq_at_put_jq [OF at1] enq by blast
  have len: "length (jq_contents (enq_val jq ?j)) + k = QUEUE_SIZE - 1" using enq Suc.prems(3) by simp
  have "m_jobs (put_jq ?m1 q (enq_val jq ?j)) a = Some ?j" by (simp add: mem_simps)
  from Suc.IH [OF at2 this len, of "Suc n"] obtain m' jq' where
    ih: "fill_set f (put_jq ?m1 q (enq_val jq ?j)) (Ptr q) (Ptr (Obj a)) (Suc n) = Some m'" "jq_at m' q jq'"
      "jq_contents jq' = jq_contents (enq_val jq ?j) @ set_jobs f [Suc n..<Suc n + k]" by blast
  have "fill_set f m (Ptr q) (Ptr (Obj a)) n = Some m'"
    using set f room(2) jobqueue_enqueue_room [OF at1 room(2) var job_ok_has_NUL [OF ok]] ih(1)
    by (subst fill_set.simps) (simp add: jobqueue_is_full_ok [OF Suc.prems(1)] del: put_job.simps)
  moreover have "jq_contents jq @ set_jobs f [n..<n + Suc k] = jq_contents (enq_val jq ?j) @ set_jobs f [Suc n..<Suc n + k]"
    unfolding set_jobs_next using enq copied_ok [OF ok] f t by simp
  ultimately show ?case using ih(2,3) by auto
qed

lemma fill_new_ends:
  assumes "jq_at m q jq" "\<forall>n. m_avail m n" "\<forall>n. label_arg (snd (snd (f n))) \<noteq> None"
    and "length (jq_contents jq) + k = QUEUE_SIZE - 1"
  shows "\<exists>m' jq'. fill_new f m (Ptr q) n = Some m' \<and> jq_at m' q jq' \<and>
    jq_contents jq' = jq_contents jq @ set_jobs f [n..<n + k] \<and> m_jobs m' = m_jobs m"
  using assms(1,2,4)
proof (induction k arbitrary: m jq n)
  case 0
  then show ?case by (subst fill_new.simps) (auto simp: jobqueue_is_full_ok set_jobs_def)
next
  case (Suc k)
  obtain p i s where f: "f n = (p, i, s)" by (metis prod_cases3)
  obtain t where t: "label_arg s = Some t" using assms(3) f by (metis option.exhaust snd_conv)
  let ?j = "mk_job p i t"
  have ok: "job_ok ?j" using job_ok_mk_job label_arg_NUL [OF t] by simp
  let ?m1 = "alloc_job m ?j"
  have new: "job_new m p i s = Some (Ptr (Obj (m_next m)), ?m1)"
    using Suc.prems(2) by (intro job_new_ok [OF jq_atD(1) [OF Suc.prems(1)] _ t]) simp
  have at1: "jq_at ?m1 q jq" by (rule jq_at_alloc [OF Suc.prems(1)]) simp
  have room: "length (jq_contents jq) < QUEUE_SIZE - 1" "length (jq_contents jq) \<noteq> QUEUE_SIZE - 1"
    using Suc.prems(3) by simp_all
  have var: "m_jobs ?m1 (m_next m) = Some ?j" by (simp add: mem_simps)
  note enq = jq_enq_val [OF jq_atD(3) [OF Suc.prems(1)] room(1), of ?j]
  note put = jobqueue_enqueue_room [OF at1 room(2) var job_ok_has_NUL [OF ok]]
  from alloc_then_free [OF Suc.prems(1), of ?j "enq_val jq ?j"] enq obtain m3 where
    m3: "job_delete (put_jq ?m1 q (enq_val jq ?j)) (Ptr (Obj (m_next m))) = Some m3" "jq_at m3 q (enq_val jq ?j)"
      "m_jobs m3 = m_jobs m" "m_avail m3 = m_avail m" by auto
  have "length (jq_contents (enq_val jq ?j)) + k = QUEUE_SIZE - 1" using enq Suc.prems(3) by simp
  with Suc.IH [OF m3(2), of "Suc n"] Suc.prems(2) m3(4) obtain m' jq' where
    ih: "fill_new f m3 (Ptr q) (Suc n) = Some m'" "jq_at m' q jq'"
      "jq_contents jq' = jq_contents (enq_val jq ?j) @ set_jobs f [Suc n..<Suc n + k]" "m_jobs m' = m_jobs m3" by auto
  have "fill_new f m (Ptr q) n = Some m'"
    using new f room(2) put m3(1) ih(1)
    by (subst fill_new.simps) (simp add: jobqueue_is_full_ok [OF Suc.prems(1)])
  moreover have "jq_contents jq @ set_jobs f [n..<n + Suc k] = jq_contents (enq_val jq ?j) @ set_jobs f [Suc n..<Suc n + k]"
    unfolding set_jobs_next using enq copied_ok [OF ok] f t by simp
  ultimately show ?case using ih(2,3,4) m3(3) by auto
qed

text \<open>
  When \<^verbatim>\<open>malloc\<close> fails, an iteration of the loop with \<^verbatim>\<open>job_new\<close> is defined and
  leaves the queue as it was, so the loop goes on for ever.
\<close>

lemma fill_new_no_progress:
  assumes "jq_at m q jq" "length (jq_contents jq) \<noteq> QUEUE_SIZE - 1" "\<not> m_avail m (m_next m)"
  shows "fill_new f m (Ptr q) n = fill_new f (m\<lparr>m_next := Suc (m_next m)\<rparr>) (Ptr q) (Suc n)"
proof -
  obtain p i s where f: "f n = (p, i, s)" by (metis prod_cases3)
  show ?thesis
    by (subst fill_new.simps)
      (simp add: jobqueue_is_full_ok [OF assms(1)] assms(2) f job_new_fail [OF assms(3)] jobqueue_enqueue_def job_delete_def)
qed

lemma fill_new_diverges:
  assumes "jq_at m q jq" "length (jq_contents jq) \<noteq> QUEUE_SIZE - 1" "\<forall>n. \<not> m_avail m n"
  shows "fill_new f m (Ptr q) n = None"
proof -
  have "jq_at m q jq \<longrightarrow> (\<forall>n. \<not> m_avail m n) \<longrightarrow> pq \<noteq> Ptr q" if "fill_new g m pq n = Some m'" for g m pq n m'
  proof (rule fill_new.raw_induct [where P = "\<lambda>g m pq n m'. jq_at m q jq \<longrightarrow> (\<forall>n. \<not> m_avail m n) \<longrightarrow> pq \<noteq> Ptr q", OF _ that],
      intro impI notI)
    fix rec f m n m' pq
    assume ih: "\<And>g m pq n m'. rec g m pq n = Some m' \<Longrightarrow> jq_at m q jq \<longrightarrow> (\<forall>n. \<not> m_avail m n) \<longrightarrow> pq \<noteq> Ptr q"
      and run: "do { full \<leftarrow> jobqueue_is_full m pq;
        if full then Some m
        else do { (j, m1) \<leftarrow> (case f n of (p, i, s) \<Rightarrow> job_new m p i s);
          m2 \<leftarrow> jobqueue_enqueue m1 pq j; m3 \<leftarrow> job_delete m2 j; rec f m3 pq (Suc n) } } = Some m'"
      and at: "jq_at m q jq" and av: "\<forall>n. \<not> m_avail m n" and pq: "pq = Ptr q"
    obtain p i s where f: "f n = (p, i, s)" by (metis prod_cases3)
    have "rec f (m\<lparr>m_next := Suc (m_next m)\<rparr>) (Ptr q) (Suc n) = Some m'"
      using run av unfolding pq
      by (simp add: jobqueue_is_full_ok [OF at] assms(2) f job_new_fail jobqueue_enqueue_def job_delete_def)
    from ih [OF this] show False using jq_at_next [OF at] av by simp
  qed
  then show ?thesis using assms(1,3) by (metis not_None_eq)
qed


text \<open>
  C23: the loops of \<^verbatim>\<open>jobqueue.h\<close> that empty a queue end, on any queue, with every
  queued job handed over once and in order and the queue empty; the one that
  dequeues into new jobs gives all of them back when \<^verbatim>\<open>malloc\<close> does not fail.
\<close>

theorem drain_loops_end:
  assumes "jq_ok q m" "m_jobs m a = Some j0"
  shows "(\<exists>m'. drain_to m (Ptr q) (Ptr (Obj a)) = Some (jq_list q m, m') \<and> jq_ok q m' \<and> jq_list q m' = []) \<and>
    ((\<forall>n. m_avail m n) \<longrightarrow>
      (\<exists>m'. drain_new m (Ptr q) = Some (jq_list q m, m') \<and> jq_ok q m' \<and> jq_list q m' = [] \<and> m_jobs m' = m_jobs m))"
proof -
  obtain jq where jq: "jq_at m q jq" "jq_list q m = jq_contents jq" using assms(1) by (rule jq_okD)
  show ?thesis
    using drain_to_ends [OF jq(1) assms(2)] drain_new_ends [OF jq(1)] jq(2) jq_okI by metis
qed

lemma one_job_ok: "job_ok (mk_job 7 1 ''a'')" "job_typ job_zero"
  by (rule job_ok_mk_job, simp add: NUL_def) simp

lemma drain_loops_end_witness:
  "\<exists>m'. drain_to (mem_of [job_zero] [jq_one (mk_job 7 1 ''a'')] True) (Ptr 0) (Ptr (Obj 0)) = Some ([mk_job 7 1 ''a''], m') \<and>
    jq_list 0 m' = []"
proof -
  let ?m = "mem_of [job_zero] [jq_one (mk_job 7 1 ''a'')] True"
  have q: "jq_ok 0 ?m" "jq_list 0 ?m = [mk_job 7 1 ''a'']"
    using jq_ok_mem_of [of "[job_zero]" "jq_one (mk_job 7 1 ''a'')" True] jq_one [OF one_job_ok(1)] by simp_all
  have "m_jobs ?m 0 = Some job_zero" by (simp add: mem_simps)
  from drain_loops_end [OF q(1) this] q(2) show ?thesis by auto
qed

text \<open>
  C32: the loops that fill a queue end with the queue full: after the jobs that were
  on it come the jobs set in the loop, in order and with their labels padded, as
  many as there was room for. With \<^verbatim>\<open>job_new\<close> every job made is freed again; but when
  \<^verbatim>\<open>malloc\<close> fails and there is room, each round is defined and leaves the queue as it
  was, and the loop never ends.
\<close>

theorem fill_loops_end:
  assumes "jq_ok q m" "m_jobs m a = Some j0" "\<forall>n. label_arg (snd (snd (f n))) \<noteq> None"
  shows "(\<exists>m'. fill_set f m (Ptr q) (Ptr (Obj a)) 0 = Some m' \<and> jq_ok q m' \<and>
      jq_list q m' = jq_list q m @ set_jobs f [0..<127 - length (jq_list q m)]) \<and>
    ((\<forall>n. m_avail m n) \<longrightarrow>
      (\<exists>m'. fill_new f m (Ptr q) 0 = Some m' \<and> jq_ok q m' \<and> m_jobs m' = m_jobs m \<and>
        jq_list q m' = jq_list q m @ set_jobs f [0..<127 - length (jq_list q m)])) \<and>
    ((\<forall>n. \<not> m_avail m n) \<and> length (jq_list q m) < 127 \<longrightarrow>
      fill_new f m (Ptr q) 0 = fill_new f (m\<lparr>m_next := Suc (m_next m)\<rparr>) (Ptr q) 1 \<and>
      fill_new f m (Ptr q) 0 = None)"
proof -
  obtain jq where jq: "jq_at m q jq" "jq_list q m = jq_contents jq" using assms(1) by (rule jq_okD)
  have "length (jq_contents jq) + (127 - length (jq_contents jq)) = QUEUE_SIZE - 1"
    using jq_bounded [OF assms(1)] jq(2) by (simp add: QUEUE_SIZE_def)
  note ends = fill_set_ends [OF jq(1) assms(2,3) this, of 0] fill_new_ends [OF jq(1) _ assms(3) this, of 0]
  have room: "length (jq_list q m) < 127 \<Longrightarrow> length (jq_contents jq) \<noteq> QUEUE_SIZE - 1"
    using jq(2) by (simp add: QUEUE_SIZE_def)
  show ?thesis
  proof (intro conjI impI)
    show "\<exists>m'. fill_set f m (Ptr q) (Ptr (Obj a)) 0 = Some m' \<and> jq_ok q m' \<and>
        jq_list q m' = jq_list q m @ set_jobs f [0..<127 - length (jq_list q m)]"
      using ends(1) jq(2) jq_okI by fastforce
  next
    assume "\<forall>n. m_avail m n"
    from ends(2) [OF this] show "\<exists>m'. fill_new f m (Ptr q) 0 = Some m' \<and> jq_ok q m' \<and> m_jobs m' = m_jobs m \<and>
        jq_list q m' = jq_list q m @ set_jobs f [0..<127 - length (jq_list q m)]"
      using jq(2) jq_okI by fastforce
  next
    assume a: "(\<forall>n. \<not> m_avail m n) \<and> length (jq_list q m) < 127"
    show "fill_new f m (Ptr q) 0 = fill_new f (m\<lparr>m_next := Suc (m_next m)\<rparr>) (Ptr q) 1"
      unfolding One_nat_def using fill_new_no_progress [OF jq(1) room, of f 0] a by blast
    show "fill_new f m (Ptr q) 0 = None"
      using fill_new_diverges [OF jq(1) room, of f 0] a by blast
  qed
qed

lemma fill_loops_end_witness:
  "\<exists>m1 m2. fill_set (\<lambda>n. (7, 2, NULL)) (mem_of [job_zero] [jq_one (mk_job 7 1 ''a'')] True) (Ptr 0) (Ptr (Obj 0)) 0 = Some m1 \<and>
    length (jq_list 0 m1) = 127 \<and> hd (jq_list 0 m1) = mk_job 7 1 ''a'' \<and>
    fill_new (\<lambda>n. (7, 2, NULL)) (mem_of [job_zero] [jq_one (mk_job 7 1 ''a'')] True) (Ptr 0) 0 = Some m2 \<and>
    jq_list 0 m2 = jq_list 0 m1 \<and>
    fill_new (\<lambda>n. (7, 2, NULL)) (mem_of [job_zero] [jq_one (mk_job 7 1 ''a'')] False) (Ptr 0) 0 = None"
proof -
  let ?m = "mem_of [job_zero] [jq_one (mk_job 7 1 ''a'')]"
  have q: "jq_ok 0 (?m b)" "jq_list 0 (?m b) = [mk_job 7 1 ''a'']" for b
    using jq_ok_mem_of [of "[job_zero]" "jq_one (mk_job 7 1 ''a'')" b] jq_one [OF one_job_ok(1)] by simp_all
  have j: "m_jobs (?m b) 0 = Some job_zero" and av: "m_avail (?m b) n = b" for b n by (simp_all add: mem_simps)
  have f: "\<forall>n. label_arg (snd (snd ((\<lambda>n. (7, 2, NULL)) n))) \<noteq> None" by (simp add: label_arg_def)
  from fill_loops_end [OF q(1) j f, of True] fill_loops_end [OF q(1) j f, of False] q(2) av show ?thesis
    by (auto simp: set_jobs_def)
qed

end
