(* ===== verification/Test_Queue.thy ===== *)
theory Test_Queue
  imports Jobqueue
begin

text \<open>
  The queue that \<^verbatim>\<open>test/test_jobqueue_common.c\<close> keeps beside the one it tests: its own
  functions on the same indices and the same array, written without those of
  \<^verbatim>\<open>jobqueue.c\<close> and \<^verbatim>\<open>job.c\<close>. Labels are copied as they are, not padded. On jobs with
  full labels, which are all that the tests enqueue, the two agree. The handle is an argument for the tests on NULL.
\<close>

section \<open>Jobs\<close>

definition equal_jobs :: "mem \<Rightarrow> job_loc ptr \<Rightarrow> job_loc ptr \<Rightarrow> bool option" where
  "equal_jobs m j1 j2 = (case (j1, j2) of
     (Ptr l1, Ptr l2) \<Rightarrow> do {
       a \<leftarrow> load_job m l1;
       b \<leftarrow> load_job m l2;
       if j_pid a = j_pid b \<and> j_id a = j_id b then do {
         d \<leftarrow> strncmp (j_label a) (j_label b) MAX_NAME_SIZE;
         Some (d = 0) }
       else Some False }
   | _ \<Rightarrow> None)"

definition set_job :: "mem \<Rightarrow> job_loc ptr \<Rightarrow> pid_t \<Rightarrow> uint \<Rightarrow> char list ptr \<Rightarrow> mem option" where
  "set_job m j p i label = (case j of
     NULL \<Rightarrow> None
   | Ptr l \<Rightarrow> do {
       j0 \<leftarrow> load_job m l;
       m1 \<leftarrow> store_job m l (j0\<lparr>j_pid := p, j_id := i\<rparr>);
       j1 \<leftarrow> load_job m1 l;
       lab \<leftarrow> strncpy (j_label j1)
         (case label of NULL \<Rightarrow> replicate 31 CHR ''*'' @ [NUL] | Ptr s \<Rightarrow> s) (MAX_NAME_SIZE - 1);
       lab1 \<leftarrow> poke lab (MAX_NAME_SIZE - 1) NUL;
       store_job m1 l (j1\<lparr>j_label := lab1\<rparr>) })"

text \<open>\<^verbatim>\<open>strncpy\<close> between overlapping objects is undefined.\<close>

definition copy_job :: "mem \<Rightarrow> job_loc ptr \<Rightarrow> job_loc ptr \<Rightarrow> mem option" where
  "copy_job m j1 j2 = (case j2 of
     NULL \<Rightarrow> None
   | Ptr s \<Rightarrow> do {
       j \<leftarrow> load_job m s;
       require (j1 \<noteq> j2);
       set_job m j1 (j_pid j) (j_id j) (Ptr (j_label j)) })"

definition init_job :: "mem \<Rightarrow> job_loc ptr \<Rightarrow> mem option" where
  "init_job m job = (case job of
     NULL \<Rightarrow> None
   | Ptr l \<Rightarrow> do {
       j \<leftarrow> load_job m l;
       lab \<leftarrow> memset (j_label j) NUL MAX_NAME_SIZE;
       store_job m l (j\<lparr>j_pid := 0, j_id := 0, j_label := lab\<rparr>) })"

section \<open>The queue\<close>

definition tq_is_full :: "'h ptr \<Rightarrow> nat \<Rightarrow> mem \<Rightarrow> bool option" where
  "tq_is_full q a m = (if q = NULL then Some True
     else do { jq \<leftarrow> m_queues m a; n \<leftarrow> next_index jq (q_tail jq); Some (q_head jq = n) })"

definition tq_is_empty :: "'h ptr \<Rightarrow> nat \<Rightarrow> mem \<Rightarrow> bool option" where
  "tq_is_empty q a m = (if q = NULL then Some True
     else do { jq \<leftarrow> m_queues m a; Some (q_head jq = q_tail jq) })"

definition tq_dequeue :: "'h ptr \<Rightarrow> nat \<Rightarrow> mem \<Rightarrow> job_loc ptr \<Rightarrow> (job_loc ptr \<times> mem) option" where
  "tq_dequeue q a m j = do {
     e \<leftarrow> tq_is_empty q a m;
     if e then Some (NULL, m)
     else do {
       jq \<leftarrow> m_queues m a;
       let hj = Ptr (Slot a (q_head jq));
       m1 \<leftarrow> copy_job m j hj;
       m2 \<leftarrow> init_job m1 hj;
       jq2 \<leftarrow> m_queues m2 a;
       h \<leftarrow> next_index jq2 (q_head jq2);
       Some (j, put_jq m2 a (jq2\<lparr>q_head := h\<rparr>)) } }"

definition tq_enqueue :: "'h ptr \<Rightarrow> nat \<Rightarrow> mem \<Rightarrow> job_loc ptr \<Rightarrow> mem option" where
  "tq_enqueue q a m j = do {
     f \<leftarrow> tq_is_full q a m;
     if f then Some m
     else do {
       jq \<leftarrow> m_queues m a;
       m1 \<leftarrow> copy_job m (Ptr (Slot a (q_tail jq))) j;
       jq1 \<leftarrow> m_queues m1 a;
       t \<leftarrow> next_index jq1 (q_tail jq1);
       Some (put_jq m1 a (jq1\<lparr>q_tail := t\<rparr>)) } }"

section \<open>Agreement with the library\<close>

lemma strncpy_full:
  assumes "length d = MAX_NAME_SIZE" "length s = MAX_NAME_SIZE - 1" "NUL \<notin> set s"
  shows "strncpy d (s @ [NUL]) (MAX_NAME_SIZE - 1) = Some (s @ [d ! (MAX_NAME_SIZE - 1)])"
proof -
  have "c_strn (s @ [NUL]) (length s) = Some s" using assms(3) by (induction s) auto
  then show ?thesis
    using assms drop_last [of d "MAX_NAME_SIZE - 1"] by (simp add: strncpy_def) (simp add: MAX_NAME_SIZE_def)
qed

lemma poke_last: "length s = n \<Longrightarrow> poke (s @ [c]) n NUL = Some (s @ [NUL])"
  by (simp add: poke_def list_update_append)

lemma set_job_full:
  assumes "wf_mem m" "load_job m l = Some j0" "length s = MAX_NAME_SIZE - 1" "NUL \<notin> set s"
    "(case lab of NULL \<Rightarrow> replicate 31 CHR ''*'' @ [NUL] | Ptr b \<Rightarrow> b) = s @ [NUL]"
  shows "set_job m (Ptr l) p i lab = Some (put_job m l \<lparr>j_pid = p, j_id = i, j_label = s @ [NUL]\<rparr>)"
proof -
  have "length (j_label j0) = MAX_NAME_SIZE" using wf_load [OF assms(1,2)] by (simp add: job_typ_def)
  then show ?thesis
    using assms(2-5) by (simp add: set_job_def mem_simps strncpy_full poke_last) (cases j0; simp)
qed

lemma set_job_stars:
  assumes "wf_mem m" "load_job m l = Some j0"
  shows "set_job m (Ptr l) p i NULL = Some (put_job m l (mk_job p i []))"
  using set_job_full [OF assms, of "replicate 31 CHR ''*''" NULL p i]
  by (simp add: mk_job_def pad_label_short) (simp add: MAX_NAME_SIZE_def PAD_CHAR_def NUL_def)

lemma copy_job_full:
  assumes "wf_mem m" "load_job m s = Some j" "load_job m d = Some j0" "d \<noteq> s" "job_ok j"
  shows "copy_job m (Ptr d) (Ptr s) = Some (put_job m d j)"
proof -
  have eq: "\<lparr>j_pid = j_pid j, j_id = j_id j, j_label = job_str j @ [NUL]\<rparr> = j" and lab: "j_label j = job_str j @ [NUL]"
    using job_ok_label(3) [OF assms(5)] by simp_all
  have "set_job m (Ptr d) (j_pid j) (j_id j) (Ptr (j_label j)) = Some (put_job m d j)"
    using set_job_full [OF assms(1,3) job_ok_label(2) [OF assms(5)] job_str_NUL, of "Ptr (j_label j)" "j_pid j" "j_id j"]
    unfolding eq using lab by simp
  then show ?thesis using assms(2,4) by (simp add: copy_job_def)
qed

lemma init_job_library: "init_job m (Ptr l) = job_init m (Ptr l)"
  by (simp add: init_job_def job_init_def)

lemma tq_observe: "tq_is_full (Ptr h) a m = jobqueue_is_full m (Ptr a)" "tq_is_empty (Ptr h) a m = jobqueue_is_empty m (Ptr a)"
  by (simp_all add: tq_is_full_def tq_is_empty_def jobqueue_is_full_def jobqueue_is_empty_def)

lemma tq_enqueue_library:
  assumes at: "jq_at m a jq" and x: "m_jobs m b = Some x" "job_ok x"
  shows "tq_enqueue (Ptr h) a m (Ptr (Obj b)) = jobqueue_enqueue m (Ptr a) (Ptr (Obj b))"
proof (cases "length (jq_contents jq) = QUEUE_SIZE - 1")
  case True
  then show ?thesis by (simp add: tq_enqueue_def tq_observe jobqueue_enqueue_def jobqueue_is_full_ok [OF at])
next
  case False
  note r = jq_inv_ranges [OF jq_atD(3) [OF at]]
  have "load_job m (Obj b) = Some x" using x(1) by simp
  from copy_job_full [OF jq_atD(1) [OF at] this load_Slot [OF at r(3,4)] _ x(2)]
    job_copy_to [OF jq_atD(1) [OF at] this load_Slot [OF at r(3,4)] _ job_ok_has_NUL [OF x(2)]]
  show ?thesis
    using False by (simp add: tq_enqueue_def tq_observe jobqueue_enqueue_def jobqueue_is_full_ok [OF at] jq_atD [OF at] copied_ok [OF x(2)])
qed

lemma tq_dequeue_library:
  assumes at: "jq_at m a jq" and x: "m_jobs m b = Some x"
  shows "tq_dequeue (Ptr h) a m (Ptr (Obj b)) = jobqueue_dequeue m (Ptr a) (Ptr (Obj b))"
proof (cases "jq_contents jq = []")
  case True
  then show ?thesis by (simp add: tq_dequeue_def tq_observe jobqueue_dequeue_def jobqueue_is_empty_ok [OF at])
next
  case False
  note m = jq_atD [OF at] and hd = load_head [OF at False]
  have b: "load_job m (Obj b) = Some x" using x by simp
  have at1: "jq_at (put_job m (Obj b) (hd (jq_contents jq))) a jq"
    by (rule jq_at_put_Obj [OF at x job_ok_typ [OF hd(2)]])
  have "copy_job m (Ptr (Obj b)) (Ptr (Slot a (q_head jq))) = Some (put_job m (Obj b) (hd (jq_contents jq)))"
    by (rule copy_job_full [OF m(1) hd(1) b _ hd(2)]) simp
  then have "tq_dequeue (Ptr h) a m (Ptr (Obj b)) = do {
      m2 \<leftarrow> advance_head (put_job m (Obj b) (hd (jq_contents jq))) a; Some (Ptr (Obj b), m2) }"
    using False m(2) at1
    by (simp add: tq_dequeue_def tq_observe jobqueue_is_empty_ok [OF at] Let_def init_job_library advance_head_def jq_atD(2) del: put_job.simps)
  then show ?thesis
    by (simp add: jobqueue_dequeue_to [OF at False x] advance_head_ok [OF at1] del: put_job.simps)
qed

text \<open>A variable that holds a job with a full label, and the calls the tests make.\<close>

definition full_var :: "mem \<Rightarrow> job_loc ptr \<Rightarrow> bool" where
  "full_var m p \<longleftrightarrow> (\<exists>b x. p = Ptr (Obj b) \<and> m_jobs m b = Some x \<and> job_ok x)"

datatype tq_call = T_is_full | T_is_empty | T_enqueue "job_loc ptr" | T_dequeue "job_loc ptr"

datatype tq_result = TR_void | TR_bool bool | TR_ptr "job_loc ptr"

fun test_call :: "mem \<Rightarrow> tq_call \<Rightarrow> bool" where
  "test_call m (T_enqueue p) \<longleftrightarrow> full_var m p"
| "test_call m (T_dequeue d) \<longleftrightarrow> own_var m d"
| "test_call m _ \<longleftrightarrow> True"

text \<open>The calls on the queue of the tests, and on that of the library.\<close>

fun tq_do :: "'h \<Rightarrow> nat \<Rightarrow> tq_call \<Rightarrow> mem \<Rightarrow> (tq_result \<times> mem) option" where
  "tq_do h a T_is_full m = do { b \<leftarrow> tq_is_full (Ptr h) a m; Some (TR_bool b, m) }"
| "tq_do h a T_is_empty m = do { b \<leftarrow> tq_is_empty (Ptr h) a m; Some (TR_bool b, m) }"
| "tq_do h a (T_enqueue p) m = do { t \<leftarrow> tq_enqueue (Ptr h) a m p; Some (TR_void, t) }"
| "tq_do h a (T_dequeue d) m = do { (r, t) \<leftarrow> tq_dequeue (Ptr h) a m d; Some (TR_ptr r, t) }"

fun library_do :: "nat \<Rightarrow> tq_call \<Rightarrow> mem \<Rightarrow> (tq_result \<times> mem) option" where
  "library_do a T_is_full m = do { b \<leftarrow> jobqueue_is_full m (Ptr a); Some (TR_bool b, m) }"
| "library_do a T_is_empty m = do { b \<leftarrow> jobqueue_is_empty m (Ptr a); Some (TR_bool b, m) }"
| "library_do a (T_enqueue p) m = do { t \<leftarrow> jobqueue_enqueue m (Ptr a) p; Some (TR_void, t) }"
| "library_do a (T_dequeue d) m = do { (r, t) \<leftarrow> jobqueue_dequeue m (Ptr a) d; Some (TR_ptr r, t) }"

fun calls_run :: "(tq_call \<Rightarrow> mem \<Rightarrow> (tq_result \<times> mem) option) \<Rightarrow> tq_call list \<Rightarrow> mem \<Rightarrow> (tq_result list \<times> mem) option" where
  "calls_run f [] m = Some ([], m)"
| "calls_run f (c # cs) m = do {
     (r, m1) \<leftarrow> f c m;
     (rs, t) \<leftarrow> calls_run f cs m1;
     Some (r # rs, t) }"

text \<open>One call, on either; the variables keep their jobs, or one gets a job with a full label.\<close>

definition one_full :: "mem \<Rightarrow> mem \<Rightarrow> bool" where
  "one_full m t \<longleftrightarrow> m_jobs t = m_jobs m \<or>
     (\<exists>b x y. m_jobs m b = Some y \<and> job_ok x \<and> m_jobs t = (m_jobs m)(b \<mapsto> x))"

lemma one_fullI: "m_jobs t = m_jobs m \<Longrightarrow> one_full m t"
  "m_jobs m b = Some y \<Longrightarrow> job_ok x \<Longrightarrow> m_jobs t = (m_jobs m)(b \<mapsto> x) \<Longrightarrow> one_full m t"
  by (auto simp: one_full_def)

lemma library_call:
  assumes at: "jq_at m a jq" and c: "test_call m c"
  shows "tq_do h a c m = library_do a c m"
    and "\<exists>r t jq'. library_do a c m = Some (r, t) \<and> jq_at t a jq' \<and> one_full m t"
proof -
  show "tq_do h a c m = library_do a c m"
    using c by (cases c) (auto simp: tq_observe full_var_def tq_enqueue_library [OF at] tq_dequeue_library [OF at] elim!: own_varE)
  note inv = jq_atD(3) [OF at]
  show "\<exists>r t jq'. library_do a c m = Some (r, t) \<and> jq_at t a jq' \<and> one_full m t"
  proof (cases c)
    case (T_enqueue p)
    then obtain b x where p: "p = Ptr (Obj b)" "m_jobs m b = Some x" "job_ok x" using c by (auto simp: full_var_def)
    show ?thesis
    proof (cases "length (jq_contents jq) = QUEUE_SIZE - 1")
      case True
      then show ?thesis using T_enqueue at one_fullI(1) by (auto simp: jobqueue_enqueue_full [OF at])
    next
      case False
      then have "length (jq_contents jq) < QUEUE_SIZE - 1"
        using jq_count_less [of jq] length_jq_contents [OF inv] by (simp add: QUEUE_SIZE_def)
      then have "jq_inv (enq_val jq x)" using jq_enq_val [OF inv] by blast
      then show ?thesis using T_enqueue p(1) jq_at_put_jq [OF at] one_fullI(1)
        by (auto simp: jobqueue_enqueue_room [OF at False p(2) job_ok_has_NUL [OF p(3)]] mem_simps)
    qed
  next
    case (T_dequeue d)
    then obtain b y where d: "d = Ptr (Obj b)" "m_jobs m b = Some y" using c by (auto elim: own_varE)
    show ?thesis
    proof (cases "jq_contents jq = []")
      case True
      then show ?thesis using T_dequeue at one_fullI(1) by (auto simp: jobqueue_dequeue_empty [OF at])
    next
      case False
      note x = load_head(2) [OF at False] and inv' = conjunct1 [OF jq_deq_val [OF inv False]]
      let ?t = "put_jq (put_job m (Obj b) (hd (jq_contents jq))) a (deq_val jq)"
      have "jq_at ?t a (deq_val jq)" by (rule jq_at_put_jq [OF jq_at_put_Obj [OF at d(2) job_ok_typ [OF x]] inv'])
      moreover have "one_full m ?t" by (rule one_fullI(2) [OF d(2) x]) (simp add: mem_simps)
      ultimately show ?thesis using T_dequeue d(1) jobqueue_dequeue_to [OF at False d(2)] by auto
    qed
  qed (use at one_fullI(1) in \<open>auto simp: jobqueue_is_empty_ok [OF at] jobqueue_is_full_ok [OF at]\<close>)
qed

lemma test_call_kept:
  assumes "test_call m c" "one_full m t"
  shows "test_call t c"
proof -
  have "own_var m p \<Longrightarrow> own_var t p" "full_var m p \<Longrightarrow> full_var t p" for p
    using assms(2) by (auto simp: one_full_def own_var_def full_var_def split: ptr.splits job_loc.splits)
  then show ?thesis using assms(1) by (cases c) auto
qed

section \<open>Property\<close>

text \<open>
  C22: the queue of the tests and the queue of the library agree on the calls that
  the tests make: from any queue that satisfies the invariant, whatever its indices, any
  sequence of enqueue, dequeue, is-full and is-empty calls is defined and gives the same
  results and the same memory with the functions of the test suite as with those of
  \<^verbatim>\<open>jobqueue.c\<close>. Assumed: a job that is enqueued is in an object of the caller and
  has a label of 31 characters, as all jobs that the tests enqueue have (of a
  shorter label the library queues a padded copy and the queue of the tests an
  unpadded one), and a job is dequeued into an object of the caller, not NULL. The
  test suite has no reference for the two peeks.
\<close>

theorem test_queue_agrees:
  assumes "jq_ok a m" "\<forall>c \<in> set cs. test_call m c"
  shows "calls_run (tq_do h a) cs m = calls_run (library_do a) cs m \<and> calls_run (tq_do h a) cs m \<noteq> None"
proof -
  obtain jq where "jq_at m a jq" using assms(1) by (rule jq_okD)
  then show ?thesis using assms(2)
  proof (induction cs arbitrary: m jq)
    case (Cons c cs)
    obtain r t jq' where t: "library_do a c m = Some (r, t)" "jq_at t a jq'" "one_full m t"
      using library_call(2) [OF Cons.prems(1), of c] Cons.prems(2) by auto
    have "\<forall>c \<in> set cs. test_call t c" using Cons.prems(2) test_call_kept [OF _ t(3)] by simp
    from Cons.IH [OF t(2) this] obtain rs u where "calls_run (tq_do h a) cs t = Some (rs, u)"
      "calls_run (library_do a) cs t = Some (rs, u)" by (metis not_None_eq surj_pair)
    then show ?case using library_call(1) [OF Cons.prems(1), of c h] Cons.prems(2) t(1) by simp
  qed simp
qed

lemma test_queue_agrees_witness:
  "calls_run (tq_do () 0) [T_enqueue (Ptr (Obj 0)), T_is_empty, T_dequeue (Ptr (Obj 1)), T_dequeue (Ptr (Obj 1))]
      (mem_of [mk_job 7 1 ''a'', job_zero] [jq_empty] True)
    = calls_run (library_do 0) [T_enqueue (Ptr (Obj 0)), T_is_empty, T_dequeue (Ptr (Obj 1)), T_dequeue (Ptr (Obj 1))]
      (mem_of [mk_job 7 1 ''a'', job_zero] [jq_empty] True)"
proof -
  let ?j = "mk_job 7 1 ''a''" and ?cs = "[T_enqueue (Ptr (Obj 0)), T_is_empty, T_dequeue (Ptr (Obj 1)), T_dequeue (Ptr (Obj 1))]"
  let ?m = "mem_of [?j, job_zero] [jq_empty] True"
  have "job_ok ?j" by (rule job_ok_mk_job) (simp add: NUL_def)
  then have cs: "\<forall>c \<in> set ?cs. test_call ?m c" by (simp add: full_var_def own_var_def mem_simps)
  have "list_all job_typ [?j, job_zero]" by simp
  from test_queue_agrees [OF jq_ok_mem_of(1) [OF this conjunct1 [OF jq_inv_empty]] cs, of "()"] show ?thesis
    by (rule conjunct1)
qed

end
