(* ===== verification/Test_Jobqueue.thy ===== *)
theory Test_Jobqueue
  imports Test_Queue Ipc_Jobqueue
begin

text \<open>
  The tests of \<^verbatim>\<open>test/test_jobqueue_common.c\<close>, which \<^verbatim>\<open>test_jobqueue.c\<close> and
  \<^verbatim>\<open>test_ipc_jobqueue.c\<close> run on their queues through the function pointers of a
  \<^verbatim>\<open>test_jq_t\<close>. An assertion that fails is \<open>None\<close>, as is undefined behaviour: a test
  that gives \<open>Some\<close> returns \<^verbatim>\<open>MUNIT_OK\<close>. The local variables of a test are at
  addresses that are arguments.
\<close>

section \<open>The fixture\<close>

text \<open>
  \<open>tj_queue\<close> is the \<^verbatim>\<open>jobqueue_t\<close> into which \<^verbatim>\<open>head\<close>, \<^verbatim>\<open>tail\<close>, \<^verbatim>\<open>buf_size\<close> and
  \<^verbatim>\<open>jobs\<close> point; \<open>tj_mem\<close> and \<open>tj_upd\<close> read and write the memory that a state has.
\<close>

record ('s, 'h) test_jq =
  tj_q :: "'h ptr"
  tj_capacity :: "'h ptr \<Rightarrow> 's \<Rightarrow> 64 word option"
  tj_is_full :: "'h ptr \<Rightarrow> 's \<Rightarrow> (bool \<times> 's) option"
  tj_is_empty :: "'h ptr \<Rightarrow> 's \<Rightarrow> (bool \<times> 's) option"
  tj_enqueue :: "'h ptr \<Rightarrow> 's \<Rightarrow> job_loc ptr \<Rightarrow> 's option"
  tj_dequeue :: "'h ptr \<Rightarrow> 's \<Rightarrow> job_loc ptr \<Rightarrow> (job_loc ptr \<times> 's) option"
  tj_peekhead :: "'h ptr \<Rightarrow> 's \<Rightarrow> job_loc ptr \<Rightarrow> (job_loc ptr \<times> 's) option"
  tj_peektail :: "'h ptr \<Rightarrow> 's \<Rightarrow> job_loc ptr \<Rightarrow> (job_loc ptr \<times> 's) option"
  tj_queue :: nat
  tj_mem :: "'s \<Rightarrow> mem"
  tj_upd :: "mem \<Rightarrow> 's \<Rightarrow> 's"

definition jobqueue_fixture :: "nat \<Rightarrow> (mem, nat) test_jq" where
  "jobqueue_fixture a = \<lparr>tj_q = Ptr a, tj_capacity = (\<lambda>q m. jobqueue_capacity m q),
     tj_is_full = (\<lambda>q. pure_obs (\<lambda>m. jobqueue_is_full m q)), tj_is_empty = (\<lambda>q. pure_obs (\<lambda>m. jobqueue_is_empty m q)),
     tj_enqueue = (\<lambda>q m. jobqueue_enqueue m q), tj_dequeue = (\<lambda>q m. jobqueue_dequeue m q),
     tj_peekhead = (\<lambda>q m. jobqueue_peekhead m q), tj_peektail = (\<lambda>q m. jobqueue_peektail m q),
     tj_queue = a, tj_mem = id, tj_upd = (\<lambda>m _. m)\<rparr>"

definition ipc_fixture :: "int \<Rightarrow> ipc_t \<Rightarrow> nat \<Rightarrow> (mem os, ipc_t) test_jq" where
  "ipc_fixture rnd i a = \<lparr>tj_q = Ptr i, tj_capacity = ipc_jobqueue_capacity,
     tj_is_full = ipc_jobqueue_is_full rnd, tj_is_empty = ipc_jobqueue_is_empty rnd,
     tj_enqueue = ipc_jobqueue_enqueue rnd, tj_dequeue = ipc_jobqueue_dequeue rnd,
     tj_peekhead = ipc_jobqueue_peekhead rnd, tj_peektail = ipc_jobqueue_peektail rnd,
     tj_queue = a, tj_mem = os_mem, tj_upd = (\<lambda>m os. os\<lparr>os_mem := m\<rparr>)\<rparr>"

text \<open>A statement on the memory, and the fields of the queue.\<close>

definition on_mem :: "('s, 'h) test_jq \<Rightarrow> (mem \<Rightarrow> mem option) \<Rightarrow> 's \<Rightarrow> 's option" where
  "on_mem T f s = do { m \<leftarrow> f (tj_mem T s); Some (tj_upd T m s) }"

definition on_mem_r :: "('s, 'h) test_jq \<Rightarrow> (mem \<Rightarrow> ('r \<times> mem) option) \<Rightarrow> 's \<Rightarrow> ('r \<times> 's) option" where
  "on_mem_r T f s = do { (r, m) \<leftarrow> f (tj_mem T s); Some (r, tj_upd T m s) }"

abbreviation the_jq :: "('s, 'h) test_jq \<Rightarrow> 's \<Rightarrow> jobqueue_t option" where
  "the_jq T s \<equiv> m_queues (tj_mem T s) (tj_queue T)"

abbreviation slot :: "('s, 'h) test_jq \<Rightarrow> int \<Rightarrow> job_loc ptr" where
  "slot T i \<equiv> Ptr (Slot (tj_queue T) i)"

abbreviation var :: "nat \<Rightarrow> job_loc ptr" where
  "var x \<equiv> Ptr (Obj x)"

text \<open>The reference queue on the fixture.\<close>

definition t_is_full :: "('s, 'h) test_jq \<Rightarrow> 's \<Rightarrow> bool option" where
  "t_is_full T s = tq_is_full (tj_q T) (tj_queue T) (tj_mem T s)"

definition t_is_empty :: "('s, 'h) test_jq \<Rightarrow> 's \<Rightarrow> bool option" where
  "t_is_empty T s = tq_is_empty (tj_q T) (tj_queue T) (tj_mem T s)"

definition t_enqueue :: "('s, 'h) test_jq \<Rightarrow> 's \<Rightarrow> job_loc ptr \<Rightarrow> 's option" where
  "t_enqueue T s j = on_mem T (\<lambda>m. tq_enqueue (tj_q T) (tj_queue T) m j) s"

definition t_dequeue :: "('s, 'h) test_jq \<Rightarrow> 's \<Rightarrow> job_loc ptr \<Rightarrow> (job_loc ptr \<times> 's) option" where
  "t_dequeue T s j = on_mem_r T (\<lambda>m. tq_dequeue (tj_q T) (tj_queue T) m j) s"

section \<open>Loops\<close>

text \<open>\<^verbatim>\<open>while (c) { b; i++; }\<close> with an \<^verbatim>\<open>int i\<close>.\<close>

partial_function (option) while_loop ::
  "(int \<Rightarrow> 's \<Rightarrow> bool option) \<Rightarrow> (int \<Rightarrow> 's \<Rightarrow> 's option) \<Rightarrow> int \<Rightarrow> 's \<Rightarrow> (int \<times> 's) option" where
  "while_loop c b i s = do {
     t \<leftarrow> c i s;
     if t then do {
       s1 \<leftarrow> b i s;
       i1 \<leftarrow> as_int (i + 1);
       while_loop c b i1 s1 }
     else Some (i, s) }"

definition for_loop :: "int \<Rightarrow> (int \<Rightarrow> 's \<Rightarrow> 's option) \<Rightarrow> 's \<Rightarrow> (int \<times> 's) option" where
  "for_loop n b s = while_loop (\<lambda>i _. Some (i < n)) b 0 s"

section \<open>What the tests look at\<close>

text \<open>\<^verbatim>\<open>equal_jobs\<close> of a job in memory and a local variable with the value \<open>job_zero\<close>.\<close>

definition is_zero_job :: "mem \<Rightarrow> job_loc ptr \<Rightarrow> bool option" where
  "is_zero_job m p = (case p of
     NULL \<Rightarrow> None
   | Ptr l \<Rightarrow> do {
       j \<leftarrow> load_job m l;
       if j_pid j = 0 \<and> j_id j = 0 then do {
         d \<leftarrow> strncmp (j_label j) (j_label job_zero) MAX_NAME_SIZE;
         Some (d = 0) }
       else Some False })"

definition jobs_initialised :: "('s, 'h) test_jq \<Rightarrow> 's \<Rightarrow> int \<Rightarrow> bool option" where
  "jobs_initialised T s buf_size = do {
     (i, initialised) \<leftarrow> while_loop (\<lambda>i initialised. Some (i < buf_size \<and> initialised))
       (\<lambda>i _. is_zero_job (tj_mem T s) (slot T i)) 0 True;
     Some initialised }"

text \<open>A \<^verbatim>\<open>char\<close> is signed.\<close>

definition char_int :: "char \<Rightarrow> int" where
  "char_int c = (let v = of_char c in if v < 128 then v else v - 256)"

fun sum_chars :: "int \<Rightarrow> char list \<Rightarrow> int option" where
  "sum_chars s [] = Some s"
| "sum_chars s (c # cs) = do { s1 \<leftarrow> as_int (s + char_int c); sum_chars s1 cs }"

definition is_init_job :: "mem \<Rightarrow> job_loc ptr \<Rightarrow> bool option" where
  "is_init_job m p = (case p of
     NULL \<Rightarrow> None
   | Ptr l \<Rightarrow> do {
       j \<leftarrow> load_job m l;
       require (MAX_NAME_SIZE \<le> length (j_label j));
       jsum \<leftarrow> sum_chars (sint (j_pid j + j_id j)) (take MAX_NAME_SIZE (j_label j));
       Some (jsum = 0) })"

definition equal_and_distinct :: "mem \<Rightarrow> job_loc ptr \<Rightarrow> job_loc ptr \<Rightarrow> bool option" where
  "equal_and_distinct m j1 j2 = (if j1 = j2 then Some False else equal_jobs m j1 j2)"

definition head_first_job :: "('s, 'h) test_jq \<Rightarrow> 's \<Rightarrow> job_loc ptr \<Rightarrow> bool option" where
  "head_first_job T s e = do { jq \<leftarrow> the_jq T s; equal_jobs (tj_mem T s) (slot T (q_head jq)) e }"

definition tail_last_job :: "('s, 'h) test_jq \<Rightarrow> 's \<Rightarrow> job_loc ptr \<Rightarrow> bool option" where
  "tail_last_job T s tj = do {
     jq \<leftarrow> the_jq T s;
     a \<leftarrow> as_int (q_tail jq + q_buf_size jq);
     b \<leftarrow> as_int (a - 1);
     last_posn \<leftarrow> int_rem b (q_buf_size jq);
     equal_jobs (tj_mem T s) tj (slot T last_posn) }"

definition queue_not_empty :: "('s, 'h) test_jq \<Rightarrow> 's \<Rightarrow> bool option" where
  "queue_not_empty T s = do {
     jq \<leftarrow> the_jq T s;
     if q_head jq = q_tail jq then Some False
     else do {
       (i, is_empty) \<leftarrow> while_loop (\<lambda>i is_empty. Some (is_empty \<and> i < q_buf_size jq))
         (\<lambda>i _. is_zero_job (tj_mem T s) (slot T i)) 0 True;
       if \<not> is_empty then Some True else is_zero_job (tj_mem T s) (slot T (q_tail jq)) } }"

definition queue_is_empty :: "('s, 'h) test_jq \<Rightarrow> 's \<Rightarrow> bool option" where
  "queue_is_empty T s = do {
     e \<leftarrow> t_is_empty T s;
     if e then do { jq \<leftarrow> the_jq T s; jobs_initialised T s (q_buf_size jq) } else Some False }"

definition queue_not_full :: "('s, 'h) test_jq \<Rightarrow> 's \<Rightarrow> bool option" where
  "queue_not_full T s = do {
     jq \<leftarrow> the_jq T s;
     n \<leftarrow> next_index jq (q_tail jq);
     if q_head jq \<noteq> n then is_zero_job (tj_mem T s) (slot T (q_tail jq)) else Some False }"

definition queue_is_full :: "('s, 'h) test_jq \<Rightarrow> 's \<Rightarrow> bool option" where
  "queue_is_full T s = do {
     f \<leftarrow> t_is_full T s;
     if f then do {
       jq \<leftarrow> the_jq T s;
       h \<leftarrow> is_zero_job (tj_mem T s) (slot T (q_head jq));
       if \<not> h then is_zero_job (tj_mem T s) (slot T (q_tail jq)) else Some False }
     else Some False }"

text \<open>The \<open>i\<close>-th job of a test, set by \<^verbatim>\<open>set_job (&j, i + 1, i, NULL)\<close> or by \<^verbatim>\<open>job_set\<close>.\<close>

definition set_test_job :: "('s, 'h) test_jq \<Rightarrow> nat \<Rightarrow> int \<Rightarrow> 's \<Rightarrow> 's option" where
  "set_test_job T x i s = do {
     i1 \<leftarrow> as_int (i + 1);
     on_mem T (\<lambda>m. set_job m (var x) (word_of_int i1) (word_of_int i) NULL) s }"

definition job_set_test :: "('s, 'h) test_jq \<Rightarrow> nat \<Rightarrow> int \<Rightarrow> int \<Rightarrow> 's \<Rightarrow> 's option" where
  "job_set_test T x p i s = on_mem T (\<lambda>m. do { (_, m1) \<leftarrow> job_set m (var x) (word_of_int p) (word_of_int i) NULL; Some m1 }) s"

definition job_set_next :: "('s, 'h) test_jq \<Rightarrow> nat \<Rightarrow> int \<Rightarrow> 's \<Rightarrow> 's option" where
  "job_set_next T x i s = do { i1 \<leftarrow> as_int (i + 1); job_set_test T x i1 i s }"

definition assert_true :: "bool option \<Rightarrow> unit option" where
  "assert_true b = do { t \<leftarrow> b; require t }"

definition assert_false :: "bool option \<Rightarrow> unit option" where
  "assert_false b = do { t \<leftarrow> b; require (\<not> t) }"

definition fill_queue :: "('s, 'h) test_jq \<Rightarrow> nat \<Rightarrow> 's \<Rightarrow> (bool \<times> 's) option" where
  "fill_queue T j s = do {
     (i, s1) \<leftarrow> while_loop (\<lambda>_ s. map_option Not (t_is_full T s))
       (\<lambda>i s. do { s1 \<leftarrow> set_test_job T j i s; t_enqueue T s1 (var j) }) 0 s;
     jq \<leftarrow> the_jq T s1;
     n \<leftarrow> as_int (q_buf_size jq - 1);
     ne \<leftarrow> (if i = n then queue_not_empty T s1 else Some False);
     f \<leftarrow> (if ne then queue_is_full T s1 else Some False);
     Some (f, s1) }"

text \<open>
  The statements that several tests have in common: a job is dequeued into the variable
  \<open>x\<close> and compared with the one in \<open>y\<close>; the job in \<open>y\<close> is enqueued.
\<close>

definition check_dequeue ::
  "('s, 'h) test_jq \<Rightarrow> ('s \<Rightarrow> job_loc ptr \<Rightarrow> (job_loc ptr \<times> 's) option) \<Rightarrow> nat \<Rightarrow> nat \<Rightarrow> 's \<Rightarrow> 's option" where
  "check_dequeue T deq x y s = do {
     jq \<leftarrow> the_jq T s;
     (dq_j, s1) \<leftarrow> deq s (var x);
     assert_true (is_init_job (tj_mem T s1) (slot T (q_head jq)));
     jq1 \<leftarrow> the_jq T s1;
     n \<leftarrow> next_index jq1 (q_head jq);
     require (q_head jq1 = n);
     assert_false (is_init_job (tj_mem T s1) dq_j);
     assert_true (equal_and_distinct (tj_mem T s1) dq_j (var y));
     require (dq_j = var x);
     Some s1 }"

definition check_enqueue :: "('s, 'h) test_jq \<Rightarrow> nat \<Rightarrow> 's \<Rightarrow> 's option" where
  "check_enqueue T y s = do {
     jq \<leftarrow> the_jq T s;
     s1 \<leftarrow> tj_enqueue T (tj_q T) s (var y);
     let tail_j = slot T (q_tail jq);
     assert_false (is_init_job (tj_mem T s1) tail_j);
     jq1 \<leftarrow> the_jq T s1;
     n \<leftarrow> next_index jq1 (q_tail jq);
     require (q_tail jq1 = n);
     assert_true (equal_and_distinct (tj_mem T s1) tail_j (var y));
     Some s1 }"

text \<open>The last two assertions of most tests.\<close>

definition left_empty :: "('s, 'h) test_jq \<Rightarrow> 's \<Rightarrow> 's option" where
  "left_empty T s = do { assert_true (queue_not_full T s); assert_true (queue_is_empty T s); Some s }"

definition until_empty :: "('s, 'h) test_jq \<Rightarrow> (int \<Rightarrow> 's \<Rightarrow> 's option) \<Rightarrow> 's \<Rightarrow> 's option" where
  "until_empty T b s = do { (_, s1) \<leftarrow> while_loop (\<lambda>_ s. map_option Not (t_is_empty T s)) b 0 s; Some s1 }"

section \<open>Tests of the capacity and of dequeue\<close>

text \<open>\<^verbatim>\<open>assert_int\<close> converts the \<^verbatim>\<open>size_t\<close> to \<^verbatim>\<open>int\<close>.\<close>

definition test_jq_capacity :: "('s, 'h) test_jq \<Rightarrow> 's \<Rightarrow> 's option" where
  "test_jq_capacity T s = do {
     c \<leftarrow> tj_capacity T (tj_q T) s;
     jq \<leftarrow> the_jq T s;
     n \<leftarrow> as_int (q_buf_size jq - 1);
     require (sint (ucast c :: 32 word) = n);
     Some s }"

definition test_jq_capacity_null :: "('s, 'h) test_jq \<Rightarrow> 's \<Rightarrow> 's option" where
  "test_jq_capacity_null T s = do {
     c \<leftarrow> tj_capacity T NULL s;
     require (sint (ucast c :: 32 word) = 0);
     Some s }"

definition test_jq_dequeue_fullq :: "('s, 'h) test_jq \<Rightarrow> nat \<Rightarrow> nat \<Rightarrow> nat \<Rightarrow> 's \<Rightarrow> 's option" where
  "test_jq_dequeue_fullq T j x y s = do {
     jq \<leftarrow> the_jq T s;
     assert_true (jobs_initialised T s (q_buf_size jq));
     (full, s1) \<leftarrow> fill_queue T j s;
     require full;
     s2 \<leftarrow> until_empty T (\<lambda>i s. do { s1 \<leftarrow> set_test_job T y i s; check_dequeue T (tj_dequeue T (tj_q T)) x y s1 }) s1;
     left_empty T s2 }"

text \<open>The number of operations, \<^verbatim>\<open>ops += ops / 2\<close>.\<close>

definition plus_part :: "int \<Rightarrow> int \<Rightarrow> int option" where
  "plus_part n d = do { require (d \<noteq> 0); p \<leftarrow> as_int (tquot n d); as_int (n + p) }"

definition test_jq_dequeue_inout :: "('s, 'h) test_jq \<Rightarrow> nat \<Rightarrow> nat \<Rightarrow> 's \<Rightarrow> 's option" where
  "test_jq_dequeue_inout T x y s = do {
     jq \<leftarrow> the_jq T s;
     ops \<leftarrow> plus_part (q_buf_size jq) 2;
     (i, s1) \<leftarrow> for_loop ops (\<lambda>i s. do {
       s1 \<leftarrow> set_test_job T y i s;
       s2 \<leftarrow> t_enqueue T s1 (var y);
       check_dequeue T (tj_dequeue T (tj_q T)) x y s2 }) s;
     require (i = ops);
     left_empty T s1 }"

definition test_jq_dequeue_emptyq :: "('s, 'h) test_jq \<Rightarrow> nat \<Rightarrow> 's \<Rightarrow> 's option" where
  "test_jq_dequeue_emptyq T j s = do {
     jq \<leftarrow> the_jq T s;
     test_dequeues \<leftarrow> plus_part (q_buf_size jq) 3;
     (_, s1) \<leftarrow> for_loop (q_buf_size jq) (\<lambda>i s. do {
       assert_true (is_zero_job (tj_mem T s) (slot T i));
       assert_true (is_init_job (tj_mem T s) (slot T i));
       Some s }) s;
     (_, s2) \<leftarrow> for_loop test_dequeues (\<lambda>_ s. do {
       (r, s1) \<leftarrow> tj_dequeue T (tj_q T) s (var j);
       require (r = NULL);
       Some s1 }) s1;
     assert_true (queue_is_empty T s2);
     (_, s3) \<leftarrow> for_loop (q_buf_size jq) (\<lambda>i s. do {
       assert_true (is_zero_job (tj_mem T s) (slot T i));
       Some s }) s2;
     jq1 \<leftarrow> the_jq T s3;
     require (q_head jq1 = q_head jq);
     require (q_tail jq1 = q_tail jq);
     Some s3 }"

text \<open>\<^verbatim>\<open>free(p)\<close>.\<close>

definition free_ptr :: "mem \<Rightarrow> job_loc ptr \<Rightarrow> mem option" where
  "free_ptr m p = (case p of NULL \<Rightarrow> Some m | Ptr l \<Rightarrow> free_job m l)"

text \<open>The rest of the loop body: \<open>y\<close> is \<^verbatim>\<open>expected_j\<close> and \<open>z\<close> is \<^verbatim>\<open>hjval\<close>.\<close>

definition check_heap :: "('s, 'h) test_jq \<Rightarrow> nat \<Rightarrow> nat \<Rightarrow> 's \<Rightarrow> 's option" where
  "check_heap T y z s = do {
     jq \<leftarrow> the_jq T s;
     let hj = slot T (q_head jq);
     s1 \<leftarrow> on_mem T (\<lambda>m. copy_job m (var z) hj) s;
     (dq_j, s2) \<leftarrow> tj_dequeue T (tj_q T) s1 NULL;
     assert_true (is_init_job (tj_mem T s2) hj);
     jq1 \<leftarrow> the_jq T s2;
     n \<leftarrow> next_index jq1 (q_head jq);
     require (q_head jq1 = n);
     assert_false (is_init_job (tj_mem T s2) dq_j);
     assert_true (equal_and_distinct (tj_mem T s2) dq_j (var y));
     assert_true (equal_and_distinct (tj_mem T s2) dq_j (var z));
     on_mem T (\<lambda>m. free_ptr m dq_j) s2 }"

definition test_jq_dequeue_heap :: "('s, 'h) test_jq \<Rightarrow> nat \<Rightarrow> nat \<Rightarrow> nat \<Rightarrow> 's \<Rightarrow> 's option" where
  "test_jq_dequeue_heap T j y z s = do {
     jq \<leftarrow> the_jq T s;
     assert_true (jobs_initialised T s (q_buf_size jq));
     (full, s1) \<leftarrow> fill_queue T j s;
     require full;
     s2 \<leftarrow> until_empty T (\<lambda>i s. do { s1 \<leftarrow> set_test_job T y i s; check_heap T y z s1 }) s1;
     left_empty T s2 }"

definition test_jq_dequeue_null :: "('s, 'h) test_jq \<Rightarrow> nat \<Rightarrow> 's \<Rightarrow> 's option" where
  "test_jq_dequeue_null T j s = do {
     (r, s1) \<leftarrow> tj_dequeue T NULL s (var j);
     require (r = NULL);
     Some s1 }"

section \<open>Tests of enqueue\<close>

definition test_jq_enqueue_tofull :: "('s, 'h) test_jq \<Rightarrow> nat \<Rightarrow> nat \<Rightarrow> nat \<Rightarrow> nat \<Rightarrow> nat \<Rightarrow> 's \<Rightarrow> 's option" where
  "test_jq_enqueue_tofull T enq_j first_j last_j x y s = do {
     jq \<leftarrow> the_jq T s;
     n \<leftarrow> as_int (q_buf_size jq - 1);
     (i, s1) \<leftarrow> for_loop n (\<lambda>i s. do { s1 \<leftarrow> set_test_job T enq_j i s; check_enqueue T enq_j s1 }) s;
     require (i = n);
     assert_true (queue_not_empty T s1);
     assert_true (queue_is_full T s1);
     s2 \<leftarrow> set_test_job T first_j 0 s1;
     k \<leftarrow> as_int (i - 1);
     s3 \<leftarrow> set_test_job T last_j k s2;
     assert_true (head_first_job T s3 (var first_j));
     assert_true (tail_last_job T s3 (var last_j));
     s4 \<leftarrow> until_empty T (\<lambda>i s. do {
       s1 \<leftarrow> set_test_job T y i s;
       s2 \<leftarrow> check_dequeue T (t_dequeue T) x y s1;
       require (var x \<noteq> var enq_j);
       Some s2 }) s3;
     left_empty T s4 }"

definition test_jq_enqueue_inout :: "('s, 'h) test_jq \<Rightarrow> nat \<Rightarrow> nat \<Rightarrow> 's \<Rightarrow> 's option" where
  "test_jq_enqueue_inout T enq_j x s = do {
     jq \<leftarrow> the_jq T s;
     ops \<leftarrow> plus_part (q_buf_size jq) 2;
     (i, s1) \<leftarrow> for_loop ops (\<lambda>i s. do {
       s1 \<leftarrow> set_test_job T enq_j i s;
       s2 \<leftarrow> check_enqueue T enq_j s1;
       check_dequeue T (t_dequeue T) x enq_j s2 }) s;
     require (i = ops);
     left_empty T s1 }"

text \<open>\<^verbatim>\<open>saved_jobs[i]\<close> is at \<open>b + i\<close>.\<close>

definition save_jobs :: "('s, 'h) test_jq \<Rightarrow> nat \<Rightarrow> int \<Rightarrow> 's \<Rightarrow> 's option" where
  "save_jobs T b buf_size s = do {
     (_, s1) \<leftarrow> for_loop buf_size (\<lambda>i s. on_mem T (\<lambda>m. copy_job m (var (b + nat i)) (slot T i)) s) s;
     Some s1 }"

definition same_jobs :: "('s, 'h) test_jq \<Rightarrow> nat \<Rightarrow> int \<Rightarrow> 's \<Rightarrow> 's option" where
  "same_jobs T b buf_size s = do {
     (_, s1) \<leftarrow> for_loop buf_size (\<lambda>i s. do {
       assert_true (equal_jobs (tj_mem T s) (slot T i) (var (b + nat i)));
       Some s }) s;
     Some s1 }"

text \<open>Nothing that was read of the queue before has changed.\<close>

definition same_fields :: "('s, 'h) test_jq \<Rightarrow> jobqueue_t \<Rightarrow> 's \<Rightarrow> unit option" where
  "same_fields T jq s = do {
     jq1 \<leftarrow> the_jq T s;
     require (q_head jq = q_head jq1);
     require (q_tail jq = q_tail jq1);
     require (q_buf_size jq = q_buf_size jq1) }"

definition test_jq_enqueue_fullq :: "('s, 'h) test_jq \<Rightarrow> nat \<Rightarrow> nat \<Rightarrow> nat \<Rightarrow> 's \<Rightarrow> 's option" where
  "test_jq_enqueue_fullq T fj b j s = do {
     (full, s1) \<leftarrow> fill_queue T fj s;
     require full;
     jq \<leftarrow> the_jq T s1;
     s2 \<leftarrow> save_jobs T b (q_buf_size jq) s1;
     test_enqueues \<leftarrow> plus_part (q_buf_size jq) 3;
     (_, s3) \<leftarrow> for_loop test_enqueues (\<lambda>i s. do {
       p \<leftarrow> as_int (i + 20);
       k \<leftarrow> as_int (i * 10);
       s1 \<leftarrow> on_mem T (\<lambda>m. set_job m (var j) (word_of_int p) (word_of_int k) NULL) s;
       tj_enqueue T (tj_q T) s1 (var j) }) s2;
     s4 \<leftarrow> same_jobs T b (q_buf_size jq) s3;
     same_fields T jq s4;
     assert_true (queue_is_full T s4);
     Some s4 }"

definition test_jq_enqueue_null :: "('s, 'h) test_jq \<Rightarrow> nat \<Rightarrow> nat \<Rightarrow> 's \<Rightarrow> 's option" where
  "test_jq_enqueue_null T j b s = do {
     s1 \<leftarrow> tj_enqueue T NULL s (var j);
     jq \<leftarrow> the_jq T s1;
     s2 \<leftarrow> save_jobs T b (q_buf_size jq) s1;
     s3 \<leftarrow> tj_enqueue T (tj_q T) s2 NULL;
     s4 \<leftarrow> same_jobs T b (q_buf_size jq) s3;
     same_fields T jq s4;
     Some s4 }"

section \<open>Tests of the observers\<close>

definition says :: "(bool \<times> 's) option \<Rightarrow> bool \<Rightarrow> 's option" where
  "says r v = do { (b, s) \<leftarrow> r; require (b = v); Some s }"

definition test_jq_is_empty :: "('s, 'h) test_jq \<Rightarrow> 's \<Rightarrow> 's option" where
  "test_jq_is_empty T s = do {
     s1 \<leftarrow> says (tj_is_empty T (tj_q T) s) True;
     assert_true (queue_is_empty T s1);
     Some s1 }"

definition test_jq_is_empty_notempty :: "('s, 'h) test_jq \<Rightarrow> nat \<Rightarrow> 's \<Rightarrow> 's option" where
  "test_jq_is_empty_notempty T j s = do {
     jq \<leftarrow> the_jq T s;
     n \<leftarrow> as_int (q_buf_size jq - 1);
     (_, s1) \<leftarrow> for_loop n (\<lambda>i s. do {
       s1 \<leftarrow> job_set_test T j i i s;
       s2 \<leftarrow> t_enqueue T s1 (var j);
       s3 \<leftarrow> says (tj_is_empty T (tj_q T) s2) False;
       assert_true (queue_not_empty T s3);
       Some s3 }) s;
     Some s1 }"

definition test_jq_is_empty_null :: "('s, 'h) test_jq \<Rightarrow> 's \<Rightarrow> 's option" where
  "test_jq_is_empty_null T s = says (tj_is_empty T NULL s) True"

definition test_jq_is_full_empty :: "('s, 'h) test_jq \<Rightarrow> 's \<Rightarrow> 's option" where
  "test_jq_is_full_empty T s = do {
     s1 \<leftarrow> says (tj_is_full T (tj_q T) s) False;
     assert_true (queue_not_full T s1);
     Some s1 }"

definition test_jq_is_full_filling :: "('s, 'h) test_jq \<Rightarrow> nat \<Rightarrow> 's \<Rightarrow> 's option" where
  "test_jq_is_full_filling T j s = do {
     jq \<leftarrow> the_jq T s;
     n \<leftarrow> as_int (q_buf_size jq - 1);
     n2 \<leftarrow> as_int (q_buf_size jq - 2);
     (_, s1) \<leftarrow> for_loop n (\<lambda>i s. do {
       s1 \<leftarrow> job_set_test T j i i s;
       s2 \<leftarrow> t_enqueue T s1 (var j);
       if i < n2 then do {
         s3 \<leftarrow> says (tj_is_full T (tj_q T) s2) False;
         assert_true (queue_not_full T s3);
         Some s3 }
       else Some s2 }) s;
     s2 \<leftarrow> says (tj_is_full T (tj_q T) s1) True;
     assert_true (queue_is_full T s2);
     Some s2 }"

definition test_jq_is_full_null :: "('s, 'h) test_jq \<Rightarrow> 's \<Rightarrow> 's option" where
  "test_jq_is_full_null T s = says (tj_is_full T NULL s) True"

section \<open>Tests of peeking\<close>

definition gives_null :: "(job_loc ptr \<times> 's) option \<Rightarrow> 's option" where
  "gives_null r = do { (p, s) \<leftarrow> r; require (p = NULL); Some s }"

definition test_jq_peekhead_empty :: "('s, 'h) test_jq \<Rightarrow> nat \<Rightarrow> 's \<Rightarrow> 's option" where
  "test_jq_peekhead_empty T j s = gives_null (tj_peekhead T (tj_q T) s (var j))"

definition test_jq_peektail_empty :: "('s, 'h) test_jq \<Rightarrow> nat \<Rightarrow> 's \<Rightarrow> 's option" where
  "test_jq_peektail_empty T j s = gives_null (tj_peektail T (tj_q T) s (var j))"

definition test_jq_peekhead_null :: "('s, 'h) test_jq \<Rightarrow> nat \<Rightarrow> 's \<Rightarrow> 's option" where
  "test_jq_peekhead_null T j s = gives_null (tj_peekhead T NULL s (var j))"

definition test_jq_peektail_null :: "('s, 'h) test_jq \<Rightarrow> nat \<Rightarrow> 's \<Rightarrow> 's option" where
  "test_jq_peektail_null T j s = gives_null (tj_peektail T NULL s (var j))"

text \<open>
  The peeks of \<^verbatim>\<open>test_jq_peekhead_full\<close> and of \<^verbatim>\<open>test_jq_peektail_full\<close>: into two
  variables, compared with the queue and with the job in \<open>e\<close>.
\<close>

definition peek_twice ::
  "('s, 'h) test_jq \<Rightarrow> ('s \<Rightarrow> job_loc ptr \<Rightarrow> (job_loc ptr \<times> 's) option) \<Rightarrow> ('s \<Rightarrow> job_loc ptr \<Rightarrow> bool option) \<Rightarrow>
   nat \<Rightarrow> nat \<Rightarrow> nat \<Rightarrow> 's \<Rightarrow> 's option" where
  "peek_twice T peek at h1 h2 e s = do {
     (p1, s1) \<leftarrow> peek s (var h1);
     assert_true (at s1 p1);
     (p2, s2) \<leftarrow> peek s1 (var h2);
     assert_true (equal_jobs (tj_mem T s2) p1 (var e));
     assert_true (equal_jobs (tj_mem T s2) p1 p2);
     require (p1 = var h1);
     require (p2 = var h2);
     require (p1 \<noteq> p2);
     Some s2 }"

definition test_jq_peekhead_full :: "('s, 'h) test_jq \<Rightarrow> nat \<Rightarrow> nat \<Rightarrow> nat \<Rightarrow> nat \<Rightarrow> 's \<Rightarrow> 's option" where
  "test_jq_peekhead_full T e j h1 h2 s = do {
     s1 \<leftarrow> job_set_test T e 1 0 s;
     (_, s2) \<leftarrow> while_loop (\<lambda>_ s. map_option Not (t_is_full T s)) (\<lambda>i s. do {
       s1 \<leftarrow> job_set_next T j i s;
       s2 \<leftarrow> t_enqueue T s1 (var j);
       peek_twice T (tj_peekhead T (tj_q T)) (head_first_job T) h1 h2 e s2 }) 0 s1;
     assert_true (queue_is_full T s2);
     s3 \<leftarrow> until_empty T (\<lambda>i s. do {
       s1 \<leftarrow> job_set_next T j i s;
       s2 \<leftarrow> peek_twice T (tj_peekhead T (tj_q T)) (head_first_job T) h1 h2 j s1;
       (_, s3) \<leftarrow> t_dequeue T s2 (var h2);
       Some s3 }) s2;
     gives_null (tj_peekhead T (tj_q T) s3 (var j)) }"

definition test_jq_peektail_full :: "('s, 'h) test_jq \<Rightarrow> nat \<Rightarrow> nat \<Rightarrow> nat \<Rightarrow> nat \<Rightarrow> 's \<Rightarrow> 's option" where
  "test_jq_peektail_full T e j t1 t2 s = do {
     (i, s1) \<leftarrow> while_loop (\<lambda>_ s. map_option Not (t_is_full T s)) (\<lambda>i s. do {
       s1 \<leftarrow> job_set_next T j i s;
       s2 \<leftarrow> t_enqueue T s1 (var j);
       peek_twice T (tj_peektail T (tj_q T)) (tail_last_job T) t1 t2 j s2 }) 0 s;
     assert_true (queue_is_full T s1);
     k \<leftarrow> as_int (i - 1);
     s2 \<leftarrow> on_mem T (\<lambda>m. set_job m (var e) (word_of_int i) (word_of_int k) NULL) s1;
     s3 \<leftarrow> until_empty T (\<lambda>_ s. do {
       s1 \<leftarrow> peek_twice T (tj_peektail T (tj_q T)) (tail_last_job T) t1 t2 e s;
       (_, s2) \<leftarrow> t_dequeue T s1 (var t2);
       Some s2 }) s2;
     gives_null (tj_peektail T (tj_q T) s3 (var j)) }"

text \<open>The loop body after the expected job has been set in \<open>e\<close>.\<close>

definition check_peek_heap :: "('s, 'h) test_jq \<Rightarrow> nat \<Rightarrow> nat \<Rightarrow> 's \<Rightarrow> 's option" where
  "check_peek_heap T e j s = do {
     jq \<leftarrow> the_jq T s;
     let hj = slot T (q_head jq);
     (ph, s1) \<leftarrow> tj_peekhead T (tj_q T) s NULL;
     assert_true (equal_jobs (tj_mem T s1) ph (var e));
     assert_true (equal_jobs (tj_mem T s1) ph hj);
     require (ph \<noteq> var e);
     require (ph \<noteq> hj);
     (dq, s2) \<leftarrow> t_dequeue T s1 (var j);
     assert_true (equal_jobs (tj_mem T s2) ph dq);
     require (ph \<noteq> dq);
     require (dq = var j);
     on_mem T (\<lambda>m. free_ptr m ph) s2 }"

definition test_jq_peekhead_heap :: "('s, 'h) test_jq \<Rightarrow> nat \<Rightarrow> nat \<Rightarrow> nat \<Rightarrow> 's \<Rightarrow> 's option" where
  "test_jq_peekhead_heap T fj e j s = do {
     (full, s1) \<leftarrow> fill_queue T fj s;
     require full;
     s2 \<leftarrow> until_empty T (\<lambda>i s. do { s1 \<leftarrow> set_test_job T e i s; check_peek_heap T e j s1 }) s1;
     left_empty T s2 }"

text \<open>The loop body on the job in \<open>e\<close>.\<close>

definition check_tail_heap :: "('s, 'h) test_jq \<Rightarrow> nat \<Rightarrow> nat \<Rightarrow> 's \<Rightarrow> 's option" where
  "check_tail_heap T e j s = do {
     (pt, s1) \<leftarrow> tj_peektail T (tj_q T) s NULL;
     assert_true (equal_jobs (tj_mem T s1) pt (var e));
     require (pt \<noteq> var e);
     s2 \<leftarrow> on_mem T (\<lambda>m. free_ptr m pt) s1;
     (_, s3) \<leftarrow> t_dequeue T s2 (var j);
     Some s3 }"

definition test_jq_peektail_heap :: "('s, 'h) test_jq \<Rightarrow> nat \<Rightarrow> nat \<Rightarrow> nat \<Rightarrow> 's \<Rightarrow> 's option" where
  "test_jq_peektail_heap T fj e j s = do {
     (full, s1) \<leftarrow> fill_queue T fj s;
     require full;
     jq \<leftarrow> the_jq T s1;
     p \<leftarrow> as_int (q_buf_size jq - 1);
     k \<leftarrow> as_int (q_buf_size jq - 2);
     s2 \<leftarrow> on_mem T (\<lambda>m. set_job m (var e) (word_of_int p) (word_of_int k) NULL) s1;
     s3 \<leftarrow> until_empty T (\<lambda>_. check_tail_heap T e j) s2;
     left_empty T s3 }"

text \<open>The body of the first loop of \<^verbatim>\<open>test_jq_peektail_wrap\<close>, after the job is set; \<open>tj\<close> is its own variable.\<close>

definition check_wrap :: "('s, 'h) test_jq \<Rightarrow> nat \<Rightarrow> nat \<Rightarrow> 's \<Rightarrow> 's option" where
  "check_wrap T j tj s = do {
     s1 \<leftarrow> t_enqueue T s (var j);
     (p1, s2) \<leftarrow> tj_peektail T (tj_q T) s1 (var tj);
     assert_true (tail_last_job T s2 p1);
     (p2, s3) \<leftarrow> tj_peektail T (tj_q T) s2 (var tj);
     assert_true (job_is_equal (tj_mem T s3) p2 (var j));
     (_, s4) \<leftarrow> t_dequeue T s3 (var j);
     Some s4 }"

text \<open>After the second loop, with the queue full and the head at 0.\<close>

definition check_ends :: "('s, 'h) test_jq \<Rightarrow> nat \<Rightarrow> nat \<Rightarrow> 's \<Rightarrow> 's option" where
  "check_ends T j tj s = do {
     assert_true (queue_is_full T s);
     jq \<leftarrow> the_jq T s;
     n \<leftarrow> as_int (q_buf_size jq - 1);
     require (q_head jq = 0);
     require (q_tail jq = n);
     (_, s1) \<leftarrow> t_dequeue T s (var j);
     assert_false (queue_is_full T s1);
     jq1 \<leftarrow> the_jq T s1;
     require (q_head jq1 = 1);
     require (q_tail jq1 = n);
     s2 \<leftarrow> t_enqueue T s1 (var j);
     assert_true (queue_is_full T s2);
     jq2 \<leftarrow> the_jq T s2;
     require (q_head jq2 = 1);
     require (q_tail jq2 = 0);
     (_, s3) \<leftarrow> tj_peektail T (tj_q T) s2 (var tj);
     assert_true (equal_jobs (tj_mem T s3) (var tj) (var j));
     assert_true (equal_jobs (tj_mem T s3) (var tj) (slot T n));
     Some s3 }"

text \<open>\<open>tj\<close> is the outer variable of that name and \<open>tj'\<close> the one in the loop.\<close>

definition test_jq_peektail_wrap :: "('s, 'h) test_jq \<Rightarrow> nat \<Rightarrow> nat \<Rightarrow> nat \<Rightarrow> 's \<Rightarrow> 's option" where
  "test_jq_peektail_wrap T j tj tj' s = do {
     jq \<leftarrow> the_jq T s;
     jobs2queue \<leftarrow> as_int (q_buf_size jq * 2);
     (i, s1) \<leftarrow> for_loop jobs2queue (\<lambda>i s. do { s1 \<leftarrow> job_set_next T j i s; check_wrap T j tj' s1 }) s;
     (_, s2) \<leftarrow> while_loop (\<lambda>_ s. map_option Not (t_is_full T s))
       (\<lambda>i s. do { s1 \<leftarrow> job_set_next T j i s; t_enqueue T s1 (var j) }) i s1;
     check_ends T j tj s2 }"

section \<open>The suites\<close>

text \<open>All tests of \<^verbatim>\<open>test_jobqueue_common.c\<close>, each from the state that the setup leaves; locals from \<open>v\<close> on.\<close>

definition run_tests :: "('s, 'h) test_jq \<Rightarrow> nat \<Rightarrow> 's \<Rightarrow> 's option list" where
  "run_tests T v s = [
     test_jq_capacity T s, test_jq_capacity_null T s,
     test_jq_dequeue_fullq T v (v + 1) (v + 2) s, test_jq_dequeue_inout T v (v + 1) s, test_jq_dequeue_emptyq T v s,
     test_jq_dequeue_heap T v (v + 1) (v + 2) s, test_jq_dequeue_null T v s,
     test_jq_enqueue_tofull T v (v + 1) (v + 2) (v + 3) (v + 4) s, test_jq_enqueue_inout T v (v + 1) s,
     test_jq_enqueue_fullq T v (v + 5) (v + 1) s, test_jq_enqueue_null T v (v + 5) s,
     test_jq_is_empty T s, test_jq_is_empty_notempty T v s, test_jq_is_empty_null T s,
     test_jq_is_full_empty T s, test_jq_is_full_filling T v s, test_jq_is_full_null T s,
     test_jq_peekhead_empty T v s, test_jq_peekhead_full T v (v + 1) (v + 2) (v + 3) s,
     test_jq_peekhead_heap T v (v + 1) (v + 2) s, test_jq_peekhead_null T v s,
     test_jq_peektail_empty T v s, test_jq_peektail_full T v (v + 1) (v + 2) (v + 3) s,
     test_jq_peektail_heap T v (v + 1) (v + 2) s, test_jq_peektail_wrap T v (v + 1) (v + 2) s, test_jq_peektail_null T v s]"

definition assert_queue_initialised :: "('s, 'h) test_jq \<Rightarrow> 's \<Rightarrow> unit option" where
  "assert_queue_initialised T s = do {
     jq \<leftarrow> the_jq T s;
     require (q_head jq = 0);
     require (q_tail jq = 0);
     require (q_buf_size jq = int QUEUE_SIZE);
     assert_true (jobs_initialised T s (q_buf_size jq)) }"

text \<open>\<^verbatim>\<open>test_setup\<close> of \<^verbatim>\<open>test_jobqueue.c\<close> and of \<^verbatim>\<open>test_ipc_jobqueue.c\<close>, the latter with the descriptor \<open>p\<close>.\<close>

definition jobqueue_setup :: "mem \<Rightarrow> (nat \<times> mem) option" where
  "jobqueue_setup m = (let (q, m1) = malloc_jq m in do {
     m2 \<leftarrow> jobqueue_init m1 q;
     (case q of
        NULL \<Rightarrow> None
      | Ptr a \<Rightarrow> do { assert_queue_initialised (jobqueue_fixture a) m2; Some (a, m2) }) })"

definition ipc_setup :: "ipc_faults \<Rightarrow> proc_t \<Rightarrow> mem os \<Rightarrow> (ipc_t \<times> nat \<times> mem os) option" where
  "ipc_setup fz p os = do {
     (q, os1) \<leftarrow> ipc_jobqueue_new fz (Ptr p) os;
     (case q of
        NULL \<Rightarrow> None
      | Ptr i \<Rightarrow> (case ip_addr i of
          NULL \<Rightarrow> None
        | Ptr a \<Rightarrow> do { assert_queue_initialised (ipc_fixture 0 i a) os1; Some (i, a, os1) })) }"

text \<open>The two tests that only \<^verbatim>\<open>test_jobqueue.c\<close> has, the second on the queue of the setup.\<close>

definition test_jobqueue_new :: "mem \<Rightarrow> mem option" where
  "test_jobqueue_new m = do {
     (q, m1) \<leftarrow> jobqueue_new m;
     (case q of
        NULL \<Rightarrow> None
      | Ptr a \<Rightarrow> do { assert_queue_initialised (jobqueue_fixture a) m1; free_jq m1 a }) }"

definition test_jobqueue_delete :: "nat \<Rightarrow> mem \<Rightarrow> mem option" where
  "test_jobqueue_delete a m = do { m1 \<leftarrow> jobqueue_delete m (Ptr a); jobqueue_delete m1 NULL }"

end
