(* ===== verification/Test_Passes.thy ===== *)
theory Test_Passes
  imports Test_Jobqueue
begin

text \<open>
  The tests of theory \<open>Test_Jobqueue\<close> pass on every queue whose functions do to the
  memory what those of \<^verbatim>\<open>jobqueue.c\<close> do: the locale \<open>test_target\<close>, which the queue
  itself and the shared queue of \<^verbatim>\<open>ipc_jobqueue.c\<close> meet. A statement is verified by
  what it makes true afterwards (\<open>wp\<close>), in a state in which queue and variables are
  known.
\<close>

section \<open>Statements and loops\<close>

definition wp :: "'r option \<Rightarrow> ('r \<Rightarrow> bool) \<Rightarrow> bool" where
  "wp c P \<longleftrightarrow> (\<exists>r. c = Some r \<and> P r)"

lemma wp_bind [simp]: "wp (c \<bind> f) P = wp c (\<lambda>r. wp (f r) P)"
  by (auto simp: wp_def bind_eq_Some_conv)

lemma wp_simps [simp]: "wp (Some r) P = P r" "\<not> wp None P" "wp (if b then c else d) P = (if b then wp c P else wp d P)"
  by (auto simp: wp_def)

lemma wp_assert [simp]: "wp (require b) (\<lambda>_. Q) \<longleftrightarrow> b \<and> Q"
  "wp (assert_true (Some b)) (\<lambda>_. Q) \<longleftrightarrow> b \<and> Q" "wp (assert_false (Some b)) (\<lambda>_. Q) \<longleftrightarrow> \<not> b \<and> Q"
  by (auto simp: wp_def assert_true_def assert_false_def)

lemma wp_mono: "wp c P \<Longrightarrow> (\<And>r. P r \<Longrightarrow> Q r) \<Longrightarrow> wp c Q"
  by (auto simp: wp_def)

lemma wp_while:
  assumes "I 0 s" and step: "\<And>k s. k < N \<Longrightarrow> I k s \<Longrightarrow> c (i + int k) s = Some True \<and> wp (b (i + int k) s) (I (Suc k))"
    and stop: "\<And>s. I N s \<Longrightarrow> c (i + int N) s = Some False \<and> P (i + int N, s)"
    and range: "INT_MIN \<le> i" "i + int N \<le> INT_MAX"
  shows "wp (while_loop c b i s) P"
proof -
  have "\<exists>t. while_loop c b (i + int (N - d)) s = Some (i + int N, t) \<and> I N t" if "d \<le> N" "I (N - d) s" for d s
    using that
  proof (induction d arbitrary: s)
    case 0
    then show ?case using stop by (subst while_loop.simps) auto
  next
    case (Suc d)
    have k: "N - Suc d < N" "Suc (N - Suc d) = N - d" using Suc.prems(1) by simp_all
    obtain t where t: "b (i + int (N - Suc d)) s = Some t" "I (N - d) t" "c (i + int (N - Suc d)) s = Some True"
      using step [OF k(1) Suc.prems(2)] k(2) by (auto simp: wp_def)
    have n: "i + int (N - Suc d) + 1 = i + int (N - d)" using Suc.prems(1) by simp
    have "as_int (i + int (N - d)) = Some (i + int (N - d))" using range by (intro as_int_Some) auto
    then show ?case using Suc.IH [OF _ t(2)] Suc.prems(1) t(1,3) n by (subst while_loop.simps) simp
  qed
  from this [of N s] assms(1) stop show ?thesis by (auto simp: wp_def)
qed

lemma wp_for:
  assumes "I 0 s" and step: "\<And>k s. k < N \<Longrightarrow> I k s \<Longrightarrow> wp (b (int k) s) (I (Suc k))"
    and stop: "\<And>s. I N s \<Longrightarrow> P (n, s)" and n: "n = int N" "n \<le> INT_MAX"
  shows "wp (for_loop n b s) P"
  unfolding for_loop_def by (rule wp_while [where I = I and N = N]) (use assms in \<open>auto simp: INT_MIN_def\<close>)

text \<open>A loop that looks for the first element without a property.\<close>

lemma scan_loop:
  assumes f: "\<And>i. 0 \<le> i \<Longrightarrow> i < n \<Longrightarrow> f i = Some (g i)" and c: "\<And>i b. c i b = Some (i < n \<and> b)"
    and n: "0 \<le> n" "n \<le> INT_MAX"
  shows "\<exists>k. while_loop c (\<lambda>i _. f i) 0 True = Some (k, \<forall>i. 0 \<le> i \<and> i < n \<longrightarrow> g i)"
proof -
  have c: "c = (\<lambda>i b. Some (i < n \<and> b))" using c by (simp add: fun_eq_iff)
  have "\<exists>k. while_loop c (\<lambda>i _. f i) (n - int d) True = Some (k, \<forall>i. n - int d \<le> i \<and> i < n \<longrightarrow> g i)" if "int d \<le> n" for d
    using that
  proof (induction d)
    case 0
    then show ?case unfolding c by (subst while_loop.simps) auto
  next
    case (Suc d)
    let ?i = "n - int (Suc d)"
    have i: "0 \<le> ?i" "?i < n" "?i + 1 = n - int d" using Suc.prems by simp_all
    have inc: "as_int (n - int d) = Some (n - int d)" using i n by (intro as_int_Some) (auto simp: INT_MIN_def)
    have split: "(\<forall>j. ?i \<le> j \<and> j < n \<longrightarrow> g j) \<longleftrightarrow> g ?i \<and> (\<forall>j. n - int d \<le> j \<and> j < n \<longrightarrow> g j)"
    proof -
      have "j = ?i \<or> n - int d \<le> j" if "?i \<le> j" for j using that by auto
      then show ?thesis using i(2) by (auto 4 4)
    qed
    show ?case
    proof (cases "g ?i")
      case True
      then show ?thesis using Suc i inc f [OF i(1,2)] unfolding split c
        by (subst while_loop.simps) simp
    next
      case False
      then show ?thesis using i inc f [OF i(1,2)] unfolding split c
        by (subst while_loop.simps) (simp, subst while_loop.simps, simp)
    qed
  qed
  from this [of "nat n"] n show ?thesis by simp
qed

section \<open>Jobs of the tests\<close>

definition mk_test :: "int \<Rightarrow> int \<Rightarrow> job_t" where
  "mk_test p i = mk_job (word_of_int p) (word_of_int i) []"

abbreviation nth_job :: "nat \<Rightarrow> job_t" where
  "nth_job k \<equiv> mk_test (int k + 1) (int k)"

lemma mk_test_ok: "job_ok (mk_test p i)"
  by (simp add: mk_test_def job_ok_mk_job)

lemma equal_jobs_ok:
  assumes "load_job m l1 = Some j" "load_job m l2 = Some j" "job_typ j"
  shows "equal_jobs m (Ptr l1) (Ptr l2) = Some True"
  using strncmp_takeWhile [of "j_label j" MAX_NAME_SIZE "j_label j"] assms
  by (auto simp: equal_jobs_def job_typ_def)

lemma is_zero_job_ok:
  assumes "load_job m l = Some j"
  shows "j = job_zero \<Longrightarrow> is_zero_job m (Ptr l) = Some True" "job_ok j \<Longrightarrow> is_zero_job m (Ptr l) = Some False"
proof -
  have zero: "takeWhile (\<lambda>c. c \<noteq> NUL) (j_label job_zero) = []" using job_str_zero by (simp add: job_str_def)
  have len: "length (j_label job_zero) = MAX_NAME_SIZE" by (simp add: job_zero_def)
  show "is_zero_job m (Ptr l) = Some True" if "j = job_zero"
    using strncmp_takeWhile [OF len len] assms that zero by (auto simp: is_zero_job_def job_zero_def)
  show "is_zero_job m (Ptr l) = Some False" if ok: "job_ok j"
  proof -
    have "job_str j \<noteq> []" using job_ok_label(2) [OF ok] by (auto simp: MAX_NAME_SIZE_def)
    moreover have "length (j_label j) = MAX_NAME_SIZE" using job_ok_typ [OF ok] by (simp add: job_typ_def)
    ultimately show ?thesis
      using strncmp_takeWhile [OF _ len, of "j_label j"] assms zero by (auto simp: is_zero_job_def job_str_def)
  qed
qed

lemma sum_stars: "INT_MIN \<le> s \<Longrightarrow> s + 42 * int n \<le> INT_MAX \<Longrightarrow> sum_chars s (replicate n PAD_CHAR @ [NUL]) = Some (s + 42 * int n)"
proof (induction n arbitrary: s)
  case 0
  then show ?case by (simp add: as_int_Some char_int_def NUL_def)
next
  case (Suc n)
  have c: "char_int PAD_CHAR = 42" by (simp add: char_int_def PAD_CHAR_def)
  have "as_int (s + 42) = Some (s + 42)" using Suc.prems by (intro as_int_Some) auto
  then show ?case using Suc.IH [of "s + 42"] Suc.prems c by simp
qed

lemma sum_zeros: "sum_chars 0 (replicate n NUL) = Some 0"
  by (induction n) (simp_all add: as_int_Some char_int_def NUL_def INT_MIN_def INT_MAX_def)

lemma is_init_job_zero: "load_job m l = Some job_zero \<Longrightarrow> is_init_job m (Ptr l) = Some True"
  by (simp add: is_init_job_def job_zero_def sum_zeros)

lemma is_init_job_test:
  assumes "load_job m l = Some (mk_test p i)" "0 \<le> p" "p \<le> 1000" "0 \<le> i" "i \<le> 1000"
  shows "is_init_job m (Ptr l) = Some False"
proof -
  have "sint (word_of_int (p + i) :: 32 word) = p + i"
    by (subst sint_sbintrunc') (use assms(2-5) in \<open>simp add: signed_take_bit_int_eq_self\<close>)
  then have "sint (word_of_int p + word_of_int i :: 32 word) = p + i" by simp
  moreover have "sum_chars (p + i) (replicate 31 PAD_CHAR @ [NUL]) = Some (p + i + 42 * int 31)"
    by (rule sum_stars) (use assms(2-5) in \<open>simp_all add: INT_MIN_def INT_MAX_def\<close>)
  ultimately show ?thesis
    using assms by (simp add: is_init_job_def mk_test_def mk_job_def pad_label_short MAX_NAME_SIZE_def)
qed

section \<open>The queue under test\<close>

locale test_target =
  fixes T :: "('s, 'h) test_jq" and good :: "'s \<Rightarrow> bool"
  assumes has_queue: "\<exists>h. tj_q T = Ptr h"
    and upd: "tj_mem T (tj_upd T m s) = m" "good s \<Longrightarrow> good (tj_upd T m s)"
    and capacity: "good s \<Longrightarrow> tj_capacity T (tj_q T) s = jobqueue_capacity (tj_mem T s) (Ptr (tj_queue T))"
      "tj_capacity T NULL s = Some 0"
    and is_full: "good s \<Longrightarrow> jobqueue_is_full (tj_mem T s) (Ptr (tj_queue T)) = Some b \<Longrightarrow>
      \<exists>t. tj_is_full T (tj_q T) s = Some (b, t) \<and> good t \<and> tj_mem T t = tj_mem T s"
    and is_empty: "good s \<Longrightarrow> jobqueue_is_empty (tj_mem T s) (Ptr (tj_queue T)) = Some b \<Longrightarrow>
      \<exists>t. tj_is_empty T (tj_q T) s = Some (b, t) \<and> good t \<and> tj_mem T t = tj_mem T s"
    and enqueue: "good s \<Longrightarrow> jobqueue_enqueue (tj_mem T s) (Ptr (tj_queue T)) p = Some m \<Longrightarrow>
      \<exists>t. tj_enqueue T (tj_q T) s p = Some t \<and> good t \<and> tj_mem T t = m"
    and dequeue: "good s \<Longrightarrow> jobqueue_dequeue (tj_mem T s) (Ptr (tj_queue T)) p = Some (r, m) \<Longrightarrow>
      \<exists>t. tj_dequeue T (tj_q T) s p = Some (r, t) \<and> good t \<and> tj_mem T t = m"
    and peekhead: "good s \<Longrightarrow> jobqueue_peekhead (tj_mem T s) (Ptr (tj_queue T)) p = Some (r, m) \<Longrightarrow>
      \<exists>t. tj_peekhead T (tj_q T) s p = Some (r, t) \<and> good t \<and> tj_mem T t = m"
    and peektail: "good s \<Longrightarrow> jobqueue_peektail (tj_mem T s) (Ptr (tj_queue T)) p = Some (r, m) \<Longrightarrow>
      \<exists>t. tj_peektail T (tj_q T) s p = Some (r, t) \<and> good t \<and> tj_mem T t = m"
    and on_NULL: "tj_is_full T NULL s = Some (True, s)" "tj_is_empty T NULL s = Some (True, s)"
      "tj_enqueue T NULL s p = Some s" "tj_dequeue T NULL s p = Some (NULL, s)"
      "tj_peekhead T NULL s p = Some (NULL, s)" "tj_peektail T NULL s p = Some (NULL, s)"

interpretation direct: test_target "jobqueue_fixture a" "\<lambda>_. True" for a
  by unfold_locales
    (auto simp: jobqueue_fixture_def pure_obs_def jobqueue_capacity_def jobqueue_is_full_def jobqueue_is_empty_def
      jobqueue_enqueue_def jobqueue_dequeue_def jobqueue_peekhead_def jobqueue_peektail_def)

interpretation shared: test_target "ipc_fixture rnd i a" "\<lambda>_. work_ok rnd (ip_proc i) \<and> ip_addr i = Ptr a" for rnd i a
proof (unfold_locales, goal_cases)
  have work: "\<exists>z. \<forall>os. ipc_work rnd i os = Some (os\<lparr>os_sleeps := os_sleeps os @ z\<rparr>)" if "work_ok rnd (ip_proc i)"
    using ipc_work_ok [OF that] by (simp add: works_def)
  note simps = ipc_fixture_def ipc_jobqueue_capacity_def ipc_jobqueue_is_full_def ipc_jobqueue_is_empty_def
      ipc_jobqueue_enqueue_def ipc_jobqueue_dequeue_def ipc_jobqueue_peekhead_def ipc_jobqueue_peektail_def
  {
    case (6 s b)
    then show ?case using work by (auto simp: simps)
  next
    case (7 s b)
    then show ?case using work by (auto simp: simps)
  next
    case (8 s p m)
    then show ?case using work by (auto simp: simps)
  next
    case (9 s p r m)
    then show ?case using work by (auto simp: simps)
  next
    case (10 s p r m)
    then show ?case using work by (auto simp: simps)
  next
    case (11 s p r m)
    then show ?case using work by (auto simp: simps)
  }
qed (simp_all add: ipc_fixture_def ipc_jobqueue_capacity_def ipc_jobqueue_is_full_def ipc_jobqueue_is_empty_def
    ipc_jobqueue_enqueue_def ipc_jobqueue_dequeue_def ipc_jobqueue_peekhead_def ipc_jobqueue_peektail_def)

section \<open>A known state\<close>

text \<open>
  A state with the queue \<open>jq\<close>, the job variables \<open>V\<close> and the blocks \<open>D\<close> that may be
  freed, in which allocations succeed.
\<close>

definition known :: "('s, 'h) test_jq \<Rightarrow> ('s \<Rightarrow> bool) \<Rightarrow> jobqueue_t \<Rightarrow> (nat \<Rightarrow> job_t option) \<Rightarrow> (nat \<Rightarrow> bool) \<Rightarrow> 's \<Rightarrow> bool" where
  "known T good jq V D s \<longleftrightarrow> good s \<and> jq_at (tj_mem T s) (tj_queue T) jq \<and> m_jobs (tj_mem T s) = V \<and>
     m_dyn (tj_mem T s) = D \<and> m_avail (tj_mem T s) = (\<lambda>_. True)"

lemma knownD:
  assumes "known T good jq V D s"
  shows "good s" "jq_at (tj_mem T s) (tj_queue T) jq" "m_jobs (tj_mem T s) = V" "jq_inv jq"
    "m_queues (tj_mem T s) (tj_queue T) = Some jq" "wf_mem (tj_mem T s)" "m_avail (tj_mem T s) n" "m_dyn (tj_mem T s) = D"
  using assms by (simp_all add: known_def jq_at_def)

lemma known_slot:
  assumes "known T good jq V D s" "0 \<le> i" "i < int QUEUE_SIZE"
  shows "load_job (tj_mem T s) (Slot (tj_queue T) i) = Some (q_jobs jq ! nat i)"
  by (rule load_Slot [OF knownD(2) [OF assms(1)] assms(2,3)])

lemma known_var: "known T good jq V D s \<Longrightarrow> load_job (tj_mem T s) (Obj x) = V x"
  by (simp add: knownD(3))

text \<open>The jobs in the slots: those that are queued have full labels, the others are initialised.\<close>

lemma slot_zero_or_ok:
  assumes "jq_inv jq" "i < QUEUE_SIZE"
  shows "q_jobs jq ! i = job_zero \<or> job_ok (q_jobs jq ! i)"
proof -
  have "set (q_jobs jq) = set (jq_ring jq)" by (simp add: jq_ring_def)
  also have "\<dots> \<subseteq> insert job_zero (set (jq_contents jq))" using jq_ring_split [OF assms(1)] by auto
  finally show ?thesis
    using assms jq_inv_ranges(6) [OF assms(1)] jq_contents_ok [OF assms(1)] by (metis insertE nth_mem subsetD)
qed

lemma slots_zero_iff:
  assumes "jq_inv jq"
  shows "(\<forall>i. 0 \<le> i \<and> i < int QUEUE_SIZE \<longrightarrow> q_jobs jq ! nat i = job_zero) \<longleftrightarrow> jq_contents jq = []"
proof -
  have len: "length (q_jobs jq) = QUEUE_SIZE" using jq_inv_ranges(6) [OF assms] .
  have "(\<forall>i. 0 \<le> i \<and> i < int QUEUE_SIZE \<longrightarrow> q_jobs jq ! nat i = job_zero) \<longleftrightarrow> (\<forall>n < QUEUE_SIZE. q_jobs jq ! n = job_zero)"
    by (metis nat_int nat_less_iff of_nat_0_le_iff)
  also have "\<dots> \<longleftrightarrow> (\<forall>x \<in> set (jq_ring jq). x = job_zero)"
    using len by (auto simp: jq_ring_def all_set_conv_all_nth)
  also have "\<dots> \<longleftrightarrow> (\<forall>x \<in> set (jq_contents jq). x = job_zero)"
    using jq_ring_split [OF assms] by auto
  also have "\<dots> \<longleftrightarrow> jq_contents jq = []"
    using jq_contents_ok [OF assms] job_zero_not_ok by (cases "jq_contents jq") auto
  finally show ?thesis .
qed

lemma tail_slot:
  assumes "jq_inv jq"
  shows "q_jobs jq ! nat (q_tail jq) = job_zero"
proof -
  have "jq_ring jq ! jq_count jq = job_zero"
    using jq_ring_split [OF assms] length_jq_contents [OF assms] jq_count_less [of jq] by (simp add: nth_append)
  moreover have "jq_ring jq ! jq_count jq = q_jobs jq ! nat (q_tail jq)"
    using jq_inv_ranges(6) [OF assms] jq_count_less [of jq] jq_tail_index [OF assms] by (simp add: jq_ring_def nth_rotate)
  ultimately show ?thesis by simp
qed

section \<open>What the tests look at, in a known state\<close>

lemma known_zero_slot:
  assumes "known T good jq V D s" "0 \<le> i" "i < int QUEUE_SIZE"
  shows "is_zero_job (tj_mem T s) (slot T i) = Some (q_jobs jq ! nat i = job_zero)"
  using is_zero_job_ok [OF known_slot [OF assms]] slot_zero_or_ok [OF knownD(4) [OF assms(1)], of "nat i"] assms(2,3) job_zero_not_ok
  by (auto simp: nat_less_iff)

lemma known_fields:
  assumes "known T good jq V D s"
  shows "q_buf_size jq = int QUEUE_SIZE" "next_index jq (q_head jq) = Some ((q_head jq + 1) mod int QUEUE_SIZE)"
    "next_index jq (q_tail jq) = Some ((q_tail jq + 1) mod int QUEUE_SIZE)"
proof -
  note r = jq_inv_ranges [OF knownD(4) [OF assms]]
  show "q_buf_size jq = int QUEUE_SIZE" by (rule r(5))
  show "next_index jq (q_head jq) = Some ((q_head jq + 1) mod int QUEUE_SIZE)" by (rule next_index_ok [OF r(5,1,2)])
  show "next_index jq (q_tail jq) = Some ((q_tail jq + 1) mod int QUEUE_SIZE)" by (rule next_index_ok [OF r(5,3,4)])
qed

lemma small_size: "int QUEUE_SIZE \<le> INT_MAX"
  by (simp add: QUEUE_SIZE_def INT_MAX_def)

lemma known_jobs_initialised:
  assumes "known T good jq V D s"
  shows "jobs_initialised T s (int QUEUE_SIZE) = Some (jq_contents jq = [])"
  using scan_loop [of "int QUEUE_SIZE" "\<lambda>i. is_zero_job (tj_mem T s) (slot T i)" "\<lambda>i. q_jobs jq ! nat i = job_zero"
      "\<lambda>i b. Some (i < int QUEUE_SIZE \<and> b)", OF known_zero_slot [OF assms]] small_size
  by (auto simp: jobs_initialised_def slots_zero_iff [OF knownD(4) [OF assms]])

lemma known_tests:
  assumes k: "known T good jq V D s" and q: "tj_q T = Ptr h"
  shows "t_is_full T s = Some (length (jq_contents jq) = 127)" "t_is_empty T s = Some (jq_contents jq = [])"
    "queue_is_empty T s = Some (jq_contents jq = [])" "queue_not_empty T s = Some (jq_contents jq \<noteq> [])"
    "queue_is_full T s = Some (length (jq_contents jq) = 127)" "queue_not_full T s = Some (length (jq_contents jq) \<noteq> 127)"
proof -
  note at = knownD(2) [OF k] and inv = knownD(4) [OF k] and jq = knownD(5) [OF k] and f = known_fields [OF k]
  note r = jq_inv_ranges [OF inv]
  have tail: "is_zero_job (tj_mem T s) (slot T (q_tail jq)) = Some True"
    using known_zero_slot [OF k r(3,4)] tail_slot [OF inv] by simp
  have head: "is_zero_job (tj_mem T s) (slot T (q_head jq)) = Some False" if "jq_contents jq \<noteq> []"
    using known_zero_slot [OF k r(1,2)] jq_head_job [OF inv that] jq_contents_ok [OF inv, of "hd (jq_contents jq)"] that job_zero_not_ok
    by auto
  show full: "t_is_full T s = Some (length (jq_contents jq) = 127)" and empty: "t_is_empty T s = Some (jq_contents jq = [])"
    by (simp_all add: t_is_full_def t_is_empty_def q tq_observe jobqueue_is_full_ok [OF at] jobqueue_is_empty_ok [OF at] QUEUE_SIZE_def)
  show "queue_is_empty T s = Some (jq_contents jq = [])"
    by (simp add: queue_is_empty_def empty jq f(1) known_jobs_initialised [OF k])
  show "queue_is_full T s = Some (length (jq_contents jq) = 127)"
    using head tail by (cases "jq_contents jq = []") (simp_all add: queue_is_full_def full jq)
  show "queue_not_full T s = Some (length (jq_contents jq) \<noteq> 127)"
    using tail jq_full_iff [OF inv] by (simp add: queue_not_full_def jq f(3) QUEUE_SIZE_def)
  show "queue_not_empty T s = Some (jq_contents jq \<noteq> [])"
  proof -
    have "\<exists>n. while_loop (\<lambda>i is_empty. Some (is_empty \<and> i < int QUEUE_SIZE)) (\<lambda>i _. is_zero_job (tj_mem T s) (slot T i)) 0 True =
      Some (n, \<forall>i. 0 \<le> i \<and> i < int QUEUE_SIZE \<longrightarrow> q_jobs jq ! nat i = job_zero)"
      by (rule scan_loop) (use known_zero_slot [OF k] small_size in auto)
    then obtain n where "while_loop (\<lambda>i is_empty. Some (is_empty \<and> i < int QUEUE_SIZE)) (\<lambda>i _. is_zero_job (tj_mem T s) (slot T i)) 0 True =
      Some (n, jq_contents jq = [])"
      unfolding slots_zero_iff [OF inv] by blast
    then show ?thesis using jq_empty_iff [OF inv] by (simp add: queue_not_empty_def jq f(1))
  qed
qed

section \<open>Statements of the tests\<close>

lemma known_len: "known T good jq V D s \<Longrightarrow> length (jq_contents jq) \<le> 127"
  using jq_count_less [of jq] length_jq_contents [OF knownD(4)] by (fastforce simp: QUEUE_SIZE_def)

lemma copy_job_zero:
  assumes "wf_mem m" "load_job m s = Some job_zero" "load_job m d = Some j0" "d \<noteq> s"
  shows "copy_job m (Ptr d) (Ptr s) = Some (put_job m d job_zero)"
proof -
  have len: "length (j_label j0) = MAX_NAME_SIZE" using wf_load [OF assms(1,3)] by (simp add: job_typ_def)
  have "strncpy (j_label j0) (j_label job_zero) (MAX_NAME_SIZE - 1) = Some (replicate (MAX_NAME_SIZE - 1) NUL @ [j_label j0 ! (MAX_NAME_SIZE - 1)])"
    using len drop_last [of "j_label j0" "MAX_NAME_SIZE - 1"]
    by (simp add: strncpy_def job_zero_def) (simp add: MAX_NAME_SIZE_def numeral_eq_Suc)
  moreover have "replicate (MAX_NAME_SIZE - 1) NUL @ [NUL] = j_label job_zero"
    by (simp add: job_zero_def replicate_append_same) (simp add: MAX_NAME_SIZE_def numeral_eq_Suc)
  ultimately have "set_job m (Ptr d) 0 0 (Ptr (j_label job_zero)) = Some (put_job m d job_zero)"
    using assms(3) by (simp add: set_job_def mem_simps poke_last job_zero_def) (cases j0; simp)
  then show ?thesis using assms(2,4) by (simp add: copy_job_def) (simp add: job_zero_def)
qed

lemma known_copy:
  assumes k: "known T good jq V D s" and x: "V x \<noteq> None" and i: "0 \<le> i" "i < int QUEUE_SIZE"
  shows "copy_job (tj_mem T s) (var x) (slot T i) = Some (put_job (tj_mem T s) (Obj x) (q_jobs jq ! nat i))"
proof -
  obtain j0 where j0: "load_job (tj_mem T s) (Obj x) = Some j0" using x known_var [OF k] by auto
  show ?thesis
    using slot_zero_or_ok [OF knownD(4) [OF k], of "nat i"] i copy_job_zero [OF knownD(6) [OF k] _ j0]
      copy_job_full [OF knownD(6) [OF k] known_slot [OF k i] j0] known_slot [OF k i]
    by (auto simp: nat_less_iff simp del: put_job.simps load_job.simps)
qed

context test_target
begin

text \<open>A memory in which a variable or the queue has changed.\<close>

lemma known_put:
  assumes k: "known T good jq V D s" and x: "V x \<noteq> None" "job_typ j" and t: "good t" "tj_mem T t = put_job (tj_mem T s) (Obj x) j"
  shows "known T good jq (V(x \<mapsto> j)) D t"
proof -
  obtain j0 where "m_jobs (tj_mem T s) x = Some j0" using x(1) knownD(3) [OF k] by auto
  from jq_at_put_Obj [OF knownD(2) [OF k] this x(2)] show ?thesis
    using k t by (simp add: known_def)
qed

lemma known_put_jq:
  assumes "known T good jq V D s" "jq_inv jq'" "good t" "tj_mem T t = put_jq (tj_mem T s) (tj_queue T) jq'"
  shows "known T good jq' V D t"
  using assms jq_at_put_jq [OF knownD(2) [OF assms(1)] assms(2)] by (simp add: known_def mem_simps)

lemma known_alloc:
  assumes k: "known T good jq V D s" and j: "job_typ j" and t: "good t" "tj_mem T t = alloc_job (tj_mem T s) j"
  shows "\<exists>n. n = m_next (tj_mem T s) \<and> V n = None \<and> known T good jq (V(n \<mapsto> j)) (D(n := True)) t"
proof -
  have "V (m_next (tj_mem T s)) = None" using knownD(3,6) [OF k] by (auto simp: wf_mem_def)
  then show ?thesis using k t jq_at_alloc [OF knownD(2) [OF k] j] by (simp add: known_def mem_simps) (simp add: alloc_job_def)
qed

lemma known_same: "known T good jq V D s \<Longrightarrow> good t \<Longrightarrow> tj_mem T t = tj_mem T s \<Longrightarrow> known T good jq V D t"
  by (simp add: known_def)

text \<open>Jobs in variables.\<close>

lemma wp_on_put:
  assumes k: "known T good jq V D s" and x: "V x \<noteq> None" "job_typ j" and f: "f (tj_mem T s) = Some (put_job (tj_mem T s) (Obj x) j)"
    and P: "\<And>t. known T good jq (V(x \<mapsto> j)) D t \<Longrightarrow> P t"
  shows "wp (on_mem T f s) P"
  using P [OF known_put [OF k x upd(2) upd(1)]] knownD(1) [OF k] f by (simp add: on_mem_def wp_def)

lemma wp_set_job:
  assumes k: "known T good jq V D s" and x: "V x \<noteq> None" and P: "\<And>t. known T good jq (V(x \<mapsto> mk_test p i)) D t \<Longrightarrow> P t"
  shows "wp (on_mem T (\<lambda>m. set_job m (var x) (word_of_int p) (word_of_int i) NULL) s) P"
proof (rule wp_on_put [OF k x _ _ P])
  obtain j0 where "load_job (tj_mem T s) (Obj x) = Some j0" using x known_var [OF k] by auto
  then show "set_job (tj_mem T s) (var x) (word_of_int p) (word_of_int i) NULL = Some (put_job (tj_mem T s) (Obj x) (mk_test p i))"
    unfolding mk_test_def by (rule set_job_stars [OF knownD(6) [OF k]])
qed (simp_all add: mk_test_def)

lemma wp_job_set_test:
  assumes k: "known T good jq V D s" and x: "V x \<noteq> None" and P: "\<And>t. known T good jq (V(x \<mapsto> mk_test p i)) D t \<Longrightarrow> P t"
  shows "wp (job_set_test T x p i s) P"
  unfolding job_set_test_def
proof (rule wp_on_put [OF k x _ _ P])
  obtain j0 where "load_job (tj_mem T s) (Obj x) = Some j0" using x known_var [OF k] by auto
  from job_set_ok [OF knownD(6) [OF k] this, of NULL "[]"]
  show "job_set (tj_mem T s) (var x) (word_of_int p) (word_of_int i) NULL \<bind> (\<lambda>(_, m1). Some m1) = Some (put_job (tj_mem T s) (Obj x) (mk_test p i))"
    by (simp add: mk_test_def label_arg_def del: put_job.simps)
qed (simp_all add: mk_test_def)

lemma wp_set_test_job:
  assumes "known T good jq V D s" "V x \<noteq> None" "i = int k" "k \<le> 500" "\<And>t. known T good jq (V(x \<mapsto> nth_job k)) D t \<Longrightarrow> P t"
  shows "wp (set_test_job T x i s) P"
proof -
  have "as_int (i + 1) = Some (i + 1)" using assms(3,4) by (intro as_int_Some) (simp_all add: INT_MIN_def INT_MAX_def)
  then show ?thesis using assms wp_set_job [OF assms(1,2), of "i + 1" i P] by (simp add: set_test_job_def)
qed

lemma wp_copy_job:
  assumes k: "known T good jq V D s" and x: "V x \<noteq> None" and i: "0 \<le> i" "i < int QUEUE_SIZE"
    and P: "\<And>t. known T good jq (V(x \<mapsto> q_jobs jq ! nat i)) D t \<Longrightarrow> P t"
  shows "wp (on_mem T (\<lambda>m. copy_job m (var x) (slot T i)) s) P"
proof (rule wp_on_put [OF k x _ _ P])
  show "job_typ (q_jobs jq ! nat i)"
    using slot_zero_or_ok [OF knownD(4) [OF k], of "nat i"] i by (auto simp: nat_less_iff job_ok_typ)
  show "copy_job (tj_mem T s) (var x) (slot T i) = Some (put_job (tj_mem T s) (Obj x) (q_jobs jq ! nat i))"
    by (rule known_copy [OF k x i])
qed

lemma wp_free_ptr:
  assumes k: "known T good jq V D s" and n: "V n \<noteq> None" "D n"
    and P: "\<And>t. known T good jq (V(n := None)) (D(n := False)) t \<Longrightarrow> P t"
  shows "wp (on_mem T (\<lambda>m. free_ptr m (var n)) s) P"
proof -
  let ?m = "tj_mem T s"
  let ?m' = "?m\<lparr>m_jobs := (m_jobs ?m)(n := None), m_dyn := (m_dyn ?m)(n := False)\<rparr>"
  have "free_ptr ?m (var n) = Some ?m'" using n knownD(3,8) [OF k] by (simp add: free_ptr_def)
  moreover have "jq_at ?m' (tj_queue T) jq"
    using knownD(2) [OF k] by (auto simp: jq_at_def wf_mem_def split: if_splits)
  then have "known T good jq (V(n := None)) (D(n := False)) (tj_upd T ?m' s)"
    using k upd by (simp add: known_def)
  ultimately show ?thesis using P by (simp add: on_mem_def wp_def)
qed

text \<open>The queue, by the functions of the tests and by those under test.\<close>

lemma known_enqueue:
  assumes k: "known T good jq V D s" and x: "V x = Some j" "job_ok j" and room: "length (jq_contents jq) < 127"
  shows "jobqueue_enqueue (tj_mem T s) (Ptr (tj_queue T)) (var x) = Some (put_jq (tj_mem T s) (tj_queue T) (enq_val jq j))"
    "jq_inv (enq_val jq j)"
  using jobqueue_enqueue_room [OF knownD(2) [OF k] _ _ job_ok_has_NUL [OF x(2)]] jq_enq_val [OF knownD(4) [OF k]] room x(1) knownD(3) [OF k]
  by (simp_all add: QUEUE_SIZE_def)

lemma wp_t_enqueue:
  assumes k: "known T good jq V D s" and x: "V x = Some j" "job_ok j" and room: "length (jq_contents jq) < 127"
    and P: "\<And>t. known T good (enq_val jq j) V D t \<Longrightarrow> P t"
  shows "wp (t_enqueue T s (var x)) P"
proof -
  obtain h where h: "tj_q T = Ptr h" using has_queue by blast
  have "tq_enqueue (tj_q T) (tj_queue T) (tj_mem T s) (var x) = Some (put_jq (tj_mem T s) (tj_queue T) (enq_val jq j))"
    using tq_enqueue_library [OF knownD(2) [OF k] _ x(2), of x h] known_enqueue(1) [OF k x room] x(1) knownD(3) [OF k] h by simp
  with P [OF known_put_jq [OF k known_enqueue(2) [OF k x room] upd(2) upd(1)]] knownD(1) [OF k]
  show ?thesis by (simp add: t_enqueue_def on_mem_def wp_def)
qed

lemma wp_enqueue:
  assumes k: "known T good jq V D s" and x: "V x = Some j" "job_ok j" and room: "length (jq_contents jq) < 127"
    and P: "\<And>t. known T good (enq_val jq j) V D t \<Longrightarrow> P t"
  shows "wp (tj_enqueue T (tj_q T) s (var x)) P"
  using enqueue [OF knownD(1) [OF k] known_enqueue(1) [OF k x room]] P known_put_jq [OF k known_enqueue(2) [OF k x room]]
  by (auto simp: wp_def)

lemma wp_enqueue_full:
  assumes k: "known T good jq V D s" and "length (jq_contents jq) = 127 \<or> p = NULL"
    and P: "\<And>t. known T good jq V D t \<Longrightarrow> P t"
  shows "wp (tj_enqueue T (tj_q T) s p) P"
proof -
  have "jobqueue_enqueue (tj_mem T s) (Ptr (tj_queue T)) p = Some (tj_mem T s)"
    using assms(2) jobqueue_enqueue_full [OF knownD(2) [OF k], of p] jobqueue_enqueue_def [of _ _ NULL] by (auto simp: QUEUE_SIZE_def)
  from enqueue [OF knownD(1) [OF k] this] P k show ?thesis by (auto simp: wp_def known_def)
qed

lemma known_dequeue:
  assumes k: "known T good jq V D s" and x: "V x \<noteq> None" and ne: "jq_contents jq \<noteq> []"
  shows "jobqueue_dequeue (tj_mem T s) (Ptr (tj_queue T)) (var x) =
      Some (var x, put_jq (put_job (tj_mem T s) (Obj x) (hd (jq_contents jq))) (tj_queue T) (deq_val jq))"
    "good t \<Longrightarrow> tj_mem T t = put_jq (put_job (tj_mem T s) (Obj x) (hd (jq_contents jq))) (tj_queue T) (deq_val jq) \<Longrightarrow>
      known T good (deq_val jq) (V(x \<mapsto> hd (jq_contents jq))) D t"
proof -
  obtain j0 where j0: "m_jobs (tj_mem T s) x = Some j0" using x knownD(3) [OF k] by auto
  note ok = job_ok_typ [OF load_head(2) [OF knownD(2) [OF k] ne]]
  show "jobqueue_dequeue (tj_mem T s) (Ptr (tj_queue T)) (var x) =
      Some (var x, put_jq (put_job (tj_mem T s) (Obj x) (hd (jq_contents jq))) (tj_queue T) (deq_val jq))"
    by (rule jobqueue_dequeue_to [OF knownD(2) [OF k] ne j0])
  have "jq_at (put_jq (put_job (tj_mem T s) (Obj x) (hd (jq_contents jq))) (tj_queue T) (deq_val jq)) (tj_queue T) (deq_val jq)"
    using jq_at_put_jq [OF jq_at_put_Obj [OF knownD(2) [OF k] j0 ok]] jq_deq_val [OF knownD(4) [OF k] ne] by blast
  then show "known T good (deq_val jq) (V(x \<mapsto> hd (jq_contents jq))) D t"
    if "good t" "tj_mem T t = put_jq (put_job (tj_mem T s) (Obj x) (hd (jq_contents jq))) (tj_queue T) (deq_val jq)"
    using that k by (simp add: known_def mem_simps)
qed

lemma wp_dequeue:
  assumes k: "known T good jq V D s" and x: "V x \<noteq> None" and ne: "jq_contents jq \<noteq> []"
    and P: "\<And>t. known T good (deq_val jq) (V(x \<mapsto> hd (jq_contents jq))) D t \<Longrightarrow> P (var x, t)"
  shows "wp (tj_dequeue T (tj_q T) s (var x)) P" "wp (t_dequeue T s (var x)) P"
proof -
  show "wp (tj_dequeue T (tj_q T) s (var x)) P"
    using dequeue [OF knownD(1) [OF k] known_dequeue(1) [OF k x ne]] known_dequeue(2) [OF k x ne] P by (auto simp: wp_def)
  obtain h where h: "tj_q T = Ptr h" using has_queue by blast
  obtain j0 where j0: "m_jobs (tj_mem T s) x = Some j0" using x knownD(3) [OF k] by auto
  have "tq_dequeue (tj_q T) (tj_queue T) (tj_mem T s) (var x) =
      Some (var x, put_jq (put_job (tj_mem T s) (Obj x) (hd (jq_contents jq))) (tj_queue T) (deq_val jq))"
    using tq_dequeue_library [OF knownD(2) [OF k] j0, of h] known_dequeue(1) [OF k x ne] h by simp
  with P [OF known_dequeue(2) [OF k x ne upd(2) upd(1)]] knownD(1) [OF k]
  show "wp (t_dequeue T s (var x)) P" by (simp add: t_dequeue_def on_mem_r_def wp_def)
qed

lemma wp_dequeue_empty:
  assumes k: "known T good jq V D s" and e: "jq_contents jq = []" and P: "\<And>t. known T good jq V D t \<Longrightarrow> P (NULL, t)"
  shows "wp (tj_dequeue T (tj_q T) s p) P"
  using dequeue [OF knownD(1) [OF k] jobqueue_dequeue_empty [OF knownD(2) [OF k] e, of p]] P [OF known_same [OF k]] by (auto simp: wp_def)

text \<open>With \<^verbatim>\<open>malloc\<close>.\<close>

lemma wp_dequeue_new:
  assumes k: "known T good jq V D s" and ne: "jq_contents jq \<noteq> []"
    and P: "\<And>n t. V n = None \<Longrightarrow> known T good (deq_val jq) (V(n \<mapsto> hd (jq_contents jq))) (D(n := True)) t \<Longrightarrow> P (var n, t)"
  shows "wp (tj_dequeue T (tj_q T) s NULL) P"
proof -
  let ?m = "tj_mem T s" and ?x = "hd (jq_contents jq)"
  note ty = job_ok_typ [OF load_head(2) [OF knownD(2) [OF k] ne]]
  let ?t = "tj_upd T (alloc_job ?m ?x) s"
  obtain n where n: "n = m_next ?m" "V n = None" and a: "known T good jq (V(n \<mapsto> ?x)) (D(n := True)) ?t"
    using known_alloc [OF k ty upd(2) upd(1)] knownD(1) [OF k] by blast
  obtain t where t: "tj_dequeue T (tj_q T) s NULL = Some (var n, t)" "good t" "tj_mem T t = put_jq (alloc_job ?m ?x) (tj_queue T) (deq_val jq)"
    using dequeue [OF knownD(1) [OF k] jobqueue_dequeue_new [OF knownD(2) [OF k] ne knownD(7) [OF k]]] n(1) by blast
  have "known T good (deq_val jq) (V(n \<mapsto> ?x)) (D(n := True)) t"
    by (rule known_put_jq [OF a]) (use t upd(1) jq_deq_val [OF knownD(4) [OF k] ne] in simp_all)
  then show ?thesis using P [OF n(2)] t(1) by (simp add: wp_def)
qed

lemma wp_peek:
  assumes k: "known T good jq V D s" and x: "V x \<noteq> None" and ne: "jq_contents jq \<noteq> []"
  shows "(\<And>t. known T good jq (V(x \<mapsto> hd (jq_contents jq))) D t \<Longrightarrow> P (var x, t)) \<Longrightarrow> wp (tj_peekhead T (tj_q T) s (var x)) P"
    and "(\<And>t. known T good jq (V(x \<mapsto> last (jq_contents jq))) D t \<Longrightarrow> P (var x, t)) \<Longrightarrow> wp (tj_peektail T (tj_q T) s (var x)) P"
proof -
  obtain j0 where j0: "m_jobs (tj_mem T s) x = Some j0" using x knownD(3) [OF k] by auto
  note at = knownD(2) [OF k]
  show "wp (tj_peekhead T (tj_q T) s (var x)) P" if P: "\<And>t. known T good jq (V(x \<mapsto> hd (jq_contents jq))) D t \<Longrightarrow> P (var x, t)"
    using peekhead [OF knownD(1) [OF k] jobqueue_peekhead_to [OF at ne j0]] P known_put [OF k x job_ok_typ [OF load_head(2) [OF at ne]]]
    by (auto simp: wp_def simp del: put_job.simps)
  show "wp (tj_peektail T (tj_q T) s (var x)) P" if P: "\<And>t. known T good jq (V(x \<mapsto> last (jq_contents jq))) D t \<Longrightarrow> P (var x, t)"
    using peektail [OF knownD(1) [OF k] jobqueue_peektail_to [OF at ne j0]] P known_put [OF k x job_ok_typ [OF load_tail(2) [OF at ne]]]
    by (auto simp: wp_def simp del: put_job.simps)
qed

lemma wp_peek_empty:
  assumes k: "known T good jq V D s" and e: "jq_contents jq = []" and P: "\<And>t. known T good jq V D t \<Longrightarrow> P t"
  shows "wp (gives_null (tj_peekhead T (tj_q T) s p)) P" "wp (gives_null (tj_peektail T (tj_q T) s p)) P"
  using peekhead [OF knownD(1) [OF k] jobqueue_peekhead_empty [OF knownD(2) [OF k] e, of p]]
    peektail [OF knownD(1) [OF k] jobqueue_peektail_empty [OF knownD(2) [OF k] e, of p]] P [OF known_same [OF k]]
  by (auto simp: wp_def gives_null_def)

lemma wp_peek_new:
  assumes k: "known T good jq V D s" and ne: "jq_contents jq \<noteq> []"
  shows "(\<And>n t. V n = None \<Longrightarrow> known T good jq (V(n \<mapsto> hd (jq_contents jq))) (D(n := True)) t \<Longrightarrow> P (var n, t)) \<Longrightarrow>
      wp (tj_peekhead T (tj_q T) s NULL) P"
    and "(\<And>n t. V n = None \<Longrightarrow> known T good jq (V(n \<mapsto> last (jq_contents jq))) (D(n := True)) t \<Longrightarrow> P (var n, t)) \<Longrightarrow>
      wp (tj_peektail T (tj_q T) s NULL) P"
proof -
  let ?m = "tj_mem T s"
  note at = knownD(2) [OF k] and av = knownD(7) [OF k, of "m_next ?m"]
  have tail: "jobqueue_peektail ?m (Ptr (tj_queue T)) NULL = Some (var (m_next ?m), alloc_job ?m (last (jq_contents jq)))"
    using jobqueue_peektail_copy [OF at ne] copied_ok [OF load_tail(2) [OF at ne]]
      job_copy_new [OF knownD(6) [OF k] load_tail(1) [OF at ne] job_ok_has_NUL [OF load_tail(2) [OF at ne]] av] by simp
  show "wp (tj_peekhead T (tj_q T) s NULL) P"
    if P: "\<And>n t. V n = None \<Longrightarrow> known T good jq (V(n \<mapsto> hd (jq_contents jq))) (D(n := True)) t \<Longrightarrow> P (var n, t)"
    using peekhead [OF knownD(1) [OF k] jobqueue_peekhead_new [OF at ne av]] known_alloc [OF k job_ok_typ [OF load_head(2) [OF at ne]]] P
    by (auto simp: wp_def)
  show "wp (tj_peektail T (tj_q T) s NULL) P"
    if P: "\<And>n t. V n = None \<Longrightarrow> known T good jq (V(n \<mapsto> last (jq_contents jq))) (D(n := True)) t \<Longrightarrow> P (var n, t)"
    using peektail [OF knownD(1) [OF k] tail] known_alloc [OF k job_ok_typ [OF load_tail(2) [OF at ne]]] P
    by (auto simp: wp_def)
qed

lemma wp_says:
  assumes k: "known T good jq V D s" and P: "\<And>t. known T good jq V D t \<Longrightarrow> P t"
  shows "v = (length (jq_contents jq) = 127) \<Longrightarrow> wp (says (tj_is_full T (tj_q T) s) v) P"
    and "v = (jq_contents jq = []) \<Longrightarrow> wp (says (tj_is_empty T (tj_q T) s) v) P"
  using is_full [OF knownD(1) [OF k] jobqueue_is_full_ok [OF knownD(2) [OF k]]]
    is_empty [OF knownD(1) [OF k] jobqueue_is_empty_ok [OF knownD(2) [OF k]]] P [OF known_same [OF k]]
  by (auto simp: says_def wp_def QUEUE_SIZE_def)

text \<open>The queue after an enqueue and a dequeue.\<close>

lemma known_enq:
  assumes "known T good jq V D s" "length (jq_contents jq) < 127" "job_ok j"
  shows "jq_contents (enq_val jq j) = jq_contents jq @ [j]" "q_head (enq_val jq j) = q_head jq"
    "q_tail (enq_val jq j) = (q_tail jq + 1) mod int QUEUE_SIZE" "q_jobs (enq_val jq j) ! nat (q_tail jq) = j"
  using jq_enq_val [OF knownD(4) [OF assms(1)], of j] jq_inv_ranges [OF knownD(4) [OF assms(1)]] assms(2)
  by (simp_all add: enq_val_def copied_ok [OF assms(3)] QUEUE_SIZE_def nat_less_iff)

lemma known_deq:
  assumes "known T good jq V D s" "jq_contents jq \<noteq> []"
  shows "jq_contents (deq_val jq) = tl (jq_contents jq)" "q_tail (deq_val jq) = q_tail jq"
    "q_head (deq_val jq) = (q_head jq + 1) mod int QUEUE_SIZE" "q_jobs (deq_val jq) ! nat (q_head jq) = job_zero"
  using jq_deq_val [OF knownD(4) [OF assms(1)]] jq_inv_ranges [OF knownD(4) [OF assms(1)]] assms(2)
  by (simp_all add: deq_val_def QUEUE_SIZE_def nat_less_iff)

lemma known_observe:
  assumes "known T good jq V D s"
  shows "t_is_full T s = Some (length (jq_contents jq) = 127)" "t_is_empty T s = Some (jq_contents jq = [])"
    "queue_is_empty T s = Some (jq_contents jq = [])" "queue_not_empty T s = Some (jq_contents jq \<noteq> [])"
    "queue_is_full T s = Some (length (jq_contents jq) = 127)" "queue_not_full T s = Some (length (jq_contents jq) \<noteq> 127)"
    "the_jq T s = Some jq" "q_buf_size jq = int QUEUE_SIZE"
  using known_tests [OF assms] has_queue knownD(5) [OF assms] known_fields(1) [OF assms] by blast+

lemma int_size: "as_int (int QUEUE_SIZE - 1) = Some 127" "as_int (int QUEUE_SIZE - 2) = Some 126"
  by (simp_all add: as_int_Some INT_MIN_def INT_MAX_def QUEUE_SIZE_def)

text \<open>The loops that fill and empty the queue; \<open>Q\<close> is what holds of the variables.\<close>

lemma wp_filling:
  assumes k: "known T good jq V D s" "jq_contents jq = []" "Q V" and ok: "\<And>n. job_ok (f n)" and i: "0 \<le> i" "i \<le> 500"
    and step: "\<And>n jq' V D s. n < 127 \<Longrightarrow> known T good jq' V D s \<Longrightarrow> jq_contents jq' = map f [0..<n] \<Longrightarrow> q_head jq' = q_head jq \<Longrightarrow>
      Q V \<Longrightarrow> wp (b (i + int n) s) (\<lambda>t. \<exists>V D. known T good (enq_val jq' (f n)) V D t \<and> Q V)"
    and stop: "\<And>jq' V D t. known T good jq' V D t \<Longrightarrow> jq_contents jq' = map f [0..<127] \<Longrightarrow> q_head jq' = q_head jq \<Longrightarrow> Q V \<Longrightarrow> P (i + 127, t)"
  shows "wp (while_loop (\<lambda>_ s. map_option Not (t_is_full T s)) b i s) P"
proof (rule wp_while [where N = 127 and I = "\<lambda>n s. \<exists>jq' V D. known T good jq' V D s \<and>
    jq_contents jq' = map f [0..<n] \<and> q_head jq' = q_head jq \<and> Q V"], goal_cases)
  case 1
  show ?case using k by fastforce
next
  case (2 n s)
  then obtain jq' V D where k': "known T good jq' V D s" and c: "jq_contents jq' = map f [0..<n]" "q_head jq' = q_head jq" "Q V"
    by blast
  have "wp (b (i + int n) s) (\<lambda>t. \<exists>jq' V D. known T good jq' V D t \<and> jq_contents jq' = map f [0..<Suc n] \<and> q_head jq' = q_head jq \<and> Q V)"
    by (rule wp_mono [OF step [OF 2(1) k' c]]) (use known_enq [OF k' _ ok] c 2(1) in fastforce)
  then show ?case using known_observe [OF k'] c(1) 2(1) by simp
next
  case (3 s)
  then show ?case using stop known_observe by fastforce
qed (use i in \<open>simp_all add: INT_MIN_def INT_MAX_def\<close>)

lemma wp_draining:
  assumes k: "known T good jq V D s" "jq_contents jq = map f [0..<127]" "Q V"
    and step: "\<And>n jq' V D s. n < 127 \<Longrightarrow> known T good jq' V D s \<Longrightarrow> jq_contents jq' = f n # map f [Suc n..<127] \<Longrightarrow>
      Q V \<Longrightarrow> wp (b (int n) s) (\<lambda>t. \<exists>V D. known T good (deq_val jq') V D t \<and> Q V)"
    and stop: "\<And>jq' V D t. known T good jq' V D t \<Longrightarrow> jq_contents jq' = [] \<Longrightarrow> Q V \<Longrightarrow> P t"
  shows "wp (until_empty T b s) P"
  unfolding until_empty_def wp_bind
proof (rule wp_while [where N = 127 and I = "\<lambda>n s. \<exists>jq' V D. known T good jq' V D s \<and>
    jq_contents jq' = map f [n..<127] \<and> Q V"], goal_cases)
  case 1
  show ?case using k by fastforce
next
  case (2 n s)
  then obtain jq' V D where k': "known T good jq' V D s" and c: "jq_contents jq' = f n # map f [Suc n..<127]" "Q V"
    by (auto simp: upt_rec [of n])
  have "wp (b (int n) s) (\<lambda>t. \<exists>jq' V D. known T good jq' V D t \<and> jq_contents jq' = map f [Suc n..<127] \<and> Q V)"
    by (rule wp_mono [OF step [OF 2(1) k' c]]) (use known_deq(1) [OF k'] c in fastforce)
  then show ?case using known_observe [OF k'] c(1) by simp
next
  case (3 s)
  then show ?case using stop known_observe by fastforce
qed (simp_all add: INT_MIN_def INT_MAX_def)

lemma wp_fill:
  assumes k: "known T good jq V D s" and e: "jq_contents jq = []" and Q: "Q V" "\<And>V j'. Q V \<Longrightarrow> V j \<noteq> None \<and> Q (V(j \<mapsto> j'))"
    and P: "\<And>jq' V D t. known T good jq' V D t \<Longrightarrow> jq_contents jq' = map nth_job [0..<127] \<Longrightarrow> Q V \<Longrightarrow> P (True, t)"
  shows "wp (fill_queue T j s) P"
  unfolding fill_queue_def wp_bind
proof (rule wp_filling [where f = nth_job and Q = Q, OF k e Q(1) mk_test_ok], goal_cases)
  case (3 n jq' V D s)
  note V = Q(2) [OF 3(5)]
  show ?case
    unfolding wp_bind
  proof (rule wp_set_test_job [OF 3(2)], use V in blast, simp, use 3(1) in simp, rule wp_t_enqueue, assumption)
    fix t t' assume "known T good (enq_val jq' (nth_job n)) (V(j \<mapsto> nth_job n)) D t'"
    then show "\<exists>V D. known T good (enq_val jq' (nth_job n)) V D t' \<and> Q V" using V by blast
  qed (use 3 mk_test_ok in auto)
next
  case (4 jq' V D t)
  then show ?case using P [OF 4(1,2,4)] known_observe [OF 4(1)] by (simp add: int_size)
qed simp_all

text \<open>The checks that the tests have in common.\<close>

lemma known_equal:
  assumes "known T good jq V D s" "V x = Some j" "V y = Some j" "job_ok j"
  shows "equal_jobs (tj_mem T s) (var x) (var y) = Some True"
  by (rule equal_jobs_ok) (use assms known_var [OF assms(1)] job_ok_typ in simp_all)

lemma known_not_init:
  assumes "known T good jq V D s" "V x = Some (nth_job n)" "n \<le> 500"
  shows "is_init_job (tj_mem T s) (var x) = Some False"
  by (rule is_init_job_test [of _ _ "int n + 1" "int n"]) (use assms known_var [OF assms(1)] in simp_all)

lemma wp_check_dequeue:
  assumes k: "known T good jq V D s" and x: "V x \<noteq> None" and y: "V y = Some (nth_job n)" "x \<noteq> y" and n: "n \<le> 500"
    and c: "jq_contents jq = nth_job n # xs" and P: "\<And>t. known T good (deq_val jq) (V(x \<mapsto> nth_job n)) D t \<Longrightarrow> P t"
  shows "wp (check_dequeue T (tj_dequeue T (tj_q T)) x y s) P" "wp (check_dequeue T (t_dequeue T) x y s) P"
proof -
  have ne: "jq_contents jq \<noteq> []" using c by simp
  note r = jq_inv_ranges [OF knownD(4) [OF k]] and d = known_deq [OF k ne]
  have after: "wp (the_jq T t \<bind> (\<lambda>jq1. next_index jq1 (q_head jq) \<bind> (\<lambda>n. require (q_head jq1 = n) \<bind> (\<lambda>_.
      assert_false (is_init_job (tj_mem T t) (var x)) \<bind> (\<lambda>_. assert_true (equal_and_distinct (tj_mem T t) (var x) (var y)) \<bind> (\<lambda>_.
      require (var x = var x) \<bind> (\<lambda>_. Some t))))))) P" "is_init_job (tj_mem T t) (slot T (q_head jq)) = Some True"
    if t: "known T good (deq_val jq) (V(x \<mapsto> hd (jq_contents jq))) D t" for t
  proof -
    have t': "known T good (deq_val jq) (V(x \<mapsto> nth_job n)) D t" using t c by simp
    have "next_index (deq_val jq) (q_head jq) = Some ((q_head jq + 1) mod int QUEUE_SIZE)"
      by (rule next_index_ok) (use known_fields(1) [OF t] r in simp_all)
    then show "wp (the_jq T t \<bind> (\<lambda>jq1. next_index jq1 (q_head jq) \<bind> (\<lambda>n. require (q_head jq1 = n) \<bind> (\<lambda>_.
      assert_false (is_init_job (tj_mem T t) (var x)) \<bind> (\<lambda>_. assert_true (equal_and_distinct (tj_mem T t) (var x) (var y)) \<bind> (\<lambda>_.
      require (var x = var x) \<bind> (\<lambda>_. Some t))))))) P"
      using y n P [OF t'] known_not_init [OF t'] known_equal [OF t' _ _ mk_test_ok, of x "int n + 1" "int n" y]
      by (simp add: knownD(5) [OF t] d equal_and_distinct_def)
    show "is_init_job (tj_mem T t) (slot T (q_head jq)) = Some True"
      using is_init_job_zero known_slot [OF t r(1,2)] d(4) by simp
  qed
  show "wp (check_dequeue T (tj_dequeue T (tj_q T)) x y s) P"
    unfolding check_dequeue_def knownD(5) [OF k] wp_bind wp_simps
    by (rule wp_dequeue(1) [OF k x ne]) (use after in \<open>simp only: prod.case wp_bind wp_assert simp_thms\<close>)
  show "wp (check_dequeue T (t_dequeue T) x y s) P"
    unfolding check_dequeue_def knownD(5) [OF k] wp_bind wp_simps
    by (rule wp_dequeue(2) [OF k x ne]) (use after in \<open>simp only: prod.case wp_bind wp_assert simp_thms\<close>)
qed

lemma wp_check_enqueue:
  assumes k: "known T good jq V D s" and y: "V y = Some (nth_job n)" and n: "n \<le> 500"
    and room: "length (jq_contents jq) < 127" and P: "\<And>t. known T good (enq_val jq (nth_job n)) V D t \<Longrightarrow> P t"
  shows "wp (check_enqueue T y s) P"
proof -
  note r = jq_inv_ranges [OF knownD(4) [OF k]] and e = known_enq [OF k room mk_test_ok, of "int n + 1" "int n"]
  show ?thesis
    unfolding check_enqueue_def knownD(5) [OF k] wp_bind wp_simps Let_def
  proof (rule wp_enqueue [OF k y mk_test_ok room])
    fix t assume t: "known T good (enq_val jq (nth_job n)) V D t"
    have slot: "load_job (tj_mem T t) (Slot (tj_queue T) (q_tail jq)) = Some (nth_job n)"
      using known_slot [OF t r(3,4)] e(4) by simp
    have init: "is_init_job (tj_mem T t) (slot T (q_tail jq)) = Some False"
      by (rule is_init_job_test [OF slot]) (use n in simp_all)
    have eq: "equal_jobs (tj_mem T t) (slot T (q_tail jq)) (var y) = Some True"
      by (rule equal_jobs_ok [OF slot]) (use y known_var [OF t] mk_test_ok job_ok_typ in auto)
    have "next_index (enq_val jq (nth_job n)) (q_tail jq) = Some ((q_tail jq + 1) mod int QUEUE_SIZE)"
      by (rule next_index_ok) (use known_fields(1) [OF t] r in simp_all)
    then show "wp (assert_false (is_init_job (tj_mem T t) (slot T (q_tail jq)))) (\<lambda>_. wp (the_jq T t) (\<lambda>jq1.
        wp (next_index jq1 (q_tail jq)) (\<lambda>n. wp (require (q_tail jq1 = n)) (\<lambda>_.
        wp (assert_true (equal_and_distinct (tj_mem T t) (slot T (q_tail jq)) (var y))) (\<lambda>_. P t)))))"
      using init eq P [OF t] by (simp add: knownD(5) [OF t] e equal_and_distinct_def)
  qed
qed

lemma wp_left_empty: "known T good jq V D s \<Longrightarrow> jq_contents jq = [] \<Longrightarrow> P s \<Longrightarrow> wp (left_empty T s) P"
  by (simp add: left_empty_def known_observe)

end

end
