(* ===== verification/Test_Results.thy ===== *)
theory Test_Results
  imports Test_Passes
begin

text \<open>
  Every test of \<^verbatim>\<open>test_jobqueue_common.c\<close> returns \<^verbatim>\<open>MUNIT_OK\<close> for \<^verbatim>\<open>jobqueue.c\<close> and
  for \<^verbatim>\<open>ipc_jobqueue.c\<close>.
\<close>

context test_target
begin

lemma known_ex: "known T good jq V D t \<Longrightarrow> Q V \<Longrightarrow> \<exists>V D. known T good jq V D t \<and> Q V"
  by blast

lemma wp_t_enqueue_nth:
  assumes "known T good jq V D s" "V x = Some (nth_job n)" "length (jq_contents jq) < 127"
    "\<And>t. known T good (enq_val jq (nth_job n)) V D t \<Longrightarrow> P t"
  shows "wp (t_enqueue T s (var x)) P"
  by (rule wp_t_enqueue [OF assms(1,2) mk_test_ok assms(3,4)])

section \<open>Capacity and dequeue\<close>

lemma capacity_passes:
  assumes "known T good jq V D s"
  shows "wp (test_jq_capacity T s) (\<lambda>_. True)" "wp (test_jq_capacity_null T s) (\<lambda>_. True)"
  using knownD(1) [OF assms] knownD(5) [OF assms] jobqueue_capacity_ok [OF knownD(2) [OF assms]] known_fields(1) [OF assms]
  by (simp_all add: test_jq_capacity_def test_jq_capacity_null_def capacity int_size) (simp add: QUEUE_SIZE_def)

lemma dequeue_fullq_passes:
  assumes k: "known T good jq V D s" "jq_contents jq = []" and v: "V j \<noteq> None" "V x \<noteq> None" "V y \<noteq> None" "x \<noteq> y"
  shows "wp (test_jq_dequeue_fullq T j x y s) (\<lambda>_. True)"
proof -
  let ?Q = "\<lambda>V. V j \<noteq> None \<and> V x \<noteq> None \<and> V y \<noteq> None"
  have drain: "wp (until_empty T (\<lambda>i s. do { s1 \<leftarrow> set_test_job T y i s; check_dequeue T (tj_dequeue T (tj_q T)) x y s1 }) s1)
      (\<lambda>s2. wp (left_empty T s2) (\<lambda>_. True))"
    if s1: "known T good jq' V' D' s1" "jq_contents jq' = map nth_job [0..<127]" "?Q V'" for jq' V' D' s1
  proof (rule wp_draining [where f = nth_job and Q = ?Q, OF s1])
    fix n jq V D s assume n: "n < (127::nat)" "known T good jq V D s" "jq_contents jq = nth_job n # map nth_job [Suc n..<127]" "?Q V"
    show "wp (set_test_job T y (int n) s \<bind> check_dequeue T (tj_dequeue T (tj_q T)) x y)
      (\<lambda>t. \<exists>V D. known T good (deq_val jq) V D t \<and> ?Q V)"
      unfolding wp_bind
    proof (rule wp_set_test_job [OF n(2), where k = n])
      fix t assume t: "known T good jq (V(y \<mapsto> nth_job n)) D t"
      show "wp (check_dequeue T (tj_dequeue T (tj_q T)) x y t) (\<lambda>t. \<exists>V D. known T good (deq_val jq) V D t \<and> ?Q V)"
        by (rule wp_check_dequeue(1) [OF t _ _ v(4) _ n(3)], use n(4) v(4) in simp, simp, use n(1) in simp, rule known_ex, assumption, use n(4) in simp)
    qed (use n(1,4) in simp_all)
  qed (rule wp_left_empty; simp)
  show ?thesis
    unfolding test_jq_dequeue_fullq_def known_observe [OF k(1)] wp_bind wp_simps known_jobs_initialised [OF k(1)]
    using k(2) by (simp, intro wp_fill [where Q = ?Q, OF k]) (use v drain in auto)
qed

lemma plus_part_size: "plus_part (int QUEUE_SIZE) 2 = Some 192" "plus_part (int QUEUE_SIZE) 3 = Some 170"
  by (simp_all add: plus_part_def tquot_def as_int_Some INT_MIN_def INT_MAX_def QUEUE_SIZE_def)

text \<open>Rounds of an enqueue and a dequeue on an empty queue.\<close>

lemma wp_rounds:
  assumes k: "known T good jq V D s" "jq_contents jq = []" "Q V" and n: "n = int N" "N \<le> 500"
    and step: "\<And>i jq V D s. i < N \<Longrightarrow> known T good jq V D s \<Longrightarrow> jq_contents jq = [] \<Longrightarrow> Q V \<Longrightarrow>
      wp (b (int i) s) (\<lambda>t. \<exists>V D. known T good (deq_val (enq_val jq (nth_job i))) V D t \<and> Q V)"
    and stop: "\<And>jq' V D t. known T good jq' V D t \<Longrightarrow> jq_contents jq' = [] \<Longrightarrow>
      q_head jq' = (q_head jq + n) mod int QUEUE_SIZE \<Longrightarrow> Q V \<Longrightarrow> P (n, t)"
  shows "wp (for_loop n b s) P"
proof (rule wp_for [where N = N and I = "\<lambda>i s. \<exists>jq' V D. known T good jq' V D s \<and> jq_contents jq' = [] \<and>
    q_head jq' = (q_head jq + int i) mod int QUEUE_SIZE \<and> Q V"], goal_cases)
  case 1
  have "q_head jq mod int QUEUE_SIZE = q_head jq" using jq_inv_ranges [OF knownD(4) [OF k(1)]] by simp
  then show ?case using k by force
next
  case (2 i s)
  then obtain jq' V D where k': "known T good jq' V D s" and c: "jq_contents jq' = []" "q_head jq' = (q_head jq + int i) mod int QUEUE_SIZE"
    and Q: "Q V" by blast
  show ?case
  proof (rule wp_mono [OF step [OF 2(1) k' c(1) Q]])
    fix t assume "\<exists>V D. known T good (deq_val (enq_val jq' (nth_job i))) V D t \<and> Q V"
    then obtain V' D' where t: "known T good (deq_val (enq_val jq' (nth_job i))) V' D' t" "Q V'" by blast
    have e: "jq_contents (enq_val jq' (nth_job i)) = [nth_job i]" "q_head (enq_val jq' (nth_job i)) = q_head jq'"
      using known_enq [OF k' _ mk_test_ok, of "int i + 1" "int i"] c(1) by simp_all
    have inv: "jq_inv (enq_val jq' (nth_job i))" using jq_enq_val [OF knownD(4) [OF k']] c(1) by (simp add: QUEUE_SIZE_def)
    have "jq_contents (deq_val (enq_val jq' (nth_job i))) = []" using jq_deq_val [OF inv] e by simp
    moreover have "q_head (deq_val (enq_val jq' (nth_job i))) = (q_head jq + int (Suc i)) mod int QUEUE_SIZE"
      using e(2) c(2) by (simp add: deq_val_def mod_simps add_ac)
    ultimately show "\<exists>jq' V D. known T good jq' V D t \<and> jq_contents jq' = [] \<and>
      q_head jq' = (q_head jq + int (Suc i)) mod int QUEUE_SIZE \<and> Q V" using t by blast
  qed
next
  case (3 s)
  then show ?case using stop n(1) by blast
qed (use n in \<open>simp_all add: INT_MAX_def\<close>)

lemma known_enq_empty:
  assumes "known T good jq V D s" "jq_contents jq = []"
  shows "jq_contents (enq_val jq (nth_job i)) = [nth_job i]"
  using known_enq(1) [OF assms(1) _ mk_test_ok, of "int i + 1" "int i"] assms(2) by simp

lemma dequeue_inout_passes:
  assumes k: "known T good jq V D s" "jq_contents jq = []" and v: "V x \<noteq> None" "V y \<noteq> None" "x \<noteq> y"
  shows "wp (test_jq_dequeue_inout T x y s) (\<lambda>_. True)"
proof -
  let ?Q = "\<lambda>V. V x \<noteq> None \<and> V y \<noteq> None"
  have Q: "?Q V" using v by simp
  show ?thesis
    unfolding test_jq_dequeue_inout_def known_observe [OF k(1)] wp_bind wp_simps plus_part_size
  proof (rule wp_rounds [where Q = ?Q and N = 192, OF k Q], goal_cases)
    case n: (3 i jq V D s)
    show ?case
      unfolding wp_bind
    proof (rule wp_set_test_job [OF n(2), where k = i], goal_cases)
      case (4 t)
      show ?case
      proof (rule wp_t_enqueue_nth [OF 4, where n = i], goal_cases)
        case (3 t')
        show ?case
          by (rule wp_check_dequeue(1) [OF 3 _ _ v(3) _ known_enq_empty [OF n(2,3)]], use n(4) v(3) in simp, simp, use n(1) in simp,
              rule known_ex, assumption, use n(4) in simp)
      qed (use n(3) in simp_all)
    qed (use n(1,4) in simp_all)
  qed (simp_all add: wp_left_empty)
qed

lemma dequeue_emptyq_passes:
  assumes k: "known T good jq V D s" "jq_contents jq = []"
  shows "wp (test_jq_dequeue_emptyq T j s) (\<lambda>_. True)"
proof -
  have zero: "q_jobs jq ! nat i = job_zero" if "0 \<le> i" "i < int QUEUE_SIZE" for i
    using slots_zero_iff [OF knownD(4) [OF k(1)]] k(2) that by blast
  have look: "is_zero_job (tj_mem T s) (slot T (int i)) = Some True" "is_init_job (tj_mem T s) (slot T (int i)) = Some True"
    if s: "known T good jq V D s" "i < QUEUE_SIZE" for i s
  proof -
    have i: "0 \<le> int i" "int i < int QUEUE_SIZE" using s(2) by simp_all
    show "is_zero_job (tj_mem T s) (slot T (int i)) = Some True" "is_init_job (tj_mem T s) (slot T (int i)) = Some True"
      using known_zero_slot [OF s(1) i] is_init_job_zero [OF known_slot [OF s(1) i, unfolded zero [OF i]]] zero [OF i] by simp_all
  qed
  have same: "wp (for_loop (int QUEUE_SIZE) (\<lambda>i s. do { assert_true (is_zero_job (tj_mem T s) (slot T i)); Some s }) s) P"
    if s: "known T good jq V D s" "\<And>t. known T good jq V D t \<Longrightarrow> P (int QUEUE_SIZE, t)" for s P
    by (rule wp_for [where N = QUEUE_SIZE and I = "\<lambda>_ s. known T good jq V D s", OF s(1)]) (use s(2) look small_size in simp_all)
  show ?thesis
    unfolding test_jq_dequeue_emptyq_def known_observe [OF k(1)] wp_bind wp_simps plus_part_size
  proof (rule wp_for [where N = QUEUE_SIZE and I = "\<lambda>_ s. known T good jq V D s", OF k(1)], goal_cases)
    case (2 t)
    show ?case
      unfolding prod.case wp_bind
    proof (rule wp_for [where I = "\<lambda>_ s. known T good jq V D s" and N = 170, OF 2], goal_cases)
      case (1 i s)
      show ?case unfolding wp_bind by (rule wp_dequeue_empty [OF 1(2) k(2)]) simp
    next
      case (2 t)
      show ?case
        unfolding prod.case wp_bind
        using 2 k(2) by (simp add: known_observe [OF 2]) (rule same [OF 2], simp add: known_observe)
    qed (simp_all add: INT_MAX_def)
  qed (simp_all add: look small_size)
qed

lemma wp_check_heap:
  assumes k: "known T good jq V D s" and c: "jq_contents jq = nth_job n # xs" "n \<le> 500"
    and v: "V y = Some (nth_job n)" "V z \<noteq> None" "y \<noteq> z"
    and P: "\<And>V' D' t. known T good (deq_val jq) V' D' t \<Longrightarrow> (\<And>x. V x \<noteq> None \<Longrightarrow> V' x \<noteq> None) \<Longrightarrow> P t"
  shows "wp (check_heap T y z s) P"
proof -
  have ne: "jq_contents jq \<noteq> []" using c by simp
  note r = jq_inv_ranges [OF knownD(4) [OF k]] and d = known_deq [OF k ne]
  have hd: "q_jobs jq ! nat (q_head jq) = nth_job n" using jq_head_job [OF knownD(4) [OF k] ne] c by simp
  let ?W = "V(z \<mapsto> nth_job n)"
  show ?thesis
    unfolding check_heap_def knownD(5) [OF k] wp_bind wp_simps Let_def
  proof (rule wp_copy_job [OF k v(2) r(1,2)], unfold hd, rule wp_dequeue_new [OF _ ne], assumption, goal_cases)
    case (1 t m t')
    then have m: "?W m = None" and t': "known T good (deq_val jq) (?W(m \<mapsto> nth_job n)) (D(m := True)) t'" using c by simp_all
    have ne: "m \<noteq> z" "m \<noteq> y" using m v by (auto split: if_splits)
    have "next_index (deq_val jq) (q_head jq) = Some ((q_head jq + 1) mod int QUEUE_SIZE)"
      by (rule next_index_ok) (use known_fields(1) [OF t'] r in simp_all)
    moreover have "is_init_job (tj_mem T t') (slot T (q_head jq)) = Some True"
      using is_init_job_zero known_slot [OF t' r(1,2)] d(4) by simp
    moreover have "is_init_job (tj_mem T t') (var m) = Some False" by (rule known_not_init [OF t' _ c(2)]) simp
    moreover have "equal_jobs (tj_mem T t') (var m) (var y) = Some True" "equal_jobs (tj_mem T t') (var m) (var z) = Some True"
      using known_equal [OF t' _ _ mk_test_ok, of m "int n + 1" "int n"] v ne by simp_all
    moreover have "wp (on_mem T (\<lambda>m'. free_ptr m' (var m)) t') P"
    proof (rule wp_free_ptr [OF t'])
      fix u assume u: "known T good (deq_val jq) (?W(m \<mapsto> nth_job n, m := None)) ((D(m := True))(m := False)) u"
      show "P u" by (rule P [OF u]) (use m in auto)
    qed simp_all
    ultimately show ?case
      using ne by (simp add: knownD(5) [OF t'] d equal_and_distinct_def)
  qed
qed

lemma dequeue_heap_passes:
  assumes k: "known T good jq V D s" "jq_contents jq = []" and v: "V j \<noteq> None" "V y \<noteq> None" "V z \<noteq> None" "y \<noteq> z"
  shows "wp (test_jq_dequeue_heap T j y z s) (\<lambda>_. True)"
proof -
  let ?Q = "\<lambda>V. V j \<noteq> None \<and> V y \<noteq> None \<and> V z \<noteq> None"
  have drain: "wp (until_empty T (\<lambda>i s. do { s1 \<leftarrow> set_test_job T y i s; check_heap T y z s1 }) s1) (\<lambda>s2. wp (left_empty T s2) (\<lambda>_. True))"
    if s1: "known T good jq' V' D' s1" "jq_contents jq' = map nth_job [0..<127]" "?Q V'" for jq' V' D' s1
  proof (rule wp_draining [where f = nth_job and Q = ?Q, OF s1], goal_cases)
    case n: (1 n jq V D s)
    show ?case
      unfolding wp_bind
    proof (rule wp_set_test_job [OF n(2), where k = n], goal_cases)
      case (4 t)
      show ?case
        by (rule wp_check_heap [OF 4 n(3)], use n(1) in simp, simp, use n(4) v(4) in simp, use v(4) in simp, rule known_ex, assumption)
          (use n(4) in auto)
    qed (use n(1,4) in simp_all)
  qed (rule wp_left_empty; simp)
  show ?thesis
    unfolding test_jq_dequeue_heap_def known_observe [OF k(1)] wp_bind wp_simps known_jobs_initialised [OF k(1)]
    using k(2) by (simp, intro wp_fill [where Q = ?Q, OF k]) (use v drain in auto)
qed

lemma null_passes:
  "wp (test_jq_dequeue_null T j s) (\<lambda>_. True)" "wp (test_jq_is_empty_null T s) (\<lambda>_. True)" "wp (test_jq_is_full_null T s) (\<lambda>_. True)"
  "wp (test_jq_peekhead_null T j s) (\<lambda>_. True)" "wp (test_jq_peektail_null T j s) (\<lambda>_. True)"
  by (simp_all add: test_jq_dequeue_null_def test_jq_is_empty_null_def test_jq_is_full_null_def test_jq_peekhead_null_def
      test_jq_peektail_null_def gives_null_def says_def on_NULL)

section \<open>Enqueue\<close>

lemma wp_for_filling:
  assumes k: "known T good jq V D s" "jq_contents jq = []" "Q V" and ok: "\<And>n. job_ok (f n)"
    and step: "\<And>n jq' V D s. n < 127 \<Longrightarrow> known T good jq' V D s \<Longrightarrow> jq_contents jq' = map f [0..<n] \<Longrightarrow> Q V \<Longrightarrow>
      wp (b (int n) s) (\<lambda>t. \<exists>V D. known T good (enq_val jq' (f n)) V D t \<and> Q V)"
    and stop: "\<And>jq' V D t. known T good jq' V D t \<Longrightarrow> jq_contents jq' = map f [0..<127] \<Longrightarrow> Q V \<Longrightarrow> P (127, t)"
  shows "wp (for_loop 127 b s) P"
proof (rule wp_for [where N = 127 and I = "\<lambda>n s. \<exists>jq' V D. known T good jq' V D s \<and> jq_contents jq' = map f [0..<n] \<and> Q V"], goal_cases)
  case 1
  show ?case using k by fastforce
next
  case (2 n s)
  then obtain jq' V D where k': "known T good jq' V D s" and c: "jq_contents jq' = map f [0..<n]" "Q V" by blast
  show ?case
    by (rule wp_mono [OF step [OF 2(1) k' c]]) (use known_enq [OF k' _ ok] c 2(1) in fastforce)
next
  case (3 s)
  then show ?case using stop by blast
qed (simp_all add: INT_MAX_def)

text \<open>The first and the last queued job.\<close>

lemma known_ends:
  assumes k: "known T good jq V D s" and ne: "jq_contents jq \<noteq> []"
  shows "V x = Some (hd (jq_contents jq)) \<Longrightarrow> head_first_job T s (var x) = Some True"
    "V x = Some (last (jq_contents jq)) \<Longrightarrow> tail_last_job T s (var x) = Some True"
proof -
  note r = jq_inv_ranges [OF knownD(4) [OF k]] and h = load_head [OF knownD(2) [OF k] ne] and l = load_tail [OF knownD(2) [OF k] ne]
  have "as_int (q_tail jq + int QUEUE_SIZE) = Some (q_tail jq + int QUEUE_SIZE)"
    "as_int (q_tail jq + int QUEUE_SIZE - 1) = Some (q_tail jq + int QUEUE_SIZE - 1)"
    using r(3,4) by (simp_all add: as_int_Some INT_MIN_def INT_MAX_def QUEUE_SIZE_def)
  moreover have "int_rem (q_tail jq + int QUEUE_SIZE - 1) (int QUEUE_SIZE) = Some ((q_tail jq + int QUEUE_SIZE - 1) mod int QUEUE_SIZE)"
    by (rule int_rem_Some) (use r(3,4) in \<open>simp_all add: INT_MAX_def QUEUE_SIZE_def\<close>)
  moreover have "(q_tail jq + int QUEUE_SIZE - 1) mod int QUEUE_SIZE = (q_tail jq - 1) mod int QUEUE_SIZE"
    by (metis add_diff_eq add.commute diff_add_eq mod_add_self2)
  ultimately show "tail_last_job T s (var x) = Some True" if "V x = Some (last (jq_contents jq))"
    using equal_jobs_ok [OF _ l(1) job_ok_typ [OF l(2)], of "Obj x"] that known_var [OF k]
    by (simp add: tail_last_job_def knownD(5) [OF k] r(5) del: load_job.simps)
  show "head_first_job T s (var x) = Some True" if "V x = Some (hd (jq_contents jq))"
    using equal_jobs_ok [OF h(1) _ job_ok_typ [OF h(2)], of "Obj x"] that known_var [OF k]
    by (simp add: head_first_job_def knownD(5) [OF k] del: load_job.simps)
qed

lemma upt_127: "[0..<127] = [0..<126] @ [126]"
  using upt_Suc [of 0 126] by simp

lemma enqueue_tofull_passes:
  assumes k: "known T good jq V D s" "jq_contents jq = []"
    and v: "V e \<noteq> None" "V f \<noteq> None" "V l \<noteq> None" "V x \<noteq> None" "V y \<noteq> None" "distinct [e, f, l, x, y]"
  shows "wp (test_jq_enqueue_tofull T e f l x y s) (\<lambda>_. True)"
proof -
  let ?Q = "\<lambda>V. V e \<noteq> None \<and> V f \<noteq> None \<and> V l \<noteq> None \<and> V x \<noteq> None \<and> V y \<noteq> None"
  have drain: "wp (until_empty T (\<lambda>i s. do { s1 \<leftarrow> set_test_job T y i s; s2 \<leftarrow> check_dequeue T (t_dequeue T) x y s1;
      require (var x \<noteq> var e); Some s2 }) s1) (\<lambda>s2. wp (left_empty T s2) (\<lambda>_. True))"
    if s1: "known T good jq' V' D' s1" "jq_contents jq' = map nth_job [0..<127]" "?Q V'" for jq' V' D' s1
  proof (rule wp_draining [where f = nth_job and Q = ?Q, OF s1], goal_cases)
    case n: (1 n jq V D s)
    show ?case
      unfolding wp_bind
    proof (rule wp_set_test_job [OF n(2), where k = n], goal_cases)
      case (4 t)
      show ?case
      proof (rule wp_check_dequeue(2) [OF 4 _ _ _ _ n(3)], goal_cases)
        case (5 t')
        show ?case unfolding wp_simps wp_assert by (intro conjI known_ex [OF 5]) (use n(4) v in auto)
      qed (use n(1,4) v in auto)
    qed (use n(1,4) in simp_all)
  qed (rule wp_left_empty; simp)
  have Q: "?Q V" using v by simp
  show ?thesis
    unfolding test_jq_enqueue_tofull_def known_observe [OF k(1)] wp_bind wp_simps int_size
  proof (rule wp_for_filling [where Q = ?Q and f = nth_job, OF k Q mk_test_ok], goal_cases)
    case n: (1 n jq' V D s)
    show ?case
      unfolding wp_bind
      by (rule wp_set_test_job [OF n(2), where k = n], use n(4) in simp, simp, use n(1) in simp,
          rule wp_check_enqueue [where n = n], assumption, simp, use n(1) in simp, use n(1,3) in simp, rule known_ex, assumption, use n(4) in simp)
  next
    case n: (2 jq' V D t)
    have ne: "jq_contents jq' \<noteq> []" "hd (jq_contents jq') = nth_job 0" "last (jq_contents jq') = nth_job 126"
      unfolding n(2) upt_127 by (simp_all add: hd_append upt_rec)
    have a: "as_int 126 = Some 126" by (simp add: as_int_Some INT_MIN_def INT_MAX_def)
    show ?case
    proof (simp add: known_observe [OF n(1)] n(2) a, rule wp_set_test_job [OF n(1), where k = 0], goal_cases)
      case (4 u)
      show ?case
      proof (rule wp_set_test_job [OF 4, where k = 126], goal_cases)
        case (4 u')
        have "head_first_job T u' (var f) = Some True" "tail_last_job T u' (var l) = Some True"
          using known_ends [OF 4 ne(1)] ne(2,3) v by simp_all
        then show ?case using drain [OF 4 n(2)] n(3) v by simp
      qed (use n(3) in simp_all)
    qed (use n(3) in simp_all)
  qed
qed

lemma enqueue_inout_passes:
  assumes k: "known T good jq V D s" "jq_contents jq = []" and v: "V e \<noteq> None" "V x \<noteq> None" "x \<noteq> e"
  shows "wp (test_jq_enqueue_inout T e x s) (\<lambda>_. True)"
proof -
  let ?Q = "\<lambda>V. V e \<noteq> None \<and> V x \<noteq> None"
  have Q: "?Q V" using v by simp
  show ?thesis
    unfolding test_jq_enqueue_inout_def known_observe [OF k(1)] wp_bind wp_simps plus_part_size
  proof (rule wp_rounds [where Q = ?Q and N = 192, OF k Q], goal_cases)
    case n: (3 i jq V D s)
    show ?case
      unfolding wp_bind
    proof (rule wp_set_test_job [OF n(2), where k = i], goal_cases)
      case (4 t)
      show ?case
      proof (rule wp_check_enqueue [OF 4, where n = i], goal_cases)
        case (4 t')
        show ?case
          by (rule wp_check_dequeue(2) [OF 4 _ _ v(3) _ known_enq_empty [OF n(2,3)]], use n(4) v(3) in simp, simp, use n(1) in simp,
              rule known_ex, assumption, use n(4) in simp)
      qed (use n(1,3) in simp_all)
    qed (use n(1,4) in simp_all)
  qed (simp_all add: wp_left_empty)
qed

text \<open>The array \<^verbatim>\<open>saved_jobs\<close>.\<close>

lemma wp_save_jobs:
  assumes k: "known T good jq V D s" and b: "\<forall>i < QUEUE_SIZE. V (b + i) \<noteq> None"
    and P: "\<And>V' t. known T good jq V' D t \<Longrightarrow> (\<forall>i < QUEUE_SIZE. V' (b + i) = Some (q_jobs jq ! i)) \<Longrightarrow>
      (\<forall>n. V n \<noteq> None \<longrightarrow> V' n \<noteq> None) \<Longrightarrow> P t"
  shows "wp (save_jobs T b (int QUEUE_SIZE) s) P"
  unfolding save_jobs_def wp_bind
proof (rule wp_for [where N = QUEUE_SIZE and I = "\<lambda>i s. \<exists>V'. known T good jq V' D s \<and>
    (\<forall>n < i. V' (b + n) = Some (q_jobs jq ! n)) \<and> (\<forall>n. V n \<noteq> None \<longrightarrow> V' n \<noteq> None)"], goal_cases)
  case 1
  show ?case using k by auto
next
  case (2 i s)
  then obtain V' where k': "known T good jq V' D s" and c: "\<forall>n < i. V' (b + n) = Some (q_jobs jq ! n)" "\<forall>n. V n \<noteq> None \<longrightarrow> V' n \<noteq> None"
    by blast
  show ?case
  proof (rule wp_copy_job [OF k'], goal_cases)
    case (4 t)
    then show ?case using c by (intro exI [of _ "V'(b + nat (int i) \<mapsto> q_jobs jq ! nat (int i))"]) (auto simp: less_Suc_eq)
  qed (use 2 b c in simp_all)
next
  case (3 s)
  then show ?case using P by auto
qed (use small_size in simp_all)

lemma wp_same_jobs:
  assumes k: "known T good jq V D s" and b: "\<forall>i < QUEUE_SIZE. V (b + i) = Some (q_jobs jq ! i)" and P: "P s"
  shows "wp (same_jobs T b (int QUEUE_SIZE) s) P"
  unfolding same_jobs_def wp_bind
proof (rule wp_for [where N = QUEUE_SIZE and I = "\<lambda>_ t. t = s"], goal_cases)
  case (2 i t)
  then have i: "0 \<le> int i" "int i < int QUEUE_SIZE" by simp_all
  have "job_typ (q_jobs jq ! i)" using slot_zero_or_ok [OF knownD(4) [OF k] 2(1)] by (auto simp: job_ok_typ)
  then have "equal_jobs (tj_mem T s) (slot T (int i)) (var (b + nat (int i))) = Some True"
    using known_slot [OF k i] known_var [OF k] b 2(1) by (intro equal_jobs_ok [of _ _ "q_jobs jq ! i"]) simp_all
  then show ?case using 2(2) by simp
qed (use P small_size in simp_all)

lemma known_same_fields: "known T good jq V D s \<Longrightarrow> same_fields T jq s = Some ()"
  by (simp add: same_fields_def knownD(5))

lemma enqueue_fullq_passes:
  assumes k: "known T good jq V D s" "jq_contents jq = []" and v: "V fj \<noteq> None" "V j \<noteq> None" "\<forall>i < QUEUE_SIZE. V (b + i) \<noteq> None"
    and j: "\<forall>i < QUEUE_SIZE. j \<noteq> b + i"
  shows "wp (test_jq_enqueue_fullq T fj b j s) (\<lambda>_. True)"
proof -
  let ?Q = "\<lambda>V. V fj \<noteq> None \<and> V j \<noteq> None \<and> (\<forall>i < QUEUE_SIZE. V (b + i) \<noteq> None)"
  have Q: "?Q V" using v by simp
  show ?thesis
    unfolding test_jq_enqueue_fullq_def wp_bind
  proof (rule wp_fill [where Q = ?Q, OF k Q], goal_cases)
    case n: (2 jq' V' D' t)
    have full: "length (jq_contents jq') = 127" using n(2) by simp
    show ?case
      unfolding prod.case wp_bind wp_assert known_observe [OF n(1)] wp_simps plus_part_size
    proof (rule conjI [OF TrueI], rule wp_save_jobs [OF n(1)], goal_cases)
      case m: (2 V2 t2)
      let ?saved = "\<lambda>V. V j \<noteq> None \<and> (\<forall>i < QUEUE_SIZE. V (b + i) = Some (q_jobs jq' ! i))"
      show ?case
      proof (rule wp_for [where N = 170 and I = "\<lambda>_ s. \<exists>V D. known T good jq' V D s \<and> ?saved V"], goal_cases)
        case 1
        show ?case using m n(3) by blast
      next
        case (2 i s)
        then obtain V D where k': "known T good jq' V D s" and sv: "?saved V" by blast
        have "as_int (int i + 20) = Some (int i + 20)" "as_int (int i * 10) = Some (int i * 10)"
          using 2(1) by (simp_all add: as_int_Some INT_MIN_def INT_MAX_def)
        moreover have "wp (on_mem T (\<lambda>m. set_job m (var j) (word_of_int (int i + 20)) (word_of_int (int i * 10)) NULL) s)
          (\<lambda>s1. wp (tj_enqueue T (tj_q T) s1 (var j)) (\<lambda>s. \<exists>V D. known T good jq' V D s \<and> ?saved V))"
          by (rule wp_set_job [OF k'], use sv in simp, rule wp_enqueue_full, assumption, use full in simp, rule known_ex, assumption)
            (use sv j in auto)
        ultimately show ?case by simp
      next
        case (3 s)
        then obtain V D where k': "known T good jq' V D s" and sv: "?saved V" by blast
        show ?case
          unfolding prod.case wp_bind
          by (rule wp_same_jobs [OF k'], use sv in simp) (simp add: known_same_fields [OF k'] known_observe [OF k'] full)
      qed (simp_all add: INT_MAX_def)
    qed (use n(3) in simp)
  qed auto
qed

lemma enqueue_null_passes:
  assumes k: "known T good jq V D s" and v: "\<forall>i < QUEUE_SIZE. V (b + i) \<noteq> None"
  shows "wp (test_jq_enqueue_null T j b s) (\<lambda>_. True)"
  unfolding test_jq_enqueue_null_def wp_bind on_NULL wp_simps known_observe [OF k]
proof (rule wp_save_jobs [OF k v], goal_cases)
  case n: (1 V' t)
  show ?case
    by (rule wp_enqueue_full [OF n(1)], simp, rule wp_same_jobs, assumption, use n(2) in simp) (simp add: known_same_fields)
qed

section \<open>The observers\<close>

lemma is_empty_passes:
  assumes k: "known T good jq V D s" "jq_contents jq = []"
  shows "wp (test_jq_is_empty T s) (\<lambda>_. True)" "wp (test_jq_is_full_empty T s) (\<lambda>_. True)"
proof -
  show "wp (test_jq_is_empty T s) (\<lambda>_. True)"
    unfolding test_jq_is_empty_def wp_bind by (rule wp_says(2) [OF k(1)]) (use k(2) in \<open>simp_all add: known_observe\<close>)
  show "wp (test_jq_is_full_empty T s) (\<lambda>_. True)"
    unfolding test_jq_is_full_empty_def wp_bind by (rule wp_says(1) [OF k(1)]) (use k(2) in \<open>simp_all add: known_observe\<close>)
qed

lemma known_enq_contents:
  assumes "known T good jq V D s" "jq_contents jq = map (\<lambda>n. mk_test (g n) (h n)) [0..<n]" "n < 127"
  shows "jq_contents (enq_val jq (mk_test (g n) (h n))) = map (\<lambda>n. mk_test (g n) (h n)) [0..<Suc n]"
  using known_enq(1) [OF assms(1) _ mk_test_ok, of "g n" "h n"] assms(2,3) by simp

lemma filling_passes:
  assumes k: "known T good jq V D s" "jq_contents jq = []" and v: "V j \<noteq> None"
  shows "wp (test_jq_is_empty_notempty T j s) (\<lambda>_. True)" "wp (test_jq_is_full_filling T j s) (\<lambda>_. True)"
proof -
  let ?Q = "\<lambda>V. V j \<noteq> None" and ?f = "\<lambda>n. mk_test (int n) (int n)"
  show "wp (test_jq_is_empty_notempty T j s) (\<lambda>_. True)"
    unfolding test_jq_is_empty_notempty_def wp_bind known_observe [OF k(1)] wp_simps int_size
  proof (rule wp_for_filling [where Q = ?Q and f = ?f, OF k v mk_test_ok], goal_cases)
    case n: (1 n jq' V D s)
    note c = known_enq_contents [OF n(2,3,1)]
    show ?case
      unfolding wp_bind
    proof (rule wp_job_set_test [OF n(2,4)], rule wp_t_enqueue [OF _ _ mk_test_ok], assumption, simp, use n(1,3) in simp, goal_cases)
      case (1 t t')
      show ?case
        by (rule wp_says(2) [OF 1(2)], unfold known_observe wp_assert wp_simps) (use c in \<open>auto intro!: known_ex simp: known_observe\<close>)
    qed
  qed simp
  show "wp (test_jq_is_full_filling T j s) (\<lambda>_. True)"
    unfolding test_jq_is_full_filling_def wp_bind known_observe [OF k(1)] wp_simps int_size
  proof (rule wp_for_filling [where Q = ?Q and f = ?f, OF k v mk_test_ok], goal_cases)
    case n: (1 n jq' V D s)
    note c = known_enq_contents [OF n(2,3,1)]
    show ?case
      unfolding wp_bind
    proof (rule wp_job_set_test [OF n(2,4)], rule wp_t_enqueue [OF _ _ mk_test_ok], assumption, simp, use n(1,3) in simp, goal_cases)
      case (1 t t')
      show ?case
      proof (cases "int n < 126")
        case True
        then have ne: "length (jq_contents (enq_val jq' (?f n))) \<noteq> 127" unfolding c by simp
        show ?thesis
          unfolding if_P [OF True] wp_bind
          by (rule wp_says(1) [OF 1(2)], use ne in simp, unfold known_observe wp_assert wp_simps) (use ne in \<open>auto intro!: known_ex\<close>)
      next
        case False
        show ?thesis unfolding if_not_P [OF False] wp_simps by (rule known_ex [OF 1(2)]) simp
      qed
    qed
  next
    case n: (2 jq' V D t)
    show ?case
      unfolding prod.case wp_bind by (rule wp_says(1) [OF n(1)]) (simp_all add: n(2) known_observe)
  qed
qed

section \<open>Peeking\<close>

lemma peek_empty_passes:
  assumes k: "known T good jq V D s" "jq_contents jq = []"
  shows "wp (test_jq_peekhead_empty T j s) (\<lambda>_. True)" "wp (test_jq_peektail_empty T j s) (\<lambda>_. True)"
  unfolding test_jq_peekhead_empty_def test_jq_peektail_empty_def by (rule wp_peek_empty [OF k], simp)+

lemma wp_job_set_next:
  assumes "known T good jq V D s" "V x \<noteq> None" "i = int k" "k \<le> 500" "\<And>t. known T good jq (V(x \<mapsto> nth_job k)) D t \<Longrightarrow> P t"
  shows "wp (job_set_next T x i s) P"
proof -
  have "as_int (i + 1) = Some (i + 1)" using assms(3,4) by (intro as_int_Some) (simp_all add: INT_MIN_def INT_MAX_def)
  then show ?thesis using assms wp_job_set_test [OF assms(1,2), of "i + 1" i P] by (simp add: job_set_next_def)
qed

lemma wp_peek_twice:
  assumes k: "known T good jq V D s" and ne: "jq_contents jq \<noteq> []" and v: "V h1 \<noteq> None" "V h2 \<noteq> None" "distinct [h1, h2, e]"
  shows "V e = Some (hd (jq_contents jq)) \<Longrightarrow> (\<And>x y t. known T good jq (V(h1 \<mapsto> x, h2 \<mapsto> y)) D t \<Longrightarrow> P t) \<Longrightarrow>
      wp (peek_twice T (tj_peekhead T (tj_q T)) (head_first_job T) h1 h2 e s) P"
    and "V e = Some (last (jq_contents jq)) \<Longrightarrow> (\<And>x y t. known T good jq (V(h1 \<mapsto> x, h2 \<mapsto> y)) D t \<Longrightarrow> P t) \<Longrightarrow>
      wp (peek_twice T (tj_peektail T (tj_q T)) (tail_last_job T) h1 h2 e s) P"
proof -
  have ok: "job_ok (hd (jq_contents jq))" "job_ok (last (jq_contents jq))"
    using jq_contents_ok [OF knownD(4) [OF k]] ne by simp_all
  show "wp (peek_twice T (tj_peekhead T (tj_q T)) (head_first_job T) h1 h2 e s) P"
    if e: "V e = Some (hd (jq_contents jq))" and P: "\<And>x y t. known T good jq (V(h1 \<mapsto> x, h2 \<mapsto> y)) D t \<Longrightarrow> P t"
    unfolding peek_twice_def wp_bind
  proof (rule wp_peek(1) [OF k v(1) ne], goal_cases)
    case (1 t)
    show ?case
      unfolding prod.case wp_bind known_ends(1) [OF 1 ne, of h1, simplified] wp_assert
    proof (rule conjI [OF TrueI], rule wp_peek(1) [OF 1 _ ne], goal_cases)
      case (2 t')
      then show ?case
        using P [OF 2] known_equal [OF 2 _ _ ok(1), of h1 e] known_equal [OF 2 _ _ ok(1), of h1 h2] e v(3) by simp
    qed (use v in simp)
  qed
  show "wp (peek_twice T (tj_peektail T (tj_q T)) (tail_last_job T) h1 h2 e s) P"
    if e: "V e = Some (last (jq_contents jq))" and P: "\<And>x y t. known T good jq (V(h1 \<mapsto> x, h2 \<mapsto> y)) D t \<Longrightarrow> P t"
    unfolding peek_twice_def wp_bind
  proof (rule wp_peek(2) [OF k v(1) ne], goal_cases)
    case (1 t)
    show ?case
      unfolding prod.case wp_bind known_ends(2) [OF 1 ne, of h1, simplified] wp_assert
    proof (rule conjI [OF TrueI], rule wp_peek(2) [OF 1 _ ne], goal_cases)
      case (2 t')
      then show ?case
        using P [OF 2] known_equal [OF 2 _ _ ok(2), of h1 e] known_equal [OF 2 _ _ ok(2), of h1 h2] e v(3) by simp
    qed (use v in simp)
  qed
qed

lemma peekhead_full_passes:
  assumes k: "known T good jq V D s" "jq_contents jq = []"
    and v: "V e \<noteq> None" "V j \<noteq> None" "V h1 \<noteq> None" "V h2 \<noteq> None" "distinct [e, j, h1, h2]"
  shows "wp (test_jq_peekhead_full T e j h1 h2 s) (\<lambda>_. True)"
proof -
  let ?L = "\<lambda>V. V j \<noteq> None \<and> V h1 \<noteq> None \<and> V h2 \<noteq> None"
  let ?Q = "\<lambda>V. V e = Some (nth_job 0) \<and> ?L V"
  have drain: "wp (until_empty T (\<lambda>i s. do {
       s1 \<leftarrow> job_set_next T j i s;
       s2 \<leftarrow> peek_twice T (tj_peekhead T (tj_q T)) (head_first_job T) h1 h2 j s1;
       (_, s3) \<leftarrow> t_dequeue T s2 (var h2);
       Some s3 }) s1) (\<lambda>s. wp (gives_null (tj_peekhead T (tj_q T) s (var j))) (\<lambda>_. True))"
    if s1: "known T good jq' V' D' s1" "jq_contents jq' = map nth_job [0..<127]" "?L V'" for jq' V' D' s1
  proof (rule wp_draining [where f = nth_job and Q = ?L, OF s1], goal_cases)
    case n: (1 n jq V D s)
    show ?case
      unfolding wp_bind
    proof (rule wp_job_set_next [OF n(2), where k = n], goal_cases)
      case (4 t)
      show ?case
      proof (rule wp_peek_twice(1) [OF 4], goal_cases)
        case (6 x y t')
        show ?case
          by (rule wp_dequeue(2) [OF 6], simp, use n(3) in simp, unfold prod.case wp_simps, rule known_ex, assumption) (use n(4) in auto)
      qed (use n(3,4) v in auto)
    qed (use n(1,4) in simp_all)
  next
    case (2 jq' V D t)
    show ?case by (rule wp_peek_empty(1) [OF 2(1,2)]) simp
  qed
  show ?thesis
    unfolding test_jq_peekhead_full_def wp_bind
  proof (rule wp_job_set_test [OF k(1) v(1)], goal_cases)
    case (1 t)
    have Q: "?Q (V(e \<mapsto> mk_test 1 0))" using v by simp
    show ?case
    proof (rule wp_filling [where Q = ?Q and f = nth_job, OF 1 k(2) Q mk_test_ok], goal_cases)
      case n: (3 n jq' V D s)
      note c = known_enq_contents [OF n(2,3,1)]
      have hd: "hd (jq_contents (enq_val jq' (nth_job n))) = nth_job 0" "jq_contents (enq_val jq' (nth_job n)) \<noteq> []"
        unfolding c by (simp_all add: hd_map upt_rec [of 0])
      show ?case
        unfolding wp_bind
      proof (rule wp_job_set_next [OF n(2), where k = n], goal_cases)
        case (4 t)
        show ?case
        proof (rule wp_t_enqueue_nth [OF 4, where n = n], goal_cases)
          case (3 t')
          show ?case
          proof (rule wp_peek_twice(1) [OF 3 hd(2)], goal_cases)
            case (5 x y t'')
            show ?case by (rule known_ex [OF 5]) (use n(5) v(5) in auto)
          qed (use n(5) v hd(1) in auto)
        qed (use n(1,3) in simp_all)
      qed (use n(1,5) in simp_all)
    next
      case n: (4 jq' V D t)
      show ?case
        unfolding prod.case wp_bind known_observe [OF n(1)] wp_assert
        by (rule conjI, use n(2) in simp, rule drain [OF n(1,2)]) (use n(4) in simp)
    qed simp_all
  qed
qed

lemma upt_last: "n < (127::nat) \<Longrightarrow> last (map f [n..<127]) = f 126"
  by (simp add: last_map)

lemma peektail_full_passes:
  assumes k: "known T good jq V D s" "jq_contents jq = []"
    and v: "V e \<noteq> None" "V j \<noteq> None" "V t1 \<noteq> None" "V t2 \<noteq> None" "distinct [e, j, t1, t2]"
  shows "wp (test_jq_peektail_full T e j t1 t2 s) (\<lambda>_. True)"
proof -
  let ?L = "\<lambda>V. V e \<noteq> None \<and> V j \<noteq> None \<and> V t1 \<noteq> None \<and> V t2 \<noteq> None"
  let ?Q = "\<lambda>V. V e = Some (nth_job 126) \<and> ?L V"
  have drain: "wp (until_empty T (\<lambda>_ s. do {
       s1 \<leftarrow> peek_twice T (tj_peektail T (tj_q T)) (tail_last_job T) t1 t2 e s;
       (_, s2) \<leftarrow> t_dequeue T s1 (var t2);
       Some s2 }) s1) (\<lambda>s. wp (gives_null (tj_peektail T (tj_q T) s (var j))) (\<lambda>_. True))"
    if s1: "known T good jq' V' D' s1" "jq_contents jq' = map nth_job [0..<127]" "?Q V'" for jq' V' D' s1
  proof (rule wp_draining [where f = nth_job and Q = ?Q, OF s1], goal_cases)
    case n: (1 n jq V D s)
    have last: "last (jq_contents jq) = nth_job 126" "jq_contents jq \<noteq> []"
      using upt_last [OF n(1), of nth_job] n(1) unfolding n(3) by (simp_all add: upt_rec [of n])
    show ?case
      unfolding wp_bind
    proof (rule wp_peek_twice(2) [OF n(2) last(2)], goal_cases)
      case (5 x y t')
      show ?case
        by (rule wp_dequeue(2) [OF 5 _ last(2)], simp, unfold prod.case wp_simps, rule known_ex, assumption) (use n(4) v in auto)
    qed (use n(4) v last in auto)
  next
    case (2 jq' V D t)
    show ?case by (rule wp_peek_empty(2) [OF 2(1,2)]) simp
  qed
  have L: "?L V" using v by simp
  show ?thesis
    unfolding test_jq_peektail_full_def wp_bind
  proof (rule wp_filling [where Q = ?L and f = nth_job, OF k L mk_test_ok], goal_cases)
    case n: (3 n jq' V D s)
    note c = known_enq_contents [OF n(2,3,1)]
    have last: "last (jq_contents (enq_val jq' (nth_job n))) = nth_job n" "jq_contents (enq_val jq' (nth_job n)) \<noteq> []"
      unfolding c by simp_all
    show ?case
      unfolding wp_bind
    proof (rule wp_job_set_next [OF n(2), where k = n], goal_cases)
      case (4 t)
      show ?case
      proof (rule wp_t_enqueue_nth [OF 4, where n = n], goal_cases)
        case (3 t')
        show ?case
        proof (rule wp_peek_twice(2) [OF 3 last(2)], goal_cases)
          case (5 x y t'')
          show ?case by (rule known_ex [OF 5]) (use n(5) v(5) in auto)
        qed (use n(5) v last(1) in auto)
      qed (use n(1,3) in simp_all)
    qed (use n(1,5) in simp_all)
  next
    case n: (4 jq' V D t)
    have a: "as_int (0 + 127 - 1) = Some (126 :: int)" by (simp add: as_int_Some INT_MIN_def INT_MAX_def)
    show ?case
      unfolding prod.case wp_bind known_observe [OF n(1)] wp_assert a wp_simps
    proof (intro conjI, use n(2) in simp, rule wp_set_job [OF n(1)], use n(4) in simp, goal_cases)
      case (1 u)
      show ?case by (rule drain [OF 1 n(2)]) (use n(4) v in auto)
    qed
  qed simp_all
qed

lemma wp_check_peek_heap:
  assumes k: "known T good jq V D s" and c: "jq_contents jq = nth_job n # xs" and v: "V e = Some (nth_job n)" "V j \<noteq> None" "e \<noteq> j"
    and P: "\<And>V' D' t. known T good (deq_val jq) V' D' t \<Longrightarrow> (\<And>x. V x \<noteq> None \<Longrightarrow> V' x \<noteq> None) \<Longrightarrow> P t"
  shows "wp (check_peek_heap T e j s) P"
proof -
  have ne: "jq_contents jq \<noteq> []" and hd: "hd (jq_contents jq) = nth_job n" using c by simp_all
  show ?thesis
    unfolding check_peek_heap_def knownD(5) [OF k] wp_bind wp_simps Let_def
  proof (rule wp_peek_new(1) [OF k ne], unfold hd, goal_cases)
    case (1 m t)
    have m: "m \<noteq> e" "m \<noteq> j" using 1(1) v by auto
    have "equal_jobs (tj_mem T t) (var m) (var e) = Some True" using known_equal [OF 1(2) _ _ mk_test_ok, of m _ _ e] v m by simp
    moreover have "equal_jobs (tj_mem T t) (var m) (slot T (q_head jq)) = Some True"
      by (rule equal_jobs_ok [OF _ load_head(1) [OF knownD(2) [OF 1(2)] ne]]) (use known_var [OF 1(2)] hd mk_test_ok job_ok_typ in simp_all)
    moreover have "wp (t_dequeue T t (var j)) (\<lambda>(dq, s2). wp (do {
        assert_true (equal_jobs (tj_mem T s2) (var m) dq);
        require (var m \<noteq> dq);
        require (dq = var j);
        on_mem T (\<lambda>m'. free_ptr m' (var m)) s2 }) P)"
    proof (rule wp_dequeue(2) [OF 1(2) _ ne], goal_cases)
      case (2 u)
      have u: "known T good (deq_val jq) (V(m \<mapsto> nth_job n, j \<mapsto> nth_job n)) (D(m := True)) u" using 2 hd by simp
      have "equal_jobs (tj_mem T u) (var m) (var j) = Some True" using known_equal [OF u _ _ mk_test_ok, of m _ _ j] m by simp
      moreover have "wp (on_mem T (\<lambda>m'. free_ptr m' (var m)) u) P"
      proof (rule wp_free_ptr [OF u], goal_cases)
        case (3 w)
        show ?case by (rule P [OF 3]) (use 1(1) in auto)
      qed (use m in simp_all)
      ultimately show ?case using m by simp
    qed (use m v in simp)
    ultimately show ?case using m by (simp add: case_prod_unfold)
  qed
qed

lemma peekhead_heap_passes:
  assumes k: "known T good jq V D s" "jq_contents jq = []" and v: "V fj \<noteq> None" "V e \<noteq> None" "V j \<noteq> None" "e \<noteq> j"
  shows "wp (test_jq_peekhead_heap T fj e j s) (\<lambda>_. True)"
proof -
  let ?Q = "\<lambda>V. V fj \<noteq> None \<and> V e \<noteq> None \<and> V j \<noteq> None"
  have drain: "wp (until_empty T (\<lambda>i s. do { s1 \<leftarrow> set_test_job T e i s; check_peek_heap T e j s1 }) s1) (\<lambda>s2. wp (left_empty T s2) (\<lambda>_. True))"
    if s1: "known T good jq' V' D' s1" "jq_contents jq' = map nth_job [0..<127]" "?Q V'" for jq' V' D' s1
  proof (rule wp_draining [where f = nth_job and Q = ?Q, OF s1], goal_cases)
    case n: (1 n jq V D s)
    show ?case
      unfolding wp_bind
    proof (rule wp_set_test_job [OF n(2), where k = n], goal_cases)
      case (4 t)
      show ?case
        by (rule wp_check_peek_heap [OF 4 n(3)], simp, use n(4) v(4) in simp, use v(4) in simp, rule known_ex, assumption) (use n(4) in auto)
    qed (use n(1,4) in simp_all)
  qed (rule wp_left_empty; simp)
  show ?thesis
    unfolding test_jq_peekhead_heap_def wp_bind
    by (rule wp_fill [where Q = ?Q, OF k]) (use v drain in auto)
qed

lemma wp_check_tail_heap:
  assumes k: "known T good jq V D s" and ne: "jq_contents jq \<noteq> []" and v: "V e = Some (last (jq_contents jq))" "V j \<noteq> None"
    and P: "\<And>x D' t. known T good (deq_val jq) (V(j \<mapsto> x)) D' t \<Longrightarrow> P t"
  shows "wp (check_tail_heap T e j s) P"
proof -
  have ok: "job_ok (last (jq_contents jq))" using jq_contents_ok [OF knownD(4) [OF k]] ne by simp
  show ?thesis
    unfolding check_tail_heap_def wp_bind
  proof (rule wp_peek_new(2) [OF k ne], goal_cases)
    case (1 m t)
    have m: "m \<noteq> e" using 1(1) v by auto
    have V: "V(m \<mapsto> last (jq_contents jq), m := None) = V" using 1(1) by auto
    have "equal_jobs (tj_mem T t) (var m) (var e) = Some True" using known_equal [OF 1(2) _ _ ok, of m e] v m by simp
    moreover have "wp (on_mem T (\<lambda>m'. free_ptr m' (var m)) t) (\<lambda>s2. wp (t_dequeue T s2 (var j)) (\<lambda>r. wp (case r of (_, s3) \<Rightarrow> Some s3) P))"
    proof (rule wp_free_ptr [OF 1(2)], simp, simp, unfold V, rule wp_dequeue(2) [OF _ _ ne], assumption, rule v(2), goal_cases)
      case (1 u w)
      then show ?case using P by simp
    qed
    ultimately show ?case using m by simp
  qed
qed

lemma peektail_heap_passes:
  assumes k: "known T good jq V D s" "jq_contents jq = []" and v: "V fj \<noteq> None" "V e \<noteq> None" "V j \<noteq> None" "e \<noteq> j"
  shows "wp (test_jq_peektail_heap T fj e j s) (\<lambda>_. True)"
proof -
  let ?L = "\<lambda>V. V fj \<noteq> None \<and> V e \<noteq> None \<and> V j \<noteq> None"
  let ?Q = "\<lambda>V. V e = Some (nth_job 126) \<and> V j \<noteq> None"
  have drain: "wp (until_empty T (\<lambda>_. check_tail_heap T e j) s1) (\<lambda>s2. wp (left_empty T s2) (\<lambda>_. True))"
    if s1: "known T good jq' V' D' s1" "jq_contents jq' = map nth_job [0..<127]" "?Q V'" for jq' V' D' s1
  proof (rule wp_draining [where f = nth_job and Q = ?Q, OF s1], goal_cases)
    case n: (1 n jq V D s)
    have last: "last (jq_contents jq) = nth_job 126" "jq_contents jq \<noteq> []"
      using upt_last [OF n(1), of nth_job] n(1) unfolding n(3) by (simp_all add: upt_rec [of n])
    show ?case
      by (rule wp_check_tail_heap [OF n(2) last(2)], use n(4) last in simp, use n(4) in simp, rule known_ex, assumption) (use n(4) v(4) in simp)
  qed (rule wp_left_empty; simp)
  show ?thesis
    unfolding test_jq_peektail_heap_def wp_bind
  proof (rule wp_fill [where Q = ?L, OF k], goal_cases)
    case n: (3 jq' V' D' t)
    show ?case
      unfolding prod.case wp_bind wp_assert known_observe [OF n(1)] wp_simps int_size
    proof (rule conjI [OF TrueI], rule wp_set_job [OF n(1)], use n(3) in simp, goal_cases)
      case (1 u)
      show ?case by (rule drain [OF 1 n(2)]) (use n(3) v(4) in auto)
    qed
  qed (use v in auto)
qed

lemma wp_check_wrap:
  assumes k: "known T good jq V D s" "jq_contents jq = []" and v: "V j = Some (nth_job n)" "V tj \<noteq> None" "j \<noteq> tj"
    and P: "\<And>t. known T good (deq_val (enq_val jq (nth_job n))) (V(tj \<mapsto> nth_job n, j \<mapsto> nth_job n)) D t \<Longrightarrow> P t"
  shows "wp (check_wrap T j tj s) P"
  unfolding check_wrap_def wp_bind
proof (rule wp_t_enqueue_nth [OF k(1) v(1)], goal_cases)
  case t: (2 t)
  have c: "jq_contents (enq_val jq (nth_job n)) = [nth_job n]" by (rule known_enq_empty [OF k])
  then have ne: "jq_contents (enq_val jq (nth_job n)) \<noteq> []" by simp
  show ?case
  proof (rule wp_peek(2) [OF t v(2) ne], goal_cases)
    case 1
    note u = 1 [unfolded c, simplified]
    show ?case
      unfolding prod.case wp_bind known_ends(2) [OF 1 ne, of tj, simplified] wp_assert
    proof (rule conjI [OF TrueI], rule wp_peek(2) [OF 1 _ ne], simp, goal_cases)
      case (1 u')
      have eq: "job_is_equal (tj_mem T u') (var tj) (var j) = Some True"
        by (rule job_is_equal_ok [OF knownD(6) [OF 1], of _ "nth_job n" _ "nth_job n", simplified])
          (use known_var [OF 1] v c in simp_all)
      show ?case
        unfolding prod.case wp_bind eq wp_assert
        by (rule conjI [OF TrueI], rule wp_dequeue(2) [OF 1 _ ne], use v in simp, unfold prod.case wp_simps)
          (rule P, use c in simp)
    qed
  qed
qed (use k(2) in simp)

lemma full_tail:
  assumes "known T good jq V D s" "length (jq_contents jq) = 127" "q_head jq = h" "h = 0 \<or> h = 1"
  shows "q_tail jq = (if h = 0 then 127 else 0)"
  using jq_tail_eq [OF knownD(4) [OF assms(1)]] length_jq_contents [OF knownD(4) [OF assms(1)]] assms(2-4) by (auto simp: QUEUE_SIZE_def)

lemma wp_check_ends:
  assumes k: "known T good jq V D s" "length (jq_contents jq) = 127" "q_head jq = 0" and v: "V j \<noteq> None" "V tj \<noteq> None" "j \<noteq> tj"
  shows "wp (check_ends T j tj s) (\<lambda>_. True)"
proof -
  have ne: "jq_contents jq \<noteq> []" using k(2) by auto
  let ?x = "hd (jq_contents jq)"
  have ok: "job_ok ?x" using jq_contents_ok [OF knownD(4) [OF k(1)]] ne by simp
  note tail = full_tail [OF k(1,2,3)] and d = known_deq [OF k(1) ne]
  show ?thesis
    unfolding check_ends_def wp_bind known_observe [OF k(1)] wp_assert wp_simps int_size
  proof (intro conjI, simp add: k, simp add: k, simp add: tail, rule wp_dequeue(2) [OF k(1) v(1) ne], goal_cases)
    case (1 t)
    have l: "length (jq_contents (deq_val jq)) = 126" "q_head (deq_val jq) = 1" "q_tail (deq_val jq) = 127"
      using d k tail by (simp_all add: QUEUE_SIZE_def)
    show ?case
      unfolding prod.case wp_bind known_observe [OF 1] wp_assert wp_simps
    proof (intro conjI, simp add: l, simp add: l, simp add: l, rule wp_t_enqueue [OF 1 _ ok], simp, simp add: l, goal_cases)
      case (1 u)
      note e = known_enq [OF \<open>known T good (deq_val jq) (V(j \<mapsto> ?x)) D t\<close> _ ok, unfolded l, simplified]
      have f: "length (jq_contents (enq_val (deq_val jq) ?x)) = 127" "jq_contents (enq_val (deq_val jq) ?x) \<noteq> []"
        "last (jq_contents (enq_val (deq_val jq) ?x)) = ?x" "q_head (enq_val (deq_val jq) ?x) = 1" "q_tail (enq_val (deq_val jq) ?x) = 0"
        using e l by (simp_all add: QUEUE_SIZE_def)
      show ?case
        unfolding prod.case wp_bind known_observe [OF 1] wp_assert wp_simps
      proof (intro conjI, simp add: f, simp add: f, simp add: f, rule wp_peek(2) [OF 1 _ f(2)], use v in simp, unfold f(3), goal_cases)
        case (1 w)
        have "load_job (tj_mem T w) (Slot (tj_queue T) 127) = Some ?x"
          using load_tail(1) [OF knownD(2) [OF 1] f(2)] f(3,5) by (simp add: QUEUE_SIZE_def del: load_job.simps)
        then have "equal_jobs (tj_mem T w) (var tj) (slot T 127) = Some True"
          by (intro equal_jobs_ok [of _ _ ?x]) (use known_var [OF 1] ok job_ok_typ in simp_all)
        moreover have "equal_jobs (tj_mem T w) (var tj) (var j) = Some True"
          using known_equal [OF 1 _ _ ok, of tj j] v(3) by simp
        ultimately show ?case by simp
      qed
    qed
  qed
qed

lemma peektail_wrap_passes:
  assumes k: "known T good jq V D s" "jq_contents jq = []" "q_head jq = 0"
    and v: "V j \<noteq> None" "V tj \<noteq> None" "V tj' \<noteq> None" "j \<noteq> tj" "j \<noteq> tj'"
  shows "wp (test_jq_peektail_wrap T j tj tj' s) (\<lambda>_. True)"
proof -
  let ?Q = "\<lambda>V. V j \<noteq> None \<and> V tj \<noteq> None \<and> V tj' \<noteq> None"
  have Q: "?Q V" using v by simp
  have size: "as_int (int QUEUE_SIZE * 2) = Some 256" by (simp add: as_int_Some INT_MIN_def INT_MAX_def QUEUE_SIZE_def)
  show ?thesis
    unfolding test_jq_peektail_wrap_def wp_bind known_observe [OF k(1)] wp_simps size
  proof (rule wp_rounds [where Q = ?Q and N = 256, OF k(1,2) Q], goal_cases)
    case n: (3 i jq V D s)
    show ?case
      unfolding wp_bind
    proof (rule wp_job_set_next [OF n(2), where k = i], goal_cases)
      case (4 t)
      show ?case
        by (rule wp_check_wrap [OF 4 n(3)], simp, use n(4) v in simp, use v in simp, rule known_ex, assumption) (use n(4) in simp)
    qed (use n(1,4) in simp_all)
  next
    case n: (4 jq' V D t)
    have head: "q_head jq' = 0" using n(3) k(3) by (simp add: QUEUE_SIZE_def)
    let ?f = "\<lambda>m. nth_job (256 + m)"
    show ?case
      unfolding prod.case wp_bind
    proof (rule wp_filling [where Q = ?Q and f = ?f, OF n(1,2,4) mk_test_ok], goal_cases)
      case m: (3 m jq V D s)
      show ?case
        unfolding wp_bind
      proof (rule wp_job_set_next [OF m(2), where k = "256 + m"], goal_cases)
        case (4 u)
        show ?case
          by (rule wp_t_enqueue_nth [OF 4, where n = "256 + m"], simp, use m(1,3) in simp, rule known_ex, assumption) (use m(5) in simp)
      qed (use m(1,5) in simp_all)
    next
      case m: (4 jq V D t)
      show ?case unfolding prod.case wp_bind by (rule wp_check_ends [OF m(1)]) (use m head v in simp_all)
    qed simp_all
  qed simp_all
qed

lemma all_pass:
  assumes k: "known T good jq_empty V D s" and v: "\<forall>i < 133. V (v + i) \<noteq> None"
  shows "\<forall>r \<in> set (run_tests T v s). r \<noteq> None"
proof -
  have e: "jq_contents jq_empty = []" "q_head jq_empty = 0" using jq_inv_empty by (simp_all add: jq_empty_def)
  have l: "V v \<noteq> None" "V (v + 1) \<noteq> None" "V (v + 2) \<noteq> None" "V (v + 3) \<noteq> None" "V (v + 4) \<noteq> None"
    using v [rule_format, of 0] v [rule_format, of 1] v [rule_format, of 2] v [rule_format, of 3] v [rule_format, of 4] by simp_all
  have b: "\<forall>i < QUEUE_SIZE. V (v + 5 + i) \<noteq> None"
    using v by (auto simp: add.assoc QUEUE_SIZE_def intro: v [rule_format])
  have d: "v \<noteq> v + 1" "v \<noteq> v + 2" "v + 1 \<noteq> v + 2" "distinct [v, v + 1, v + 2, v + 3, v + 4]" "distinct [v, v + 1, v + 2, v + 3]"
    "v + 1 \<noteq> v" "\<forall>i < QUEUE_SIZE. v + 1 \<noteq> v + 5 + i" by simp_all
  have some: "c \<noteq> None" if "wp c (\<lambda>_. True)" for c :: "'s option" using that by (auto simp: wp_def)
  note pass = capacity_passes [OF k] null_passes is_empty_passes [OF k e(1)] filling_passes [OF k e(1) l(1)] peek_empty_passes [OF k e(1)]
    dequeue_fullq_passes [OF k e(1) l(1,2,3) d(3)] dequeue_inout_passes [OF k e(1) l(1,2) d(1)] dequeue_emptyq_passes [OF k e(1)]
    dequeue_heap_passes [OF k e(1) l(1,2,3) d(3)] enqueue_tofull_passes [OF k e(1) l d(4)] enqueue_inout_passes [OF k e(1) l(1,2) d(6)]
    enqueue_fullq_passes [OF k e(1) l(1,2) b d(7)] enqueue_null_passes [OF k b] peekhead_full_passes [OF k e(1) l(1-4) d(5)]
    peekhead_heap_passes [OF k e(1) l(1,2,3) d(3)] peektail_full_passes [OF k e(1) l(1-4) d(5)] peektail_heap_passes [OF k e(1) l(1,2,3) d(3)]
    peektail_wrap_passes [OF k e l(1,2,3) d(1,2)]
  note pass' = pass [THEN some]
  show ?thesis
    unfolding run_tests_def by (simp only: list.set ball_simps pass' not_False_eq_True simp_thms)
qed

end

lemma queue_initialised:
  assumes "known T good jq_empty V D s"
  shows "assert_queue_initialised T s = Some ()"
  using known_jobs_initialised [OF assms] knownD(5) [OF assms] jq_inv_empty
  by (simp add: assert_queue_initialised_def assert_true_def) (simp add: jq_empty_def)

text \<open>A new queue, by \<^verbatim>\<open>jobqueue_new\<close> or by the setup.\<close>

lemma known_alloc_jq:
  assumes "wf_mem m" "m_avail m = (\<lambda>_. True)"
  shows "known (jobqueue_fixture (m_next m)) (\<lambda>_. True) jq_empty (m_jobs m) ((m_dyn m)(m_next m := True)) (alloc_jq m jq_empty)"
proof -
  have "jq_typ jq_empty" using jq_inv_empty by (simp add: jq_inv_def)
  then show ?thesis
    using wf_alloc_jq [OF assms(1)] assms(2) jq_inv_empty by (simp add: known_def jobqueue_fixture_def jq_at_def alloc_jq_def mem_simps)
qed

lemma jobqueue_setup_ok:
  assumes "wf_mem m" "m_avail m = (\<lambda>_. True)"
  shows "jobqueue_setup m = Some (m_next m, alloc_jq m jq_empty)"
proof -
  have "do { m2 \<leftarrow> jobqueue_init m1 q; Some (q, m2) } = Some (Ptr (m_next m), alloc_jq m jq_empty)" if "malloc_jq m = (q, m1)" for q m1
    using jobqueue_new_ok [OF assms(1)] assms(2) that
    by (cases q) (auto simp: jobqueue_new_def malloc_jq_def Let_def split: if_splits)
  then show ?thesis
    using queue_initialised [OF known_alloc_jq [OF assms]] by (auto simp: jobqueue_setup_def bind_eq_Some_conv split: prod.splits)
qed

lemma new_and_delete_pass:
  assumes "wf_mem m" "m_avail m = (\<lambda>_. True)"
  shows "test_jobqueue_new m \<noteq> None" "test_jobqueue_delete (m_next m) (alloc_jq m jq_empty) \<noteq> None"
proof -
  have free: "free_jq (alloc_jq m jq_empty) (m_next m) \<noteq> None" by (simp add: free_jq_def alloc_jq_def mem_simps)
  then show "test_jobqueue_new m \<noteq> None"
    using jobqueue_new_ok [OF assms(1)] assms(2) queue_initialised [OF known_alloc_jq [OF assms]] by (simp add: test_jobqueue_new_def)
  show "test_jobqueue_delete (m_next m) (alloc_jq m jq_empty) \<noteq> None"
    using free by (auto simp: test_jobqueue_delete_def jobqueue_delete_def)
qed

section \<open>Property\<close>

text \<open>
  C21: the unit tests of the queue pass: with allocations that succeed, and 133 variables
  for the locals of the tests, the setups of \<^verbatim>\<open>test_jobqueue.c\<close> and of
  \<^verbatim>\<open>test_ipc_jobqueue.c\<close> succeed, the latter by an init process, and every one of the 26
  tests of \<^verbatim>\<open>test_jobqueue_common.c\<close> then returns \<^verbatim>\<open>MUNIT_OK\<close>, as do the two tests of
  the first file's own, whatever was in the memory before and whatever work the shared
  queue simulates.
\<close>

theorem unit_tests_pass:
  assumes "wf_mem m" "\<forall>n. m_avail m n" "\<forall>i < 133. m_jobs m (v + i) \<noteq> None"
    and "os_mem os = m" "user_ok (os_user os)" "no_fault fz" "pr_is_init p" "work_ok rnd p"
  shows "(\<exists>a m1. jobqueue_setup m = Some (a, m1) \<and>
      (\<forall>r \<in> set (run_tests (jobqueue_fixture a) v m1 @ [test_jobqueue_new m1, test_jobqueue_delete a m1]). r \<noteq> None)) \<and>
    (\<exists>i a os1. ipc_setup fz p os = Some (i, a, os1) \<and> (\<forall>r \<in> set (run_tests (ipc_fixture rnd i a) v os1). r \<noteq> None))"
proof
  have av: "m_avail m = (\<lambda>_. True)" using assms(2) by (simp add: fun_eq_iff)
  note k = known_alloc_jq [OF assms(1) av]
  have "wf_mem (alloc_jq m jq_empty)" "m_avail (alloc_jq m jq_empty) = (\<lambda>_. True)"
    using knownD(6) [OF k] av by (simp_all add: jobqueue_fixture_def alloc_jq_def mem_simps)
  then show "\<exists>a m1. jobqueue_setup m = Some (a, m1) \<and>
      (\<forall>r \<in> set (run_tests (jobqueue_fixture a) v m1 @ [test_jobqueue_new m1, test_jobqueue_delete a m1]). r \<noteq> None)"
    using jobqueue_setup_ok [OF assms(1) av] direct.all_pass [OF k assms(3)] new_and_delete_pass(1) new_and_delete_pass(2) [OF assms(1) av]
    by auto
  obtain i os1 q where new: "ipc_jobqueue_new fz (Ptr p) os = Some (Ptr i, os1)" "ip_proc i = p" "ip_addr i = Ptr q"
    "jq_ok q (os_mem os1)" "m_queues (os_mem os1) q = Some jq_empty" "m_jobs (os_mem os1) = m_jobs m" "m_avail (os_mem os1) = m_avail m"
    using ipc_jobqueue_new_init [of os fz p] assms by metis
  have k: "known (ipc_fixture r i q) (\<lambda>_. work_ok r (ip_proc i) \<and> ip_addr i = Ptr q) jq_empty (m_jobs m) (m_dyn (os_mem os1)) os1" if "work_ok r p" for r
    using new av that by (simp add: known_def ipc_fixture_def jq_ok_def)
  have "work_ok 0 p" using assms(8) by (simp add: work_ok_def RANDOM_MAX_def)
  then show "\<exists>i a os1. ipc_setup fz p os = Some (i, a, os1) \<and> (\<forall>r \<in> set (run_tests (ipc_fixture rnd i a) v os1). r \<noteq> None)"
    using new(1,3) queue_initialised [OF k] shared.all_pass [OF k [OF assms(8)] assms(3)] by (simp add: ipc_setup_def)
qed

lemma unit_tests_pass_witness:
  "\<exists>a m1. jobqueue_setup (mem_of (replicate 133 job_zero) [] True) = Some (a, m1) \<and>
    (\<forall>r \<in> set (run_tests (jobqueue_fixture a) 0 m1 @ [test_jobqueue_new m1, test_jobqueue_delete a m1]). r \<noteq> None)"
proof -
  let ?m = "mem_of (replicate 133 job_zero) [] True" and ?p = "proc_of BWAIT_CONS_PROC 0 True \<lparr>w_min = 0, w_max = 0\<rparr> \<lparr>w_min = 0, w_max = 0\<rparr>"
  have "list_all job_typ (replicate 133 job_zero)" by (simp add: list_all_iff)
  then have wf: "wf_mem ?m" by (rule wf_mem_of) simp
  have av: "\<forall>n. m_avail ?m n" and vars: "\<forall>i < 133. m_jobs ?m (0 + i) \<noteq> None" by (simp_all add: mem_simps)
  have os: "os_mem (os_start ?m) = ?m" "user_ok (os_user (os_start ?m))" "pr_is_init ?p" "work_ok 0 ?p"
    by (simp_all add: os_start_def user_ok_def proc_of_def work_ok_def RANDOM_MAX_def LONG_MAX_def)
  show ?thesis using unit_tests_pass [OF wf av vars os(1,2) no_fault_all_ok os(3,4)] by (rule conjunct1)
qed

end
