(* ===== verification/Spec2Isabelle.thy ===== *)
theory Spec2Isabelle
  imports Mutex_Shm Mutex_Contract Log_Contract Startup_Alone Life_Fifo Late_Join Queue_Usage
    Test_Results
begin

text \<open>
  A model, with proofs, of the C library of an inter-process communication simulation:
  producer and consumer processes pass jobs through a queue in shared memory and log
  them. The code is under \<^verbatim>\<open>src/\<close>, with the tests of its two queues; the other tests, the
  vendored test framework \<^verbatim>\<open>munit\<close> and the build files are not modelled, and the
  simulation programs that use the library are not in the repository.

  \<^bold>\<open>The program and its parts.\<close> \<^verbatim>\<open>job.c\<close> sets, copies and compares job descriptors;
  \<^verbatim>\<open>jobqueue.c\<close> keeps them in a circular buffer of 128 slots, one of which stays unused.
  \<^verbatim>\<open>ipc.c\<close> creates and attaches shared memory objects, whose names are made by
  \<^verbatim>\<open>shobject_name.c\<close>; \<^verbatim>\<open>ipc_jobqueue.c\<close> puts a job queue into such an object. Two
  protections are offered: a mutex by busy waiting (\<^verbatim>\<open>mutex_peterson.c\<close>,
  \<^verbatim>\<open>mutex_lockvar.c\<close>, \<^verbatim>\<open>mutex_noop.c\<close>, one interface \<^verbatim>\<open>mutex.h\<close>), and \<^verbatim>\<open>sem_jobqueue.c\<close>,
  which wraps every operation of the shared queue in three named semaphores: \<^verbatim>\<open>mutex\<close>,
  \<^verbatim>\<open>full\<close> (jobs) and \<^verbatim>\<open>empty\<close> (free slots). \<^verbatim>\<open>proc.c\<close> describes processes and simulates
  work, \<^verbatim>\<open>joblog.c\<close> writes one line per job to a file per process, and the tool \<^verbatim>\<open>rmsho.c\<close>
  removes shared objects by label; the script \<^verbatim>\<open>runrmsho.sh\<close> calls it for every object
  the programs leave behind.

  \<^bold>\<open>Conventions.\<close> C functions are HOL functions on explicit state. The result is an
  \<open>option\<close> whose \<open>None\<close> is undefined behaviour (invalid access, signed overflow,
  unterminated string, NULL where the C library forbids it), so that every theorem whose
  conclusion has \<open>Some\<close> also says that the call is defined. A pointer is \<open>NULL\<close> or
  \<open>Ptr\<close>. \<^verbatim>\<open>int\<close> and \<^verbatim>\<open>long\<close> are \<open>int\<close> with the range checked (\<open>as_int\<close>, \<open>as_long\<close>);
  \<^verbatim>\<open>pid_t\<close> and \<^verbatim>\<open>unsigned int\<close> are \<open>32 word\<close>, \<^verbatim>\<open>size_t\<close> is \<open>64 word\<close>. Strings are character
  buffers that may or may not hold a NUL. Whether \<^verbatim>\<open>malloc\<close> and the system calls succeed
  is a parameter, as are the contents of fresh memory and the numbers \<^verbatim>\<open>random()\<close> gives,
  a new one for each call. A label that \<^verbatim>\<open>job_copy\<close> reads must have a NUL, also in the
  concurrent models: those of jobs that \<^verbatim>\<open>job_set\<close>, \<^verbatim>\<open>job_new\<close>, \<^verbatim>\<open>job_copy\<close> or \<^verbatim>\<open>job_init\<close>
  made have one.

  \<^bold>\<open>Theories.\<close>
  \<^item> \<open>Prelude\<close>: pointers, C integers, the constants of \<^verbatim>\<open>sim_config.h\<close>, facts on rings and
    counting. \<open>CLib\<close>: \<^verbatim>\<open>strncpy\<close>, \<^verbatim>\<open>snprintf\<close>, \<^verbatim>\<open>strncmp\<close>, \<^verbatim>\<open>asprintf\<close> and the conversions
    of \<^verbatim>\<open>printf\<close>.
  \<^item> \<open>Store\<close>: the structs \<^verbatim>\<open>job_t\<close> and \<^verbatim>\<open>jobqueue_t\<close> and a memory with jobs, queues and
    allocation; a pointer into a queue's array and the queue alias. \<open>Job\<close>: \<^verbatim>\<open>job.c\<close>; the
    lemmas give each function as an update of the memory with the padded label
    \<open>pad_label\<close>.
  \<^item> \<open>Fifo\<close>: the contract of a bounded queue as locales \<open>bounded_fifo\<close> and
    \<open>peekable_fifo\<close>, with the client's theorem that guarded puts and takes keep the
    order and lose nothing, and as \<open>queue_interface\<close>, in which any call of the
    interface, with NULL jobs, NULL destinations and failing allocations, has its
    documented effect on the list, the caller's variables and the new objects handed
    out. \<open>Jobqueue\<close>: \<^verbatim>\<open>jobqueue.c\<close>; the invariant \<open>jq_inv\<close>, the abstraction \<open>jq_list\<close> to
    the list of queued jobs, and an interpretation of each contract.
  \<^item> \<open>Shobject_Name\<close>: \<^verbatim>\<open>shobject_name.c\<close> and \<^verbatim>\<open>rmsho.c\<close>. \<open>Proc\<close>: \<^verbatim>\<open>proc.c\<close>, with the
    allocated descriptors as a heap.
  \<^item> \<open>Ipc\<close>: \<^verbatim>\<open>ipc.c\<close> over a state of names, objects, descriptors, mappings and blocks; the
    type of an object's contents is a parameter (\<open>shm_ops\<close>). \<open>Ipc_Jobqueue\<close>:
    \<^verbatim>\<open>ipc_jobqueue.c\<close>, which meets the contracts of \<open>Fifo\<close> again.
  \<^item> \<open>Sched\<close>: runs of processes under any schedule, the locale \<open>exclusion\<close> and its
    extension \<open>mutex_system\<close>, in which the place of a process in its critical region is
    kept while others move. \<open>Mutex_Peterson\<close> and \<open>Mutex_Lockvar\<close>: \<^verbatim>\<open>mutex_enter\<close> and
    \<^verbatim>\<open>mutex_leave\<close> cut at every access of shared memory. \<open>Mutex_Shm\<close>: creation and
    deletion. \<open>Bwait_Jobqueue\<close>: processes that use the shared queue inside the critical
    region of a mutex, one access of the indices or of a slot of the queue per step (the
    copy of a job and its initialisation are one step each; a job passed by pointer is
    the value it points to when the call starts), over any \<open>mutex_system\<close>.
    \<open>Mutex_Contract\<close>: what \<^verbatim>\<open>mutex.h\<close> promises, as a mutex that is available or acquired
    by one process, and the locale \<open>mutex_contract\<close> whose runs refine it.
  \<^item> \<open>Sem_Jobqueue\<close>: the operations of \<^verbatim>\<open>sem_jobqueue.c\<close> cut at every semaphore operation
    and inside the queue operation as in \<open>Bwait_Jobqueue\<close>, for any number of processes,
    with NULL queues, jobs and destinations and with waits and mallocs that fail; the
    invariant \<open>sem_inv\<close> counts the units of each semaphore, those that NULL enqueues
    raised (\<open>ss_null\<close>) and failed waits lost (\<open>ss_lost_full\<close>, \<open>ss_lost_empty\<close>) included.
    \<open>Sem_Setup\<close>: creation and deletion, with named semaphores that outlive their
    processes. \<open>Sem_Contract\<close>: what \<^verbatim>\<open>sem_jobqueue.h\<close> promises of the concurrent
    operations, as a list of jobs, with a count of the NULL jobs, on which each
    operation takes effect at one point.
  \<^item> \<open>Entry_Log\<close>: the contract of an append-only log as locale \<open>entry_log\<close>, with the
    reading loop of \<^verbatim>\<open>joblog.h\<close>. \<open>Joblog\<close>: \<^verbatim>\<open>joblog.c\<close> over a file system with buffered
    streams, and an interpretation of that contract. \<open>Log_Contract\<close>: what \<^verbatim>\<open>joblog.h\<close>
    promises of each function, on one list of lines per process, when calls of the C
    library succeed or fail in a way that keeps the promises; the locale \<open>call_contract\<close>
    takes it from single calls to any sequence of them.
  \<^item> \<open>Startup\<close>: several processes that create the queue at once, \<^verbatim>\<open>sem_jobqueue_new\<close> cut
    at every system call and every access of shared memory, each of which may fail; the
    invariant \<open>startup_inv\<close>, for calls that succeed, has a phase in which the init
    process sets up the memory and one in which all make or open the semaphores.
    \<open>Startup_Alone\<close>: the steps of one process are the function, and schedules that only
    the delay of \<^verbatim>\<open>ipc.c\<close> keeps out. \<open>Live_Queue\<close>: the same with the calls of
    \<open>Sem_Jobqueue\<close> by the processes that have their queue already; towards the queue, a
    process that opens it is like one inside an observer. \<open>Queue_Life\<close> adds the
    deletion, call by call, and \<open>Life_Fifo\<close> its invariant: the state is one of
    \<open>Live_Queue\<close> but for the name of the mutex and what each process has open.
    \<open>Late_Join\<close>: a deletion before another process has opened the queue.
  \<^item> \<open>Simulation\<close>: creating and joining a queue after earlier runs, the logs of the jobs
    that dequeues return (\<open>dequeued\<close>; the programs that would write them are not in the
    repository), and the clean-up by \<^verbatim>\<open>rmsho\<close> and \<^verbatim>\<open>runrmsho.sh\<close>. \<open>Queue_Usage\<close>: the loops
    that empty and fill a queue, which the headers describe.
  \<^item> \<open>Test_Queue\<close>: the reference queue of \<^verbatim>\<open>test_jobqueue_common.c\<close> (it has no peeks),
    compared with the library's on jobs with full labels, which all tests enqueue.
    \<open>Test_Jobqueue\<close>: the 26 tests of that file over a fixture (the six queue functions
    they are given) and the setups of \<^verbatim>\<open>test_jobqueue.c\<close> and \<^verbatim>\<open>test_ipc_jobqueue.c\<close>.
    \<open>Test_Passes\<close>: the locale \<open>test_target\<close>, what a test may rely on, in which each of
    them passes; \<open>Test_Results\<close>: its interpretations for both queues.

  \<^bold>\<open>What is proved.\<close> The job queue and the shared queue refine the contracts of their
  headers, operation by operation and error branches included: a FIFO queue of 127 jobs.
  Under any schedule of any number of processes, failing waits and NULL arguments
  included, the semaphore queue is linearizable: every operation takes effect at one
  step, on the list of jobs. It excludes, never finds a full queue after its waits, nor
  an empty one but for NULL jobs, keeps the order, and stops, unless a wait fails
  half-way, only when producers wait with every slot taken, by a job or for a NULL, or
  consumers on an empty queue. Under a mutex that excludes, processes that busy wait
  keep the order and lose nothing; one producer and one consumer do so under all three
  mutexes of the library, \<^verbatim>\<open>mutex_noop.c\<close> included. The mutexes that exclude refine the
  contract of \<^verbatim>\<open>mutex.h\<close>, and sequences of log calls that of \<^verbatim>\<open>joblog.h\<close>, for jobs that
  fit a line and without the failures listed below: the log gives back what was written,
  and every process has its own. The jobs that the dequeues return, with at most 127
  queued or on their way, are the jobs put, and a log of them is read back. Creation
  establishes the state from which the concurrent runs start, by any number of processes
  at once when the delay of \<^verbatim>\<open>ipc.c\<close> is long enough, and processes that come later do not
  disturb those that use the queue already. Nor do those that delete it, once all have
  opened it; when the last has, two semaphores with their counts and the shared memory
  are left. Joining gives the same semaphores, and the calls of \<^verbatim>\<open>runrmsho.sh\<close> repair
  what a crashed run left behind. The loops that drain or fill a queue end. The queue
  with which the tests compare the library's gives the same jobs, and every test of both
  queues passes.

  \<^bold>\<open>What the model shows to be wrong.\<close> \<^verbatim>\<open>mutex_peterson.c\<close> stores \<^verbatim>\<open>turn\<close> before
  \<^verbatim>\<open>interested\<close>, and both processes can be in the critical region; without a move of the
  other between the two stores it excludes. With two producers and no real mutex, a job
  is lost. \<^verbatim>\<open>sem_jobqueue_new\<close> tests its success mask with \<^verbatim>\<open>&\<close> and misses failures;
  \<^verbatim>\<open>sem_jobqueue_delete\<close> leaves two semaphores with their counts and a block behind, so
  that a dequeue from a later queue returns NULL instead of waiting; a process that
  opens the queue after the first deletion gets a mutex of its own, and a job is lost; a
  failed wait on the mutex loses a unit, and a NULL job adds one. Nothing but a delay of
  one second orders the creation by several processes: one that comes too early reads a
  capacity of -1 and gets a queue without \<^verbatim>\<open>empty\<close>, or accesses memory past the end of
  the object. The filling loop that \<^verbatim>\<open>jobqueue.h\<close> documents for \<^verbatim>\<open>job_new\<close> never ends
  while \<^verbatim>\<open>malloc\<close> fails, and a dequeue to a new object then loses its job. \<^verbatim>\<open>joblog.c\<close>
  misaligns on six-digit numbers, leaks a stream when \<^verbatim>\<open>fseek\<close> fails and leaves \<^verbatim>\<open>errno\<close>
  changed when \<^verbatim>\<open>fgets\<close>, \<^verbatim>\<open>asprintf\<close> or the write at \<^verbatim>\<open>fclose\<close> fails.

  \<^bold>\<open>Bounds.\<close> Loops are structural, \<open>partial_function\<close> (the loop of \<^verbatim>\<open>jobqueue_init\<close>, the
  reading loop of the log, the loops that drain and fill a queue; all are proved to end,
  the filling loops after as many rounds as there is room; the loops of the tests), or
  runs of a schedule of any length. The log can be read up to entry 36398027, where
  \<^verbatim>\<open>entry_num * JOBLOG_ENTRY_SIZE\<close> reaches the largest \<^verbatim>\<open>int\<close>.

  \<^bold>\<open>Not modelled.\<close> Memory that is reordered by the processor (statements on shared memory
  take effect in program order, one at a time), signals, partial writes to a file, and
  failing \<^verbatim>\<open>sem_post\<close>, \<^verbatim>\<open>close\<close> and \<^verbatim>\<open>shm_unlink\<close>. In the creation each call may fail, but
  what is proved of several processes at once assumes that the calls of creation and
  deletion succeed; time is not modelled, so that the delay is an assumption on the
  schedules (\<open>orderly\<close>). An object that is smaller than a queue faults at its creation
  and at the reading of the capacity; later accesses, by a process that has a queue, do
  not look at its size.
\<close>

end
